(* ===== verification/Prelude.thy ===== *)
theory Prelude
  imports Main "HOL-Library.Product_Lexorder"
begin

text \<open>
  Shared base of the development: instants and row ids, the result-and-state style in which every
  service function is written, SQL-like tables (a table is the list of its rows), the string
  helpers of Python the services call, and the contracts (locales) several components share.
\<close>

section \<open>Named collections\<close>

named_theorems run_simps \<open>splitting a successful or failed run into its steps\<close>
named_theorems table_simps \<open>reading a table after a statement\<close>

section \<open>Basic types\<close>

text \<open>
  A row id is a UUID of the code. Only equality and a fixed total order (the tie-break of every
  ORDER BY) are used, so ids are natural numbers; a fresh one is drawn from a counter of the
  database state, which is what \<open>uuid.uuid4\<close> promises (never an id already in use).
  An instant is a count of microseconds in UTC, the resolution of Python's \<open>datetime\<close>.
\<close>

type_synonym uid = nat
type_synonym instant = int

definition seconds :: "int \<Rightarrow> int" where "seconds n = n * 10 ^ 6"
definition minutes :: "int \<Rightarrow> int" where "minutes n = n * 60 * 10 ^ 6"
definition hours :: "int \<Rightarrow> int" where "hours n = n * 3600 * 10 ^ 6"
definition days :: "int \<Rightarrow> int" where "days n = n * 86400 * 10 ^ 6"

text \<open>
  A Python value whose type the code checks at run time (\<open>isinstance\<close>). Floats carry no payload
  the model needs: every check of the modelled code rejects them.
\<close>

datatype pyval = PyNone | PyBool bool | PyInt int | PyFloat | PyStr string

section \<open>Results and state\<close>

text \<open>
  A service function takes the state of the open database transaction and returns either an
  exception or a value, together with the state the transaction is in at that moment. The state
  is returned on failure too: what was written before the raise is there until the caller rolls
  back, so that a theorem can say that nothing was written.
\<close>

definition bindE :: "('e + 'a) \<times> 's \<Rightarrow> ('a \<Rightarrow> 's \<Rightarrow> ('e + 'b) \<times> 's) \<Rightarrow> ('e + 'b) \<times> 's" where
  "bindE r f = (case r of (Inl e, s) \<Rightarrow> (Inl e, s) | (Inr x, s) \<Rightarrow> f x s)"

lemma bindE_simps [simp]:
  "bindE (Inl e, s) f = (Inl e, s)"
  "bindE (Inr x, s) f = f x s"
  by (simp_all add: bindE_def)

lemma bindE_Inr [run_simps]:
  "bindE r f = (Inr y, t) \<longleftrightarrow> (\<exists>x s. r = (Inr x, s) \<and> f x s = (Inr y, t))"
  by (cases r; cases "fst r") (auto simp: bindE_def)

lemma bindE_Inl [run_simps]:
  "bindE r f = (Inl e, t) \<longleftrightarrow>
     r = (Inl e, t) \<or> (\<exists>x s. r = (Inr x, s) \<and> f x s = (Inl e, t))"
  by (cases r; cases "fst r") (auto simp: bindE_def)

text \<open>A pure check lifted into a run: the state is only passed through.\<close>

definition liftE :: "'e + 'a \<Rightarrow> 's \<Rightarrow> ('e + 'a) \<times> 's" where
  "liftE r s = (r, s)"

lemma liftE_iff [run_simps]: "liftE r s = (x, t) \<longleftrightarrow> r = x \<and> t = s"
  by (auto simp: liftE_def)

lemma bindE_liftE [simp]:
  "bindE (liftE (Inl e) s) f = (Inl e, s)"
  "bindE (liftE (Inr x) s) f = f x s"
  by (simp_all add: liftE_def)

text \<open>What holds of every failure of a run, checked step by step.\<close>

definition fails :: "('e \<Rightarrow> 's \<Rightarrow> bool) \<Rightarrow> ('e + 'a) \<times> 's \<Rightarrow> bool" where
  "fails P r \<longleftrightarrow> (\<forall>e s. r = (Inl e, s) \<longrightarrow> P e s)"

lemma failsD: "fails P r \<Longrightarrow> r = (Inl e, s) \<Longrightarrow> P e s"
  by (simp add: fails_def)

lemma fails_simps [simp]:
  "fails P (Inr x, s)"
  "fails P (Inl e, s) = P e s"
  by (simp_all add: fails_def)

lemma fails_liftE [simp]: "fails P (liftE r s) \<longleftrightarrow> (\<forall>e. r = Inl e \<longrightarrow> P e s)"
  by (simp add: fails_def liftE_def)

lemma fails_bindE:
  assumes "fails P r" and "\<And>x s. r = (Inr x, s) \<Longrightarrow> fails P (f x s)"
  shows "fails P (bindE r f)"
  using assms by (auto simp: fails_def bindE_Inl)

section \<open>Tables\<close>

text \<open>
  \<open>SELECT ... WHERE\<close> is \<open>filter\<close>, \<open>.first()\<close> is \<open>find\<close>, \<open>session.get\<close> is \<open>find_row\<close> on the primary
  key, \<open>UPDATE ... SET ... WHERE\<close> is \<open>update_where\<close>, its \<open>rowcount\<close> is \<open>count_where\<close> and an
  insert appends.
\<close>

definition find_row :: "('r \<Rightarrow> uid) \<Rightarrow> uid \<Rightarrow> 'r list \<Rightarrow> 'r option" where
  "find_row key k t = find (\<lambda>r. key r = k) t"

definition update_where :: "('r \<Rightarrow> bool) \<Rightarrow> ('r \<Rightarrow> 'r) \<Rightarrow> 'r list \<Rightarrow> 'r list" where
  "update_where p f t = map (\<lambda>r. if p r then f r else r) t"

definition count_where :: "('r \<Rightarrow> bool) \<Rightarrow> 'r list \<Rightarrow> nat" where
  "count_where p t = length (filter p t)"

lemma find_row_SomeD: "find_row key k t = Some r \<Longrightarrow> r \<in> set t \<and> key r = k"
  by (auto simp: find_row_def find_Some_iff)

lemma find_row_None_iff [table_simps]: "find_row key k t = None \<longleftrightarrow> k \<notin> key ` set t"
  by (auto simp: find_row_def find_None_iff)

lemma find_row_Some_iff [table_simps]:
  assumes "distinct (map key t)"
  shows "find_row key k t = Some r \<longleftrightarrow> r \<in> set t \<and> key r = k"
proof
  assume r: "r \<in> set t \<and> key r = k"
  then obtain r' where r': "find_row key k t = Some r'"
    by (metis find_row_None_iff image_eqI not_Some_eq)
  with r find_row_SomeD [OF r'] assms show "find_row key k t = Some r"
    by (metis distinct_map inj_onD)
qed (rule find_row_SomeD)

lemma find_row_Nil [simp]: "find_row key k [] = None"
  by (simp add: find_row_def)

lemma find_row_Cons [simp]:
  "find_row key k (r # t) = (if key r = k then Some r else find_row key k t)"
  by (simp add: find_row_def)

lemma find_row_append [table_simps]:
  "find_row key k (t @ t') = (case find_row key k t of Some r \<Rightarrow> Some r | None \<Rightarrow> find_row key k t')"
  by (induction t) auto

lemma find_row_update [table_simps]:
  assumes "\<And>r. key (f r) = key r"
  shows "find_row key k (update_where p f t)
           = map_option (\<lambda>r. if p r then f r else r) (find_row key k t)"
  by (induction t) (auto simp: update_where_def assms)

lemma map_update_where [table_simps]:
  assumes "\<And>r. g (f r) = g r"
  shows "map g (update_where p f t) = map g t"
  by (induction t) (auto simp: update_where_def assms)

lemma set_update_where [table_simps]:
  "set (update_where p f t) = f ` {r \<in> set t. p r} \<union> {r \<in> set t. \<not> p r}"
  by (auto simp: update_where_def)

lemma length_update_where [simp]: "length (update_where p f t) = length t"
  by (simp add: update_where_def)

lemma update_where_Nil [simp]: "update_where p f [] = []"
  by (simp add: update_where_def)

lemma update_where_Cons [simp]:
  "update_where p f (r # t) = (if p r then f r else r) # update_where p f t"
  by (simp add: update_where_def)

lemma update_where_append [simp]:
  "update_where p f (t @ t') = update_where p f t @ update_where p f t'"
  by (simp add: update_where_def)

lemma update_where_none: "\<forall>r \<in> set t. \<not> p r \<Longrightarrow> update_where p f t = t"
  by (induction t) auto

lemma update_where_cong:
  "(\<And>r. r \<in> set t \<Longrightarrow> p r \<longleftrightarrow> q r) \<Longrightarrow> update_where p f t = update_where q f t"
  by (induction t) auto

lemma find_Some_unique:
  assumes "distinct (map key t)" "r \<in> set t"
  shows "find (\<lambda>x. key x = key r) t = Some r"
  using assms by (induction t) auto

lemma count_where_Nil [simp]: "count_where p [] = 0"
  by (simp add: count_where_def)

lemma count_where_Cons [simp]:
  "count_where p (r # t) = (if p r then Suc (count_where p t) else count_where p t)"
  by (simp add: count_where_def)

lemma count_where_0 [table_simps]: "count_where p t = 0 \<longleftrightarrow> (\<forall>r \<in> set t. \<not> p r)"
  by (induction t) auto

lemma count_where_by_id:
  assumes "distinct (map key t)"
  shows "count_where (\<lambda>r. key r = k \<and> p r) t
           = (case find_row key k t of Some r \<Rightarrow> if p r then 1 else 0 | None \<Rightarrow> 0)"
  using assms
proof (induction t)
  case (Cons r t)
  have "count_where (\<lambda>r. key r = k \<and> p r) t = 0" if "key r = k"
    using Cons.prems that by (auto simp: count_where_0 image_iff)
  with Cons show ?case by auto
qed simp

lemma count_where_le_update:
  "(\<And>r. \<not> p (f r)) \<Longrightarrow> count_where p (update_where p f t) = 0"
  by (induction t) auto

section \<open>Python string helpers\<close>

text \<open>
  A Python \<open>str\<close> is the list of its code points; the model's \<open>char\<close> covers the code points 0 to
  255, and \<open>is_space\<close> is \<open>str.isspace\<close> on that range (U+0009-U+000D, U+001C-U+0020, U+0085,
  U+00A0), which is what \<open>str.strip\<close> removes at both ends.
\<close>

definition is_space :: "char \<Rightarrow> bool" where
  "is_space c = (let n = (of_char c :: nat) in
     (9 \<le> n \<and> n \<le> 13) \<or> (28 \<le> n \<and> n \<le> 32) \<or> n = 133 \<or> n = 160)"

definition lstrip :: "string \<Rightarrow> string" where
  "lstrip s = dropWhile is_space s"

definition strip :: "string \<Rightarrow> string" where
  "strip s = rev (lstrip (rev (lstrip s)))"

lemma dropWhile_idem: "dropWhile P (dropWhile P xs) = dropWhile P xs"
  by (induction xs) auto

lemma dropWhile_rev_hd:
  assumes "xs \<noteq> []" "\<not> P (hd xs)"
  shows "dropWhile P (rev (dropWhile P (rev xs))) = rev (dropWhile P (rev xs))"
proof -
  obtain y ys where xs: "xs = y # ys" and y: "\<not> P y" using assms by (cases xs) auto
  have "\<exists>zs. dropWhile P (rev ys @ [y]) = zs @ [y]"
    using y by (induction "rev ys" arbitrary: ys rule: rev_induct) (auto simp: dropWhile_append)
  then show ?thesis using y xs by auto
qed

lemma strip_idem [simp]: "strip (strip s) = strip s"
proof (cases "lstrip s = []")
  case False
  then have "\<not> is_space (hd (lstrip s))"
    unfolding lstrip_def using hd_dropWhile [of is_space s] by (metis dropWhile_eq_Nil_conv)
  with False show ?thesis
    by (simp add: strip_def lstrip_def dropWhile_rev_hd dropWhile_idem)
next
  case True
  have "lstrip [] = []" by (simp add: lstrip_def)
  with True show ?thesis by (simp add: strip_def)
qed

text \<open>Slicing: \<open>s[:n]\<close> and \<open>s[-n:]\<close>.\<close>

definition last_n :: "nat \<Rightarrow> 'a list \<Rightarrow> 'a list" where
  "last_n n xs = drop (length xs - n) xs"

lemma length_last_n [simp]: "length (last_n n xs) = min n (length xs)"
  by (simp add: last_n_def)

section \<open>Contract: optimistic concurrency\<close>

text \<open>
  Several components guard a row with a counter and write it with one conditional statement
  (\<open>UPDATE ... SET version = :expected + 1 WHERE id = :id AND version = :expected\<close>). What the
  callers rely on is that a write succeeds exactly when the counter still has the value that was
  read and that it moves the counter on.
\<close>

locale versioned_write =
  fixes good :: "'s \<Rightarrow> bool"
    and ver :: "'s \<Rightarrow> uid \<Rightarrow> int option"
    and cas :: "uid \<Rightarrow> int \<Rightarrow> 'v \<Rightarrow> 's \<Rightarrow> ('e + 'a) \<times> 's"
    and stale :: 'e
  assumes cas_good: "good s \<Longrightarrow> cas k n v s = (Inr x, t) \<Longrightarrow> good t"
    and cas_wins: "good s \<Longrightarrow> cas k n v s = (Inr x, t) \<Longrightarrow> ver s k = Some n"
    and cas_bumps: "good s \<Longrightarrow> cas k n v s = (Inr x, t) \<Longrightarrow> ver t k = Some (n + 1)"
    and cas_frame: "good s \<Longrightarrow> cas k n v s = (Inr x, t) \<Longrightarrow> k' \<noteq> k \<Longrightarrow> ver t k' = ver s k'"
    and cas_loses: "good s \<Longrightarrow> ver s k \<noteq> Some n \<Longrightarrow> cas k n v s = (Inl stale, s)"
begin

text \<open>Two writers that read the same counter cannot both win.\<close>

lemma one_winner:
  assumes "good s" and "cas k n v s = (Inr x, t)"
  shows "cas k n v' t = (Inl stale, t)"
  by (rule cas_loses) (simp_all add: cas_bumps [OF assms] cas_good [OF assms])

text \<open>The counter of a row never moves back along a run of writes.\<close>

inductive writes :: "'s \<Rightarrow> 's \<Rightarrow> bool" where
  none: "writes s s"
| one: "writes s t \<Longrightarrow> cas k n v t = (Inr x, u) \<Longrightarrow> writes s u"

lemma writes_good: "writes s t \<Longrightarrow> good s \<Longrightarrow> good t"
  by (induction rule: writes.induct) (auto intro: cas_good)

lemma cas_monotone:
  assumes "good s" and "cas k n v s = (Inr x, t)" and "ver s k' = Some m"
  shows "\<exists>m' \<ge> m. ver t k' = Some m'"
proof (cases "k' = k")
  case True
  with assms(3) cas_wins [OF assms(1,2)] cas_bumps [OF assms(1,2)] show ?thesis by auto
next
  case False
  with assms(3) cas_frame [OF assms(1,2)] show ?thesis by auto
qed

lemma writes_monotone:
  "writes s t \<Longrightarrow> good s \<Longrightarrow> ver s k' = Some m \<Longrightarrow> \<exists>m' \<ge> m. ver t k' = Some m'"
proof (induction rule: writes.induct)
  case (one s t k n v x u)
  then show ?case by (meson cas_monotone order_trans writes_good)
qed auto

text \<open>After a win, a writer still holding the old counter loses however long it waits.\<close>

lemma stale_forever:
  assumes "good s" and "cas k n v s = (Inr x, t)" and "writes t u"
  shows "cas k n w u = (Inl stale, u)"
proof (rule cas_loses)
  have t: "good t" by (rule cas_good [OF assms(1,2)])
  then show "good u" using assms(3) writes_good by blast
  obtain m where "m \<ge> n + 1" "ver u k = Some m"
    using writes_monotone [OF assms(3) t cas_bumps [OF assms(1,2)]] by auto
  then show "ver u k \<noteq> Some n" by simp
qed

end

section \<open>Contract: a status graph\<close>

text \<open>
  A component publishes the legal moves of a status column, and every step of the system either
  leaves the status of a row alone or moves it along the graph. What follows for whole runs is
  proved once here.
\<close>

locale status_graph =
  fixes st :: "'db \<Rightarrow> uid \<Rightarrow> 'st option"
    and legal :: "'st \<Rightarrow> 'st list"
    and sys_step :: "'db \<Rightarrow> 'db \<Rightarrow> bool"
  assumes step_legal:
    "sys_step d e \<Longrightarrow> st d k = Some a \<Longrightarrow> \<exists>b. st e k = Some b \<and> (b = a \<or> b \<in> set (legal a))"
begin

definition moves :: "('st \<times> 'st) set" where
  "moves = {(a, b). b \<in> set (legal a)}"

lemma run_legal:
  assumes "sys_step\<^sup>*\<^sup>* d e" and "st d k = Some a"
  shows "\<exists>b. st e k = Some b \<and> (a, b) \<in> moves\<^sup>*"
  using assms
proof (induction rule: rtranclp_induct)
  case (step e f)
  then obtain b where b: "st e k = Some b" "(a, b) \<in> moves\<^sup>*" by auto
  from step_legal [OF step.hyps(2) b(1)] obtain c
    where "st f k = Some c" "c = b \<or> (b, c) \<in> moves" by (auto simp: moves_def)
  with b show ?case by (auto intro: rtrancl_into_rtrancl)
qed simp

text \<open>A status without a legal move is kept for ever.\<close>

lemma terminal:
  assumes "sys_step\<^sup>*\<^sup>* d e" and "st d k = Some a" and "legal a = []"
  shows "st e k = Some a"
proof -
  obtain b where b: "st e k = Some b" "(a, b) \<in> moves\<^sup>*"
    using run_legal [OF assms(1,2)] by auto
  from b(2) assms(3) have "b = a"
    by (auto simp: moves_def elim: converse_rtranclE)
  with b show ?thesis by simp
qed

text \<open>A set of statuses the graph does not leave is not left by a run.\<close>

lemma closed_set:
  assumes "sys_step\<^sup>*\<^sup>* d e" and "st d k = Some a" and "a \<in> A"
    and "\<And>b. b \<in> A \<Longrightarrow> set (legal b) \<subseteq> A"
  shows "\<exists>b \<in> A. st e k = Some b"
proof -
  obtain b where b: "st e k = Some b" "(a, b) \<in> moves\<^sup>*"
    using run_legal [OF assms(1,2)] by auto
  from b(2) have "b \<in> A"
    by (induction rule: rtrancl_induct) (use assms(3,4) in \<open>auto simp: moves_def\<close>)
  with b show ?thesis by blast
qed

end

end
