(* ===== verification/Errors.thy ===== *)
theory Errors
  imports Prelude
begin

text \<open>
  The typed failures of the tutoring services (\<open>services/tutoring/errors.py\<close>): one constructor per
  subclass of \<open>TutoringError\<close>, with its stable code, HTTP status and retry hint. The free-text
  message and the \<open>extra\<close> ids of an error are not modelled: no code branches on them.
  An exception of a service is a typed error or an \<open>IntegrityError\<close> of the database that no handler
  translates.
\<close>

datatype terr =
    NotFound
  | Forbidden
  | ValidationError
  | SlotUnavailable
  | HoldExpired
  | HoldConflict
  | IdempotencyKeyReuse
  | PaymentUnverified
  | AmountMismatch
  | PaymentAmountMismatch
  | SessionPriceInvalid
  | DuplicateEvent
  | RefundDuplicate
  | RefundNotAllowed
  | AdminExceptionUnauthorised
  | SessionStateInvalid
  | SessionNotEnded
  | RescheduleWindowClosed
  | SessionStaleVersion
  | AttendanceTooEarly
  | AttendanceStaleVersion
  | AttendanceStateInvalid
  | ReviewBlocked
  | ReviewDuplicate
  | ReviewEditWindowClosed
  | ReviewNotModeratable
  | VideoUnverified
  | GrantExpired
  | GrantRevoked
  | VideoCallsDisabled
  | ProviderUnavailable (retry_hint: bool)

datatype exn = TutoringError terr | IntegrityError

type_synonym ('a, 's) result = "(exn + 'a) \<times> 's"

abbreviation ok :: "'a \<Rightarrow> 's \<Rightarrow> ('a, 's) result" where
  "ok x s \<equiv> (Inr x, s)"

abbreviation raise :: "terr \<Rightarrow> 's \<Rightarrow> ('a, 's) result" where
  "raise e s \<equiv> (Inl (TutoringError e), s)"

fun code :: "terr \<Rightarrow> string" where
  "code NotFound = ''NOT_FOUND''"
| "code Forbidden = ''FORBIDDEN''"
| "code ValidationError = ''VALIDATION_ERROR''"
| "code SlotUnavailable = ''SLOT_UNAVAILABLE''"
| "code HoldExpired = ''HOLD_EXPIRED''"
| "code HoldConflict = ''HOLD_CONFLICT''"
| "code IdempotencyKeyReuse = ''IDEMPOTENCY_KEY_REUSE''"
| "code PaymentUnverified = ''PAYMENT_UNVERIFIED''"
| "code AmountMismatch = ''AMOUNT_MISMATCH''"
| "code PaymentAmountMismatch = ''PAYMENT_AMOUNT_MISMATCH''"
| "code SessionPriceInvalid = ''SESSION_PRICE_INVALID''"
| "code DuplicateEvent = ''DUPLICATE_EVENT''"
| "code RefundDuplicate = ''REFUND_DUPLICATE''"
| "code RefundNotAllowed = ''REFUND_NOT_ALLOWED''"
| "code AdminExceptionUnauthorised = ''ADMIN_EXCEPTION_UNAUTHORISED''"
| "code SessionStateInvalid = ''SESSION_STATE_INVALID''"
| "code SessionNotEnded = ''SESSION_NOT_ENDED''"
| "code RescheduleWindowClosed = ''RESCHEDULE_WINDOW_CLOSED''"
| "code SessionStaleVersion = ''SESSION_STALE_VERSION''"
| "code AttendanceTooEarly = ''ATTENDANCE_TOO_EARLY''"
| "code AttendanceStaleVersion = ''ATTENDANCE_STALE_VERSION''"
| "code AttendanceStateInvalid = ''ATTENDANCE_STATE_INVALID''"
| "code ReviewBlocked = ''REVIEW_BLOCKED''"
| "code ReviewDuplicate = ''REVIEW_DUPLICATE''"
| "code ReviewEditWindowClosed = ''REVIEW_EDIT_WINDOW_CLOSED''"
| "code ReviewNotModeratable = ''REVIEW_NOT_MODERATABLE''"
| "code VideoUnverified = ''VIDEO_UNVERIFIED''"
| "code GrantExpired = ''GRANT_EXPIRED''"
| "code GrantRevoked = ''GRANT_REVOKED''"
| "code VideoCallsDisabled = ''VIDEO_CALLS_DISABLED''"
| "code (ProviderUnavailable r) = ''PROVIDER_UNAVAILABLE''"

fun status_code :: "terr \<Rightarrow> nat" where
  "status_code NotFound = 404"
| "status_code Forbidden = 403"
| "status_code ValidationError = 422"
| "status_code PaymentUnverified = 400"
| "status_code AmountMismatch = 422"
| "status_code PaymentAmountMismatch = 422"
| "status_code SessionPriceInvalid = 422"
| "status_code AdminExceptionUnauthorised = 403"
| "status_code VideoUnverified = 400"
| "status_code GrantExpired = 410"
| "status_code GrantRevoked = 410"
| "status_code VideoCallsDisabled = 503"
| "status_code (ProviderUnavailable r) = 503"
| "status_code _ = 409"

fun retryable :: "terr \<Rightarrow> bool" where
  "retryable (ProviderUnavailable r) = r"
| "retryable _ = False"

text \<open>\<open>PaymentProviderError\<close> of the provider seam: its code and whether asking again can help.\<close>

datatype provider_error = PaymentProviderError (perr_code: string) (perr_retryable: bool)

end
