(* ===== verification/Schema.thy ===== *)
theory Schema
  imports Errors
begin

text \<open>
  The tables of the tutoring marketplace (\<open>models/wave2.py\<close>): the finite domains as datatypes, a row
  of each table as a record (the field prefix names the table), the CHECK and UNIQUE constraints as
  predicates, and the inserts, which answer \<open>None\<close> where the database raises \<open>IntegrityError\<close>.
  Foreign keys to \<open>users\<close> are not modelled (that table is another component's), nor are columns no
  modelled code reads or writes (provenance of a tutor profile, \<open>metadata_json\<close>).
\<close>

section \<open>Finite domains\<close>

datatype tutor_status = Tutor_draft | Tutor_pending_review | Tutor_active | Tutor_suspended | Tutor_retired
datatype slot_status = SAvailable | SHeld | SBooked | SExpired | SCancelled
datatype hold_status = HActive | HConsumed | HExpired | HReleased
datatype order_status = OCreated | OPending | OPaid | OFailed | OExpired | OCancelled
datatype refund_reason = Cancel_ge_24h | Tutor_cancelled | Admin_exception | Other_reason string
datatype refund_status = RPending | RProcessing | RSucceeded | RFailed
datatype session_status = Confirmed | Pending_provider | Rescheduled | Cancelled | Completed | Disputed
datatype event_kind =
    Hold_created | Hold_consumed | Hold_expired | Hold_released
  | Payment_initiated | Payment_succeeded | Payment_failed
  | Session_confirmed | Session_rescheduled | Session_cancelled | Session_completed
  | Refund_requested | Refund_succeeded
datatype role = Student | Tutor | Admin | System | Other_role string
datatype attendance_state = APending | ARecorded | AConfirmed | ADisputed | AResolved
datatype resolution = Attended | No_show_student | No_show_tutor | Waived | Other_resolution string
datatype refund_decision = Full_refund | No_auto_refund | Admin_exception_refund
datatype moderation_state = MPending | MApproved | MRejected
datatype outbox_kind =
    Booking_confirmed | Booking_cancelled | Payment_captured | Refund_issued
  | Session_reminder | Review_published | Attendance_recorded
datatype outbox_status = XPending | XSent | XFailed | XVoid
datatype offset_kind = Off_7d | Off_1d | Off_3h
datatype job_status = JScheduled | JSent | JRevoked | JFailed
datatype pay_event_type = Ev_paid | Ev_failed | Ev_expired | Ev_pending | Ev_other string

definition payment_currencies :: "string list" where
  "payment_currencies = [''INR'']"

definition payment_providers :: "string list" where
  "payment_providers = [''deterministic'', ''razorpay'']"

definition refund_reasons :: "refund_reason list" where
  "refund_reasons = [Cancel_ge_24h, Tutor_cancelled, Admin_exception]"

definition attendance_resolutions :: "resolution list" where
  "attendance_resolutions = [Attended, No_show_student, No_show_tutor, Waived]"

text \<open>
  A JSON value of an outbox payload. \<open>JUuid\<close> and \<open>JInstant\<close> stand for \<open>str(uuid)\<close> and for
  \<open>datetime.isoformat()\<close>, the two string shapes the code writes whose digits are no card number.
\<close>

datatype json =
    JNull
  | JBool bool
  | JInt int
  | JStr string
  | JUuid uid
  | JInstant instant
  | JList "json list"
  | JObj "(string \<times> json) list"

section \<open>Rows\<close>

record tutor =
  t_id :: uid
  t_user :: uid
  t_display_name :: string
  t_headline :: "string option"
  t_experience_years :: int
  t_rating_avg :: "int option"  \<comment> \<open>\<open>Numeric(3,2)\<close>, in hundredths\<close>
  t_rating_count :: int
  t_verified_identity :: bool
  t_verified_credentials :: bool
  t_status :: tutor_status
  t_price :: int
  t_currency :: string
  t_created_at :: instant
  t_updated_at :: instant
  t_deleted_at :: "instant option"

record slot =
  sl_id :: uid
  sl_tutor :: uid
  sl_start :: instant
  sl_end :: instant
  sl_tz :: string
  sl_status :: slot_status
  sl_updated_at :: instant
  sl_deleted_at :: "instant option"

record hold =
  h_id :: uid
  h_created_at :: instant
  h_updated_at :: instant
  h_slot :: uid
  h_student :: uid
  h_status :: hold_status
  h_expires_at :: instant
  h_key :: string
  h_active_slot :: "uid option"
  h_price :: int
  h_currency :: string

record order =
  o_id :: uid
  o_created_at :: instant
  o_hold :: uid
  o_student :: uid
  o_provider :: string
  o_ref :: "string option"
  o_amount :: int
  o_currency :: string
  o_status :: order_status
  o_key :: string
  o_brand :: "string option"
  o_last4 :: "string option"
  o_exp_month :: "int option"
  o_exp_year :: "int option"

record pay_event =
  pe_id :: uid
  pe_order :: uid
  pe_event_id :: string
  pe_type :: pay_event_type
  pe_verified :: bool
  pe_digest :: string
  pe_received_at :: instant

record refund_row =
  rf_id :: uid
  rf_order :: uid
  rf_amount :: int
  rf_reason :: refund_reason
  rf_status :: refund_status
  rf_provider_ref :: "string option"
  rf_succeeded_order :: "uid option"

record tsession =
  ts_id :: uid
  ts_slot :: uid
  ts_tutor :: uid
  ts_student :: uid
  ts_order :: "uid option"
  ts_start :: instant
  ts_end :: instant
  ts_tz :: string
  ts_status :: session_status
  ts_version :: int
  ts_updated_at :: instant
  ts_deleted_at :: "instant option"

record booking_event_row =
  be_session :: "uid option"
  be_hold :: "uid option"
  be_kind :: event_kind
  be_actor :: role
  be_at :: instant

record status_history =
  hi_session :: uid
  hi_from :: "session_status option"
  hi_to :: session_status
  hi_at :: instant
  hi_actor :: role
  hi_reason :: "string option"

record attendance_row =
  at_id :: uid
  at_session :: uid
  at_state :: attendance_state
  at_recorded_by :: "role option"
  at_recorded_at :: "instant option"
  at_confirmed_at :: "instant option"
  at_disputed_at :: "instant option"
  at_resolved_at :: "instant option"
  at_resolution :: "resolution option"
  at_version :: int

record cancellation =
  ca_session :: uid
  ca_role :: role
  ca_hours :: int  \<comment> \<open>\<open>Numeric(8,2)\<close>, in hundredths of an hour\<close>
  ca_decision :: refund_decision
  ca_admin :: "uid option"
  ca_audited :: bool

record review =
  rv_id :: uid
  rv_session :: uid
  rv_tutor :: uid
  rv_author :: uid
  rv_rating :: int
  rv_body :: "string option"
  rv_published :: bool
  rv_deadline :: instant
  rv_created_at :: instant
  rv_deleted_at :: "instant option"

record moderation_row =
  md_id :: uid
  md_review :: uid
  md_state :: moderation_state
  md_moderator :: "uid option"
  md_decided_at :: "instant option"
  md_reason :: "string option"
  md_created_at :: instant

record outbox_row =
  ob_id :: uid
  ob_kind :: outbox_kind
  ob_aggregate :: uid
  ob_payload :: json
  ob_status :: outbox_status
  ob_attempts :: int
  ob_last_error :: "string option"
  ob_delivered_at :: "instant option"
  ob_created_at :: instant

record reminder_job =
  rj_id :: uid
  rj_session :: uid
  rj_kind :: offset_kind
  rj_at :: instant
  rj_status :: job_status

record grant =
  vg_id :: uid
  vg_session :: uid
  vg_participant :: string
  vg_room :: string
  vg_permissions :: string
  vg_token_hash :: string
  vg_issued_at :: instant
  vg_expires_at :: instant
  vg_revoked_at :: "instant option"

text \<open>
  A row of \<open>audit_events\<close>, with the action as a constructor; the redacted before/after JSON is not
  modelled (operators read it, no code does).
\<close>

datatype audit_action =
    Au_hold_expired_sweep | Au_hold_created | Au_hold_released | Au_price_set
  | Au_order_created | Au_event_out_of_order | Au_payment_captured
  | Au_payment_failed | Au_payment_expired | Au_payment_pending | Au_refund_issued
  | Au_session_created | Au_session_rescheduled | Au_reschedule_exception
  | Au_session_cancelled | Au_cancel_exception
  | Au_attendance_recorded | Au_attendance_confirmed | Au_attendance_disputed | Au_attendance_resolved
  | Au_review_created | Au_review_edited | Au_review_deleted | Au_review_approved | Au_review_rejected
  | Au_credential_issued | Au_credential_revoked | Au_video_event_applied

record audit_row =
  au_action :: audit_action
  au_resource :: "uid option"
  au_actor :: "uid option"
  au_role :: role

section \<open>The database state\<close>

record db =
  next_id :: uid
  tutors :: "tutor list"
  slots :: "slot list"
  holds :: "hold list"
  orders :: "order list"
  pay_events :: "pay_event list"
  refunds :: "refund_row list"
  sessions :: "tsession list"
  booking_events :: "booking_event_row list"
  history :: "status_history list"
  attendance :: "attendance_row list"
  cancellations :: "cancellation list"
  reviews :: "review list"
  moderation :: "moderation_row list"
  outbox :: "outbox_row list"
  jobs :: "reminder_job list"
  grants :: "grant list"
  audits :: "audit_row list"

definition empty_db :: db where
  "empty_db = \<lparr>next_id = 0, tutors = [], slots = [], holds = [], orders = [], pay_events = [],
     refunds = [], sessions = [], booking_events = [], history = [], attendance = [],
     cancellations = [], reviews = [], moderation = [], outbox = [], jobs = [], grants = [],
     audits = []\<rparr>"

type_synonym 'a run = "('a, db) result"

text \<open>\<open>session.get(Model, id)\<close>.\<close>

abbreviation get_tutor_row :: "db \<Rightarrow> uid \<Rightarrow> tutor option" where
  "get_tutor_row s i \<equiv> find_row t_id i (tutors s)"
abbreviation get_slot_row :: "db \<Rightarrow> uid \<Rightarrow> slot option" where
  "get_slot_row s i \<equiv> find_row sl_id i (slots s)"
abbreviation get_hold_row :: "db \<Rightarrow> uid \<Rightarrow> hold option" where
  "get_hold_row s i \<equiv> find_row h_id i (holds s)"
abbreviation get_order_row :: "db \<Rightarrow> uid \<Rightarrow> order option" where
  "get_order_row s i \<equiv> find_row o_id i (orders s)"
abbreviation get_session_row :: "db \<Rightarrow> uid \<Rightarrow> tsession option" where
  "get_session_row s i \<equiv> find_row ts_id i (sessions s)"
abbreviation get_attendance_row :: "db \<Rightarrow> uid \<Rightarrow> attendance_row option" where
  "get_attendance_row s i \<equiv> find_row at_id i (attendance s)"
abbreviation get_review_row :: "db \<Rightarrow> uid \<Rightarrow> review option" where
  "get_review_row s i \<equiv> find_row rv_id i (reviews s)"
abbreviation get_outbox_row :: "db \<Rightarrow> uid \<Rightarrow> outbox_row option" where
  "get_outbox_row s i \<equiv> find_row ob_id i (outbox s)"

section \<open>Constraints and inserts\<close>

definition tutor_check :: "tutor \<Rightarrow> bool" where
  "tutor_check t \<longleftrightarrow> t_currency t \<in> set payment_currencies \<and> 0 < t_price t
     \<and> 0 \<le> t_experience_years t \<and> 0 \<le> t_rating_count t
     \<and> (case t_rating_avg t of None \<Rightarrow> True | Some a \<Rightarrow> 0 \<le> a \<and> a \<le> 500)"

definition slot_check :: "slot \<Rightarrow> bool" where
  "slot_check sl \<longleftrightarrow> sl_start sl < sl_end sl"

definition hold_check :: "hold \<Rightarrow> bool" where
  "hold_check h \<longleftrightarrow>
     ((h_status h = HActive \<and> h_active_slot h = Some (h_slot h))
      \<or> (h_status h \<noteq> HActive \<and> h_active_slot h = None))
     \<and> h_currency h \<in> set payment_currencies \<and> 0 < h_price h \<and> h_created_at h < h_expires_at h"

definition insert_hold :: "hold \<Rightarrow> db \<Rightarrow> db option" where
  "insert_hold h s =
     (if hold_check h \<and> h_key h \<notin> h_key ` set (holds s)
         \<and> (h_active_slot h = None \<or> h_active_slot h \<notin> h_active_slot ` set (holds s))
      then Some (s\<lparr>holds := holds s @ [h]\<rparr>) else None)"

definition order_check :: "order \<Rightarrow> bool" where
  "order_check r \<longleftrightarrow> o_provider r \<in> set payment_providers
     \<and> o_currency r \<in> set payment_currencies \<and> 0 \<le> o_amount r
     \<and> (case o_last4 r of None \<Rightarrow> True | Some l \<Rightarrow> length l = 4)
     \<and> (case o_exp_month r of None \<Rightarrow> True | Some m \<Rightarrow> 1 \<le> m \<and> m \<le> 12)
     \<and> (case o_exp_year r of None \<Rightarrow> True | Some y \<Rightarrow> 2000 \<le> y \<and> y \<le> 2100)"

definition insert_order :: "order \<Rightarrow> db \<Rightarrow> db option" where
  "insert_order r s =
     (if order_check r \<and> o_key r \<notin> o_key ` set (orders s)
         \<and> (o_ref r = None
            \<or> (o_provider r, o_ref r) \<notin> (\<lambda>r. (o_provider r, o_ref r)) ` set (orders s))
      then Some (s\<lparr>orders := orders s @ [r]\<rparr>) else None)"

definition insert_pay_event :: "pay_event \<Rightarrow> db \<Rightarrow> db option" where
  "insert_pay_event e s =
     (if pe_event_id e \<notin> pe_event_id ` set (pay_events s)
      then Some (s\<lparr>pay_events := pay_events s @ [e]\<rparr>) else None)"

definition refund_check :: "refund_row \<Rightarrow> bool" where
  "refund_check r \<longleftrightarrow> rf_reason r \<in> set refund_reasons \<and> 0 \<le> rf_amount r
     \<and> ((rf_status r = RSucceeded \<and> rf_succeeded_order r = Some (rf_order r))
        \<or> (rf_status r \<noteq> RSucceeded \<and> rf_succeeded_order r = None))"

definition insert_refund :: "refund_row \<Rightarrow> db \<Rightarrow> db option" where
  "insert_refund r s =
     (if refund_check r
         \<and> (rf_provider_ref r = None
            \<or> (rf_order r, rf_provider_ref r) \<notin> (\<lambda>r. (rf_order r, rf_provider_ref r)) ` set (refunds s))
         \<and> (rf_succeeded_order r = None
            \<or> rf_succeeded_order r \<notin> rf_succeeded_order ` set (refunds s))
      then Some (s\<lparr>refunds := refunds s @ [r]\<rparr>) else None)"

definition session_check :: "tsession \<Rightarrow> bool" where
  "session_check r \<longleftrightarrow> ts_start r < ts_end r \<and> 1 \<le> ts_version r"

definition insert_session :: "tsession \<Rightarrow> db \<Rightarrow> db option" where
  "insert_session r s =
     (if session_check r \<and> ts_slot r \<notin> ts_slot ` set (sessions s)
      then Some (s\<lparr>sessions := sessions s @ [r]\<rparr>) else None)"

definition attendance_check :: "attendance_row \<Rightarrow> bool" where
  "attendance_check r \<longleftrightarrow>
     (case at_recorded_by r of None \<Rightarrow> True | Some x \<Rightarrow> x \<in> {Tutor, Admin})
     \<and> (case at_resolution r of None \<Rightarrow> True | Some x \<Rightarrow> x \<in> set attendance_resolutions)
     \<and> (at_state r = APending \<or> (at_recorded_at r \<noteq> None \<and> at_recorded_by r \<noteq> None))
     \<and> (at_state r \<noteq> AResolved \<or> (at_resolved_at r \<noteq> None \<and> at_resolution r \<noteq> None))
     \<and> 1 \<le> at_version r"

definition insert_attendance :: "attendance_row \<Rightarrow> db \<Rightarrow> db option" where
  "insert_attendance r s =
     (if attendance_check r \<and> at_session r \<notin> at_session ` set (attendance s)
      then Some (s\<lparr>attendance := attendance s @ [r]\<rparr>) else None)"

definition cancellation_check :: "cancellation \<Rightarrow> bool" where
  "cancellation_check c \<longleftrightarrow> ca_role c \<in> {Student, Tutor, Admin} \<and> 0 \<le> ca_hours c
     \<and> (ca_decision c \<noteq> Admin_exception_refund \<or> ca_admin c \<noteq> None)"

definition review_check :: "review \<Rightarrow> bool" where
  "review_check r \<longleftrightarrow> 1 \<le> rv_rating r \<and> rv_rating r \<le> 5
     \<and> (case rv_body r of None \<Rightarrow> True | Some b \<Rightarrow> 10 \<le> length b \<and> length b \<le> 1000)"

definition insert_review :: "review \<Rightarrow> db \<Rightarrow> db option" where
  "insert_review r s =
     (if review_check r \<and> rv_session r \<notin> rv_session ` set (reviews s)
      then Some (s\<lparr>reviews := reviews s @ [r]\<rparr>) else None)"

definition moderation_check :: "moderation_row \<Rightarrow> bool" where
  "moderation_check m \<longleftrightarrow> md_state m = MPending \<or> md_decided_at m \<noteq> None"

definition job_key :: "reminder_job \<Rightarrow> uid \<times> offset_kind \<times> instant" where
  "job_key j = (rj_session j, rj_kind j, rj_at j)"

definition insert_job :: "reminder_job \<Rightarrow> db \<Rightarrow> db option" where
  "insert_job j s =
     (if job_key j \<notin> job_key ` set (jobs s) then Some (s\<lparr>jobs := jobs s @ [j]\<rparr>) else None)"

section \<open>Appends every service makes\<close>

text \<open>\<open>record_audit_event\<close>: one row, in the caller's transaction.\<close>

definition record_audit_event ::
    "audit_action \<Rightarrow> uid option \<Rightarrow> uid option \<Rightarrow> role \<Rightarrow> db \<Rightarrow> db" where
  "record_audit_event a res actor r s =
     s\<lparr>audits := audits s @ [\<lparr>au_action = a, au_resource = res, au_actor = actor, au_role = r\<rparr>]\<rparr>"

text \<open>\<open>booking._booking_event\<close>.\<close>

definition booking_event ::
    "event_kind \<Rightarrow> role \<Rightarrow> uid option \<Rightarrow> uid option \<Rightarrow> instant \<Rightarrow> db \<Rightarrow> db" where
  "booking_event k r hid sid now s =
     s\<lparr>booking_events := booking_events s @
        [\<lparr>be_session = sid, be_hold = hid, be_kind = k, be_actor = r, be_at = now\<rparr>]\<rparr>"

text \<open>Drawing a fresh id (\<open>uuid.uuid4\<close>, or the column default).\<close>

definition bump :: "db \<Rightarrow> db" where
  "bump s = s\<lparr>next_id := Suc (next_id s)\<rparr>"

lemmas append_defs = record_audit_event_def booking_event_def bump_def

lemmas insert_defs = insert_hold_def insert_order_def insert_pay_event_def insert_refund_def
  insert_session_def insert_attendance_def insert_review_def insert_job_def

text \<open>
  The tables other than the trails, the queues and the id counter. Two states with the same core
  differ only in what was logged, enqueued or scheduled.
\<close>

definition core where
  "core s = ((tutors s, slots s, holds s, orders s), (pay_events s, refunds s, sessions s, attendance s),
     (cancellations s, reviews s, moderation s, grants s))"

lemma coreD:
  assumes "core t = core s"
  shows "tutors t = tutors s" "slots t = slots s" "holds t = holds s" "orders t = orders s"
    "pay_events t = pay_events s" "refunds t = refunds s" "sessions t = sessions s"
    "attendance t = attendance s" "cancellations t = cancellations s" "reviews t = reviews s"
    "moderation t = moderation s" "grants t = grants s"
  using assms by (simp_all add: core_def)

lemma core_simps [simp]:
  "core (record_audit_event a res actor r s) = core s"
  "core (booking_event k r hid sid now s) = core s"
  "core (bump s) = core s"
  "core (s\<lparr>jobs := js\<rparr>) = core s" "core (s\<lparr>next_id := n\<rparr>) = core s"
  "core (s\<lparr>outbox := xs\<rparr>) = core s" "core (s\<lparr>history := hs\<rparr>) = core s"
  "core (s\<lparr>audits := as\<rparr>) = core s" "core (s\<lparr>booking_events := bs\<rparr>) = core s"
  by (simp_all add: core_def append_defs)

text \<open>Trails touch neither the queues nor the counter.\<close>

lemma trail_simps [simp]:
  "jobs (record_audit_event a res actor r s) = jobs s" "outbox (record_audit_event a res actor r s) = outbox s"
  "next_id (record_audit_event a res actor r s) = next_id s" "history (record_audit_event a res actor r s) = history s"
  "jobs (booking_event k r hid sid now s) = jobs s" "outbox (booking_event k r hid sid now s) = outbox s"
  "next_id (booking_event k r hid sid now s) = next_id s" "history (booking_event k r hid sid now s) = history s"
  by (simp_all add: append_defs)

section \<open>Configuration\<close>

record settings =
  booking_hold_minutes :: int
  refund_free_cancel_hours :: int
  default_session_price :: pyval
  reminder_offsets :: "string list"
  worker_max_attempts :: int

definition default_settings :: settings where
  "default_settings = \<lparr>booking_hold_minutes = 10, refund_free_cancel_hours = 24,
     default_session_price = PyInt 250000, reminder_offsets = [''7d'', ''1d'', ''3h''],
     worker_max_attempts = 3\<rparr>"

end
