(* ===== verification/Pricing.thy ===== *)
theory Pricing
  imports Schema
begin

text \<open>
  The price authority (\<open>services/tutoring/pricing.py\<close>): validation of an amount and a currency,
  resolution of the price of a tutor or slot (pure reads), the snapshot read back from a hold, and
  the one writer of a tutor's price.
\<close>

datatype price_source = Tutor_profile | Hold_snapshot

record session_price =
  sp_amount :: int
  sp_currency :: string
  sp_source :: price_source
  sp_tutor :: "uid option"

definition fallback_session_price_paise :: int where
  "fallback_session_price_paise = 250000"

fun assert_price_paise :: "pyval \<Rightarrow> exn + int" where
  "assert_price_paise (PyInt v) =
     (if v \<le> 0 then Inl (TutoringError SessionPriceInvalid) else Inr v)"
| "assert_price_paise _ = Inl (TutoringError SessionPriceInvalid)"

fun assert_currency :: "pyval \<Rightarrow> exn + string" where
  "assert_currency (PyStr c) =
     (if c \<in> set payment_currencies then Inr c else Inl (TutoringError ValidationError))"
| "assert_currency _ = Inl (TutoringError ValidationError)"

definition default_session_price_paise :: "settings \<Rightarrow> exn + int" where
  "default_session_price_paise cfg = assert_price_paise (default_session_price cfg)"

definition price_of :: "tutor \<Rightarrow> exn + session_price" where
  "price_of t =
     (case assert_price_paise (PyInt (t_price t)) of Inl e \<Rightarrow> Inl e
      | Inr amount \<Rightarrow>
        (case assert_currency (PyStr (t_currency t)) of Inl e \<Rightarrow> Inl e
         | Inr cur \<Rightarrow> Inr \<lparr>sp_amount = amount, sp_currency = cur,
                           sp_source = Tutor_profile, sp_tutor = Some (t_id t)\<rparr>))"

definition resolve_for_tutor :: "db \<Rightarrow> uid \<Rightarrow> exn + session_price" where
  "resolve_for_tutor s tid =
     (case get_tutor_row s tid of
        None \<Rightarrow> Inl (TutoringError NotFound)
      | Some t \<Rightarrow> if t_deleted_at t \<noteq> None then Inl (TutoringError NotFound) else price_of t)"

text \<open>The slot is given as a row or by its id.\<close>

datatype slot_ref = Slot_row slot | Slot_id uid

fun resolve_for_slot :: "db \<Rightarrow> slot_ref \<Rightarrow> exn + session_price" where
  "resolve_for_slot s (Slot_row sl) = resolve_for_tutor s (sl_tutor sl)"
| "resolve_for_slot s (Slot_id i) =
     (case get_slot_row s i of
        None \<Rightarrow> Inl (TutoringError NotFound)
      | Some sl \<Rightarrow> if sl_deleted_at sl \<noteq> None then Inl (TutoringError NotFound)
                  else resolve_for_tutor s (sl_tutor sl))"

definition snapshot_of_hold :: "hold \<Rightarrow> exn + session_price" where
  "snapshot_of_hold h =
     (case assert_price_paise (PyInt (h_price h)) of Inl e \<Rightarrow> Inl e
      | Inr amount \<Rightarrow>
        (case assert_currency (PyStr (h_currency h)) of Inl e \<Rightarrow> Inl e
         | Inr cur \<Rightarrow> Inr \<lparr>sp_amount = amount, sp_currency = cur,
                           sp_source = Hold_snapshot, sp_tutor = None\<rparr>))"

definition set_tutor_session_price ::
    "uid \<Rightarrow> pyval \<Rightarrow> pyval \<Rightarrow> role \<Rightarrow> uid option \<Rightarrow> db \<Rightarrow> tutor run" where
  "set_tutor_session_price tid amount_paise currency actor_role actor_user s =
     bindE (liftE (assert_price_paise amount_paise) s) (\<lambda>amount s.
     bindE (liftE (assert_currency currency) s) (\<lambda>money s.
       case get_tutor_row s tid of
         None \<Rightarrow> raise NotFound s
       | Some t \<Rightarrow>
           if t_deleted_at t \<noteq> None then raise NotFound s
           else let t' = t\<lparr>t_price := amount, t_currency := money\<rparr>;
                    s1 = s\<lparr>tutors := update_where (\<lambda>r. t_id r = tid)
                              (\<lambda>r. r\<lparr>t_price := amount, t_currency := money\<rparr>) (tutors s)\<rparr>
                in ok t' (record_audit_event Au_price_set (Some tid) actor_user actor_role s1)))"

text \<open>\<open>published_prices\<close>: one read of the rows asked for; the dict keeps the last price of an id.\<close>

fun price_rows :: "tutor list \<Rightarrow> exn + (uid \<times> session_price) list" where
  "price_rows [] = Inr []"
| "price_rows (t # ts) =
     (case price_of t of Inl e \<Rightarrow> Inl e
      | Inr p \<Rightarrow> (case price_rows ts of Inl e \<Rightarrow> Inl e | Inr ps \<Rightarrow> Inr ((t_id t, p) # ps)))"

definition published_prices :: "db \<Rightarrow> uid list \<Rightarrow> exn + (uid \<times> session_price) list" where
  "published_prices s ids =
     (if ids = [] then Inr [] else price_rows (filter (\<lambda>t. t_id t \<in> set ids) (tutors s)))"

section \<open>Lemmas\<close>

lemma assert_price_paise_Inr:
  "assert_price_paise v = Inr n \<longleftrightarrow> v = PyInt n \<and> 0 < n"
  by (cases v) auto

lemma assert_currency_Inr:
  "assert_currency v = Inr c \<longleftrightarrow> v = PyStr c \<and> c \<in> set payment_currencies"
  by (cases v) auto

lemma price_of_Inr:
  "price_of t = Inr p \<longleftrightarrow> 0 < t_price t \<and> t_currency t \<in> set payment_currencies
     \<and> p = \<lparr>sp_amount = t_price t, sp_currency = t_currency t, sp_source = Tutor_profile,
            sp_tutor = Some (t_id t)\<rparr>"
  by (auto simp: price_of_def assert_price_paise_Inr assert_currency_Inr split: sum.splits)

lemma resolve_for_tutor_Inr:
  "resolve_for_tutor s tid = Inr p \<longleftrightarrow>
     (\<exists>t. get_tutor_row s tid = Some t \<and> t_deleted_at t = None \<and> price_of t = Inr p)"
  by (auto simp: resolve_for_tutor_def split: option.splits)

lemma snapshot_of_hold_Inr:
  "snapshot_of_hold h = Inr p \<longleftrightarrow> 0 < h_price h \<and> h_currency h \<in> set payment_currencies
     \<and> p = \<lparr>sp_amount = h_price h, sp_currency = h_currency h, sp_source = Hold_snapshot, sp_tutor = None\<rparr>"
  by (auto simp: snapshot_of_hold_def assert_price_paise_Inr assert_currency_Inr split: sum.splits)

lemma snapshot_of_checked_hold:
  "hold_check h \<Longrightarrow> snapshot_of_hold h = Inr \<lparr>sp_amount = h_price h, sp_currency = h_currency h,
     sp_source = Hold_snapshot, sp_tutor = None\<rparr>"
  by (auto simp: snapshot_of_hold_Inr hold_check_def)

lemma price_rows_map_of:
  "price_rows ts = Inr ps \<Longrightarrow> map_of ps i = Some p \<Longrightarrow>
     \<exists>t \<in> set ts. t_id t = i \<and> price_of t = Inr p"
  by (induction ts arbitrary: ps) (auto split: sum.splits if_splits)

text \<open>What \<open>set_tutor_session_price\<close> writes.\<close>

lemma set_price_run:
  assumes "set_tutor_session_price tid a c r u s = (Inr t', t)"
  shows "\<exists>amount cur row. a = PyInt amount \<and> 0 < amount \<and> c = PyStr cur \<and> cur \<in> set payment_currencies
    \<and> get_tutor_row s tid = Some row \<and> t_deleted_at row = None
    \<and> t = record_audit_event Au_price_set (Some tid) u r
           (s\<lparr>tutors := update_where (\<lambda>r. t_id r = tid)
                (\<lambda>r. r\<lparr>t_price := amount, t_currency := cur\<rparr>) (tutors s)\<rparr>)"
  using assms
  by (auto simp: set_tutor_session_price_def run_simps assert_price_paise_Inr assert_currency_Inr
      Let_def split: option.splits if_splits)

end
