(* ===== verification/Booking.thy ===== *)
theory Booking
  imports Pricing
begin

text \<open>
  Slot holds (\<open>services/tutoring/booking.py\<close>): the TTL check, the sweep of timed-out holds, the
  creation of the one active hold of a slot (replay, self-heal, price snapshot, conditional insert,
  slot move), reads and release. A function that may roll the transaction back on an
  \<open>IntegrityError\<close> takes the state the transaction began in as \<open>t0\<close>.
\<close>

section \<open>Operations\<close>

definition hold_ttl :: "settings \<Rightarrow> exn + int" where
  "hold_ttl cfg =
     (if booking_hold_minutes cfg \<le> 0 then Inl (TutoringError ValidationError)
      else Inr (minutes (booking_hold_minutes cfg)))"

definition is_expired :: "hold \<Rightarrow> instant \<Rightarrow> bool" where
  "is_expired h now \<longleftrightarrow> h_expires_at h \<le> now"

text \<open>The SET clauses of the statements that close a hold and that move a slot.\<close>

definition close_hold_row :: "hold_status \<Rightarrow> instant \<Rightarrow> hold \<Rightarrow> hold" where
  "close_hold_row st now h = h\<lparr>h_status := st, h_active_slot := None, h_updated_at := now\<rparr>"

definition set_slot_row :: "slot_status \<Rightarrow> instant \<Rightarrow> slot \<Rightarrow> slot" where
  "set_slot_row st now sl = sl\<lparr>sl_status := st, sl_updated_at := now\<rparr>"

definition stale_holds :: "instant \<Rightarrow> uid option \<Rightarrow> db \<Rightarrow> hold list" where
  "stale_holds now slot_id s =
     sort_key (\<lambda>h. (h_expires_at h, h_id h))
       (filter (\<lambda>h. h_status h = HActive \<and> h_expires_at h \<le> now
                  \<and> (case slot_id of None \<Rightarrow> True | Some i \<Rightarrow> h_slot h = i)) (holds s))"

definition expire_active_holds :: "instant \<Rightarrow> uid option \<Rightarrow> db \<Rightarrow> hold list \<times> db" where
  "expire_active_holds now slot_id s =
     (let stale = stale_holds now slot_id s in
      if stale = [] then ([], s)
      else let ids = map h_id stale;
               s1 = s\<lparr>holds := update_where (\<lambda>h. h_id h \<in> set ids \<and> h_status h = HActive)
                        (close_hold_row HExpired now) (holds s)\<rparr>;
               s2 = s1\<lparr>slots := update_where (\<lambda>sl. sl_id sl \<in> set (map h_slot stale) \<and> sl_status sl = SHeld)
                        (set_slot_row SAvailable now) (slots s1)\<rparr>;
               s3 = fold (\<lambda>h. booking_event Hold_expired System (Some (h_id h)) None now) stale s2
           in (map (\<lambda>h. case get_hold_row s3 (h_id h) of Some r \<Rightarrow> r | None \<Rightarrow> h) stale, s3))"

definition expire_holds :: "instant \<Rightarrow> db \<Rightarrow> nat \<times> db" where
  "expire_holds now s =
     (let (expired, s1) = expire_active_holds now None s in
      (length expired,
       if expired = [] then s1
       else record_audit_event Au_hold_expired_sweep None None System s1))"

text \<open>\<open>_replay\<close>\<close>

definition replay :: "string \<Rightarrow> uid \<Rightarrow> uid \<Rightarrow> instant \<Rightarrow> db \<Rightarrow> (hold option) run" where
  "replay key slot_id student now s =
     (case find (\<lambda>h. h_key h = key) (holds s) of
        None \<Rightarrow> ok None s
      | Some h \<Rightarrow>
          if h_slot h \<noteq> slot_id \<or> h_student h \<noteq> student then raise IdempotencyKeyReuse s
          else if h_status h = HActive \<and> is_expired h now then raise HoldExpired s
          else if h_status h = HExpired \<or> h_status h = HReleased then raise HoldExpired s
          else ok (Some h) s)"

text \<open>The part of \<open>create_hold\<close> from the conditional INSERT on: the three layers.\<close>

definition place_hold ::
    "db \<Rightarrow> uid \<Rightarrow> uid \<Rightarrow> string \<Rightarrow> instant \<Rightarrow> int \<Rightarrow> session_price \<Rightarrow> db \<Rightarrow> hold run" where
  "place_hold t0 slot_id student key now ttl price s =
     (let hold_id = next_id s; expires_at = now + ttl; s1 = bump s;
          row = \<lparr>h_id = hold_id, h_created_at = now, h_updated_at = now, h_slot = slot_id,
                 h_student = student, h_status = HActive, h_expires_at = expires_at, h_key = key,
                 h_active_slot = Some slot_id, h_price = sp_amount price,
                 h_currency = sp_currency price\<rparr>;
          no_active_hold = (\<forall>h \<in> set (holds s1). h_active_slot h \<noteq> Some slot_id);
          slot_available = (\<exists>sl \<in> set (slots s1). sl_id sl = slot_id \<and> sl_status sl = SAvailable)
      in if \<not> (no_active_hold \<and> slot_available) then raise HoldConflict s1
         else (case insert_hold row s1 of
             None \<Rightarrow> raise HoldConflict t0
           | Some s2 \<Rightarrow>
              (let p = (\<lambda>sl. sl_id sl = slot_id \<and> sl_status sl = SAvailable);
                   s3 = s2\<lparr>slots := update_where p (set_slot_row SHeld now) (slots s2)\<rparr>
               in if count_where p (slots s2) \<noteq> 1 then raise HoldConflict s3
                  else ok row
                    (record_audit_event Au_hold_created (Some hold_id) (Some student) Student
                      (booking_event Hold_created Student (Some hold_id) None now s3)))))"

definition create_hold ::
    "settings \<Rightarrow> db \<Rightarrow> uid \<Rightarrow> uid \<Rightarrow> string \<Rightarrow> instant \<Rightarrow> int option \<Rightarrow> db \<Rightarrow> hold run" where
  "create_hold cfg t0 slot_id student idempotency_key now ttl s =
     (let key = strip idempotency_key in
      if key = [] \<or> 200 < length key then raise ValidationError s
      else bindE (replay key slot_id student now s) (\<lambda>replayed s.
        case replayed of
          Some h \<Rightarrow> ok h s
        | None \<Rightarrow>
           (let s1 = snd (expire_active_holds now (Some slot_id) s) in
            case get_slot_row s1 slot_id of
              None \<Rightarrow> raise NotFound s1
            | Some sl \<Rightarrow>
                if sl_deleted_at sl \<noteq> None then raise NotFound s1
                else if sl_status sl \<in> {SBooked, SCancelled, SExpired} then raise SlotUnavailable s1
                else if sl_start sl \<le> now then raise SlotUnavailable s1
                else bindE (liftE (resolve_for_slot s1 (Slot_row sl)) s1) (\<lambda>price s1.
                  bindE (liftE (case ttl of Some d \<Rightarrow> if d \<noteq> 0 then Inr d else hold_ttl cfg
                                          | None \<Rightarrow> hold_ttl cfg) s1) (\<lambda>d s1.
                    place_hold t0 slot_id student key now d price s1)))))"

definition get_hold :: "uid \<Rightarrow> uid option \<Rightarrow> instant \<Rightarrow> bool \<Rightarrow> db \<Rightarrow> hold run" where
  "get_hold hold_id student now require_live s =
     (case get_hold_row s hold_id of
        None \<Rightarrow> raise NotFound s
      | Some h \<Rightarrow>
          if (case student of Some u \<Rightarrow> h_student h \<noteq> u | None \<Rightarrow> False) then raise NotFound s
          else if require_live \<and> h_status h \<noteq> HActive then raise HoldExpired s
          else if require_live \<and> is_expired h now then raise HoldExpired s
          else ok h s)"

definition release_hold :: "uid \<Rightarrow> role \<Rightarrow> uid option \<Rightarrow> instant \<Rightarrow> db \<Rightarrow> hold run" where
  "release_hold hold_id actor_role actor_user now s =
     (case get_hold_row s hold_id of
        None \<Rightarrow> raise NotFound s
      | Some h \<Rightarrow>
          if h_status h \<noteq> HActive then ok h s
          else let s1 = s\<lparr>holds := update_where (\<lambda>r. h_id r = hold_id \<and> h_status r = HActive)
                            (close_hold_row HReleased now) (holds s)\<rparr>;
                   s2 = s1\<lparr>slots := update_where (\<lambda>sl. sl_id sl = h_slot h \<and> sl_status sl = SHeld)
                            (set_slot_row SAvailable now) (slots s1)\<rparr>;
                   s3 = record_audit_event Au_hold_released (Some hold_id) actor_user actor_role
                          (booking_event Hold_released actor_role (Some hold_id) None now s2)
               in ok (close_hold_row HReleased now h) s3)"

section \<open>The hold table and the slot table agree\<close>

definition live_hold :: "hold \<Rightarrow> bool" where
  "live_hold h \<longleftrightarrow> h_status h = HActive"

text \<open>
  Keys are keys, every hold satisfies its CHECK, a slot has at most one active hold, and a slot is
  \<open>held\<close> exactly when an active hold points at it.
\<close>

definition consistent :: "hold list \<Rightarrow> slot list \<Rightarrow> bool" where
  "consistent hs sls \<longleftrightarrow>
     distinct (map h_id hs) \<and> distinct (map h_key hs) \<and> distinct (map sl_id sls)
     \<and> (\<forall>h \<in> set hs. hold_check h)
     \<and> (\<forall>h \<in> set hs. \<forall>g \<in> set hs. live_hold h \<and> live_hold g \<and> h_slot h = h_slot g \<longrightarrow> h_id h = h_id g)
     \<and> (\<forall>sl \<in> set sls. sl_status sl = SHeld \<longleftrightarrow> (\<exists>h \<in> set hs. live_hold h \<and> h_slot h = sl_id sl))
     \<and> (\<forall>h \<in> set hs. live_hold h \<longrightarrow> h_slot h \<in> sl_id ` set sls)"

lemma consistentD:
  assumes "consistent hs sls"
  shows "distinct (map h_id hs)" "distinct (map h_key hs)" "distinct (map sl_id sls)"
    "\<And>h. h \<in> set hs \<Longrightarrow> hold_check h"
    "\<And>h g. h \<in> set hs \<Longrightarrow> g \<in> set hs \<Longrightarrow> live_hold h \<Longrightarrow> live_hold g \<Longrightarrow> h_slot h = h_slot g \<Longrightarrow> h_id h = h_id g"
    "\<And>sl. sl \<in> set sls \<Longrightarrow> sl_status sl = SHeld \<longleftrightarrow> (\<exists>h \<in> set hs. live_hold h \<and> h_slot h = sl_id sl)"
    "\<And>h. h \<in> set hs \<Longrightarrow> live_hold h \<Longrightarrow> h_slot h \<in> sl_id ` set sls"
  using assms unfolding consistent_def by blast+

definition booking_inv :: "db \<Rightarrow> bool" where
  "booking_inv s \<longleftrightarrow> consistent (holds s) (slots s) \<and> (\<forall>h \<in> set (holds s). h_id h < next_id s)"

lemma booking_inv_empty: "booking_inv empty_db"
  by (simp add: booking_inv_def consistent_def empty_db_def)

lemma booking_invD:
  assumes "booking_inv s"
  shows "distinct (map h_id (holds s))" "distinct (map h_key (holds s))"
    "distinct (map sl_id (slots s))" "\<And>h. h \<in> set (holds s) \<Longrightarrow> hold_check h"
    "\<And>h. h \<in> set (holds s) \<Longrightarrow> h_id h < next_id s"
  using assms consistentD(1-4) unfolding booking_inv_def by blast+

lemma one_live_hold:
  assumes "booking_inv s" "h \<in> set (holds s)" "g \<in> set (holds s)" "live_hold h" "live_hold g"
    "h_slot h = h_slot g"
  shows "h = g"
proof -
  have "h_id h = h_id g" using assms consistentD(5) unfolding booking_inv_def by blast
  with booking_invD(1) [OF assms(1)] assms(2,3) show ?thesis by (metis distinct_map inj_onD)
qed

lemma held_iff:
  assumes "booking_inv s" "sl \<in> set (slots s)"
  shows "sl_status sl = SHeld \<longleftrightarrow> (\<exists>h \<in> set (holds s). live_hold h \<and> h_slot h = sl_id sl)"
  using assms consistentD(6) unfolding booking_inv_def by blast

lemma live_hold_slot:
  assumes "booking_inv s" "h \<in> set (holds s)" "live_hold h"
  shows "\<exists>sl. get_slot_row s (h_slot h) = Some sl \<and> sl_id sl = h_slot h \<and> sl_status sl = SHeld"
proof -
  have "h_slot h \<in> sl_id ` set (slots s)"
    using assms consistentD(7) unfolding booking_inv_def by blast
  then obtain sl where sl: "get_slot_row s (h_slot h) = Some sl"
    using find_row_None_iff [of sl_id "h_slot h" "slots s"] by (cases "get_slot_row s (h_slot h)") auto
  with find_row_SomeD [OF sl] held_iff [OF assms(1), of sl] assms(2,3) show ?thesis by auto
qed

lemma active_marker:
  "hold_check h \<Longrightarrow> h_active_slot h = (if live_hold h then Some (h_slot h) else None)"
  by (auto simp: hold_check_def live_hold_def)

lemma close_hold_row_sel [simp]:
  "h_id (close_hold_row st now h) = h_id h" "h_key (close_hold_row st now h) = h_key h"
  "h_slot (close_hold_row st now h) = h_slot h" "h_status (close_hold_row st now h) = st"
  "h_student (close_hold_row st now h) = h_student h"
  "h_price (close_hold_row st now h) = h_price h"
  "h_currency (close_hold_row st now h) = h_currency h"
  "h_expires_at (close_hold_row st now h) = h_expires_at h"
  "h_created_at (close_hold_row st now h) = h_created_at h"
  "h_active_slot (close_hold_row st now h) = None"
  "live_hold (close_hold_row st now h) \<longleftrightarrow> st = HActive"
  by (simp_all add: close_hold_row_def live_hold_def)

lemma set_slot_row_sel [simp]:
  "sl_id (set_slot_row st now sl) = sl_id sl" "sl_tutor (set_slot_row st now sl) = sl_tutor sl"
  "sl_status (set_slot_row st now sl) = st" "sl_start (set_slot_row st now sl) = sl_start sl"
  "sl_end (set_slot_row st now sl) = sl_end sl" "sl_tz (set_slot_row st now sl) = sl_tz sl"
  "sl_deleted_at (set_slot_row st now sl) = sl_deleted_at sl"
  by (simp_all add: set_slot_row_def)

lemma close_hold_row_check:
  "hold_check h \<Longrightarrow> st \<noteq> HActive \<Longrightarrow> hold_check (close_hold_row st now h)"
  by (auto simp: hold_check_def)

text \<open>Closing every active hold of some slots and moving these slots off \<open>held\<close>.\<close>

lemma close_consistent:
  assumes c: "consistent hs sls" and st: "st \<noteq> HActive" "st' \<noteq> SHeld"
    and p: "\<And>h. h \<in> set hs \<Longrightarrow> p h \<longleftrightarrow> live_hold h \<and> h_slot h \<in> K"
    and q: "\<And>sl. sl \<in> set sls \<Longrightarrow> q sl \<longleftrightarrow> sl_id sl \<in> K \<and> sl_status sl = SHeld"
  shows "consistent (update_where p (close_hold_row st now) hs) (update_where q (set_slot_row st' now) sls)"
proof -
  let ?hs = "update_where p (close_hold_row st now) hs"
  let ?sls = "update_where q (set_slot_row st' now) sls"
  have hs: "set ?hs = close_hold_row st now ` {h \<in> set hs. p h} \<union> {h \<in> set hs. \<not> p h}"
    and sls: "set ?sls = set_slot_row st' now ` {sl \<in> set sls. q sl} \<union> {sl \<in> set sls. \<not> q sl}"
    by (rule set_update_where)+
  have live: "h \<in> set ?hs \<and> live_hold h \<longleftrightarrow> h \<in> set hs \<and> live_hold h \<and> h_slot h \<notin> K" for h
    using p st(1) by (auto simp: hs)
  have 1: "distinct (map h_id ?hs) \<and> distinct (map h_key ?hs) \<and> distinct (map sl_id ?sls)"
    using c by (simp add: consistent_def map_update_where)
  have 2: "\<forall>h \<in> set ?hs. hold_check h"
    using c st(1) by (auto simp: consistent_def hs intro: close_hold_row_check)
  have 3: "\<forall>h \<in> set ?hs. \<forall>g \<in> set ?hs. live_hold h \<and> live_hold g \<and> h_slot h = h_slot g \<longrightarrow> h_id h = h_id g"
    using c live unfolding consistent_def by blast
  have old: "\<forall>sl \<in> set sls. sl_status sl = SHeld \<longleftrightarrow> (\<exists>h \<in> set hs. live_hold h \<and> h_slot h = sl_id sl)"
    using c by (simp add: consistent_def)
  have 4: "sl_status sl = SHeld \<longleftrightarrow> (\<exists>h \<in> set ?hs. live_hold h \<and> h_slot h = sl_id sl)"
    if sl: "sl \<in> set ?sls" for sl
  proof -
    have "(\<exists>h \<in> set ?hs. live_hold h \<and> h_slot h = sl_id sl)
        \<longleftrightarrow> sl_id sl \<notin> K \<and> (\<exists>h \<in> set hs. live_hold h \<and> h_slot h = sl_id sl)"
      using live by metis
    moreover have "sl_status sl = SHeld
        \<longleftrightarrow> sl_id sl \<notin> K \<and> (\<exists>h \<in> set hs. live_hold h \<and> h_slot h = sl_id sl)"
    proof -
      consider r where "r \<in> set sls" "q r" "sl = set_slot_row st' now r" | "sl \<in> set sls" "\<not> q sl"
        using sl by (auto simp: sls)
      then show ?thesis
      proof cases
        case 1
        then show ?thesis using q [of r] st(2) by simp
      next
        case 2
        then show ?thesis using q [of sl] old by blast
      qed
    qed
    ultimately show ?thesis by blast
  qed
  have "sl_id ` set ?sls = sl_id ` set sls"
    using map_update_where [of sl_id "set_slot_row st' now" q sls]
    by (metis list.set_map set_slot_row_sel(1))
  then have 5: "\<forall>h \<in> set ?hs. live_hold h \<longrightarrow> h_slot h \<in> sl_id ` set ?sls"
    using c live unfolding consistent_def by blast
  show ?thesis using 1 2 3 4 5 by (simp only: consistent_def) blast
qed

text \<open>Moving slots among the statuses other than \<open>held\<close>.\<close>

lemma move_consistent:
  assumes c: "consistent hs sls" and "st \<noteq> SHeld"
    and q: "\<And>sl. sl \<in> set sls \<Longrightarrow> q sl \<Longrightarrow> sl_status sl \<noteq> SHeld"
  shows "consistent hs (update_where q (set_slot_row st now) sls)"
proof -
  let ?sls = "update_where q (set_slot_row st now) sls"
  have sls: "set ?sls = set_slot_row st now ` {sl \<in> set sls. q sl} \<union> {sl \<in> set sls. \<not> q sl}"
    by (rule set_update_where)
  have ids: "sl_id ` set ?sls = sl_id ` set sls"
    using map_update_where [of sl_id "set_slot_row st now" q sls]
    by (metis list.set_map set_slot_row_sel(1))
  have "sl_status sl = SHeld \<longleftrightarrow> (\<exists>h \<in> set hs. live_hold h \<and> h_slot h = sl_id sl)"
    if sl: "sl \<in> set ?sls" for sl
  proof -
    consider r where "r \<in> set sls" "q r" "sl = set_slot_row st now r" | "sl \<in> set sls"
      using sl by (auto simp: sls)
    then show ?thesis
    proof cases
      case 1
      then show ?thesis using q [OF 1(1,2)] consistentD(6) [OF c 1(1)] assms(2) by simp
    qed (rule consistentD(6) [OF c])
  qed
  moreover have "\<forall>h \<in> set hs. live_hold h \<longrightarrow> h_slot h \<in> sl_id ` set ?sls"
    using consistentD(7) [OF c] unfolding ids by blast
  moreover have "distinct (map sl_id ?sls)" using c by (simp add: consistent_def map_update_where)
  ultimately show ?thesis using c by (simp only: consistent_def) blast
qed

text \<open>A new active hold together with the move of its slot to \<open>held\<close>.\<close>

lemma place_consistent:
  assumes c: "consistent hs sls" and row: "hold_check h" "live_hold h"
    and fresh: "h_id h \<notin> h_id ` set hs" "h_key h \<notin> h_key ` set hs"
    and avail: "sl \<in> set sls" "sl_id sl = h_slot h" "sl_status sl = SAvailable"
    and q: "\<And>r. r \<in> set sls \<Longrightarrow> q r \<longleftrightarrow> sl_id r = h_slot h \<and> sl_status r = SAvailable"
  shows "consistent (hs @ [h]) (update_where q (set_slot_row SHeld now) sls)"
proof -
  let ?sls = "update_where q (set_slot_row SHeld now) sls"
  have sls: "set ?sls = set_slot_row SHeld now ` {r \<in> set sls. q r} \<union> {r \<in> set sls. \<not> q r}"
    by (rule set_update_where)
  have ids: "sl_id ` set ?sls = sl_id ` set sls"
    using map_update_where [of sl_id "set_slot_row SHeld now" q sls]
    by (metis list.set_map set_slot_row_sel(1))
  have uniq: "r = sl" if "r \<in> set sls" "sl_id r = h_slot h" for r
    using c avail that unfolding consistent_def by (metis distinct_map inj_onD)
  have free: "\<not> (live_hold g \<and> h_slot g = h_slot h)" if "g \<in> set hs" for g
    using c avail that unfolding consistent_def by (metis slot_status.distinct(1))
  have held: "sl_status r = SHeld \<longleftrightarrow> (\<exists>g \<in> set (hs @ [h]). live_hold g \<and> h_slot g = sl_id r)"
    if r: "r \<in> set ?sls" for r
  proof (cases "sl_id r = h_slot h")
    case True
    have "sl_status r = SHeld"
    proof (rule ccontr)
      assume r': "sl_status r \<noteq> SHeld"
      with r have "r \<in> set sls" "\<not> q r" by (auto simp: sls)
      with uniq True avail(3) q show False by blast
    qed
    with True row show ?thesis by auto
  next
    case False
    then have "r \<in> set sls" using r q by (auto simp: sls)
    with False consistentD(6) [OF c] show ?thesis by auto
  qed
  have "h_slot g \<in> sl_id ` set ?sls" if "g \<in> set (hs @ [h])" "live_hold g" for g
    using that consistentD(7) [OF c] avail(1,2) unfolding ids by (auto intro: rev_image_eqI)
  moreover have "distinct (map h_id (hs @ [h])) \<and> distinct (map h_key (hs @ [h])) \<and> distinct (map sl_id ?sls)"
    using c fresh by (auto simp: consistent_def map_update_where)
  moreover have "\<forall>g \<in> set (hs @ [h]). hold_check g" using consistentD(4) [OF c] row by auto
  moreover have "\<forall>g \<in> set (hs @ [h]). \<forall>g' \<in> set (hs @ [h]).
      live_hold g \<and> live_hold g' \<and> h_slot g = h_slot g' \<longrightarrow> h_id g = h_id g'"
    using consistentD(5) [OF c] free by (metis rotate1.simps(2) set_ConsD set_rotate1)
  ultimately show ?thesis using held by (simp only: consistent_def) blast
qed

section \<open>What the operations write\<close>

definition dead :: "instant \<Rightarrow> uid option \<Rightarrow> hold \<Rightarrow> bool" where
  "dead now slot_id h \<longleftrightarrow> live_hold h \<and> is_expired h now
     \<and> (case slot_id of None \<Rightarrow> True | Some i \<Rightarrow> h_slot h = i)"

lemma set_stale_holds: "set (stale_holds now sid s) = {h \<in> set (holds s). dead now sid h}"
  by (auto simp: stale_holds_def dead_def is_expired_def live_hold_def split: option.splits)

lemma length_stale_holds: "length (stale_holds now sid s) = length (filter (dead now sid) (holds s))"
proof -
  have "(\<lambda>h. h_status h = HActive \<and> h_expires_at h \<le> now
      \<and> (case sid of None \<Rightarrow> True | Some i \<Rightarrow> h_slot h = i)) = dead now sid"
    by (auto simp: dead_def is_expired_def live_hold_def split: option.splits)
  then show ?thesis by (simp add: stale_holds_def)
qed

lemma fold_booking_event:
  "fold (\<lambda>h. booking_event k r (f h) g now) hs s = s\<lparr>booking_events := booking_events s @
     map (\<lambda>h. \<lparr>be_session = g, be_hold = f h, be_kind = k, be_actor = r, be_at = now\<rparr>) hs\<rparr>"
  by (induction hs arbitrary: s) (simp_all add: booking_event_def)

text \<open>The sweep as one write: the dead holds are closed, their slots freed, one event each.\<close>

definition swept :: "instant \<Rightarrow> uid option \<Rightarrow> db \<Rightarrow> db" where
  "swept now sid s = s\<lparr>
     holds := update_where (dead now sid) (close_hold_row HExpired now) (holds s),
     slots := update_where (\<lambda>sl. sl_id sl \<in> h_slot ` {h \<in> set (holds s). dead now sid h} \<and> sl_status sl = SHeld)
                (set_slot_row SAvailable now) (slots s),
     booking_events := booking_events s @
       map (\<lambda>h. \<lparr>be_session = None, be_hold = Some (h_id h), be_kind = Hold_expired,
                 be_actor = System, be_at = now\<rparr>) (stale_holds now sid s)\<rparr>"

lemma expire_state:
  assumes "distinct (map h_id (holds s))"
  shows "snd (expire_active_holds now sid s) = swept now sid s"
proof (cases "stale_holds now sid s = []")
  case True
  then have none: "\<forall>h \<in> set (holds s). \<not> dead now sid h"
    using set_stale_holds [of now sid s] by auto
  then have none': "update_where (dead now sid) (close_hold_row HExpired now) (holds s) = holds s"
    "{h \<in> set (holds s). dead now sid h} = {}"
    by (auto intro: update_where_none)
  with True show ?thesis
    by (simp only: expire_active_holds_def swept_def none') (simp add: update_where_none)
next
  case False
  have same: "h_id h \<in> set (map h_id (stale_holds now sid s)) \<and> h_status h = HActive \<longleftrightarrow> dead now sid h"
    if "h \<in> set (holds s)" for h
  proof
    assume "h_id h \<in> set (map h_id (stale_holds now sid s)) \<and> h_status h = HActive"
    then obtain g where "g \<in> set (holds s)" "dead now sid g" "h_id h = h_id g"
      using set_stale_holds [of now sid s] by auto
    with that assms show "dead now sid h" by (metis distinct_map inj_onD)
  qed (use that set_stale_holds [of now sid s] in \<open>auto simp: dead_def live_hold_def\<close>)
  have slots: "set (map h_slot (stale_holds now sid s)) = h_slot ` {h \<in> set (holds s). dead now sid h}"
    by (simp add: set_stale_holds)
  show ?thesis
    using False update_where_cong [OF same, of "holds s" "\<lambda>h. h" "close_hold_row HExpired now"]
    by (simp add: expire_active_holds_def swept_def Let_def fold_booking_event slots [simplified])
qed

lemma expire_length:
  "length (fst (expire_active_holds now sid s)) = length (filter (dead now sid) (holds s))"
  by (simp add: expire_active_holds_def Let_def length_stale_holds [symmetric])

lemma swept_sel [simp]:
  "next_id (swept now sid s) = next_id s" "tutors (swept now sid s) = tutors s"
  "orders (swept now sid s) = orders s" "sessions (swept now sid s) = sessions s"
  "pay_events (swept now sid s) = pay_events s" "refunds (swept now sid s) = refunds s"
  "history (swept now sid s) = history s" "attendance (swept now sid s) = attendance s"
  "cancellations (swept now sid s) = cancellations s" "reviews (swept now sid s) = reviews s"
  "moderation (swept now sid s) = moderation s" "outbox (swept now sid s) = outbox s"
  "jobs (swept now sid s) = jobs s" "grants (swept now sid s) = grants s"
  "audits (swept now sid s) = audits s"
  by (simp_all add: swept_def)

lemma swept_inv:
  assumes "booking_inv s"
  shows "booking_inv (swept now sid s)"
proof -
  let ?K = "h_slot ` {h \<in> set (holds s). dead now sid h}"
  have "dead now sid h \<longleftrightarrow> live_hold h \<and> h_slot h \<in> ?K" if "h \<in> set (holds s)" for h
  proof
    assume r: "live_hold h \<and> h_slot h \<in> ?K"
    then obtain g where g: "g \<in> set (holds s)" "dead now sid g" "h_slot h = h_slot g" by auto
    then have "h = g" using r one_live_hold [OF assms that] by (auto simp: dead_def)
    with g show "dead now sid h" by simp
  qed (use that in \<open>auto simp: dead_def\<close>)
  with assms have "consistent (holds (swept now sid s)) (slots (swept now sid s))"
    unfolding swept_def by (simp add: booking_inv_def) (rule close_consistent, auto)
  moreover have "\<forall>h \<in> set (holds (swept now sid s)). h_id h < next_id s"
    using assms by (auto simp: swept_def set_update_where booking_inv_def)
  ultimately show ?thesis by (simp add: booking_inv_def)
qed

text \<open>A successful \<open>place_hold\<close>.\<close>

definition new_hold :: "uid \<Rightarrow> uid \<Rightarrow> uid \<Rightarrow> string \<Rightarrow> instant \<Rightarrow> int \<Rightarrow> session_price \<Rightarrow> hold" where
  "new_hold i slot_id student key now d price =
     \<lparr>h_id = i, h_created_at = now, h_updated_at = now, h_slot = slot_id, h_student = student,
      h_status = HActive, h_expires_at = now + d, h_key = key, h_active_slot = Some slot_id,
      h_price = sp_amount price, h_currency = sp_currency price\<rparr>"

lemma new_hold_sel [simp]:
  "h_id (new_hold i sid u key now d p) = i" "h_slot (new_hold i sid u key now d p) = sid"
  "h_student (new_hold i sid u key now d p) = u" "h_status (new_hold i sid u key now d p) = HActive"
  "h_expires_at (new_hold i sid u key now d p) = now + d" "h_key (new_hold i sid u key now d p) = key"
  "h_price (new_hold i sid u key now d p) = sp_amount p"
  "h_currency (new_hold i sid u key now d p) = sp_currency p"
  "h_active_slot (new_hold i sid u key now d p) = Some sid"
  "live_hold (new_hold i sid u key now d p)"
  by (simp_all add: new_hold_def live_hold_def)

definition placed :: "hold \<Rightarrow> instant \<Rightarrow> db \<Rightarrow> db" where
  "placed h now s = s\<lparr>next_id := Suc (next_id s), holds := holds s @ [h],
     slots := update_where (\<lambda>sl. sl_id sl = h_slot h \<and> sl_status sl = SAvailable)
                (set_slot_row SHeld now) (slots s),
     booking_events := booking_events s @ [\<lparr>be_session = None, be_hold = Some (h_id h),
       be_kind = Hold_created, be_actor = Student, be_at = now\<rparr>],
     audits := audits s @ [\<lparr>au_action = Au_hold_created, au_resource = Some (h_id h),
       au_actor = Some (h_student h), au_role = Student\<rparr>]\<rparr>"

lemma place_hold_ok:
  assumes "place_hold t0 slot_id student key now d price s = (Inr h, t)"
  shows "h = new_hold (next_id s) slot_id student key now d price" "t = placed h now s"
    "hold_check h" "key \<notin> h_key ` set (holds s)"
    "\<exists>sl \<in> set (slots s). sl_id sl = slot_id \<and> sl_status sl = SAvailable"
  using assms
  by (auto simp: place_hold_def Let_def new_hold_def placed_def insert_hold_def append_defs
      split: if_splits option.splits)

lemma place_hold_new:
  assumes "place_hold t0 slot_id student key now d price s = (Inr h, t)"
  shows "h \<in> set (holds t) \<and> set (holds s) \<subseteq> set (holds t) \<and> h_key h = key \<and> h_slot h = slot_id
    \<and> h_student h = student \<and> live_hold h"
  using place_hold_ok(1,2) [OF assms] by (auto simp: placed_def)

lemma place_hold_inv:
  assumes inv: "booking_inv s" and run: "place_hold t0 slot_id student key now d price s = (Inr h, t)"
  shows "booking_inv t"
proof -
  note p = place_hold_ok [OF run]
  obtain sl where sl: "sl \<in> set (slots s)" "sl_id sl = slot_id" "sl_status sl = SAvailable"
    using p(5) by blast
  have "consistent (holds s @ [h]) (slots t)"
    unfolding p(2) placed_def using inv p(3,4) sl booking_invD(5) [OF inv]
    by (simp, intro place_consistent [where sl = sl]) (auto simp: booking_inv_def p(1) less_le)
  moreover have "holds t = holds s @ [h]" "next_id t = Suc (next_id s)"
    by (simp_all add: p(2) placed_def)
  ultimately show ?thesis
    using booking_invD(5) [OF inv] p(1) by (auto simp: booking_inv_def less_Suc_eq)
qed

text \<open>How \<open>create_hold\<close> ends when it succeeds: a replay, or a new hold on a freed slot.\<close>

lemma create_hold_ok:
  assumes "create_hold cfg t0 slot_id student k now ttl s = (Inr h, t)"
    and "distinct (map h_id (holds s))"
  shows "strip k \<noteq> [] \<and> length (strip k) \<le> 200 \<and>
    ((t = s \<and> find (\<lambda>h. h_key h = strip k) (holds s) = Some h \<and> h_slot h = slot_id
        \<and> h_student h = student \<and> (h_status h = HConsumed \<or> live_hold h \<and> \<not> is_expired h now))
     \<or> (\<exists>sl price d. find (\<lambda>h. h_key h = strip k) (holds s) = None
          \<and> get_slot_row (swept now (Some slot_id) s) slot_id = Some sl
          \<and> sl_deleted_at sl = None \<and> now < sl_start sl
          \<and> resolve_for_tutor (swept now (Some slot_id) s) (sl_tutor sl) = Inr price
          \<and> place_hold t0 slot_id student (strip k) now d price (swept now (Some slot_id) s) = (Inr h, t)))"
  using assms
  by (auto simp: create_hold_def Let_def run_simps replay_def expire_state live_hold_def
      split: if_splits option.splits)
     (metis hold_status.exhaust)+

lemma create_hold_inv:
  assumes "booking_inv s" "create_hold cfg t0 slot_id student k now ttl s = (Inr h, t)"
  shows "booking_inv t"
  using create_hold_ok [OF assms(2) booking_invD(1) [OF assms(1)]] assms(1)
  by (auto intro: place_hold_inv swept_inv)

text \<open>\<open>release_hold\<close> on an active hold.\<close>

definition released :: "hold \<Rightarrow> role \<Rightarrow> uid option \<Rightarrow> instant \<Rightarrow> db \<Rightarrow> db" where
  "released h r u now s = s\<lparr>
     holds := update_where (\<lambda>g. h_id g = h_id h \<and> h_status g = HActive) (close_hold_row HReleased now) (holds s),
     slots := update_where (\<lambda>sl. sl_id sl = h_slot h \<and> sl_status sl = SHeld)
                (set_slot_row SAvailable now) (slots s),
     booking_events := booking_events s @ [\<lparr>be_session = None, be_hold = Some (h_id h),
       be_kind = Hold_released, be_actor = r, be_at = now\<rparr>],
     audits := audits s @ [\<lparr>au_action = Au_hold_released, au_resource = Some (h_id h),
       au_actor = u, au_role = r\<rparr>]\<rparr>"

lemma release_hold_run:
  "release_hold i r u now s = (case get_hold_row s i of
      None \<Rightarrow> (Inl (TutoringError NotFound), s)
    | Some h \<Rightarrow> if live_hold h then (Inr (close_hold_row HReleased now h), released h r u now s)
                else (Inr h, s))"
  by (auto simp: release_hold_def released_def Let_def append_defs live_hold_def
      split: option.splits dest: find_row_SomeD)

lemma closed_inv:
  assumes inv: "booking_inv s" and h: "h \<in> set (holds s)" "live_hold h"
    and st: "st \<noteq> HActive" "st' \<noteq> SHeld"
  shows "consistent
     (update_where (\<lambda>g. h_id g = h_id h \<and> h_status g = HActive) (close_hold_row st now) (holds s))
     (update_where (\<lambda>sl. sl_id sl = h_slot h \<and> sl_status sl = SHeld) (set_slot_row st' now) (slots s))"
proof (rule close_consistent [where K = "{h_slot h}"])
  fix g assume g: "g \<in> set (holds s)"
  show "h_id g = h_id h \<and> h_status g = HActive \<longleftrightarrow> live_hold g \<and> h_slot g \<in> {h_slot h}"
    using one_live_hold [OF inv g h(1) _ h(2)] booking_invD(1) [OF inv] g h
    by (auto simp: live_hold_def distinct_map dest: inj_onD)
qed (use inv st in \<open>auto simp: booking_inv_def\<close>)

lemma released_inv:
  assumes "booking_inv s" "h \<in> set (holds s)" "live_hold h"
  shows "booking_inv (released h r u now s)"
  using closed_inv [OF assms, of HReleased SAvailable now] booking_invD(5) [OF assms(1)] assms(2)
  by (auto simp: booking_inv_def released_def set_update_where)

lemma release_hold_inv:
  "booking_inv s \<Longrightarrow> booking_inv (snd (release_hold i r u now s))"
  by (auto simp: release_hold_run intro: released_inv split: option.splits dest: find_row_SomeD)

lemma expire_holds_run:
  assumes "booking_inv s"
  shows "expire_holds now s = (length (filter (dead now None) (holds s)),
     if filter (dead now None) (holds s) = [] then s
     else record_audit_event Au_hold_expired_sweep None None System (swept now None s))"
proof -
  obtain e t where e: "expire_active_holds now None s = (e, t)" by fastforce
  have t: "t = swept now None s" using expire_state [OF booking_invD(1) [OF assms], of now None] e by simp
  have n: "length e = length (filter (dead now None) (holds s))" using expire_length [of now None s] e by simp
  have "t = s" if "filter (dead now None) (holds s) = []"
    using e that length_stale_holds [of now None s] by (simp add: expire_active_holds_def)
  moreover have "e = [] \<longleftrightarrow> filter (dead now None) (holds s) = []"
    using n by (metis length_0_conv)
  ultimately show ?thesis by (simp add: expire_holds_def e n t)
qed

lemma expire_holds_inv: "booking_inv s \<Longrightarrow> booking_inv (snd (expire_holds now s))"
  using swept_inv [of s now None] by (simp add: expire_holds_run booking_inv_def record_audit_event_def)

lemma insert_free:
  assumes inv: "booking_inv s"
    and sl: "get_slot_row s slot_id = Some sl" "sl_status sl \<notin> {SBooked, SCancelled, SExpired}"
    and free: "\<forall>h \<in> set (holds s). h_active_slot h \<noteq> Some slot_id"
  shows "sl_status sl = SAvailable
    \<and> count_where (\<lambda>sl. sl_id sl = slot_id \<and> sl_status sl = SAvailable) (slots s) = 1"
proof -
  note mem = find_row_SomeD [OF sl(1)]
  have "sl_status sl \<noteq> SHeld"
  proof
    assume "sl_status sl = SHeld"
    then obtain h where "h \<in> set (holds s)" "live_hold h" "h_slot h = slot_id"
      using held_iff [OF inv, of sl] mem by auto
    then show False using free active_marker [OF booking_invD(4) [OF inv]] by force
  qed
  then have "sl_status sl = SAvailable" using sl(2) by (cases "sl_status sl") auto
  with sl(1) count_where_by_id [OF booking_invD(3) [OF inv], of slot_id "\<lambda>sl. sl_status sl = SAvailable"]
  show ?thesis by simp
qed

text \<open>The third layer (the slot that changed while it was being held) cannot fail on its own.\<close>

lemma place_hold_fails:
  assumes inv: "booking_inv s"
    and sl: "get_slot_row s slot_id = Some sl" "sl_status sl \<notin> {SBooked, SCancelled, SExpired}"
    and run: "place_hold t0 slot_id student key now d price s = (Inl e, t)"
  shows "e = TutoringError HoldConflict \<and> (t = t0 \<or> t = bump s)"
proof (cases "\<forall>h \<in> set (holds s). h_active_slot h \<noteq> Some slot_id")
  case True
  note a = insert_free [OF inv sl True]
  then have "\<exists>sl \<in> set (slots s). sl_id sl = slot_id \<and> sl_status sl = SAvailable"
    using find_row_SomeD [OF sl(1)] by auto
  with run True a show ?thesis
    by (auto simp: place_hold_def Let_def insert_hold_def bump_def split: if_splits option.splits)
next
  case False
  with run show ?thesis by (auto simp: place_hold_def Let_def bump_def split: if_splits)
qed

lemma create_hold_error:
  assumes inv: "booking_inv s"
    and run: "create_hold cfg t0 slot_id student key now ttl s = (Inl e, t)"
  shows "(\<exists>x. e = TutoringError x) \<and> (t = t0 \<or> t = s \<or> t = swept now (Some slot_id) s
            \<or> t = bump (swept now (Some slot_id) s))"
proof (rule ccontr)
  assume c: "\<not> ?thesis"
  let ?s = "swept now (Some slot_id) s"
  have price: "\<exists>x. e = TutoringError x" if "resolve_for_tutor d i = Inl e" for d i e
    using that by (auto simp: resolve_for_tutor_def price_of_def split: option.splits if_splits sum.splits
        elim!: assert_price_paise.elims assert_currency.elims)
  have ttl: "\<exists>x. e = TutoringError x" if "hold_ttl cfg = Inl e" for e
    using that by (auto simp: hold_ttl_def split: if_splits)
  obtain sl d p where "get_slot_row ?s slot_id = Some sl" "sl_status sl \<notin> {SBooked, SCancelled, SExpired}"
      "place_hold t0 slot_id student (strip key) now d p ?s = (Inl e, t)"
    using run c
    by (auto simp: create_hold_def Let_def run_simps replay_def expire_state [OF booking_invD(1) [OF inv]]
        dest: price ttl split: if_splits option.splits)
  from place_hold_fails [OF swept_inv [OF inv] this] c show False by blast
qed

section \<open>Properties\<close>

definition sample_tutor :: tutor where
  "sample_tutor = \<lparr>t_id = 0, t_user = 100, t_display_name = ''A. Rao'', t_headline = None,
     t_experience_years = 7, t_rating_avg = None, t_rating_count = 0, t_verified_identity = True,
     t_verified_credentials = True, t_status = Tutor_active, t_price = 180000, t_currency = ''INR'',
     t_created_at = 0, t_updated_at = 0, t_deleted_at = None\<rparr>"

definition sample_slot :: "uid \<Rightarrow> instant \<Rightarrow> slot" where
  "sample_slot i start = \<lparr>sl_id = i, sl_tutor = 0, sl_start = start, sl_end = start + hours 1,
     sl_tz = ''Asia/Kolkata'', sl_status = SAvailable, sl_updated_at = 0, sl_deleted_at = None\<rparr>"

definition sample_market :: db where
  "sample_market = empty_db\<lparr>next_id := 10, tutors := [sample_tutor],
     slots := [sample_slot 1 (days 3), sample_slot 2 (days 5)]\<rparr>"

definition sample_held :: db where
  "sample_held = snd (create_hold default_settings sample_market 1 200 ''key-1'' 1000 None sample_market)"

definition sample_hold :: hold where
  "sample_hold = new_hold 10 1 200 ''key-1'' 1000 (minutes 10)
     \<lparr>sp_amount = 180000, sp_currency = ''INR'', sp_source = Tutor_profile, sp_tutor = Some 0\<rparr>"

lemma sample_market_inv: "booking_inv sample_market"
  by (simp add: booking_inv_def consistent_def sample_market_def empty_db_def sample_slot_def)

lemma sample_held_run:
  "create_hold default_settings sample_market 1 200 ''key-1'' 1000 None sample_market
     = (Inr sample_hold, sample_held)"
proof -
  have "fst (create_hold default_settings sample_market 1 200 ''key-1'' 1000 None sample_market)
     = Inr sample_hold" by code_simp
  then show ?thesis by (simp add: sample_held_def prod_eq_iff)
qed

lemma sample_held_inv: "booking_inv sample_held"
  by (rule create_hold_inv [OF sample_market_inv sample_held_run])

text \<open>
  Property C12. A hold that \<open>create_hold\<close> places under a new key is active, is the only active hold of
  its slot, carries the price the tutor's row has at that moment and nothing the caller sent, and
  its slot is \<open>held\<close>.
\<close>
theorem create_hold_wins:
  assumes "booking_inv s"
    and "create_hold cfg t0 slot_id student key now ttl s = (Inr h, t)"
    and "strip key \<notin> h_key ` set (holds s)"
  shows "h \<in> set (holds t) \<and> live_hold h \<and> h_slot h = slot_id \<and> h_student h = student
    \<and> h_key h = strip key \<and> now < h_expires_at h
    \<and> (\<exists>sl tu. get_slot_row s slot_id = Some sl \<and> now < sl_start sl
          \<and> get_tutor_row s (sl_tutor sl) = Some tu
          \<and> h_price h = t_price tu \<and> h_currency h = t_currency tu \<and> 0 < h_price h)
    \<and> {g \<in> set (holds t). live_hold g \<and> h_slot g = slot_id} = {h}
    \<and> map_option sl_status (get_slot_row t slot_id) = Some SHeld"
proof -
  have inv: "booking_inv t" by (rule create_hold_inv [OF assms(1,2)])
  let ?s = "swept now (Some slot_id) s"
  have "find (\<lambda>h. h_key h = strip key) (holds s) = None"
    unfolding find_None_iff using assms(3) by (metis image_eqI)
  then obtain sl price d where r: "get_slot_row ?s slot_id = Some sl" "now < sl_start sl"
      "resolve_for_tutor ?s (sl_tutor sl) = Inr price"
      "place_hold t0 slot_id student (strip key) now d price ?s = (Inr h, t)"
    using create_hold_ok [OF assms(2) booking_invD(1) [OF assms(1)]] by (elim conjE disjE exE) simp_all
  note p = place_hold_ok [OF r(4)]
  obtain sl' where sl': "get_slot_row s slot_id = Some sl'" "sl_start sl' = sl_start sl" "sl_tutor sl' = sl_tutor sl"
    using r(1) by (auto simp: swept_def find_row_update split: if_splits)
  obtain tu where tu: "get_tutor_row s (sl_tutor sl) = Some tu" "price_of tu = Inr price"
    using r(3) by (auto simp: resolve_for_tutor_Inr)
  have h: "h \<in> set (holds t)" "live_hold h" "h_slot h = slot_id" by (simp_all add: p(1,2) placed_def)
  have "now < h_expires_at h" using p(3) by (simp add: hold_check_def p(1) new_hold_def)
  moreover have "{g \<in> set (holds t). live_hold g \<and> h_slot g = slot_id} = {h}"
  proof -
    have "g = h" if "g \<in> set (holds t)" "live_hold g" "h_slot g = slot_id" for g
      by (rule one_live_hold [OF inv that(1) h(1) that(2) h(2)]) (simp add: that(3) h(3))
    then show ?thesis using h by blast
  qed
  moreover have "map_option sl_status (get_slot_row t slot_id) = Some SHeld"
    using live_hold_slot [OF inv h(1,2)] h(3) by auto
  ultimately show ?thesis using h sl' tu r(2) p(1) by (auto simp: price_of_Inr)
qed

theorem create_hold_wins_witness:
  "{g \<in> set (holds sample_held). live_hold g \<and> h_slot g = 1} = {sample_hold}"
  using create_hold_wins [OF sample_market_inv sample_held_run]
  by (simp add: sample_market_def empty_db_def)






text \<open>
  A refused \<open>create_hold\<close> ends in a typed error, never in a database error, and takes
  nothing: no new hold exists, no slot is held for it, and the only trace is the sweep of the slot's
  timed-out hold (or the whole transaction is rolled back).
\<close>
theorem create_hold_refusal:
  assumes "booking_inv s" and "create_hold cfg t0 slot_id student key now ttl s = (Inl e, t)"
  shows "(\<exists>x. e = TutoringError x) \<and>
    (t = t0 \<or> (holds t = holds s \<and> slots t = slots s)
     \<or> (holds t = holds (swept now (Some slot_id) s) \<and> slots t = slots (swept now (Some slot_id) s)))"
  using create_hold_error [OF assms] by (auto simp: bump_def)

theorem create_hold_refusal_witness:
  "slots (snd (create_hold default_settings sample_market 1 200 ''key-9'' (days 4) None sample_market))
     = slots sample_market"
proof -
  let ?r = "create_hold default_settings sample_market 1 200 ''key-9'' (days 4) None sample_market"
  have f: "fst ?r = Inl (TutoringError SlotUnavailable)" by code_simp
  have "?r = (Inl (TutoringError SlotUnavailable), snd ?r)"
    by (rule prod_eqI) (simp_all only: f fst_conv snd_conv)
  from create_hold_refusal [OF sample_market_inv this]
  show ?thesis by (auto simp: swept_def sample_market_def empty_db_def)
qed

text \<open>
  The sweeper is complete, exact and idempotent: it closes the holds whose time is up and
  counts them, leaves every other hold alone, puts their slots back to \<open>available\<close>, and a second
  pass at the same instant finds nothing and changes nothing.
\<close>
theorem expire_holds_complete:
  assumes "booking_inv s" and "expire_holds now s = (n, t)"
  shows "n = length (filter (\<lambda>h. live_hold h \<and> h_expires_at h \<le> now) (holds s))
    \<and> holds t = map (\<lambda>h. if live_hold h \<and> h_expires_at h \<le> now then close_hold_row HExpired now h else h) (holds s)
    \<and> (\<forall>h \<in> set (holds s). live_hold h \<and> h_expires_at h \<le> now \<longrightarrow>
         map_option sl_status (get_slot_row t (h_slot h)) = Some SAvailable)
    \<and> expire_holds now t = (0, t)"
proof -
  have dd: "dead now None = (\<lambda>h. live_hold h \<and> h_expires_at h \<le> now)"
    by (auto simp: dead_def is_expired_def)
  note run = expire_holds_run [OF assms(1), of now]
  have n: "n = length (filter (dead now None) (holds s))" using assms(2) run by simp
  have hs: "holds t = update_where (dead now None) (close_hold_row HExpired now) (holds s)"
    using assms(2) run
    by (cases "filter (dead now None) (holds s) = []")
       (auto simp: swept_def record_audit_event_def filter_empty_conv intro!: update_where_none [symmetric])
  have "\<not> dead now None h" if "h \<in> set (holds t)" for h
    using that by (auto simp: hs set_update_where dead_def)
  then have "filter (dead now None) (holds t) = []" by (simp add: filter_empty_conv)
  moreover have "booking_inv t" using expire_holds_inv [OF assms(1), of now] assms(2) by simp
  ultimately have again: "expire_holds now t = (0, t)" by (simp add: expire_holds_run)
  have "map_option sl_status (get_slot_row t (h_slot h)) = Some SAvailable"
    if h: "h \<in> set (holds s)" "dead now None h" for h
  proof -
    obtain sl where sl: "get_slot_row s (h_slot h) = Some sl" "sl_id sl = h_slot h" "sl_status sl = SHeld"
      using live_hold_slot [OF assms(1) h(1)] h(2) by (auto simp: dead_def)
    have "filter (dead now None) (holds s) \<noteq> []" using h by (auto simp: filter_empty_conv)
    then have "slots t = slots (swept now None s)" using assms(2) run by (auto simp: record_audit_event_def)
    with sl h show ?thesis by (auto simp: swept_def find_row_update)
  qed
  then show ?thesis using n hs again by (simp add: dd update_where_def)
qed

theorem expire_holds_complete_witness:
  "fst (expire_holds (minutes 11) sample_held) = 1
    \<and> expire_holds (minutes 11) (snd (expire_holds (minutes 11) sample_held))
        = (0, snd (expire_holds (minutes 11) sample_held))"
proof -
  let ?r = "expire_holds (minutes 11) sample_held"
  have "fst ?r = 1" by code_simp
  with expire_holds_complete [OF sample_held_inv prod.collapse [symmetric], of "minutes 11"]
  show ?thesis by blast
qed

text \<open>
  Releasing a hold is idempotent: it never leaves the hold active, the answer is the row
  as stored, the slot of a hold that was active is \<open>available\<close> again, and a second release (by
  anybody, at any time) returns the same row and writes nothing.
\<close>
theorem release_hold_idempotent:
  assumes "booking_inv s" and "release_hold i r u now s = (Inr h, t)"
  shows "\<not> live_hold h \<and> get_hold_row t i = Some h
    \<and> (\<forall>g. get_hold_row s i = Some g \<and> live_hold g \<longrightarrow>
          map_option sl_status (get_slot_row t (h_slot g)) = Some SAvailable)
    \<and> release_hold i r' u' now' t = (Inr h, t)"
proof -
  obtain g where g: "get_hold_row s i = Some g"
    using assms(2) by (auto simp: release_hold_run split: option.splits)
  note mem = find_row_SomeD [OF g]
  show ?thesis
  proof (cases "live_hold g")
    case True
    then have t: "h = close_hold_row HReleased now g" "t = released g r u now s"
      using assms(2) g by (auto simp: release_hold_run)
    have "get_hold_row t i = Some h"
      using g mem True by (simp add: t released_def find_row_update live_hold_def)
    moreover have "map_option sl_status (get_slot_row t (h_slot g)) = Some SAvailable"
      using live_hold_slot [OF assms(1)] mem True by (fastforce simp: t released_def find_row_update)
    ultimately show ?thesis using g by (simp add: release_hold_run t(1))
  next
    case False
    then show ?thesis using assms(2) g by (auto simp: release_hold_run)
  qed
qed

theorem release_hold_idempotent_witness:
  "release_hold 10 Admin None 9000 (snd (release_hold 10 Student (Some 200) 2000 sample_held))
     = (Inr (close_hold_row HReleased 2000 sample_hold), snd (release_hold 10 Student (Some 200) 2000 sample_held))"
proof -
  let ?r = "release_hold 10 Student (Some 200) 2000 sample_held"
  have "fst ?r = Inr (close_hold_row HReleased 2000 sample_hold)" by code_simp
  then have "?r = (Inr (close_hold_row HReleased 2000 sample_hold), snd ?r)" by (simp add: prod_eq_iff)
  from release_hold_idempotent [OF sample_held_inv this] show ?thesis by blast
qed

text \<open>
  Reading a hold leaks nothing and never yields a dead one: for a student it is the
  owner's row or the very answer a missing id gives, and a live read refuses a hold that is not
  active or whose time is up. A read writes nothing.
\<close>
theorem get_hold_scoped:
  "snd (get_hold i u now live s) = s
   \<and> (\<forall>h v. u = Some v \<and> get_hold_row s i = Some h \<and> h_student h \<noteq> v \<longrightarrow>
        fst (get_hold i u now live s) = fst (get_hold i u now live (s\<lparr>holds := []\<rparr>)))
   \<and> (\<forall>h. fst (get_hold i u now live s) = Inr h \<longrightarrow> h \<in> set (holds s) \<and> h_id h = i
        \<and> (u = None \<or> u = Some (h_student h)) \<and> (live \<longrightarrow> live_hold h \<and> now < h_expires_at h))"
  by (auto simp: get_hold_def live_hold_def is_expired_def split: option.splits if_splits
      dest: find_row_SomeD)

theorem get_hold_scoped_witness:
  "fst (get_hold 10 (Some 201) 2000 True sample_held)
     = fst (get_hold 10 (Some 201) 2000 True (sample_held\<lparr>holds := []\<rparr>))"
proof -
  have "get_hold_row sample_held 10 = Some sample_hold" "h_student sample_hold \<noteq> 201" by code_simp+
  with get_hold_scoped [of 10 "Some 201" 2000 True sample_held] show ?thesis by blast
qed

end
