(* ===== verification/Outbox.thy ===== *)
theory Outbox
  imports Schema
begin

text \<open>
  The durable transactional outbox (\<open>services/tutoring/outbox_relay.py\<close>): the privacy guard on
  payloads, the enqueue that shares the caller's transaction, the claim by compare-and-swap, the
  delivery of one intent and the relay pass. A dispatcher may keep a state of its own (\<open>'w\<close>), which
  is threaded through; \<open>capturing_dispatch\<close> is the in-memory dispatcher of the code.
\<close>

section \<open>Privacy guard\<close>

definition forbidden_payload_keys :: "string list" where
  "forbidden_payload_keys =
    [''pan'', ''card_number'', ''cardnumber'', ''cvv'', ''cvc'', ''otp'', ''payment_otp'',
     ''token'', ''raw_token'', ''join_token'', ''jointoken'', ''access_token'',
     ''secret'', ''provider_secret'', ''api_key'', ''password'', ''authorization'',
     ''sdp'', ''ice'', ''ice_candidate'', ''candidate'', ''media'', ''device_label'',
     ''narrative'', ''private_narrative'', ''email'', ''phone'', ''mobile'',
     ''address'', ''dob'', ''aadhaar'', ''raw_body'']"

definition lower_char :: "char \<Rightarrow> char" where
  "lower_char c = (let n = (of_char c :: nat) in
     if (65 \<le> n \<and> n \<le> 90) \<or> (192 \<le> n \<and> n \<le> 222 \<and> n \<noteq> 215) then char_of (n + 32) else c)"

definition lower :: "string \<Rightarrow> string" where
  "lower = map lower_char"

text \<open>\<open>str(key).strip().lower().replace("-", "_")\<close>\<close>

definition key_norm :: "string \<Rightarrow> string" where
  "key_norm k = map (\<lambda>c. if c = CHR ''-'' then CHR ''_'' else c) (lower (strip k))"

definition is_digit :: "char \<Rightarrow> bool" where
  "is_digit c \<longleftrightarrow> c \<in> set ''0123456789''"

definition is_hex :: "char \<Rightarrow> bool" where
  "is_hex c \<longleftrightarrow> c \<in> set ''0123456789abcdefABCDEF''"

text \<open>\<open>_JOIN_TOKEN_RE.match\<close>: \<open>^(join_|eyJ)\<close>.\<close>

definition join_token_like :: "string \<Rightarrow> bool" where
  "join_token_like s \<longleftrightarrow> take 5 s = ''join_'' \<or> take 3 s = ''eyJ''"

text \<open>
  \<open>_PAN_LIKE_RE.search\<close>: \<open>(?:\d[ -]?){13,19}\<close>. From one position the longest run of units (a digit
  and at most one blank or dash) is unique, so the pattern is found where such a run has at least
  13 units.
\<close>

fun pan_units :: "string \<Rightarrow> nat" where
  "pan_units [] = 0"
| "pan_units [c] = (if is_digit c then 1 else 0)"
| "pan_units (c # d # cs) =
     (if is_digit c then Suc (if d = CHR '' '' \<or> d = CHR ''-'' then pan_units cs else pan_units (d # cs))
      else 0)"

fun pan_like :: "string \<Rightarrow> bool" where
  "pan_like [] = False"
| "pan_like (c # cs) = (13 \<le> pan_units (c # cs) \<or> pan_like cs)"

text \<open>\<open>_EXEMPT_VALUE_RE.match\<close>: a UUID, or an ISO date with an optional time part. \<open>$\<close> also matches
  before a final newline, and \<open>.\<close> matches no newline.\<close>

fun match_shape :: "(char \<Rightarrow> bool) list \<Rightarrow> string \<Rightarrow> string option" where
  "match_shape [] s = Some s"
| "match_shape (p # ps) [] = None"
| "match_shape (p # ps) (c # cs) = (if p c then match_shape ps cs else None)"

definition newline :: char where "newline = char_of (10 :: nat)"

definition at_end :: "string \<Rightarrow> bool" where
  "at_end s \<longleftrightarrow> s = [] \<or> s = [newline]"

definition dots_to_end :: "string \<Rightarrow> bool" where
  "dots_to_end s \<longleftrightarrow> newline \<notin> set (if s \<noteq> [] \<and> last s = newline then butlast s else s)"

definition dash :: "char \<Rightarrow> bool" where "dash c \<longleftrightarrow> c = CHR ''-''"

definition uuid_shape :: "(char \<Rightarrow> bool) list" where
  "uuid_shape = replicate 8 is_hex @ [dash] @ replicate 4 is_hex @ [dash] @ replicate 4 is_hex
     @ [dash] @ replicate 4 is_hex @ [dash] @ replicate 12 is_hex"

definition date_shape :: "(char \<Rightarrow> bool) list" where
  "date_shape = replicate 4 is_digit @ [dash] @ replicate 2 is_digit @ [dash] @ replicate 2 is_digit"

definition exempt_value :: "string \<Rightarrow> bool" where
  "exempt_value s \<longleftrightarrow>
     (case match_shape uuid_shape s of Some r \<Rightarrow> at_end r | None \<Rightarrow> False)
     \<or> (case match_shape date_shape s of
          None \<Rightarrow> False
        | Some r \<Rightarrow> at_end r \<or> (case r of [] \<Rightarrow> False | c # cs \<Rightarrow> (c = CHR ''T'' \<or> c = CHR '' '') \<and> dots_to_end cs))"

definition string_safe :: "string \<Rightarrow> bool" where
  "string_safe s \<longleftrightarrow>
     exempt_value s \<or> \<not> (join_token_like s \<or> pan_like (filter (\<lambda>c. c \<noteq> CHR '':'') s))"

text \<open>\<open>assert_payload_safe\<close>: the nested \<open>walk\<close>; \<open>False\<close> is the \<open>ValidationError\<close> it raises.\<close>

fun payload_safe :: "json \<Rightarrow> bool" and values_safe :: "json list \<Rightarrow> bool"
    and entries_safe :: "(string \<times> json) list \<Rightarrow> bool" where
  "payload_safe (JObj kvs) = entries_safe kvs"
| "payload_safe (JList vs) = values_safe vs"
| "payload_safe (JStr t) = string_safe t"
| "payload_safe JNull = True"
| "payload_safe (JBool b) = True"
| "payload_safe (JInt i) = True"
| "payload_safe (JUuid u) = True"
| "payload_safe (JInstant t) = True"
| "values_safe [] = True"
| "values_safe (v # vs) = (payload_safe v \<and> values_safe vs)"
| "entries_safe [] = True"
| "entries_safe ((k, v) # kvs) =
     (key_norm k \<notin> set forbidden_payload_keys \<and> payload_safe v \<and> entries_safe kvs)"

section \<open>Enqueue\<close>

type_synonym outbox_intent = "uid \<times> outbox_kind"

definition enqueue :: "outbox_kind \<Rightarrow> uid \<Rightarrow> json \<Rightarrow> instant \<Rightarrow> db \<Rightarrow> outbox_intent run" where
  "enqueue k agg payload now s =
     (if \<not> payload_safe payload then raise ValidationError s
      else let i = next_id s in
        ok (i, k)
          (bump s\<lparr>outbox := outbox s @
             [\<lparr>ob_id = i, ob_kind = k, ob_aggregate = agg, ob_payload = payload,
               ob_status = XPending, ob_attempts = 0, ob_last_error = None,
               ob_delivered_at = None, ob_created_at = now\<rparr>]\<rparr>))"

definition outboxed :: "outbox_kind \<Rightarrow> uid \<Rightarrow> json \<Rightarrow> instant \<Rightarrow> db \<Rightarrow> db" where
  "outboxed k agg payload now s = s\<lparr>next_id := Suc (next_id s), outbox := outbox s @
     [\<lparr>ob_id = next_id s, ob_kind = k, ob_aggregate = agg, ob_payload = payload,
       ob_status = XPending, ob_attempts = 0, ob_last_error = None,
       ob_delivered_at = None, ob_created_at = now\<rparr>]\<rparr>"

lemma enqueue_safe:
  "payload_safe payload \<Longrightarrow> enqueue k agg payload now s = (Inr (next_id s, k), outboxed k agg payload now s)"
  by (simp add: enqueue_def outboxed_def bump_def Let_def)

lemma outboxed_sel [simp]:
  "core (outboxed k agg payload now s) = core s" "jobs (outboxed k agg payload now s) = jobs s"
  "next_id (outboxed k agg payload now s) = Suc (next_id s)"
  "history (outboxed k agg payload now s) = history s"
  by (simp_all add: outboxed_def)

lemma enqueue_ok:
  "enqueue k agg payload now s = (Inr i, t) \<Longrightarrow>
     payload_safe payload \<and> i = (next_id s, k) \<and> t = outboxed k agg payload now s"
  by (auto simp: enqueue_def outboxed_def bump_def Let_def split: if_splits)

section \<open>Dispatch\<close>

text \<open>The exception a dispatcher raises: its \<open>code\<close> attribute if it has one, its class name, and
  its \<open>retryable\<close> attribute if it has one.\<close>

datatype dispatch_exn =
  DispatchExn (dx_code: "string option") (dx_type: string) (dx_retryable: "bool option")

type_synonym 'w dispatcher = "outbox_kind \<Rightarrow> uid \<Rightarrow> json \<Rightarrow> 'w \<Rightarrow> dispatch_exn option \<times> 'w"

definition exn_retryable :: "dispatch_exn \<Rightarrow> bool" where
  "exn_retryable e = (case dx_retryable e of None \<Rightarrow> True | Some b \<Rightarrow> b)"

definition code_char :: "char \<Rightarrow> bool" where
  "code_char c \<longleftrightarrow> c \<in> set ''abcdefghijklmnopqrstuvwxyz0123456789_''"

text \<open>\<open>_CODE_RE.sub("_", s)\<close>: every maximal run of other characters becomes one underscore.\<close>

fun sub_runs :: "bool \<Rightarrow> string \<Rightarrow> string" where
  "sub_runs in_run [] = []"
| "sub_runs in_run (c # cs) =
     (if code_char c then c # sub_runs False cs
      else if in_run then sub_runs True cs else CHR ''_'' # sub_runs True cs)"

definition strip_underscores :: "string \<Rightarrow> string" where
  "strip_underscores s =
     (let d = dropWhile (\<lambda>c. c = CHR ''_'') in rev (d (rev (d s))))"

definition error_code :: "dispatch_exn \<Rightarrow> string" where
  "error_code e =
     (let raw = (case dx_code e of Some c \<Rightarrow> if c = [] then dx_type e else c | None \<Rightarrow> dx_type e);
          c = strip_underscores (sub_runs False (lower (strip raw)))
      in take 64 (if c = [] then ''dispatch_failed'' else c))"

text \<open>\<open>CapturingDispatcher\<close>\<close>

record capture =
  delivered :: "(outbox_kind \<times> uid \<times> json) list"
  fail_times :: int
  capture_retryable :: bool
  capture_attempts :: int

definition capturing_dispatch :: "capture dispatcher" where
  "capturing_dispatch k agg payload w =
     (let w1 = w\<lparr>capture_attempts := capture_attempts w + 1\<rparr> in
      if 0 < fail_times w1
      then (Some (DispatchExn (Some ''transient'') ''OutboxDispatchError'' (Some (capture_retryable w1))),
            w1\<lparr>fail_times := fail_times w1 - 1\<rparr>)
      else (None, w1\<lparr>delivered := delivered w1 @ [(k, agg, payload)]\<rparr>))"

text \<open>\<open>NullDispatcher\<close>\<close>

definition null_dispatch :: "unit dispatcher" where
  "null_dispatch k agg payload w = (None, w)"

section \<open>Delivery\<close>

definition claimable :: "outbox_row \<Rightarrow> bool" where
  "claimable r \<longleftrightarrow> ob_status r = XPending \<or> ob_status r = XFailed"

text \<open>\<open>_claim\<close>: one attempt on a row, by compare-and-swap on its attempt count.\<close>

definition claim :: "uid \<Rightarrow> int \<Rightarrow> db \<Rightarrow> bool \<times> db" where
  "claim i seen s =
     (let p = (\<lambda>r. ob_id r = i \<and> (claimable r \<and> ob_attempts r = seen)) in
      (count_where p (outbox s) = 1,
       s\<lparr>outbox := update_where p (\<lambda>r. r\<lparr>ob_attempts := seen + 1\<rparr>) (outbox s)\<rparr>))"

text \<open>\<open>_finish\<close>\<close>

definition finish :: "uid \<Rightarrow> outbox_status \<Rightarrow> string option \<Rightarrow> instant \<Rightarrow> db \<Rightarrow> db" where
  "finish i st err now s =
     s\<lparr>outbox := update_where (\<lambda>r. ob_id r = i)
        (\<lambda>r. r\<lparr>ob_status := st,
               ob_last_error := (case err of Some e \<Rightarrow> if e = [] then None else Some (take 200 e) | None \<Rightarrow> None),
               ob_delivered_at := (if st = XSent then Some now else None)\<rparr>) (outbox s)\<rparr>"

definition run_delivery ::
    "'w dispatcher \<Rightarrow> int \<Rightarrow> instant \<Rightarrow> outbox_intent \<Rightarrow> db \<times> 'w \<Rightarrow> bool \<times> db \<times> 'w" where
  "run_delivery disp limit now intent = (\<lambda>(s, w).
     (case get_outbox_row s (fst intent) of
        None \<Rightarrow> (False, s, w)
      | Some row \<Rightarrow>
         if ob_status row = XVoid then (False, s, w)
         else if ob_status row = XSent then (True, s, w)
         else let seen = ob_attempts row; (won, s1) = claim (ob_id row) seen s in
           if \<not> won then (False, s1, w)
           else (case disp (ob_kind row) (ob_aggregate row) (ob_payload row) w of
               (Some e, w1) \<Rightarrow>
                 (False,
                  finish (fst intent) (if exn_retryable e \<and> \<not> seen + 1 \<ge> limit then XFailed else XVoid)
                    (Some (error_code e)) now s1, w1)
             | (None, w1) \<Rightarrow> (True, finish (fst intent) XSent None now s1, w1))))"

section \<open>The relay\<close>

record relay_report =
  rr_claimed :: nat
  rr_sent :: nat
  rr_failed :: nat
  rr_dead :: nat
  rr_skipped :: nat

definition empty_report :: relay_report where
  "empty_report = \<lparr>rr_claimed = 0, rr_sent = 0, rr_failed = 0, rr_dead = 0, rr_skipped = 0\<rparr>"

text \<open>\<open>pending_rows\<close>: retryable rows, oldest first, the id breaking ties.\<close>

definition pending_rows :: "nat \<Rightarrow> outbox_kind list option \<Rightarrow> db \<Rightarrow> outbox_row list" where
  "pending_rows lim kinds s =
     take lim (sort_key (\<lambda>r. (ob_created_at r, ob_id r))
       (filter (\<lambda>r. claimable r \<and> (case kinds of None \<Rightarrow> True | Some ks \<Rightarrow> ks = [] \<or> ob_kind r \<in> set ks))
         (outbox s)))"

text \<open>One round of the loop of \<open>relay_pending\<close>, on a row as it was read.\<close>

definition relay_row ::
    "'w dispatcher \<Rightarrow> int \<Rightarrow> instant \<Rightarrow> outbox_row \<Rightarrow> relay_report \<times> db \<times> 'w \<Rightarrow> relay_report \<times> db \<times> 'w" where
  "relay_row disp limit now row = (\<lambda>(rep, s, w).
     (let seen = ob_attempts row in
      if limit \<le> seen
      then (rep\<lparr>rr_dead := rr_dead rep + 1\<rparr>,
            finish (ob_id row) XVoid (Some ''attempts_exhausted'') now s, w)
      else let (won, s1) = claim (ob_id row) seen s in
        if \<not> won then (rep\<lparr>rr_skipped := rr_skipped rep + 1\<rparr>, s1, w)
        else let rep1 = rep\<lparr>rr_claimed := rr_claimed rep + 1\<rparr> in
          (case disp (ob_kind row) (ob_aggregate row) (ob_payload row) w of
             (Some e, w1) \<Rightarrow>
               if exn_retryable e \<and> \<not> seen + 1 \<ge> limit
               then (rep1\<lparr>rr_failed := rr_failed rep1 + 1\<rparr>,
                     finish (ob_id row) XFailed (Some (error_code e)) now s1, w1)
               else (rep1\<lparr>rr_dead := rr_dead rep1 + 1\<rparr>,
                     finish (ob_id row) XVoid (Some (error_code e)) now s1, w1)
           | (None, w1) \<Rightarrow>
               (rep1\<lparr>rr_sent := rr_sent rep1 + 1\<rparr>, finish (ob_id row) XSent None now s1, w1))))"

definition relay_pending ::
    "'w dispatcher \<Rightarrow> nat \<Rightarrow> int \<Rightarrow> instant \<Rightarrow> outbox_kind list option \<Rightarrow> db \<times> 'w \<Rightarrow> relay_report \<times> db \<times> 'w" where
  "relay_pending disp lim limit now kinds = (\<lambda>(s, w).
     fold (relay_row disp limit now) (pending_rows lim kinds s) (empty_report, s, w))"

section \<open>Lemmas: one row at a time\<close>

definition outbox_ids :: "db \<Rightarrow> bool" where
  "outbox_ids s \<longleftrightarrow> distinct (map ob_id (outbox s))"

definition ob_stat :: "db \<Rightarrow> uid \<Rightarrow> outbox_status option" where
  "ob_stat s i = map_option ob_status (get_outbox_row s i)"

lemma claim_won_iff:
  assumes "outbox_ids s"
  shows "fst (claim i seen s) \<longleftrightarrow>
    (\<exists>r. get_outbox_row s i = Some r \<and> claimable r \<and> ob_attempts r = seen)"
  unfolding claim_def Let_def
  using count_where_by_id [of ob_id "outbox s" i "\<lambda>r. claimable r \<and> ob_attempts r = seen"] assms
  by (auto simp: outbox_ids_def split: option.splits)

lemma claim_ids [simp]: "map ob_id (outbox (snd (claim i seen s))) = map ob_id (outbox s)"
  by (simp add: claim_def Let_def map_update_where)

lemma finish_ids [simp]: "map ob_id (outbox (finish i st err now s)) = map ob_id (outbox s)"
  by (simp add: finish_def map_update_where)

lemma claim_row:
  "get_outbox_row (snd (claim i seen s)) j = map_option
     (\<lambda>r. if ob_id r = i \<and> claimable r \<and> ob_attempts r = seen then r\<lparr>ob_attempts := seen + 1\<rparr> else r)
     (get_outbox_row s j)"
  by (simp add: claim_def Let_def find_row_update)

lemma finish_row:
  "get_outbox_row (finish i st err now s) j = map_option
     (\<lambda>r. if ob_id r = i
          then r\<lparr>ob_status := st,
                 ob_last_error := (case err of Some e \<Rightarrow> if e = [] then None else Some (take 200 e) | None \<Rightarrow> None),
                 ob_delivered_at := (if st = XSent then Some now else None)\<rparr> else r)
     (get_outbox_row s j)"
  by (simp add: finish_def find_row_update)

text \<open>The claim is an optimistic write on the attempt count of a claimable row.\<close>

definition claim_ver :: "db \<Rightarrow> uid \<Rightarrow> int option" where
  "claim_ver s i = (case get_outbox_row s i of
     Some r \<Rightarrow> if claimable r then Some (ob_attempts r) else None | None \<Rightarrow> None)"

definition claim_cas :: "uid \<Rightarrow> int \<Rightarrow> unit \<Rightarrow> db \<Rightarrow> (unit + unit) \<times> db" where
  "claim_cas i seen v s = (let (won, t) = claim i seen s in (if won then Inr () else Inl (), t))"

lemma claim_lost_same:
  assumes "outbox_ids s" and "\<not> fst (claim i seen s)"
  shows "snd (claim i seen s) = s"
proof -
  have "\<forall>r \<in> set (outbox s). \<not> (ob_id r = i \<and> claimable r \<and> ob_attempts r = seen)"
    using assms claim_won_iff [OF assms(1), of i seen]
    by (auto simp: outbox_ids_def find_row_Some_iff)
  then show ?thesis by (simp add: claim_def Let_def update_where_none)
qed

interpretation outbox_claim: versioned_write outbox_ids claim_ver claim_cas "()"
proof
  fix s t :: db and k n v and x :: unit
  assume s: "outbox_ids s" and c: "claim_cas k n v s = (Inr x, t)"
  have t: "t = snd (claim k n s)" and w: "fst (claim k n s)"
    using c by (auto simp: claim_cas_def split: prod.splits if_splits)
  obtain r where r: "get_outbox_row s k = Some r" "claimable r" "ob_attempts r = n"
    using w claim_won_iff [OF s] by auto
  have k: "ob_id r = k" using find_row_SomeD [OF r(1)] by simp
  show "outbox_ids t" using s by (simp add: t outbox_ids_def)
  show "claim_ver s k = Some n" using r by (simp add: claim_ver_def)
  show "claim_ver t k = Some (n + 1)"
    using r k by (auto simp: t claim_row claim_ver_def claimable_def)
  show "claim_ver t k' = claim_ver s k'" if "k' \<noteq> k" for k'
    using that by (auto simp: t claim_row claim_ver_def dest: find_row_SomeD split: option.splits)
next
  fix s :: db and k n v
  assume s: "outbox_ids s" and "claim_ver s k \<noteq> Some n"
  then have "\<not> fst (claim k n s)"
    by (auto simp: claim_won_iff claim_ver_def split: option.splits)
  with claim_lost_same [OF s this] show "claim_cas k n v s = (Inl (), s)"
    by (auto simp: claim_cas_def split: prod.splits)
qed

text \<open>A round of the relay touches its own row only, and leaves it sent, dead or with one attempt more.\<close>

lemma relay_row_frame:
  assumes "relay_row disp limit now r (rep, s, w) = (rep', s', w')"
  shows "map ob_id (outbox s') = map ob_id (outbox s)"
    and "j \<noteq> ob_id r \<Longrightarrow> get_outbox_row s' j = get_outbox_row s j"
proof -
  obtain won s1 where cl: "claim (ob_id r) (ob_attempts r) s = (won, s1)" by fastforce
  have ids: "map ob_id (outbox s1) = map ob_id (outbox s)" using claim_ids cl by (metis snd_conv)
  have fin: "get_outbox_row (finish (ob_id r) st err now u) j = get_outbox_row u j"
    if "j \<noteq> ob_id r" for st err u
    using that by (cases "get_outbox_row u j") (auto simp: finish_row dest: find_row_SomeD)
  have c1: "get_outbox_row s1 j = get_outbox_row s j" if "j \<noteq> ob_id r"
    using claim_row [where i = "ob_id r" and seen = "ob_attempts r" and s = s and j = j] that cl
    by (cases "get_outbox_row s j") (auto dest: find_row_SomeD)
  show "map ob_id (outbox s') = map ob_id (outbox s)"
    using assms cl ids by (auto simp: relay_row_def Let_def split: if_splits prod.splits option.splits)
  show "j \<noteq> ob_id r \<Longrightarrow> get_outbox_row s' j = get_outbox_row s j"
    using assms cl c1 fin
    by (auto simp: relay_row_def Let_def split: if_splits prod.splits option.splits)
qed

lemma relay_row_own:
  assumes "outbox_ids s" and "get_outbox_row s (ob_id r) = Some r" and "claimable r"
    and "relay_row disp limit now r (rep, s, w) = (rep', s', w')"
  shows "\<exists>r'. get_outbox_row s' (ob_id r) = Some r' \<and>
    (\<not> claimable r' \<or> (ob_attempts r' = ob_attempts r + 1 \<and> ob_attempts r' < limit))"
proof -
  obtain won s1 where cl: "claim (ob_id r) (ob_attempts r) s = (won, s1)" by fastforce
  have won: "won" using claim_won_iff [OF assms(1), of "ob_id r" "ob_attempts r"] assms(2,3) cl by auto
  have r1: "get_outbox_row s1 (ob_id r) = Some (r\<lparr>ob_attempts := ob_attempts r + 1\<rparr>)"
    using claim_row [where i = "ob_id r" and seen = "ob_attempts r" and s = s and j = "ob_id r"] assms(2,3) cl by simp
  show ?thesis
    using assms(2,4) cl won r1
    by (auto simp: relay_row_def Let_def finish_row claimable_def split: if_splits prod.splits option.splits)
qed

text \<open>The accounting of one round with the in-memory dispatcher.\<close>

lemma relay_row_capture:
  assumes "outbox_ids s" and "get_outbox_row s (ob_id r) = Some r" and "claimable r"
    and "relay_row capturing_dispatch limit now r (rep, s, w) = (rep', s', w')"
  shows "if ob_stat s' (ob_id r) = Some XSent
         then delivered w' = delivered w @ [(ob_kind r, ob_aggregate r, ob_payload r)]
              \<and> rr_sent rep' = rr_sent rep + 1
         else delivered w' = delivered w \<and> rr_sent rep' = rr_sent rep"
proof -
  obtain won s1 where cl: "claim (ob_id r) (ob_attempts r) s = (won, s1)" by fastforce
  have won: "won" using claim_won_iff [OF assms(1), of "ob_id r" "ob_attempts r"] assms(2,3) cl by auto
  have r1: "get_outbox_row s1 (ob_id r) = Some (r\<lparr>ob_attempts := ob_attempts r + 1\<rparr>)"
    using claim_row [where i = "ob_id r" and seen = "ob_attempts r" and s = s and j = "ob_id r"] assms(2,3) cl by simp
  show ?thesis
    using assms(2,4) cl won r1
    by (auto simp: relay_row_def Let_def finish_row ob_stat_def capturing_dispatch_def
        split: if_splits)
qed

section \<open>Lemmas: a relay pass\<close>

lemma relay_fold_frame:
  assumes "fold (relay_row disp limit now) rows (rep, s, w) = (rep', s', w')"
  shows "map ob_id (outbox s') = map ob_id (outbox s) \<and>
    (\<forall>j. j \<notin> ob_id ` set rows \<longrightarrow> get_outbox_row s' j = get_outbox_row s j)"
  using assms
proof (induction rows arbitrary: rep s w)
  case (Cons r rows)
  obtain rep1 s1 w1 where r: "relay_row disp limit now r (rep, s, w) = (rep1, s1, w1)"
    by (metis prod_cases3)
  have "fold (relay_row disp limit now) rows (rep1, s1, w1) = (rep', s', w')"
    using Cons.prems r by simp
  from Cons.IH [OF this] relay_row_frame [OF r] show ?case by simp
qed auto

lemmas relay_fold_row = relay_fold_frame [THEN conjunct2, rule_format]

lemma relay_fold_own:
  assumes "fold (relay_row disp limit now) rows (rep, s, w) = (rep', s', w')"
    and "outbox_ids s" and "distinct (map ob_id rows)"
    and "\<forall>r \<in> set rows. get_outbox_row s (ob_id r) = Some r \<and> claimable r"
    and "r \<in> set rows"
  shows "\<exists>r'. get_outbox_row s' (ob_id r) = Some r' \<and>
    (\<not> claimable r' \<or> (ob_attempts r' = ob_attempts r + 1 \<and> ob_attempts r' < limit))"
  using assms
proof (induction rows arbitrary: rep s w)
  case (Cons q rows)
  obtain rep1 s1 w1 where q: "relay_row disp limit now q (rep, s, w) = (rep1, s1, w1)"
    by (metis prod_cases3)
  have rest: "fold (relay_row disp limit now) rows (rep1, s1, w1) = (rep', s', w')"
    using Cons.prems(1) q by simp
  have ids: "outbox_ids s1" using Cons.prems(2) relay_row_frame(1) [OF q] by (simp add: outbox_ids_def)
  show ?case
  proof (cases "r = q")
    case True
    have "ob_id q \<notin> ob_id ` set rows" using Cons.prems(3) by auto
    then have "get_outbox_row s' (ob_id q) = get_outbox_row s1 (ob_id q)"
      by (rule relay_fold_row [OF rest])
    with relay_row_own [OF Cons.prems(2) _ _ q] Cons.prems(4) True show ?thesis by auto
  next
    case False
    have "\<forall>r \<in> set rows. get_outbox_row s1 (ob_id r) = Some r \<and> claimable r"
      using Cons.prems(3,4) relay_row_frame(2) [OF q] by (auto simp: image_iff)
    with Cons.IH [OF rest ids] Cons.prems(3,5) False show ?thesis by auto
  qed
qed simp

lemma relay_fold_capture:
  assumes "fold (relay_row capturing_dispatch limit now) rows (rep, s, w) = (rep', s', w')"
    and "outbox_ids s" and "distinct (map ob_id rows)"
    and "\<forall>r \<in> set rows. get_outbox_row s (ob_id r) = Some r \<and> claimable r"
  shows "delivered w' = delivered w @
           map (\<lambda>r. (ob_kind r, ob_aggregate r, ob_payload r))
             (filter (\<lambda>r. ob_stat s' (ob_id r) = Some XSent) rows)
         \<and> rr_sent rep' = rr_sent rep + length (filter (\<lambda>r. ob_stat s' (ob_id r) = Some XSent) rows)"
  using assms
proof (induction rows arbitrary: rep s w)
  case (Cons q rows)
  obtain rep1 s1 w1 where q: "relay_row capturing_dispatch limit now q (rep, s, w) = (rep1, s1, w1)"
    by (metis prod_cases3)
  have rest: "fold (relay_row capturing_dispatch limit now) rows (rep1, s1, w1) = (rep', s', w')"
    using Cons.prems(1) q by simp
  have ids: "outbox_ids s1" using Cons.prems(2) relay_row_frame(1) [OF q] by (simp add: outbox_ids_def)
  have "ob_id q \<notin> ob_id ` set rows" using Cons.prems(3) by auto
  then have sq: "ob_stat s' (ob_id q) = ob_stat s1 (ob_id q)"
    by (simp add: ob_stat_def relay_fold_row [OF rest])
  have "\<forall>r \<in> set rows. get_outbox_row s1 (ob_id r) = Some r \<and> claimable r"
    using Cons.prems(3,4) relay_row_frame(2) [OF q] by (auto simp: image_iff)
  with Cons.IH [OF rest ids] Cons.prems(3)
    relay_row_capture [OF Cons.prems(2) _ _ q] Cons.prems(4) sq
  show ?case by (auto split: if_splits)
qed simp

lemma pending_rows_ok:
  assumes "outbox_ids s"
  shows "distinct (map ob_id (pending_rows lim kinds s))"
    and "\<forall>r \<in> set (pending_rows lim kinds s). get_outbox_row s (ob_id r) = Some r \<and> claimable r"
proof -
  let ?f = "filter (\<lambda>r. claimable r \<and> (case kinds of None \<Rightarrow> True | Some ks \<Rightarrow> ks = [] \<or> ob_kind r \<in> set ks)) (outbox s)"
  have d: "distinct (map ob_id ?f)" using assms by (simp add: outbox_ids_def distinct_map_filter)
  have "distinct (map ob_id (sort_key (\<lambda>r. (ob_created_at r, ob_id r)) ?f))"
    using d by (simp add: distinct_map)
  then show "distinct (map ob_id (pending_rows lim kinds s))"
    by (simp add: pending_rows_def flip: take_map)
  have "set (pending_rows lim kinds s) \<subseteq> set ?f"
    unfolding pending_rows_def by (rule order_trans [OF set_take_subset]) (simp only: set_sort subset_refl)
  then show "\<forall>r \<in> set (pending_rows lim kinds s). get_outbox_row s (ob_id r) = Some r \<and> claimable r"
    using assms by (auto simp: outbox_ids_def find_row_Some_iff)
qed

text \<open>What a pass does to the retryable rows, whatever the dispatcher does.\<close>

definition retry_left :: "db \<Rightarrow> uid \<Rightarrow> int option" where
  "retry_left s i = claim_ver s i"

lemma relay_pass:
  assumes "outbox_ids s" and "length (outbox s) \<le> lim"
    and "relay_pending disp lim limit now None (s, w) = (rep, s', w')"
  shows "outbox_ids s'" and "length (outbox s') \<le> lim"
    and "claim_ver s' i = Some n \<Longrightarrow> claim_ver s i = Some (n - 1) \<and> n < limit"
proof -
  let ?rows = "pending_rows lim None s"
  have f: "fold (relay_row disp limit now) ?rows (empty_report, s, w) = (rep, s', w')"
    using assms(3) by (simp add: relay_pending_def)
  have ids: "map ob_id (outbox s') = map ob_id (outbox s)" using relay_fold_frame [OF f] by simp
  show i': "outbox_ids s'" using assms(1) ids by (simp add: outbox_ids_def)
  show "length (outbox s') \<le> lim" using assms(2) ids by (metis length_map)
  have all: "set ?rows = {r \<in> set (outbox s). claimable r}"
  proof -
    have "length (filter claimable (outbox s)) \<le> lim"
      using assms(2) length_filter_le le_trans by blast
    then show ?thesis by (simp add: pending_rows_def)
  qed
  assume n: "claim_ver s' i = Some n"
  then obtain r' where r': "get_outbox_row s' i = Some r'" "claimable r'" "ob_attempts r' = n"
    by (auto simp: claim_ver_def split: option.splits if_splits)
  show "claim_ver s i = Some (n - 1) \<and> n < limit"
  proof (cases "i \<in> ob_id ` set ?rows")
    case True
    then obtain r where r: "r \<in> set ?rows" "ob_id r = i" by auto
    from relay_fold_own [OF f assms(1) pending_rows_ok(1) [OF assms(1)] pending_rows_ok(2) [OF assms(1)] r(1)]
      r' r(2) have "n = ob_attempts r + 1" "n < limit" by auto
    moreover have "get_outbox_row s i = Some r" "claimable r"
      using pending_rows_ok(2) [OF assms(1)] r by auto
    ultimately show ?thesis by (simp add: claim_ver_def)
  next
    case False
    then have "get_outbox_row s i = Some r'" using relay_fold_row [OF f False] r' by simp
    then have "r' \<in> set ?rows" "ob_id r' = i"
      using find_row_SomeD [of ob_id i] r'(2) by (auto simp: all)
    with False show ?thesis by blast
  qed
qed

fun relay_passes ::
    "'w dispatcher \<Rightarrow> nat \<Rightarrow> int \<Rightarrow> instant list \<Rightarrow> db \<times> 'w \<Rightarrow> db \<times> 'w" where
  "relay_passes disp lim limit [] c = c"
| "relay_passes disp lim limit (now # ticks) c =
     relay_passes disp lim limit ticks (snd (relay_pending disp lim limit now None c))"

lemma relay_passes_left:
  assumes "outbox_ids s" and "length (outbox s) \<le> lim"
    and "relay_passes disp lim limit ticks (s, w) = (s', w')"
    and "claim_ver s' i = Some n" and "ticks \<noteq> []"
  shows "\<exists>m. claim_ver s i = Some m \<and> n = m + int (length ticks) \<and> n < limit"
  using assms
proof (induction ticks arbitrary: s w)
  case (Cons now ticks)
  obtain rep s1 w1 where p: "relay_pending disp lim limit now None (s, w) = (rep, s1, w1)"
    by (metis prod_cases3)
  have rest: "relay_passes disp lim limit ticks (s1, w1) = (s', w')" using Cons.prems(3) p by simp
  note pass = relay_pass [OF Cons.prems(1,2) p]
  show ?case
  proof (cases "ticks = []")
    case True
    with rest Cons.prems(4) pass(3) [of i n] show ?thesis by auto
  next
    case False
    from Cons.IH [OF pass(1,2) rest Cons.prems(4) False] obtain m
      where "claim_ver s1 i = Some m" "n = m + int (length ticks)" "n < limit" by blast
    with pass(3) [of i m] show ?thesis by auto
  qed
qed simp

section \<open>Lemmas: the privacy guard\<close>

fun json_keys :: "json \<Rightarrow> string list" and json_keys_list :: "json list \<Rightarrow> string list"
    and json_keys_obj :: "(string \<times> json) list \<Rightarrow> string list" where
  "json_keys (JObj kvs) = json_keys_obj kvs"
| "json_keys (JList vs) = json_keys_list vs"
| "json_keys (JStr t) = []"
| "json_keys JNull = []"
| "json_keys (JBool b) = []"
| "json_keys (JInt i) = []"
| "json_keys (JUuid u) = []"
| "json_keys (JInstant t) = []"
| "json_keys_list [] = []"
| "json_keys_list (v # vs) = json_keys v @ json_keys_list vs"
| "json_keys_obj [] = []"
| "json_keys_obj ((k, v) # kvs) = k # json_keys v @ json_keys_obj kvs"

fun json_strings :: "json \<Rightarrow> string list" and json_strings_list :: "json list \<Rightarrow> string list"
    and json_strings_obj :: "(string \<times> json) list \<Rightarrow> string list" where
  "json_strings (JObj kvs) = json_strings_obj kvs"
| "json_strings (JList vs) = json_strings_list vs"
| "json_strings (JStr t) = [t]"
| "json_strings JNull = []"
| "json_strings (JBool b) = []"
| "json_strings (JInt i) = []"
| "json_strings (JUuid u) = []"
| "json_strings (JInstant t) = []"
| "json_strings_list [] = []"
| "json_strings_list (v # vs) = json_strings v @ json_strings_list vs"
| "json_strings_obj [] = []"
| "json_strings_obj ((k, v) # kvs) = json_strings v @ json_strings_obj kvs"

lemma payload_safe_keys:
  "payload_safe j \<Longrightarrow> \<forall>k \<in> set (json_keys j). key_norm k \<notin> set forbidden_payload_keys"
  "values_safe js \<Longrightarrow> \<forall>k \<in> set (json_keys_list js). key_norm k \<notin> set forbidden_payload_keys"
  "entries_safe kvs \<Longrightarrow> \<forall>k \<in> set (json_keys_obj kvs). key_norm k \<notin> set forbidden_payload_keys"
  by (induction j and js and kvs rule: payload_safe_values_safe_entries_safe.induct) auto

lemma payload_safe_strings:
  "payload_safe j \<Longrightarrow> \<forall>t \<in> set (json_strings j). string_safe t"
  "values_safe js \<Longrightarrow> \<forall>t \<in> set (json_strings_list js). string_safe t"
  "entries_safe kvs \<Longrightarrow> \<forall>t \<in> set (json_strings_obj kvs). string_safe t"
  by (induction j and js and kvs rule: payload_safe_values_safe_entries_safe.induct) auto

lemma pan_units_digits:
  "\<forall>c \<in> set ds. is_digit c \<Longrightarrow> length ds \<le> pan_units (ds @ rest)"
proof (induction ds)
  case (Cons c ds)
  show ?case
  proof (cases "ds @ rest")
    case Nil
    with Cons show ?thesis by simp
  next
    case (Cons d cs)
    show ?thesis
    proof (cases "d = CHR '' '' \<or> d = CHR ''-''")
      case True
      then have "\<not> is_digit d" by (auto simp: is_digit_def)
      with Cons Cons.prems have "ds = []" by (cases ds) auto
      with Cons.prems \<open>ds @ rest = d # cs\<close> show ?thesis by simp
    next
      case False
      then show ?thesis using Cons.IH Cons.prems \<open>ds @ rest = d # cs\<close> by simp
    qed
  qed
qed simp

lemma pan_like_run:
  assumes "13 \<le> length ds" and "\<forall>c \<in> set ds. is_digit c"
  shows "pan_like (pre @ ds @ post)"
proof (induction pre)
  case Nil
  from assms(1) obtain c cs where ds: "ds = c # cs" by (cases ds) auto
  with pan_units_digits [OF assms(2), of post] assms(1) show ?case by simp
qed simp

lemma exempt_not_token: "exempt_value s \<Longrightarrow> \<not> join_token_like s"
proof
  assume e: "exempt_value s" and j: "join_token_like s"
  from j consider "take 5 s = ''join_''" | "take 3 s = ''eyJ''" by (auto simp: join_token_like_def)
  then obtain c d cs where s: "s = c # d # cs" and nd: "\<not> is_digit c"
    and nh: "\<not> (is_hex c \<and> is_hex d)"
  proof cases
    case 1
    then obtain cs where "s = CHR ''j'' # CHR ''o'' # cs"
      by (metis append_take_drop_id append_Cons)
    then show ?thesis using that by (auto simp: is_digit_def is_hex_def)
  next
    case 2
    then obtain cs where "s = CHR ''e'' # CHR ''y'' # cs"
      by (metis append_take_drop_id append_Cons)
    then show ?thesis using that by (auto simp: is_digit_def is_hex_def)
  qed
  have "uuid_shape = is_hex # is_hex # drop 2 uuid_shape"
    and "date_shape = is_digit # drop 1 date_shape"
    by (simp_all add: uuid_shape_def date_shape_def numeral_eq_Suc)
  then have "match_shape uuid_shape s = None" "match_shape date_shape s = None"
    using nd nh by (metis s match_shape.simps(3))+
  with e show False by (simp add: exempt_value_def)
qed

section \<open>Properties\<close>

definition sample_outbox :: db where
  "sample_outbox = empty_db\<lparr>next_id := 2, outbox :=
     [\<lparr>ob_id = 0, ob_kind = Session_reminder, ob_aggregate = 7, ob_payload = JNull, ob_status = XFailed,
       ob_attempts = 1, ob_last_error = None, ob_delivered_at = None, ob_created_at = 5\<rparr>,
      \<lparr>ob_id = 1, ob_kind = Refund_issued, ob_aggregate = 8, ob_payload = JNull, ob_status = XSent,
       ob_attempts = 1, ob_last_error = None, ob_delivered_at = Some 6, ob_created_at = 4\<rparr>]\<rparr>"

definition sample_capture :: capture where
  "sample_capture = \<lparr>delivered = [], fail_times = 0, capture_retryable = True, capture_attempts = 0\<rparr>"

lemma sample_outbox_ids: "outbox_ids sample_outbox"
  by (simp add: outbox_ids_def sample_outbox_def)

text \<open>
  Property C4. A relay pass with the in-memory dispatcher delivers exactly the rows it leaves marked
  \<open>sent\<close>, each once and in the order they are read, counts them right, and never touches (so never
  delivers again) a row that was already sent.
\<close>
theorem relay_exactly_once:
  assumes "outbox_ids s"
    and "relay_pending capturing_dispatch lim limit now kinds (s, w) = (rep, s', w')"
  shows "delivered w' = delivered w @
           map (\<lambda>r. (ob_kind r, ob_aggregate r, ob_payload r))
             (filter (\<lambda>r. ob_stat s' (ob_id r) = Some XSent) (pending_rows lim kinds s))
    \<and> rr_sent rep = length (filter (\<lambda>r. ob_stat s' (ob_id r) = Some XSent) (pending_rows lim kinds s))
    \<and> (\<forall>i. ob_stat s i = Some XSent \<longrightarrow> get_outbox_row s' i = get_outbox_row s i)"
proof -
  have f: "fold (relay_row capturing_dispatch limit now) (pending_rows lim kinds s)
             (empty_report, s, w) = (rep, s', w')"
    using assms(2) by (simp add: relay_pending_def)
  note rows = pending_rows_ok [OF assms(1)]
  have "get_outbox_row s' i = get_outbox_row s i" if "ob_stat s i = Some XSent" for i
  proof -
    have "i \<notin> ob_id ` set (pending_rows lim kinds s)"
      using that rows(2) [of lim kinds] by (auto simp: ob_stat_def claimable_def)
    then show ?thesis by (rule relay_fold_row [OF f])
  qed
  with relay_fold_capture [OF f assms(1) rows] show ?thesis by (simp add: empty_report_def)
qed

theorem relay_exactly_once_witness:
  "delivered (snd (snd (relay_pending capturing_dispatch 10 3 9 None (sample_outbox, sample_capture))))
     = [(Session_reminder, 7, JNull)]"
proof -
  let ?r = "relay_pending capturing_dispatch 10 3 9 None (sample_outbox, sample_capture)"
  have e: "?r = (fst ?r, fst (snd ?r), snd (snd ?r))" by simp
  have sent: "ob_stat (fst (snd ?r)) 0 = Some XSent" by code_simp
  have rows: "pending_rows 10 None sample_outbox = [hd (outbox sample_outbox)]" by code_simp
  show ?thesis
    using relay_exactly_once [OF sample_outbox_ids e] sent
    by (simp only: rows) (simp add: sample_outbox_def sample_capture_def)
qed



text \<open>
  Delivering an intent is idempotent: once a delivery has answered \<open>True\<close>, delivering it
  again, with any dispatcher and limit, answers \<open>True\<close>, dispatches nothing and changes nothing.
\<close>
theorem delivery_idempotent:
  assumes "run_delivery disp limit now intent (s, w) = (True, s', w')"
  shows "run_delivery disp' limit' now' intent (s', v) = (True, s', v)"
proof -
  obtain r where r: "get_outbox_row s (fst intent) = Some r" "ob_status r \<noteq> XVoid"
    using assms by (auto simp: run_delivery_def split: option.splits if_splits)
  have id: "ob_id r = fst intent" using find_row_SomeD [OF r(1)] by simp
  obtain won s1 where cl: "claim (ob_id r) (ob_attempts r) s = (won, s1)" by fastforce
  have "\<exists>q. get_outbox_row s1 (fst intent) = Some q \<and> ob_id q = fst intent"
    using claim_row [where i = "ob_id r" and seen = "ob_attempts r" and s = s and j = "fst intent"]
      cl r(1) id by auto
  then have "\<exists>q. get_outbox_row s' (fst intent) = Some q \<and> ob_status q = XSent"
    using assms r cl
    by (auto simp: run_delivery_def Let_def finish_row split: if_splits prod.splits option.splits)
  then show ?thesis by (auto simp: run_delivery_def)
qed

theorem delivery_idempotent_witness:
  "run_delivery capturing_dispatch 3 9 (0, Session_reminder)
     (fst (snd (run_delivery null_dispatch 3 9 (0, Session_reminder) (sample_outbox, ()))), sample_capture)
   = (True, fst (snd (run_delivery null_dispatch 3 9 (0, Session_reminder) (sample_outbox, ()))), sample_capture)"
proof (rule delivery_idempotent [where disp = null_dispatch and limit = 3 and now = 9 and s = sample_outbox
      and w = "()" and w' = "()"])
  show "run_delivery null_dispatch 3 9 (0, Session_reminder) (sample_outbox, ())
      = (True, fst (snd (run_delivery null_dispatch 3 9 (0, Session_reminder) (sample_outbox, ()))), ())"
    by code_simp
qed

text \<open>
  Of several relays that read the same attempt count of a row, one wins the claim: after
  a claim has succeeded every other claim made with the count it read fails and changes nothing.
\<close>
theorem claim_exclusive:
  assumes "outbox_ids s" and "claim i seen s = (True, t)"
  shows "claim i seen t = (False, t)"
proof -
  have "claim_cas i seen () s = (Inr (), t)" using assms(2) by (simp add: claim_cas_def)
  from outbox_claim.one_winner [OF assms(1) this, of "()"] show ?thesis
    by (auto simp: claim_cas_def split: prod.splits if_splits)
qed

theorem claim_exclusive_witness:
  "claim 0 1 (snd (claim 0 1 sample_outbox)) = (False, snd (claim 0 1 sample_outbox))"
  by (rule claim_exclusive [OF sample_outbox_ids]) code_simp

text \<open>
  A payload that is enqueued carries, at any depth, no forbidden field name (compared
  stripped, in lower case, with dashes as underscores), no join-token-shaped string and, except in an
  identifier or an ISO instant, no run of 13 or more digits; the row is written pending.
\<close>
theorem enqueue_private:
  assumes "enqueue k agg payload now s = (Inr x, t)"
  shows "(\<forall>key \<in> set (json_keys payload). key_norm key \<notin> set forbidden_payload_keys)
    \<and> (\<forall>v \<in> set (json_strings payload). \<not> join_token_like v
         \<and> (\<forall>pre ds post. \<not> exempt_value v \<and> filter (\<lambda>c. c \<noteq> CHR '':'') v = pre @ ds @ post
              \<and> (\<forall>c \<in> set ds. is_digit c) \<longrightarrow> length ds < 13))
    \<and> (\<exists>r. outbox t = outbox s @ [r] \<and> ob_payload r = payload \<and> ob_status r = XPending
           \<and> x = (ob_id r, k))"
proof -
  have safe: "payload_safe payload" using assms by (simp add: enqueue_def split: if_splits)
  note strings = payload_safe_strings(1) [OF safe]
  have "\<forall>v \<in> set (json_strings payload). \<not> join_token_like v"
    using strings exempt_not_token by (auto simp: string_safe_def)
  moreover have "length ds < 13" if "v \<in> set (json_strings payload)" "\<not> exempt_value v"
    "filter (\<lambda>c. c \<noteq> CHR '':'') v = pre @ ds @ post" "\<forall>c \<in> set ds. is_digit c" for v pre ds post
  proof (rule ccontr)
    assume "\<not> length ds < 13"
    then have "pan_like (pre @ ds @ post)" using that(4) by (intro pan_like_run) auto
    with strings that(1,2,3) show False by (auto simp: string_safe_def)
  qed
  moreover have "\<exists>r. outbox t = outbox s @ [r] \<and> ob_payload r = payload \<and> ob_status r = XPending
           \<and> x = (ob_id r, k)"
    using assms by (auto simp: enqueue_def bump_def Let_def split: if_splits)
  ultimately show ?thesis using payload_safe_keys(1) [OF safe] by blast
qed

definition sample_payload :: json where
  "sample_payload = JObj [(''session_id'', JUuid 3),
     (''detail'', JObj [(''iana_timezone'', JStr ''Asia/Kolkata''), (''at'', JStr ''2026-08-17 10:15:00'')])]"

theorem enqueue_private_witness:
  "\<not> join_token_like ''Asia/Kolkata'' \<and> (\<exists>x t. enqueue Booking_confirmed 3 sample_payload 0 empty_db = (Inr x, t))"
proof -
  have safe: "payload_safe sample_payload" by code_simp
  then obtain x t where e: "enqueue Booking_confirmed 3 sample_payload 0 empty_db = (Inr x, t)"
    by (simp add: enqueue_def Let_def)
  from enqueue_private [OF e] have "\<not> join_token_like ''Asia/Kolkata''"
    by (simp add: sample_payload_def)
  with e show ?thesis by blast
qed

end
