(* ===== verification/PyNumbers.thy ===== *)
theory PyNumbers
  imports Complex_Main Prelude "HOL-Library.Log_Nat"
begin

text \<open>
  The numbers of Python the services compute with besides integers: IEEE doubles (a division and
  the format \<open>.2f\<close>) and \<open>Decimal\<close> (a division in the default 28-digit context and \<open>quantize\<close>).
  Both are written out as correctly rounded operations on rationals, and the lemmas bound the
  rounding.
\<close>

section \<open>Rounding to integers\<close>

definition round_half_even :: "rat \<Rightarrow> int" where
  "round_half_even x =
     (let f = \<lfloor>x\<rfloor>; d = x - of_int f in
      if d < 1 / 2 then f else if d > 1 / 2 then f + 1 else if even f then f else f + 1)"

definition round_half_up :: "rat \<Rightarrow> int" where
  "round_half_up x = \<lfloor>x + 1 / 2\<rfloor>"

lemma round_half_even_ge: "of_int m \<le> x \<Longrightarrow> m \<le> round_half_even x"
  by (auto simp: round_half_even_def Let_def le_floor_iff intro: order_trans [of _ "\<lfloor>x\<rfloor>"])

lemma round_half_even_le:
  assumes "x \<le> of_int m"
  shows "round_half_even x \<le> m"
proof (cases "x = of_int m")
  case False
  with assms have "\<lfloor>x\<rfloor> < m" by (simp add: floor_less_iff)
  then show ?thesis by (auto simp: round_half_even_def Let_def)
qed (simp add: round_half_even_def)

lemma round_half_even_err: "\<bar>of_int (round_half_even x) - x\<bar> \<le> 1 / 2"
proof -
  have "of_int \<lfloor>x\<rfloor> \<le> x" "x < of_int \<lfloor>x\<rfloor> + 1" by linarith+
  then show ?thesis unfolding round_half_even_def Let_def abs_if
    by (simp only: split: if_split) (simp, linarith?)
qed

lemma round_half_even_lt:
  assumes "x < of_int m - 1 / 2"
  shows "round_half_even x < m"
  using round_half_even_err [of x] assms by linarith

lemma round_half_even_tie_up:
  assumes "of_int m - 1 / 2 < x"
  shows "m \<le> round_half_even x"
  using round_half_even_err [of x] assms by linarith

section \<open>Doubles\<close>

text \<open>
  A double in the normal range is \<open>n * 2 ^ e\<close> with \<open>2 ^ 52 \<le> n < 2 ^ 53\<close>; \<open>ulp_exp\<close> is the \<open>e\<close> of a
  positive rational and \<open>fl\<close> the double nearest to it, ties to even. The exponent is read off the
  number scaled by \<open>2 ^ 80\<close>: right for every rational of at least \<open>2 ^ -80\<close> (about \<open>8e-25\<close>), and the
  smallest positive number the code divides here is one microsecond in hours (about \<open>2.8e-10\<close>).
\<close>

definition ulp_exp :: "rat \<Rightarrow> int" where
  "ulp_exp x = int (floorlog 2 (nat \<lfloor>x * 2 ^ 80\<rfloor>)) - 133"

definition fl :: "rat \<Rightarrow> rat" where
  "fl x = (if x \<le> 0 then 0
           else of_int (round_half_even (x / 2 powi ulp_exp x)) * 2 powi ulp_exp x)"

lemma ulp_exp_bounds:
  assumes "1 / 2 ^ 80 \<le> x"
  shows "2 ^ 52 \<le> x / 2 powi ulp_exp x" and "x / 2 powi ulp_exp x < 2 ^ 53"
proof -
  define n where "n = nat \<lfloor>x * 2 ^ 80\<rfloor>"
  define b where "b = floorlog 2 n"
  have "1 \<le> x * 2 ^ 80" using assms by (simp add: field_simps)
  then have "1 \<le> \<lfloor>x * 2 ^ 80\<rfloor>" by (simp add: le_floor_iff)
  then have n0: "0 < n" and nf: "int n = \<lfloor>x * 2 ^ 80\<rfloor>" by (simp_all add: n_def)
  from floorlog_bounds [OF n0, of 2] have lo: "2 ^ (b - 1) \<le> n" and hi: "n < 2 ^ b"
    by (simp_all add: b_def)
  have b0: "0 < b" using n0 hi by (cases b) auto
  have nr: "(of_nat n :: rat) = of_int \<lfloor>x * 2 ^ 80\<rfloor>"
    using arg_cong [OF nf, of "of_int :: int \<Rightarrow> rat"] by simp
  have nx: "of_nat n \<le> x * 2 ^ 80" "x * 2 ^ 80 < of_nat n + 1"
    using nr floor_correct [of "x * 2 ^ 80"] by simp_all
  have e: "ulp_exp x = int b - 133" by (simp add: ulp_exp_def b_def n_def)
  have p: "(2 :: rat) powi ulp_exp x = 2 ^ b / 2 ^ 133"
    by (simp add: e power_int_diff)
  have "(of_nat (2 ^ (b - 1)) :: rat) \<le> of_nat n" using lo by (rule of_nat_mono)
  then have lo': "(2 :: rat) ^ (b - 1) \<le> of_nat n" by simp
  have "(of_nat (Suc n) :: rat) \<le> of_nat (2 ^ b)" using hi by (intro of_nat_mono) simp
  then have hi': "of_nat n + 1 \<le> (2 :: rat) ^ b" by simp
  have b2: "(2 :: rat) ^ b = 2 * 2 ^ (b - 1)" using b0 by (cases b) auto
  have "2 ^ b / 2 \<le> x * 2 ^ 80" using lo' nx(1) b2 by linarith
  then have "2 ^ 52 * (2 ^ b / 2 ^ 133) \<le> x" by (simp add: field_simps)
  then show "2 ^ 52 \<le> x / 2 powi ulp_exp x" by (simp add: p field_simps)
  have "x * 2 ^ 80 < 2 ^ b" using hi' nx(2) by linarith
  then have "x < 2 ^ 53 * (2 ^ b / 2 ^ 133)" by (simp add: field_simps)
  then show "x / 2 powi ulp_exp x < 2 ^ 53" by (simp add: p field_simps)
qed

lemma pow2i_pos [simp]: "0 < (2 :: rat) powi e"
  by simp

text \<open>One rounding moves a number by at most one part in \<open>2 ^ 53\<close>.\<close>

lemma fl_err:
  assumes "1 / 2 ^ 80 \<le> x"
  shows "\<bar>fl x - x\<bar> \<le> x / 2 ^ 53"
proof -
  define p where "p = (2 :: rat) powi ulp_exp x"
  have p: "0 < p" by (simp add: p_def)
  have x0: "0 < x" using assms by (rule less_le_trans [rotated]) simp
  have ulp: "2 ^ 52 * p \<le> x"
    using ulp_exp_bounds(1) [OF assms] p by (simp add: p_def field_simps)
  have "fl x - x = (of_int (round_half_even (x / p)) - x / p) * p"
    using p x0 by (simp add: fl_def p_def field_simps)
  then have "\<bar>fl x - x\<bar> = \<bar>of_int (round_half_even (x / p)) - x / p\<bar> * p"
    using p by (simp add: abs_mult)
  also have "\<dots> \<le> 1 / 2 * p" using round_half_even_err p by (intro mult_right_mono) auto
  also have "\<dots> \<le> x / 2 ^ 53" using ulp by simp
  finally show ?thesis .
qed

text \<open>Rounding never crosses an integer that a double can hold.\<close>

lemma fl_ge_nat:
  assumes "of_nat k \<le> x" and "0 < k" and "k < 2 ^ 53"
  shows "of_nat k \<le> fl x"
proof -
  define e where "e = ulp_exp x"
  define p where "p = (2 :: rat) powi e"
  have p: "0 < p" by (simp add: p_def)
  have x1: "1 \<le> x" 
  proof -
    have "(of_nat 1 :: rat) \<le> of_nat k" using assms(2) by (intro of_nat_mono) simp
    with assms(1) show ?thesis by simp
  qed
  have x80: "1 / 2 ^ 80 \<le> x"
  proof -
    have "(1 :: rat) / 2 ^ 80 \<le> 1" by simp
    then show ?thesis using x1 by linarith
  qed
  have fx: "fl x = of_int (round_half_even (x / p)) * p" using x1 by (simp add: fl_def p_def e_def)
  show ?thesis
  proof (cases "e \<le> 0")
    case True
    then have pm: "p * 2 ^ nat (- e) = 1"
      by (simp add: p_def power_int_def power_one_over)
    define m where "m = int k * 2 ^ nat (- e)"
    have mp: "of_int m * p = of_nat k"
    proof -
      have "of_int m * p = of_nat k * (p * 2 ^ nat (- e))" by (simp add: m_def)
      then show ?thesis by (simp only: pm mult_1_right)
    qed
    with assms(1) p have "of_int m \<le> x / p" by (simp add: pos_le_divide_eq)
    then have "of_int m \<le> (of_int (round_half_even (x / p)) :: rat)"
      using round_half_even_ge of_int_le_iff by blast
    then have "of_int m * p \<le> of_int (round_half_even (x / p)) * p"
      using p by (intro mult_right_mono) auto
    then show ?thesis by (simp only: mp fx)
  next
    case False
    have "2 ^ 52 \<le> x / p" using ulp_exp_bounds(1) [OF x80] by (simp add: p_def e_def)
    then have "2 ^ 52 \<le> round_half_even (x / p)"
      by (intro round_half_even_ge) simp
    then have "of_int (2 ^ 52) \<le> (of_int (round_half_even (x / p)) :: rat)"
      by (simp only: of_int_le_iff)
    then have "2 ^ 52 \<le> (of_int (round_half_even (x / p)) :: rat)" by simp
    moreover have "2 \<le> p"
    proof -
      have "(2 :: rat) powi 1 \<le> 2 powi e" using False by (intro power_int_increasing) auto
      then show ?thesis by (simp add: p_def)
    qed
    ultimately have "2 ^ 52 * 2 \<le> fl x" unfolding fx by (intro mult_mono) auto
    moreover have "(of_nat k :: rat) \<le> of_nat (2 ^ 53)"
      using assms(3) by (intro of_nat_mono) simp
    ultimately show ?thesis by simp
  qed
qed

text \<open>\<open>f"{x:.2f}"\<close> read back as a \<open>Decimal\<close>: the nearest multiple of 1/100, held as the number of
  hundredths.\<close>

definition format_2f :: "rat \<Rightarrow> int" where
  "format_2f x = round_half_even (100 * x)"

section \<open>Decimal\<close>

text \<open>
  \<open>Decimal(total) / Decimal(count)\<close> in the default context (28 significant digits, ROUND_HALF_EVEN)
  for a quotient of at least 1 and below 10, which has one digit before the point: 27 decimals are
  kept. \<open>quantize_cents\<close> is \<open>quantize(Decimal("0.01"), ROUND_HALF_UP)\<close>, in hundredths.
\<close>

definition decimal_div :: "int \<Rightarrow> int \<Rightarrow> rat" where
  "decimal_div a b = of_int (round_half_even (of_int a / of_int b * 10 ^ 27)) / 10 ^ 27"

definition quantize_cents :: "rat \<Rightarrow> int" where
  "quantize_cents x = round_half_up (100 * x)"

end
