(* ===== verification/Payments.thy ===== *)
theory Payments
  imports Booking Outbox PyNumbers
begin

text \<open>
  Orders and refunds (\<open>services/tutoring/payments.py\<close>, without \<open>handle_event\<close>, which is in the theory
  \<open>Webhook\<close>): money checks, the refund policy, order creation against a live hold, the order that
  governs a hold, and the refund call. The payment provider (\<open>providers/payment_provider.py\<close>) is a
  record of functions; the argument \<open>prov\<close> is what \<open>provider or build_payment_provider()\<close> gives, \<open>None\<close>
  when nothing is configured.
\<close>

section \<open>The provider seam\<close>

record order_result =
  or_ref :: string
  or_amount :: int
  or_currency :: string

record event_data =
  ed_provider :: string
  ed_event_id :: string
  ed_type :: pay_event_type
  ed_order_ref :: string
  ed_amount :: int
  ed_currency :: string
  ed_digest :: string
  ed_brand :: "string option"
  ed_last4 :: "string option"
  ed_exp_month :: "int option"
  ed_exp_year :: "int option"
  ed_verified :: bool

record refund_result =
  rr_ref :: string
  rr_amount :: int
  rr_status :: string

text \<open>The idempotency key \<open>f"rfnd-{order_id}-{amount_paise}-{reason}"\<close> is kept as its three parts, the
  reference \<open>f"ls-hold-{hold.id}"\<close> as the id.\<close>

type_synonym refund_key = "uid \<times> int \<times> refund_reason"

record provider =
  p_name :: string
  p_create_order :: "int \<Rightarrow> string \<Rightarrow> string \<Rightarrow> uid \<Rightarrow> provider_error + order_result"
  p_verify_event :: "string \<Rightarrow> string \<Rightarrow> provider_error + event_data"
  p_refund :: "string \<Rightarrow> int \<Rightarrow> refund_key \<Rightarrow> refund_reason \<Rightarrow> provider_error + refund_result"

definition resolve_provider :: "provider option \<Rightarrow> exn + provider" where
  "resolve_provider prov =
     (case prov of None \<Rightarrow> Inl (TutoringError (ProviderUnavailable False)) | Some p \<Rightarrow> Inr p)"

fun assert_paise :: "pyval \<Rightarrow> exn + int" where
  "assert_paise (PyInt v) = (if v < 0 then Inl (TutoringError ValidationError) else Inr v)"
| "assert_paise _ = Inl (TutoringError ValidationError)"

section \<open>Refund policy\<close>

record assessment =
  ra_decision :: refund_decision
  ra_amount :: int
  ra_reason :: "refund_reason option"
  ra_hours :: int
  ra_window :: int

definition refund_due :: "assessment \<Rightarrow> bool" where
  "refund_due a \<longleftrightarrow> ra_decision a \<noteq> No_auto_refund \<and> 0 < ra_amount a"

text \<open>
  \<open>hours_before\<close>, in hundredths of an hour: the microseconds between the two instants, through two
  double divisions (\<open>total_seconds()\<close> and \<open>/ 3600.0\<close>) and the format \<open>.2f\<close>; a negative difference is 0.
\<close>

definition hours_before :: "instant \<Rightarrow> instant \<Rightarrow> int" where
  "hours_before start now =
     (if start < now then 0
      else format_2f (fl (fl (of_int (start - now) / 10 ^ 6) / 3600)))"

datatype hours_arg = HDec int | HFloat rat

text \<open>\<open>assess_refund\<close>. The optional exception amount is \<open>PyNone\<close> when it is not given.\<close>

definition assess_refund ::
    "pyval \<Rightarrow> hours_arg \<Rightarrow> role \<Rightarrow> bool \<Rightarrow> uid option \<Rightarrow> pyval \<Rightarrow> int \<Rightarrow> exn + assessment" where
  "assess_refund captured_paise hours_arg cancelled_by admin_exception admin_actor exception_amount window =
     (case assert_paise captured_paise of Inl e \<Rightarrow> Inl e
      | Inr captured \<Rightarrow>
        let hrs = (case hours_arg of HDec c \<Rightarrow> c | HFloat x \<Rightarrow> format_2f x) in
        if cancelled_by = Tutor
        then Inr \<lparr>ra_decision = Full_refund, ra_amount = captured, ra_reason = Some Tutor_cancelled,
                  ra_hours = hrs, ra_window = window\<rparr>
        else if admin_exception then
          (if admin_actor = None then Inl (TutoringError AdminExceptionUnauthorised)
           else case (if exception_amount = PyNone then Inr captured else assert_paise exception_amount) of
               Inl e \<Rightarrow> Inl e
             | Inr amount \<Rightarrow>
                 if captured < amount then Inl (TutoringError AmountMismatch)
                 else Inr \<lparr>ra_decision = Admin_exception_refund, ra_amount = amount,
                           ra_reason = Some Admin_exception, ra_hours = hrs, ra_window = window\<rparr>)
        else if 100 * window \<le> hrs
        then Inr \<lparr>ra_decision = Full_refund, ra_amount = captured, ra_reason = Some Cancel_ge_24h,
                  ra_hours = hrs, ra_window = window\<rparr>
        else Inr \<lparr>ra_decision = No_auto_refund, ra_amount = 0, ra_reason = None,
                  ra_hours = hrs, ra_window = window\<rparr>)"

section \<open>Orders\<close>

record order_created =
  oc_order :: order
  oc_intents :: "outbox_intent list"
  oc_replayed :: bool

definition optional :: "(pyval \<Rightarrow> exn + 'a) \<Rightarrow> pyval \<Rightarrow> exn + 'a option" where
  "optional check v =
     (if v = PyNone then Inr None else case check v of Inl e \<Rightarrow> Inl e | Inr x \<Rightarrow> Inr (Some x))"

text \<open>The part of \<open>create_order\<close> from the provider call on (step 5).\<close>

definition open_order ::
    "db \<Rightarrow> hold \<Rightarrow> uid \<Rightarrow> string \<Rightarrow> session_price \<Rightarrow> provider option \<Rightarrow> instant \<Rightarrow> db \<Rightarrow> order_created run" where
  "open_order t0 hold student key price prov now s =
     bindE (liftE (resolve_provider prov) s) (\<lambda>p s.
       case p_create_order p (sp_amount price) (sp_currency price) key (h_id hold) of
         Inl e \<Rightarrow> raise (ProviderUnavailable (perr_retryable e)) s
       | Inr res \<Rightarrow>
           let row = \<lparr>o_id = next_id s, o_created_at = now, o_hold = h_id hold, o_student = student,
                      o_provider = p_name p, o_ref = Some (or_ref res), o_amount = sp_amount price,
                      o_currency = sp_currency price, o_status = OCreated, o_key = key,
                      o_brand = None, o_last4 = None, o_exp_month = None, o_exp_year = None\<rparr>
           in (case insert_order row (bump s) of
                 None \<Rightarrow> (Inl IntegrityError, t0)
               | Some s1 \<Rightarrow>
                   ok \<lparr>oc_order = row, oc_intents = [], oc_replayed = False\<rparr>
                     (record_audit_event Au_order_created (Some (o_id row)) (Some student) Student
                       (booking_event Payment_initiated Student (Some (h_id hold)) None now s1))))"

definition create_order ::
    "db \<Rightarrow> uid \<Rightarrow> uid \<Rightarrow> string \<Rightarrow> pyval \<Rightarrow> pyval \<Rightarrow> provider option \<Rightarrow> instant \<Rightarrow> db \<Rightarrow> order_created run" where
  "create_order t0 hold_id student idempotency_key amount_paise currency prov now s =
     bindE (liftE (optional assert_paise amount_paise) s) (\<lambda>amount s.
     bindE (liftE (optional assert_currency currency) s) (\<lambda>cur s.
       let key = strip idempotency_key in
       if key = [] \<or> 200 < length key then raise ValidationError s
       else case find (\<lambda>r. o_key r = key) (orders s) of
         Some existing \<Rightarrow>
           if o_hold existing \<noteq> hold_id \<or> o_student existing \<noteq> student
              \<or> (amount \<noteq> None \<and> amount \<noteq> Some (o_amount existing))
           then raise ValidationError s
           else ok \<lparr>oc_order = existing, oc_intents = [], oc_replayed = True\<rparr> s
       | None \<Rightarrow>
           bindE (get_hold hold_id (Some student) now True s) (\<lambda>hold s.
           bindE (liftE (snapshot_of_hold hold) s) (\<lambda>price s.
             if amount \<noteq> None \<and> amount \<noteq> Some (sp_amount price) then raise PaymentAmountMismatch s
             else if cur \<noteq> None \<and> cur \<noteq> Some (sp_currency price) then raise PaymentAmountMismatch s
             else open_order t0 hold student key price prov now s))))"

definition order_for_hold :: "uid \<Rightarrow> uid option \<Rightarrow> db \<Rightarrow> exn + order" where
  "order_for_hold hold_id student s =
     (let rows = rev (sort_key (\<lambda>r. (o_created_at r, o_id r)) (filter (\<lambda>r. o_hold r = hold_id) (orders s)));
          rows = (case student of None \<Rightarrow> rows | Some u \<Rightarrow> filter (\<lambda>r. o_student r = u) rows)
      in case rows of
          [] \<Rightarrow> Inl (TutoringError NotFound)
        | newest # _ \<Rightarrow> (case find (\<lambda>r. o_status r = OPaid) rows of Some r \<Rightarrow> Inr r | None \<Rightarrow> Inr newest))"

section \<open>Refunds\<close>

definition live_refund :: "uid \<Rightarrow> refund_row \<Rightarrow> bool" where
  "live_refund oid r \<longleftrightarrow> rf_order r = oid \<and> rf_status r \<in> {RPending, RProcessing, RSucceeded}"

definition refunded_paise :: "db \<Rightarrow> uid \<Rightarrow> int" where
  "refunded_paise s oid = sum_list (map rf_amount (filter (live_refund oid) (refunds s)))"

record refund_issued =
  ri_refund :: refund_row
  ri_intents :: "outbox_intent list"
  ri_pending_retry :: bool

fun reason_code :: "refund_reason \<Rightarrow> string" where
  "reason_code Cancel_ge_24h = ''cancel_ge_24h''"
| "reason_code Tutor_cancelled = ''tutor_cancelled''"
| "reason_code Admin_exception = ''admin_exception''"
| "reason_code (Other_reason c) = c"

fun refund_status_code :: "refund_status \<Rightarrow> string" where
  "refund_status_code RPending = ''pending''"
| "refund_status_code RProcessing = ''processing''"
| "refund_status_code RSucceeded = ''succeeded''"
| "refund_status_code RFailed = ''failed''"

definition refund_payload :: "refund_row \<Rightarrow> bool \<Rightarrow> json" where
  "refund_payload r pending_retry = JObj
     [(''order_id'', JUuid (rf_order r)), (''refund_id'', JUuid (rf_id r)),
      (''amount_paise'', JInt (rf_amount r)), (''reason'', JStr (reason_code (rf_reason r))),
      (''status'', JStr (refund_status_code (rf_status r))), (''retry_pending'', JBool pending_retry)]"

text \<open>The part of \<open>refund\<close> after the provider answered: the row, the outbox intent, the trail.\<close>

definition record_refund ::
    "db \<Rightarrow> order \<Rightarrow> int \<Rightarrow> refund_reason \<Rightarrow> refund_status \<Rightarrow> string option \<Rightarrow> bool \<Rightarrow> role \<Rightarrow> uid option
       \<Rightarrow> instant \<Rightarrow> db \<Rightarrow> refund_issued run" where
  "record_refund t0 order amount reason status ref pending_retry actor_role actor_user now s =
     (let row = \<lparr>rf_id = next_id s, rf_order = o_id order, rf_amount = amount, rf_reason = reason,
                 rf_status = status, rf_provider_ref = ref,
                 rf_succeeded_order = (if status = RSucceeded then Some (o_id order) else None)\<rparr>
      in case insert_refund row (bump s) of
          None \<Rightarrow> raise RefundDuplicate t0
        | Some s1 \<Rightarrow>
            bindE (enqueue Refund_issued (o_id order) (refund_payload row pending_retry) now s1) (\<lambda>i s1.
              ok \<lparr>ri_refund = row, ri_intents = [i], ri_pending_retry = pending_retry\<rparr>
                (record_audit_event Au_refund_issued (Some (rf_id row)) actor_user actor_role
                  (booking_event (if status = RSucceeded then Refund_succeeded else Refund_requested)
                    (if actor_role \<in> {Student, Tutor, Admin} then actor_role else System)
                    (Some (o_hold order)) None now s1))))"

definition refund ::
    "db \<Rightarrow> uid \<Rightarrow> pyval \<Rightarrow> refund_reason \<Rightarrow> role \<Rightarrow> uid option \<Rightarrow> provider option \<Rightarrow> instant \<Rightarrow> bool
       \<Rightarrow> db \<Rightarrow> refund_issued run" where
  "refund t0 order_id amount_paise reason actor_role actor_user prov now allow_pending s =
     bindE (liftE (assert_paise amount_paise) s) (\<lambda>amount s.
       if reason \<notin> set refund_reasons then raise ValidationError s
       else case get_order_row s order_id of
         None \<Rightarrow> raise NotFound s
       | Some order \<Rightarrow>
           if o_status order \<noteq> OPaid then raise RefundNotAllowed s
           else if amount = 0 then raise ValidationError s
           else if \<exists>r \<in> set (refunds s). rf_order r = order_id \<and> rf_status r = RSucceeded
           then raise RefundDuplicate s
           else if o_amount order < refunded_paise s order_id + amount then raise AmountMismatch s
           else bindE (liftE (resolve_provider prov) s) (\<lambda>p s.
             case p_refund p (case o_ref order of Some r \<Rightarrow> r | None \<Rightarrow> []) amount
                    (order_id, amount, reason) reason of
               Inr res \<Rightarrow>
                 record_refund t0 order amount reason
                   (if rr_status res = ''succeeded'' then RSucceeded else RPending)
                   (Some (rr_ref res)) False actor_role actor_user now s
             | Inl e \<Rightarrow>
                 if \<not> (allow_pending \<and> perr_retryable e)
                 then raise (ProviderUnavailable (perr_retryable e)) s
                 else record_refund t0 order amount reason RPending None True actor_role actor_user now s))"

section \<open>Lemmas: the rounding of the policy window\<close>

lemma fl_pos_err:
  assumes "1 / 10 ^ 10 \<le> x"
  shows "x * (1 - 1 / 2 ^ 53) \<le> fl x" "fl x \<le> x * (1 + 1 / 2 ^ 53)"
proof -
  have "(1 :: rat) / 2 ^ 80 \<le> 1 / 10 ^ 10" by simp
  with assms have "\<bar>fl x - x\<bar> \<le> x / 2 ^ 53" by (intro fl_err) linarith
  then show "x * (1 - 1 / 2 ^ 53) \<le> fl x" "fl x \<le> x * (1 + 1 / 2 ^ 53)"
    by (simp_all only: abs_le_iff right_diff_distrib distrib_left mult_1_right times_divide_eq_right) linarith+
qed

text \<open>The two divisions together are off by less than four parts in \<open>2 ^ 53\<close>.\<close>

lemma two_divisions:
  assumes "1 / 10 ^ 6 \<le> x"
  shows "x / 3600 * (1 - 4 / 2 ^ 53) \<le> fl (fl x / 3600)"
    "fl (fl x / 3600) \<le> x / 3600 * (1 + 4 / 2 ^ 53)"
proof -
  have x: "1 / 10 ^ 10 \<le> x" using assms by simp
  note a = fl_pos_err [OF x]
  have "x / 2 \<le> fl x" using a(1) assms by simp
  then have y: "1 / 10 ^ 10 \<le> fl x / 3600" using assms by simp
  note b = fl_pos_err [OF y]
  have "x / 3600 * (1 - 4 / 2 ^ 53) \<le> fl x / 3600 * (1 - 1 / 2 ^ 53)"
    using a(1) assms by (simp add: field_simps)
  with b(1) show "x / 3600 * (1 - 4 / 2 ^ 53) \<le> fl (fl x / 3600)" by linarith
  have "fl x / 3600 * (1 + 1 / 2 ^ 53) \<le> x / 3600 * (1 + 4 / 2 ^ 53)"
    using a(2) assms by (simp add: field_simps)
  with b(2) show "fl (fl x / 3600) \<le> x / 3600 * (1 + 4 / 2 ^ 53)" by linarith
qed

lemma hours_before_ge:
  assumes "0 < h" "h \<le> 8760" and "hours h - 17990000 \<le> start - now"
  shows "100 * h \<le> hours_before start now"
proof -
  define x where "x = (of_int (start - now) :: rat) / 10 ^ 6"
  have d: "3600000000 * h - 17990000 \<le> start - now" using assms(3) by (simp add: hours_def)
  then have "(of_int (3600000000 * h - 17990000) :: rat) \<le> of_int (start - now)"
    by (simp only: of_int_le_iff)
  then have x: "3600 * of_int h - 1799 / 100 \<le> x" by (simp add: x_def field_simps)
  have h: "(1 :: rat) \<le> of_int h" "(of_int h :: rat) \<le> 8760" using assms(1,2) by simp_all
  have "1 / 10 ^ 6 \<le> x" using x h by simp
  note b = two_divisions(1) [OF this]
  have "(3600 * of_int h - 1799 / 100) / 3600 * (1 - 4 / 2 ^ 53) \<le> x / 3600 * (1 - 4 / 2 ^ 53)"
    using x by (intro mult_right_mono divide_right_mono) auto
  moreover have "of_int (100 * h) - 1 / 2
      < 100 * ((3600 * of_int h - 1799 / 100) / 3600 * (1 - 4 / 2 ^ 53) :: rat)"
    using h by (simp add: field_simps)
  ultimately have "of_int (100 * h) - 1 / 2 < 100 * fl (fl x / 3600)" using b by linarith
  then have "100 * h \<le> format_2f (fl (fl x / 3600))"
    unfolding format_2f_def by (rule round_half_even_tie_up)
  moreover have "\<not> start < now" using d assms(1) by linarith
  ultimately show ?thesis by (simp add: hours_before_def x_def)
qed

lemma hours_before_lt:
  assumes "0 < h" "h \<le> 8760" and "start - now \<le> hours h - 18010000"
  shows "hours_before start now < 100 * h"
proof (cases "start - now \<le> 0")
  case True
  have "format_2f (fl (fl 0 / 3600)) = 0"
    by (simp add: format_2f_def fl_def round_half_even_def)
  then have "hours_before start now = 0" using True by (cases "start = now") (auto simp: hours_before_def)
  with assms(1) show ?thesis by simp
next
  case False
  define x where "x = (of_int (start - now) :: rat) / 10 ^ 6"
  have "start - now \<le> 3600000000 * h - 18010000" using assms(3) by (simp add: hours_def)
  then have "(of_int (start - now) :: rat) \<le> of_int (3600000000 * h - 18010000)"
    by (simp only: of_int_le_iff)
  then have x: "x \<le> 3600 * of_int h - 1801 / 100" by (simp add: x_def field_simps)
  have h: "(1 :: rat) \<le> of_int h" "(of_int h :: rat) \<le> 8760" using assms(1,2) by simp_all
  have "(of_int 1 :: rat) \<le> of_int (start - now)" using False by (simp only: of_int_le_iff)
  then have "1 / 10 ^ 6 \<le> x" by (simp add: x_def)
  note b = two_divisions(2) [OF this]
  have "x / 3600 * (1 + 4 / 2 ^ 53) \<le> (3600 * of_int h - 1801 / 100) / 3600 * (1 + 4 / 2 ^ 53)"
    using x by (intro mult_right_mono divide_right_mono) auto
  moreover have "100 * ((3600 * of_int h - 1801 / 100) / 3600 * (1 + 4 / 2 ^ 53) :: rat)
      < of_int (100 * h) - 1 / 2"
    using h by (simp add: field_simps)
  ultimately have "100 * fl (fl x / 3600) < of_int (100 * h) - 1 / 2" using b by linarith
  then have "format_2f (fl (fl x / 3600)) < 100 * h"
    unfolding format_2f_def by (rule round_half_even_lt)
  moreover have "\<not> start < now" using False by linarith
  ultimately show ?thesis by (simp add: hours_before_def x_def)
qed

lemma hours_before_nonneg: "0 \<le> hours_before start now"
proof (cases "start < now")
  case False
  have pos: "0 \<le> fl x" for x
    by (auto simp: fl_def intro!: mult_nonneg_nonneg round_half_even_ge [of 0, simplified])
  have "0 \<le> format_2f y" if "0 \<le> y" for y
    using that round_half_even_ge [of 0 "100 * y"] by (simp add: format_2f_def)
  with pos False show ?thesis by (simp add: hours_before_def)
qed (simp add: hours_before_def)

section \<open>Lemmas: orders\<close>

lemma find_append_None: "find p xs = None \<Longrightarrow> find p (xs @ ys) = find p ys"
  by (induction xs) (auto split: if_splits)

lemma assert_paise_Inr: "assert_paise v = Inr n \<longleftrightarrow> v = PyInt n \<and> 0 \<le> n"
  by (cases v) auto

lemma assert_paise_Inl: "assert_paise v = Inl e \<Longrightarrow> e = TutoringError ValidationError"
  by (cases v) (auto split: if_splits)

lemma assert_currency_Inl: "assert_currency v = Inl e \<Longrightarrow> e = TutoringError ValidationError"
  by (cases v) (auto split: if_splits)

lemma optional_Inr:
  "optional check v = Inr x \<longleftrightarrow>
     (if v = PyNone then x = None else \<exists>y. check v = Inr y \<and> x = Some y)"
  by (auto simp: optional_def split: sum.splits)

lemma optional_Inl: "optional check v = Inl e \<Longrightarrow> check v = Inl e"
  by (auto simp: optional_def split: sum.splits if_splits)

definition new_order :: "uid \<Rightarrow> uid \<Rightarrow> uid \<Rightarrow> string \<Rightarrow> string \<Rightarrow> string \<Rightarrow> session_price \<Rightarrow> instant \<Rightarrow> order" where
  "new_order i hid student key pname ref price now =
     \<lparr>o_id = i, o_created_at = now, o_hold = hid, o_student = student, o_provider = pname,
      o_ref = Some ref, o_amount = sp_amount price, o_currency = sp_currency price,
      o_status = OCreated, o_key = key, o_brand = None, o_last4 = None, o_exp_month = None,
      o_exp_year = None\<rparr>"

definition ordered :: "order \<Rightarrow> instant \<Rightarrow> db \<Rightarrow> db" where
  "ordered r now s = s\<lparr>next_id := Suc (next_id s), orders := orders s @ [r],
     booking_events := booking_events s @ [\<lparr>be_session = None, be_hold = Some (o_hold r),
       be_kind = Payment_initiated, be_actor = Student, be_at = now\<rparr>],
     audits := audits s @ [\<lparr>au_action = Au_order_created, au_resource = Some (o_id r),
       au_actor = Some (o_student r), au_role = Student\<rparr>]\<rparr>"

lemma open_order_ok:
  assumes "open_order t0 hold student key price prov now s = (Inr c, t)"
  shows "\<exists>p res. prov = Some p
    \<and> p_create_order p (sp_amount price) (sp_currency price) key (h_id hold) = Inr res
    \<and> oc_order c = new_order (next_id s) (h_id hold) student key (p_name p) (or_ref res) price now
    \<and> order_check (oc_order c) \<and> key \<notin> o_key ` set (orders s)
    \<and> t = ordered (oc_order c) now s \<and> \<not> oc_replayed c \<and> oc_intents c = []"
  using assms
  by (auto simp: open_order_def run_simps resolve_provider_def Let_def insert_order_def bump_def
      new_order_def ordered_def booking_event_def record_audit_event_def
      split: option.splits sum.splits if_splits)

lemma get_hold_ok:
  assumes "get_hold i (Some u) now True s = (Inr h, t)"
  shows "t = s \<and> get_hold_row s i = Some h \<and> h_id h = i \<and> h_student h = u \<and> live_hold h
    \<and> now < h_expires_at h"
  using assms
  by (auto simp: get_hold_def live_hold_def is_expired_def split: option.splits if_splits
      dest: find_row_SomeD)

lemma create_order_ok:
  assumes "create_order t0 hid u k amount currency prov now s = (Inr c, t)"
  shows "(oc_replayed c \<and> t = s \<and> find (\<lambda>r. o_key r = strip k) (orders s) = Some (oc_order c)
        \<and> o_hold (oc_order c) = hid \<and> o_student (oc_order c) = u)
    \<or> (\<not> oc_replayed c \<and> find (\<lambda>r. o_key r = strip k) (orders s) = None
        \<and> (\<exists>h price. get_hold_row s hid = Some h \<and> h_id h = hid \<and> h_student h = u \<and> live_hold h
             \<and> now < h_expires_at h \<and> snapshot_of_hold h = Inr price
             \<and> (amount = PyNone \<or> amount = PyInt (h_price h))
             \<and> (currency = PyNone \<or> currency = PyStr (h_currency h))
             \<and> open_order t0 h u (strip k) price prov now s = (Inr c, t)))"
proof -
  obtain am cu where am: "optional assert_paise amount = Inr am"
      and cu: "optional assert_currency currency = Inr cu"
    using assms by (auto simp: create_order_def run_simps)
  note run = assms [unfolded create_order_def am cu bindE_liftE Let_def]
  show ?thesis
  proof (cases "find (\<lambda>r. o_key r = strip k) (orders s)")
    case (Some r)
    with run show ?thesis by (auto split: if_splits)
  next
    case None
    have "\<exists>h price. get_hold hid (Some u) now True s = (Inr h, s) \<and> snapshot_of_hold h = Inr price
        \<and> (am = None \<or> am = Some (sp_amount price)) \<and> (cu = None \<or> cu = Some (sp_currency price))
        \<and> open_order t0 h u (strip k) price prov now s = (Inr c, t)"
      using run None by (auto simp: run_simps dest: get_hold_ok split: if_splits)
    then obtain h price where h: "get_hold hid (Some u) now True s = (Inr h, s)"
      "snapshot_of_hold h = Inr price" "am = None \<or> am = Some (sp_amount price)"
      "cu = None \<or> cu = Some (sp_currency price)"
      "open_order t0 h u (strip k) price prov now s = (Inr c, t)"
      by blast
    have "amount = PyNone \<or> amount = PyInt (h_price h)" "currency = PyNone \<or> currency = PyStr (h_currency h)"
      using am cu h(2-4)
      by (auto simp: optional_Inr assert_paise_Inr assert_currency_Inr snapshot_of_hold_Inr split: if_splits)
    moreover have "\<not> oc_replayed c" using open_order_ok [OF h(5)] by blast
    ultimately show ?thesis using None get_hold_ok [OF h(1)] h(2,5) by blast
  qed
qed

lemma create_order_fails:
  "fails (\<lambda>e t. (e = IntegrityError \<and> t = t0) \<or> ((\<exists>x. e = TutoringError x) \<and> t = s))
     (create_order t0 hid u k amount currency prov now s)"
proof -
  let ?P = "\<lambda>e t. (e = IntegrityError \<and> t = t0) \<or> ((\<exists>x. e = TutoringError x) \<and> t = s)"
  have p: "\<exists>x. e = TutoringError x" if "snapshot_of_hold h = Inl e" for h e
    using that by (auto simp: snapshot_of_hold_def split: sum.splits if_splits
        elim!: assert_price_paise.elims dest: assert_currency_Inl)
  have q: "\<exists>x. e = TutoringError x"
    if "optional assert_paise v = Inl e \<or> optional assert_currency v = Inl e" for v e
    using that by (auto dest!: optional_Inl dest: assert_paise_Inl assert_currency_Inl)
  have o: "fails ?P (open_order t0 h v key price prov now s)" for h v key price
    by (auto simp: open_order_def resolve_provider_def Let_def intro!: fails_bindE split: option.split sum.split)
  have g: "fails ?P (get_hold hid (Some u) now True s)"
    by (auto simp: get_hold_def split: option.split)
  show ?thesis
    unfolding create_order_def Let_def
    by (auto simp: liftE_iff intro!: fails_bindE g o split: option.split
        dest!: p q [OF disjI1] q [OF disjI2] get_hold_ok)
qed

section \<open>Lemmas: refunds\<close>

definition refunded :: "refund_row \<Rightarrow> order \<Rightarrow> bool \<Rightarrow> role \<Rightarrow> uid option \<Rightarrow> instant \<Rightarrow> db \<Rightarrow> db" where
  "refunded row order retry r u now s = s\<lparr>
     next_id := Suc (Suc (next_id s)), refunds := refunds s @ [row],
     outbox := outbox s @ [\<lparr>ob_id = Suc (next_id s), ob_kind = Refund_issued, ob_aggregate = o_id order,
       ob_payload = refund_payload row retry, ob_status = XPending, ob_attempts = 0,
       ob_last_error = None, ob_delivered_at = None, ob_created_at = now\<rparr>],
     booking_events := booking_events s @ [\<lparr>be_session = None, be_hold = Some (o_hold order),
       be_kind = (if rf_status row = RSucceeded then Refund_succeeded else Refund_requested),
       be_actor = (if r \<in> {Student, Tutor, Admin} then r else System), be_at = now\<rparr>],
     audits := audits s @ [\<lparr>au_action = Au_refund_issued, au_resource = Some (rf_id row),
       au_actor = u, au_role = r\<rparr>]\<rparr>"

lemma refund_payload_safe:
  assumes "rf_reason row \<in> set refund_reasons"
  shows "payload_safe (refund_payload row retry)"
proof -
  have keys: "key_norm k \<notin> set forbidden_payload_keys"
    if "k \<in> set [''order_id'', ''refund_id'', ''amount_paise'', ''reason'', ''status'', ''retry_pending'']" for k
    using that by (simp only: list.set insert_iff empty_iff simp_thms) (elim disjE; simp only:; code_simp)
  have "string_safe ''cancel_ge_24h''" "string_safe ''tutor_cancelled''" "string_safe ''admin_exception''"
    by code_simp+
  then have 1: "string_safe (reason_code (rf_reason row))"
    using assms by (auto simp: refund_reasons_def)
  have "string_safe ''pending''" "string_safe ''processing''" "string_safe ''succeeded''" "string_safe ''failed''"
    by code_simp+
  then have 2: "string_safe (refund_status_code (rf_status row))" by (cases "rf_status row") simp_all
  show ?thesis using 1 2 keys by (simp add: refund_payload_def)
qed

lemma record_refund_ok:
  assumes "record_refund t0 order amount reason status ref retry r u now s = (Inr i, t)"
  shows "\<exists>row. ri_refund i = row \<and> rf_id row = next_id s \<and> rf_order row = o_id order
    \<and> rf_amount row = amount \<and> rf_reason row = reason \<and> rf_status row = status
    \<and> refund_check row \<and> ri_pending_retry i = retry
    \<and> length (ri_intents i) = 1
    \<and> (status = RSucceeded \<longrightarrow> Some (o_id order) \<notin> rf_succeeded_order ` set (refunds s))
    \<and> t = refunded row order retry r u now s"
proof -
  let ?row = "\<lparr>rf_id = next_id s, rf_order = o_id order, rf_amount = amount, rf_reason = reason,
     rf_status = status, rf_provider_ref = ref,
     rf_succeeded_order = (if status = RSucceeded then Some (o_id order) else None)\<rparr>"
  obtain s1 where ins: "insert_refund ?row (bump s) = Some s1"
    using assms by (auto simp: record_refund_def Let_def split: option.split_asm)
  note run = assms [unfolded record_refund_def Let_def ins option.simps]
  have s1: "s1 = (bump s)\<lparr>refunds := refunds s @ [?row]\<rparr>" and chk: "refund_check ?row"
    and uq: "rf_succeeded_order ?row = None \<or> rf_succeeded_order ?row \<notin> rf_succeeded_order ` set (refunds s)"
    using ins unfolding insert_refund_def bump_def by (simp_all split: if_split_asm)
  obtain x s2 where e: "enqueue Refund_issued (o_id order) (refund_payload ?row retry) now s1 = (Inr x, s2)"
    using run unfolding bindE_Inr by blast
  have "i = \<lparr>ri_refund = ?row, ri_intents = [x], ri_pending_retry = retry\<rparr>"
    and t: "t = record_audit_event Au_refund_issued (Some (rf_id ?row)) u r
      (booking_event (if status = RSucceeded then Refund_succeeded else Refund_requested)
        (if r \<in> {Student, Tutor, Admin} then r else System) (Some (o_hold order)) None now s2)"
    using run unfolding e bindE_simps by (simp_all only: prod.inject sum.inject)
  then have i: "ri_refund i = ?row" "ri_pending_retry i = retry" "length (ri_intents i) = 1" by simp_all
  have s2: "s2 = outboxed Refund_issued (o_id order) (refund_payload ?row retry) now s1"
    using enqueue_ok [OF e] by blast
  have "t = refunded ?row order retry r u now s"
    unfolding t s2 s1 refunded_def outboxed_def append_defs by simp
  moreover have "status = RSucceeded \<longrightarrow> Some (o_id order) \<notin> rf_succeeded_order ` set (refunds s)"
    using uq by auto
  ultimately show ?thesis using i chk by (intro exI [of _ ?row]) simp
qed

lemma refund_ok:
  assumes "refund t0 oid amount reason r u prov now pend s = (Inr i, t)"
  shows "\<exists>ord n. amount = PyInt n \<and> 0 < n \<and> reason \<in> set refund_reasons
    \<and> get_order_row s oid = Some ord \<and> o_status ord = OPaid
    \<and> \<not> (\<exists>r \<in> set (refunds s). rf_order r = oid \<and> rf_status r = RSucceeded)
    \<and> refunded_paise s oid + n \<le> o_amount ord
    \<and> rf_order (ri_refund i) = oid \<and> rf_amount (ri_refund i) = n \<and> rf_reason (ri_refund i) = reason
    \<and> rf_status (ri_refund i) \<in> {RPending, RSucceeded} \<and> refund_check (ri_refund i)
    \<and> rf_id (ri_refund i) = next_id s
    \<and> t = refunded (ri_refund i) ord (ri_pending_retry i) r u now s"
proof -
  obtain n where n: "amount = PyInt n" "0 \<le> n"
    using assms by (auto simp: refund_def run_simps assert_paise_Inr)
  then have a: "assert_paise amount = Inr n" by (simp add: assert_paise_Inr)
  note run = assms [unfolded refund_def a bindE_liftE Let_def]
  obtain ord where o: "get_order_row s oid = Some ord" using run by (auto split: option.splits if_splits)
  have oid: "o_id ord = oid" using find_row_SomeD [OF o] by simp
  have "\<exists>st ref retry. st \<in> {RPending, RSucceeded}
      \<and> record_refund t0 ord n reason st ref retry r u now s = (Inr i, t)"
  proof -
    obtain p where p: "resolve_provider prov = Inr p" using run o by (auto simp: run_simps split: if_splits)
    let ?res = "p_refund p (case o_ref ord of Some r \<Rightarrow> r | None \<Rightarrow> []) n (oid, n, reason) reason"
    show ?thesis using run o p by (cases ?res) (auto split: if_splits)
  qed
  then obtain st ref retry where st: "st \<in> {RPending, RSucceeded}"
      and rec: "record_refund t0 ord n reason st ref retry r u now s = (Inr i, t)" by blast
  from record_refund_ok [OF rec] st oid have
    "rf_order (ri_refund i) = oid \<and> rf_amount (ri_refund i) = n \<and> rf_reason (ri_refund i) = reason
      \<and> rf_status (ri_refund i) \<in> {RPending, RSucceeded} \<and> refund_check (ri_refund i)
      \<and> rf_id (ri_refund i) = next_id s
      \<and> t = refunded (ri_refund i) ord (ri_pending_retry i) r u now s" by auto
  moreover have "reason \<in> set refund_reasons \<and> o_status ord = OPaid \<and> n \<noteq> 0
      \<and> \<not> (\<exists>r \<in> set (refunds s). rf_order r = oid \<and> rf_status r = RSucceeded)
      \<and> refunded_paise s oid + n \<le> o_amount ord"
    using run o by (auto split: if_splits)
  ultimately show ?thesis using n o by auto
qed

lemma record_refund_fails:
  assumes "reason \<in> set refund_reasons"
  shows "fails (\<lambda>e t. e = TutoringError RefundDuplicate \<and> t = t0)
    (record_refund t0 order amount reason status ref retry r u now s)"
  unfolding record_refund_def Let_def
  by (simp add: enqueue_safe refund_payload_safe assms split: option.split)

lemma refund_fails:
  "fails (\<lambda>e t. (e = TutoringError RefundDuplicate \<and> t = t0) \<or> ((\<exists>x. e = TutoringError x) \<and> t = s))
     (refund t0 oid amount reason r u prov now pend s)"
proof -
  let ?P = "\<lambda>e t. (e = TutoringError RefundDuplicate \<and> t = t0) \<or> ((\<exists>x. e = TutoringError x) \<and> t = s)"
  have rec: "fails ?P (record_refund t0 ord n reason st ref retry r u now s)"
    if "reason \<in> set refund_reasons" for ord n st ref retry
    using record_refund_fails [OF that] by (fastforce simp: fails_def)
  show ?thesis
    unfolding refund_def Let_def
    by (auto simp: liftE_iff resolve_provider_def dest!: assert_paise_Inl
        intro!: fails_bindE rec split: option.split sum.split option.splits)
qed

text \<open>The cap on what an order can pay back.\<close>

definition refund_inv :: "db \<Rightarrow> bool" where
  "refund_inv s \<longleftrightarrow> distinct (map o_id (orders s))
     \<and> (\<forall>ord \<in> set (orders s). o_id ord < next_id s \<and> 0 \<le> o_amount ord \<and> refunded_paise s (o_id ord) \<le> o_amount ord)
     \<and> (\<forall>r \<in> set (refunds s). rf_order r \<in> o_id ` set (orders s) \<and> 0 \<le> rf_amount r)
     \<and> (\<forall>i. length (filter (\<lambda>r. rf_order r = i \<and> rf_status r = RSucceeded) (refunds s)) \<le> 1)"

lemma refunded_paise_append:
  "refunded_paise (s\<lparr>refunds := refunds s @ [r]\<rparr>) i
     = refunded_paise s i + (if live_refund i r then rf_amount r else 0)"
  by (simp add: refunded_paise_def)

lemma refunded_paise_refunds: "refunds t = refunds s \<Longrightarrow> refunded_paise t i = refunded_paise s i"
  by (simp add: refunded_paise_def)

lemma refund_inv_step:
  assumes inv: "refund_inv s" and ord: "get_order_row s oid = Some ord"
    and one: "\<not> (\<exists>r \<in> set (refunds s). rf_order r = oid \<and> rf_status r = RSucceeded)"
    and cap: "refunded_paise s oid + rf_amount row \<le> o_amount ord" "0 < rf_amount row"
    and row: "rf_order row = oid" "rf_status row \<in> {RPending, RSucceeded}"
  shows "refund_inv (refunded row ord retry r u now s)"
proof -
  let ?t = "refunded row ord retry r u now s"
  have t: "orders ?t = orders s" "refunds ?t = refunds s @ [row]" "next_id s \<le> next_id ?t"
    by (simp_all add: refunded_def)
  have sum: "refunded_paise ?t i = refunded_paise s i + (if i = oid then rf_amount row else 0)" for i
    using row by (auto simp: refunded_paise_def t live_refund_def)
  have d: "distinct (map o_id (orders s))" using inv by (simp add: refund_inv_def)
  note om = find_row_SomeD [OF ord]
  have 1: "o_id g < next_id ?t \<and> 0 \<le> o_amount g \<and> refunded_paise ?t (o_id g) \<le> o_amount g"
    if "g \<in> set (orders s)" for g
  proof (cases "o_id g = oid")
    case True
    then have "g = ord" using d that om by (metis distinct_map inj_onD)
    with inv that cap t(3) sum True show ?thesis by (auto simp: refund_inv_def)
  next
    case False
    with inv that t(3) sum show ?thesis by (auto simp: refund_inv_def)
  qed
  have 2: "length (filter (\<lambda>r. rf_order r = i \<and> rf_status r = RSucceeded) (refunds ?t)) \<le> 1" for i
  proof (cases "i = oid")
    case True
    then have "filter (\<lambda>r. rf_order r = i \<and> rf_status r = RSucceeded) (refunds s) = []"
      using one by (auto simp: filter_empty_conv)
    then show ?thesis by (simp add: t)
  qed (use inv row in \<open>auto simp: t refund_inv_def\<close>)
  have "rf_order row \<in> o_id ` set (orders s)" using om row(1) by (metis imageI)
  then show ?thesis
    using inv 1 2 row cap by (auto simp: refund_inv_def t)
qed

lemma refund_keeps_inv:
  assumes "refund_inv s" "refund t0 oid amount reason r u prov now pend s = (Inr i, t)"
  shows "refund_inv t"
  using refund_ok [OF assms(2)] refund_inv_step [OF assms(1)] by fastforce

lemma refund_inv_frame:
  assumes "refund_inv s" "orders t = orders s" "refunds t = refunds s" "next_id s \<le> next_id t"
  shows "refund_inv t"
  using assms by (auto simp: refund_inv_def refunded_paise_refunds [OF assms(3)] intro: order_less_le_trans)

section \<open>Properties\<close>

text \<open>
  Property C32. Where the policy window falls: for a window of \<open>h\<close> hours (up to a year), notice of \<open>h\<close>
  hours or more always counts as outside it, and less than \<open>h\<close> hours minus 18.01 seconds always as
  inside; in between, the two-decimal rounding of \<open>hours_before\<close> decides, and notice up to 17.99
  seconds short of the window still counts as outside.
\<close>
theorem policy_window:
  assumes "0 < h" and "h \<le> 8760"
  shows "(hours h - 17990000 \<le> start - now \<longrightarrow> 100 * h \<le> hours_before start now)
    \<and> (start - now \<le> hours h - 18010000 \<longrightarrow> hours_before start now < 100 * h)
    \<and> 0 \<le> hours_before start now"
  using hours_before_ge [OF assms] hours_before_lt [OF assms] hours_before_nonneg by blast

theorem policy_window_witness:
  "2400 \<le> hours_before (hours 24 - 17000000) 0 \<and> hours_before (hours 24 - 19000000) 0 < 2400"
  using policy_window [of 24 "hours 24 - 17000000" 0] policy_window [of 24 "hours 24 - 19000000" 0]
  by simp



definition sample_provider :: provider where
  "sample_provider = \<lparr>p_name = ''deterministic'',
     p_create_order = (\<lambda>amount cur key hid. Inr \<lparr>or_ref = ''det_ord_'' @ key, or_amount = amount, or_currency = cur\<rparr>),
     p_verify_event = (\<lambda>signature body. Inl (PaymentProviderError ''SIGNATURE_INVALID'' False)),
     p_refund = (\<lambda>ref amount key reason. Inr \<lparr>rr_ref = ''det_rfnd_1'', rr_amount = amount, rr_status = ''succeeded''\<rparr>)\<rparr>"

definition sample_ordered :: db where
  "sample_ordered = snd (create_order sample_held 10 200 ''pay-1'' PyNone PyNone (Some sample_provider) 2000 sample_held)"

definition sample_order :: order where
  "sample_order = new_order 11 10 200 ''pay-1'' ''deterministic'' ''det_ord_pay-1''
     \<lparr>sp_amount = 180000, sp_currency = ''INR'', sp_source = Hold_snapshot, sp_tutor = None\<rparr> 2000"

lemma sample_ordered_run:
  "create_order sample_held 10 200 ''pay-1'' PyNone PyNone (Some sample_provider) 2000 sample_held
     = (Inr \<lparr>oc_order = sample_order, oc_intents = [], oc_replayed = False\<rparr>, sample_ordered)"
proof -
  have "fst (create_order sample_held 10 200 ''pay-1'' PyNone PyNone (Some sample_provider) 2000 sample_held)
     = Inr \<lparr>oc_order = sample_order, oc_intents = [], oc_replayed = False\<rparr>" by code_simp
  then show ?thesis by (simp add: sample_ordered_def prod_eq_iff)
qed

text \<open>
  Property C13. The amount of an order is the server's: a new order carries the price and currency of
  the owner's live hold, the provider was asked for exactly that amount, and the request's own
  amount and currency have no influence (leaving them out gives the same order and the same state).
\<close>
theorem order_amount_from_hold:
  assumes "create_order t0 hid u k amount currency prov now s = (Inr c, t)" and "\<not> oc_replayed c"
  shows "(\<exists>h p res. get_hold_row s hid = Some h \<and> h_student h = u \<and> live_hold h \<and> now < h_expires_at h
      \<and> o_hold (oc_order c) = hid \<and> o_amount (oc_order c) = h_price h \<and> 0 < h_price h
      \<and> o_currency (oc_order c) = h_currency h \<and> o_status (oc_order c) = OCreated
      \<and> prov = Some p \<and> p_create_order p (h_price h) (h_currency h) (strip k) hid = Inr res)
    \<and> create_order t0 hid u k PyNone PyNone prov now s = (Inr c, t)"
proof -
  obtain h price where h: "find (\<lambda>r. o_key r = strip k) (orders s) = None"
      "get_hold_row s hid = Some h" "h_id h = hid" "h_student h = u" "live_hold h" "now < h_expires_at h"
      "snapshot_of_hold h = Inr price" "open_order t0 h u (strip k) price prov now s = (Inr c, t)"
    using create_order_ok [OF assms(1)] assms(2) by blast
  have "strip k \<noteq> [] \<and> length (strip k) \<le> 200"
    using assms(1) by (auto simp: create_order_def run_simps Let_def split: if_splits)
  moreover have "get_hold hid (Some u) now True s = (Inr h, s)"
    using h by (auto simp: get_hold_def live_hold_def is_expired_def)
  ultimately have "create_order t0 hid u k PyNone PyNone prov now s = (Inr c, t)"
    using h(1,7,8) by (simp add: create_order_def optional_def)
  moreover note open_order_ok [OF h(8)]
  ultimately show ?thesis using h by (auto simp: snapshot_of_hold_Inr new_order_def)
qed

theorem order_amount_from_hold_witness:
  "\<exists>h. get_hold_row sample_held 10 = Some h \<and> o_amount sample_order = h_price h"
  using order_amount_from_hold [OF sample_ordered_run] by auto

text \<open>
  Creating an order is idempotent and refuses without a trace: the same key for the same
  hold and student gives back the same order and writes nothing (even after the hold is gone), and
  every typed refusal, a wrong amount included, leaves the database exactly as it was; an untyped one
  is a constraint of the database, with the transaction rolled back.
\<close>
theorem create_order_atomic:
  "(\<forall>c t. create_order t0 hid u k amount currency prov now s = (Inr c, t) \<longrightarrow>
      (\<forall>prov' now' t0' s'. orders s' = orders t \<longrightarrow>
         create_order t0' hid u k PyNone PyNone prov' now' s' = (Inr (c\<lparr>oc_replayed := True, oc_intents := []\<rparr>), s')))
   \<and> (\<forall>e t. create_order t0 hid u k amount currency prov now s = (Inl (TutoringError e), t) \<longrightarrow> t = s)
   \<and> (\<forall>t. create_order t0 hid u k amount currency prov now s = (Inl IntegrityError, t) \<longrightarrow> t = t0)"
proof (intro conjI allI impI)
  fix c t prov' now' t0' and s' :: db
  assume run: "create_order t0 hid u k amount currency prov now s = (Inr c, t)" and s': "orders s' = orders t"
  have key: "strip k \<noteq> [] \<and> length (strip k) \<le> 200"
    using run by (auto simp: create_order_def run_simps Let_def split: if_splits)
  have "find (\<lambda>r. o_key r = strip k) (orders t) = Some (oc_order c) \<and> o_hold (oc_order c) = hid
      \<and> o_student (oc_order c) = u"
    using create_order_ok [OF run]
  proof
    assume r: "\<not> oc_replayed c \<and> find (\<lambda>r. o_key r = strip k) (orders s) = None
        \<and> (\<exists>h price. get_hold_row s hid = Some h \<and> h_id h = hid \<and> h_student h = u \<and> live_hold h
             \<and> now < h_expires_at h \<and> snapshot_of_hold h = Inr price
             \<and> (amount = PyNone \<or> amount = PyInt (h_price h))
             \<and> (currency = PyNone \<or> currency = PyStr (h_currency h))
             \<and> open_order t0 h u (strip k) price prov now s = (Inr c, t))"
    then obtain h price where h: "h_id h = hid" "open_order t0 h u (strip k) price prov now s = (Inr c, t)"
      by blast
    from open_order_ok [OF h(2)] h(1) r show ?thesis
      by (auto simp: new_order_def ordered_def find_append_None)
  qed auto
  with key s' show "create_order t0' hid u k PyNone PyNone prov' now' s'
      = (Inr (c\<lparr>oc_replayed := True, oc_intents := []\<rparr>), s')"
    by (simp add: create_order_def optional_def)
next
  fix e t assume "create_order t0 hid u k amount currency prov now s = (Inl (TutoringError e), t)"
  from failsD [OF create_order_fails this] show "t = s" by simp
next
  fix t assume "create_order t0 hid u k amount currency prov now s = (Inl IntegrityError, t)"
  from failsD [OF create_order_fails this] show "t = t0" by simp
qed

theorem create_order_atomic_witness:
  "create_order empty_db 10 200 ''pay-1'' PyNone PyNone None 99 sample_ordered
     = (Inr \<lparr>oc_order = sample_order, oc_intents = [], oc_replayed = True\<rparr>, sample_ordered)
   \<and> snd (create_order sample_held 10 200 ''pay-2'' (PyInt 1) PyNone (Some sample_provider) 2000 sample_held) = sample_held"
proof -
  let ?r = "create_order sample_held 10 200 ''pay-2'' (PyInt 1) PyNone (Some sample_provider) 2000 sample_held"
  have f: "fst ?r = Inl (TutoringError PaymentAmountMismatch)" by code_simp
  have "?r = (Inl (TutoringError PaymentAmountMismatch), snd ?r)"
    by (rule prod_eqI) (simp_all only: f fst_conv snd_conv)
  with create_order_atomic have 1: "snd ?r = sample_held" by blast
  have "create_order empty_db 10 200 ''pay-1'' PyNone PyNone None 99 sample_ordered
     = (Inr (\<lparr>oc_order = sample_order, oc_intents = [], oc_replayed = False\<rparr>\<lparr>oc_replayed := True, oc_intents := []\<rparr>), sample_ordered)"
    using create_order_atomic sample_ordered_run by blast
  with 1 show ?thesis by simp
qed

text \<open>
  A student asking which order governs a hold is answered with an order of their own on
  that hold, the captured one if there is one and otherwise the newest attempt, and with the same
  \<open>NOT_FOUND\<close> whether the hold has no order or only somebody else's.
\<close>
theorem order_for_hold_policy:
  "(\<forall>r. order_for_hold hid u s = Inr r \<longrightarrow>
      r \<in> set (orders s) \<and> o_hold r = hid \<and> (u = None \<or> u = Some (o_student r))
      \<and> (\<forall>q \<in> set (orders s). o_hold q = hid \<and> (u = None \<or> u = Some (o_student q)) \<longrightarrow>
            (o_status q = OPaid \<longrightarrow> o_status r = OPaid)
            \<and> (o_status r \<noteq> OPaid \<longrightarrow> (o_created_at q, o_id q) \<le> (o_created_at r, o_id r))))
   \<and> (\<forall>e. order_for_hold hid u s = Inl e \<longleftrightarrow> e = TutoringError NotFound
        \<and> \<not> (\<exists>q \<in> set (orders s). o_hold q = hid \<and> (u = None \<or> u = Some (o_student q))))"
proof -
  define f where "f = (\<lambda>q :: order. (o_created_at q, o_id q))"
  define rows where "rows = (case u of None \<Rightarrow> rev (sort_key f (filter (\<lambda>r. o_hold r = hid) (orders s)))
      | Some v \<Rightarrow> filter (\<lambda>r. o_student r = v) (rev (sort_key f (filter (\<lambda>r. o_hold r = hid) (orders s)))))"
  have run: "order_for_hold hid u s = (case rows of [] \<Rightarrow> Inl (TutoringError NotFound)
      | n # _ \<Rightarrow> (case find (\<lambda>r. o_status r = OPaid) rows of Some r \<Rightarrow> Inr r | None \<Rightarrow> Inr n))"
    unfolding order_for_hold_def rows_def f_def Let_def ..
  have mem: "q \<in> set rows \<longleftrightarrow> q \<in> set (orders s) \<and> o_hold q = hid \<and> (u = None \<or> u = Some (o_student q))" for q
    by (auto simp: rows_def split: option.splits)
  have "sorted (map f (rev rows))"
    by (cases u) (simp_all add: rows_def rev_filter sorted_filter)
  then have srt: "f q \<le> f n" if "rows = n # rest" "q \<in> set rows" for n rest q
    using that by (auto simp: sorted_append)
  show ?thesis
  proof (cases rows)
    case Nil
    then show ?thesis using mem by (auto simp: run)
  next
    case (Cons n rest)
    have "n \<in> set rows" using Cons by simp
    show ?thesis
    proof (cases "find (\<lambda>r. o_status r = OPaid) rows")
      case None
      then have "\<forall>q \<in> set rows. o_status q \<noteq> OPaid" by (simp add: find_None_iff)
      moreover have "order_for_hold hid u s = Inr n" using Cons None by (simp add: run)
      ultimately show ?thesis using mem srt [OF Cons] \<open>n \<in> set rows\<close> by (auto simp: f_def)
    next
      case (Some r)
      then have "r \<in> set rows" "o_status r = OPaid" by (auto simp: find_Some_iff)
      moreover have "order_for_hold hid u s = Inr r" using Cons Some by (simp add: run)
      ultimately show ?thesis using mem by auto
    qed
  qed
qed

theorem order_for_hold_policy_witness:
  "order_for_hold 10 (Some 201) sample_ordered = Inl (TutoringError NotFound)"
proof -
  have "\<not> (\<exists>q \<in> set (orders sample_ordered). o_hold q = 10 \<and> (Some 201 = None \<or> Some 201 = Some (o_student q)))"
    by code_simp
  with order_for_hold_policy [of 10 "Some 201" sample_ordered, THEN conjunct2] show ?thesis by blast
qed

definition sample_paid :: db where
  "sample_paid = sample_ordered\<lparr>orders := [sample_order\<lparr>o_status := OPaid\<rparr>]\<rparr>"

lemma sample_paid_inv: "refund_inv sample_paid"
proof -
  have "orders sample_paid = [sample_order\<lparr>o_status := OPaid\<rparr>]" "refunds sample_paid = []"
      "next_id sample_paid = 12" by code_simp+
  then show ?thesis by (simp add: refund_inv_def refunded_paise_def sample_order_def new_order_def)
qed



text \<open>
  A refund that is refused leaves no phantom: whatever fails (the guards or the provider),
  the database is as it was, or the transaction is rolled back because of a concurrent duplicate;
  a provider failure turns into a pending refund only when the caller allowed it and asking again
  can help.
\<close>
theorem refund_no_phantom:
  "(\<forall>e t. refund t0 oid amount reason r u prov now pend s = (Inl e, t) \<longrightarrow>
      (t = s \<and> (\<exists>x. e = TutoringError x)) \<or> (t = t0 \<and> e = TutoringError RefundDuplicate))
   \<and> (\<forall>i t. refund t0 oid amount reason r u prov now pend s = (Inr i, t) \<and> ri_pending_retry i \<longrightarrow>
        pend \<and> rf_status (ri_refund i) = RPending
        \<and> (\<exists>p ref n e. prov = Some p \<and> p_refund p ref n (oid, n, reason) reason = Inl e \<and> perr_retryable e))"
proof (rule conjI; intro allI impI)
  fix e t assume "refund t0 oid amount reason r u prov now pend s = (Inl e, t)"
  from failsD [OF refund_fails this]
  show "(t = s \<and> (\<exists>x. e = TutoringError x)) \<or> (t = t0 \<and> e = TutoringError RefundDuplicate)" by blast
next
  fix i t
  assume a: "refund t0 oid amount reason r u prov now pend s = (Inr i, t) \<and> ri_pending_retry i"
  then obtain n ord where n: "assert_paise amount = Inr n" and o: "get_order_row s oid = Some ord"
    by (auto simp: refund_def run_simps split: option.splits if_splits)
  note run = conjunct1 [OF a, unfolded refund_def n bindE_liftE Let_def]
  obtain p where p: "prov = Some p"
    using run o by (auto simp: run_simps resolve_provider_def split: if_splits option.splits)
  let ?ref = "case o_ref ord of Some r \<Rightarrow> r | None \<Rightarrow> []"
  show "pend \<and> rf_status (ri_refund i) = RPending
        \<and> (\<exists>p ref n e. prov = Some p \<and> p_refund p ref n (oid, n, reason) reason = Inl e \<and> perr_retryable e)"
  proof (cases "p_refund p ?ref n (oid, n, reason) reason")
    case (Inl e)
    then have "pend \<and> perr_retryable e"
      and "record_refund t0 ord n reason RPending None True r u now s = (Inr i, t)"
      using run o p by (auto simp: resolve_provider_def split: if_splits)
    with record_refund_ok [OF this(2)] p Inl show ?thesis by blast
  next
    case (Inr res)
    then have "\<exists>st. record_refund t0 ord n reason st (Some (rr_ref res)) False r u now s = (Inr i, t)"
      using run o p by (auto simp: resolve_provider_def split: if_splits)
    with record_refund_ok a show ?thesis by blast
  qed
qed

theorem refund_no_phantom_witness:
  "snd (refund sample_paid 11 (PyInt 180000) Tutor_cancelled Tutor (Some 100) None 3000 True sample_paid)
     = sample_paid"
proof -
  let ?r = "refund sample_paid 11 (PyInt 180000) Tutor_cancelled Tutor (Some 100) None 3000 True sample_paid"
  have f: "fst ?r = Inl (TutoringError (ProviderUnavailable False))" by code_simp
  have "?r = (Inl (TutoringError (ProviderUnavailable False)), snd ?r)"
    by (rule prod_eqI) (simp_all only: f fst_conv snd_conv)
  with refund_no_phantom [THEN conjunct1] show ?thesis by blast
qed

end
