(* ===== verification/Reminders.thy ===== *)
theory Reminders
  imports Outbox
begin

text \<open>
  Session reminders (\<open>services/tutoring/reminders.py\<close>): the configured offsets, the jobs of a session
  (scheduled idempotently, reinstated after a reschedule that comes back), their revocation, and the
  pass that turns due jobs into outbox rows. The \<open>offsets\<close> argument is a list of the canonical codes.
\<close>

section \<open>Operations\<close>

definition reminder_kinds :: "offset_kind list" where
  "reminder_kinds = [Off_7d, Off_1d, Off_3h]"

fun offset_code :: "offset_kind \<Rightarrow> string" where
  "offset_code Off_7d = ''7d''"
| "offset_code Off_1d = ''1d''"
| "offset_code Off_3h = ''3h''"

fun offset_delta :: "offset_kind \<Rightarrow> int" where
  "offset_delta Off_7d = days 7"
| "offset_delta Off_1d = days 1"
| "offset_delta Off_3h = hours 3"

definition parse_offset :: "string \<Rightarrow> exn + int" where
  "parse_offset kind =
     (case find (\<lambda>k. offset_code k = strip kind) reminder_kinds of
        None \<Rightarrow> Inl (TutoringError ValidationError)
      | Some k \<Rightarrow> Inr (offset_delta k))"

fun check_offsets :: "string list \<Rightarrow> exn + unit" where
  "check_offsets [] = Inr ()"
| "check_offsets (k # ks) = (case parse_offset k of Inl e \<Rightarrow> Inl e | Inr d \<Rightarrow> check_offsets ks)"

definition configured_offsets :: "settings \<Rightarrow> exn + offset_kind list" where
  "configured_offsets cfg =
     (if reminder_offsets cfg = [] then Inl (TutoringError ValidationError)
      else case check_offsets (reminder_offsets cfg) of
          Inl e \<Rightarrow> Inl e
        | Inr _ \<Rightarrow> Inr (filter (\<lambda>k. offset_code k \<in> set (map strip (reminder_offsets cfg))) reminder_kinds))"

definition remindable :: "session_status \<Rightarrow> bool" where
  "remindable st \<longleftrightarrow> st \<in> {Pending_provider, Confirmed, Rescheduled}"

definition set_job :: "job_status \<Rightarrow> reminder_job \<Rightarrow> reminder_job" where
  "set_job st j = j\<lparr>rj_status := st\<rparr>"

text \<open>The body of the loop of \<open>schedule_for_session\<close>, for one offset that is still ahead.\<close>

definition schedule_kind ::
    "db \<Rightarrow> uid \<Rightarrow> offset_kind \<Rightarrow> instant \<Rightarrow> db \<Rightarrow> reminder_job run" where
  "schedule_kind t0 sid k at s =
     (case find (\<lambda>j. job_key j = (sid, k, at)) (jobs s) of
        Some j \<Rightarrow>
          if rj_status j = JRevoked
          then ok (set_job JScheduled j)
                 (s\<lparr>jobs := update_where (\<lambda>r. rj_id r = rj_id j \<and> rj_status r = JRevoked)
                              (set_job JScheduled) (jobs s)\<rparr>)
          else ok j s
      | None \<Rightarrow>
          let row = \<lparr>rj_id = next_id s, rj_session = sid, rj_kind = k, rj_at = at, rj_status = JScheduled\<rparr>
          in (case insert_job row (bump s) of None \<Rightarrow> (Inl IntegrityError, t0) | Some s1 \<Rightarrow> ok row s1))"

fun schedule_kinds ::
    "db \<Rightarrow> tsession \<Rightarrow> instant \<Rightarrow> offset_kind list \<Rightarrow> db \<Rightarrow> (reminder_job list) run" where
  "schedule_kinds t0 sess now [] s = ok [] s"
| "schedule_kinds t0 sess now (k # ks) s =
     (let at = ts_start sess - offset_delta k in
      if at \<le> now then schedule_kinds t0 sess now ks s
      else bindE (schedule_kind t0 (ts_id sess) k at s) (\<lambda>j s.
             bindE (schedule_kinds t0 sess now ks s) (\<lambda>js s. ok (j # js) s)))"

definition schedule_for_session ::
    "settings \<Rightarrow> db \<Rightarrow> tsession \<Rightarrow> instant \<Rightarrow> offset_kind list option \<Rightarrow> db \<Rightarrow> (reminder_job list) run" where
  "schedule_for_session cfg t0 sess now offsets s =
     (if \<not> remindable (ts_status sess) then ok [] s
      else bindE (liftE (case offsets of Some ks \<Rightarrow> if ks = [] then configured_offsets cfg else Inr ks
                                        | None \<Rightarrow> configured_offsets cfg) s)
             (\<lambda>ks s. schedule_kinds t0 sess now ks s))"

definition revocable :: "uid \<Rightarrow> offset_kind list option \<Rightarrow> reminder_job \<Rightarrow> bool" where
  "revocable sid kinds j \<longleftrightarrow> rj_session j = sid \<and> rj_status j = JScheduled
     \<and> (case kinds of None \<Rightarrow> True | Some ks \<Rightarrow> ks = [] \<or> rj_kind j \<in> set ks)"

definition revoke_for_session :: "uid \<Rightarrow> offset_kind list option \<Rightarrow> db \<Rightarrow> nat \<times> db" where
  "revoke_for_session sid kinds s =
     (count_where (revocable sid kinds) (jobs s),
      s\<lparr>jobs := update_where (revocable sid kinds) (set_job JRevoked) (jobs s)\<rparr>)"

definition list_jobs :: "uid \<Rightarrow> job_status list option \<Rightarrow> db \<Rightarrow> reminder_job list" where
  "list_jobs sid statuses s =
     sort_key (\<lambda>j. (rj_at j, rj_id j))
       (filter (\<lambda>j. rj_session j = sid
           \<and> (case statuses of None \<Rightarrow> True | Some xs \<Rightarrow> xs = [] \<or> rj_status j \<in> set xs)) (jobs s))"

definition is_due :: "instant \<Rightarrow> reminder_job \<Rightarrow> bool" where
  "is_due now j \<longleftrightarrow> rj_status j = JScheduled \<and> rj_at j \<le> now"

definition due_jobs :: "instant \<Rightarrow> int \<Rightarrow> db \<Rightarrow> exn + reminder_job list" where
  "due_jobs now limit s =
     (if limit \<le> 0 \<or> 500 < limit then Inl (TutoringError ValidationError)
      else Inr (take (nat limit) (sort_key (\<lambda>j. (rj_at j, rj_id j)) (filter (is_due now) (jobs s)))))"

record reminder_batch =
  rb_intents :: "outbox_intent list"
  rb_enqueued :: nat
  rb_revoked :: nat

definition reminder_payload :: "tsession \<Rightarrow> offset_kind \<Rightarrow> json" where
  "reminder_payload sess k = JObj
     [(''session_id'', JUuid (ts_id sess)), (''offset_kind'', JStr (offset_code k)),
      (''start_utc'', JInstant (ts_start sess)), (''iana_timezone'', JStr (ts_tz sess))]"

text \<open>One round of the loop of \<open>enqueue_due\<close>, on a job as it was read.\<close>

definition enqueue_job :: "instant \<Rightarrow> reminder_job \<Rightarrow> reminder_batch \<Rightarrow> db \<Rightarrow> reminder_batch run" where
  "enqueue_job now job batch s =
     (let p = (\<lambda>r. rj_id r = rj_id job \<and> rj_status r = JScheduled);
          n = count_where p (jobs s)
      in case get_session_row s (rj_session job) of
          Some sess \<Rightarrow>
            if ts_deleted_at sess \<noteq> None \<or> \<not> remindable (ts_status sess)
            then ok (batch\<lparr>rb_revoked := rb_revoked batch + n\<rparr>)
                   (s\<lparr>jobs := update_where p (set_job JRevoked) (jobs s)\<rparr>)
            else let s1 = s\<lparr>jobs := update_where p (set_job JSent) (jobs s)\<rparr> in
              if n \<noteq> 1 then ok batch s1
              else bindE (enqueue Session_reminder (ts_id sess) (reminder_payload sess (rj_kind job)) now s1)
                (\<lambda>i s. ok (batch\<lparr>rb_intents := rb_intents batch @ [i], rb_enqueued := rb_enqueued batch + 1\<rparr>) s)
        | None \<Rightarrow> ok (batch\<lparr>rb_revoked := rb_revoked batch + n\<rparr>)
                   (s\<lparr>jobs := update_where p (set_job JRevoked) (jobs s)\<rparr>))"

fun enqueue_jobs :: "instant \<Rightarrow> reminder_job list \<Rightarrow> reminder_batch \<Rightarrow> db \<Rightarrow> reminder_batch run" where
  "enqueue_jobs now [] batch s = ok batch s"
| "enqueue_jobs now (j # js) batch s =
     bindE (enqueue_job now j batch s) (\<lambda>batch s. enqueue_jobs now js batch s)"

definition enqueue_due :: "instant \<Rightarrow> int \<Rightarrow> db \<Rightarrow> reminder_batch run" where
  "enqueue_due now limit s =
     bindE (liftE (due_jobs now limit s) s) (\<lambda>js s.
       enqueue_jobs now js \<lparr>rb_intents = [], rb_enqueued = 0, rb_revoked = 0\<rparr> s)"

section \<open>Lemmas\<close>

definition jobs_inv :: "db \<Rightarrow> bool" where
  "jobs_inv s \<longleftrightarrow> distinct (map rj_id (jobs s)) \<and> distinct (map job_key (jobs s))
     \<and> (\<forall>j \<in> set (jobs s). rj_id j < next_id s)"

lemma set_job_sel [simp]:
  "rj_id (set_job st j) = rj_id j" "rj_session (set_job st j) = rj_session j"
  "rj_kind (set_job st j) = rj_kind j" "rj_at (set_job st j) = rj_at j"
  "rj_status (set_job st j) = st" "job_key (set_job st j) = job_key j"
  "set_job st (set_job st' j) = set_job st j"
  by (simp_all add: set_job_def job_key_def)

lemma offset_delta_pos [simp]: "0 < offset_delta k"
  by (cases k) (simp_all add: days_def hours_def)

lemma offset_code_inj: "offset_code k = offset_code k' \<longleftrightarrow> k = k'"
  by (cases k; cases k') simp_all

lemma jobs_inv_update:
  "jobs_inv s \<Longrightarrow> jobs_inv (s\<lparr>jobs := update_where p (set_job st) (jobs s)\<rparr>)"
  by (auto simp: jobs_inv_def map_update_where set_update_where)

lemma schedule_kind_run:
  assumes inv: "jobs_inv s"
  shows "\<exists>j t. schedule_kind t0 sid k at s = (Inr j, t) \<and> jobs_inv t
     \<and> j \<in> set (jobs t) \<and> job_key j = (sid, k, at) \<and> rj_status j \<noteq> JRevoked
     \<and> (\<forall>r \<in> set (jobs s). job_key r \<noteq> (sid, k, at) \<or> rj_status r \<noteq> JRevoked \<longrightarrow> r \<in> set (jobs t))
     \<and> (\<forall>r \<in> set (jobs t). job_key r \<noteq> (sid, k, at) \<longrightarrow> r \<in> set (jobs s))
     \<and> t = s\<lparr>jobs := jobs t, next_id := next_id t\<rparr>"
proof (cases "find (\<lambda>j. job_key j = (sid, k, at)) (jobs s)")
  case None
  then have new: "(sid, k, at) \<notin> job_key ` set (jobs s)" unfolding find_None_iff by auto
  let ?row = "\<lparr>rj_id = next_id s, rj_session = sid, rj_kind = k, rj_at = at, rj_status = JScheduled\<rparr>"
  have "schedule_kind t0 sid k at s = (Inr ?row, (bump s)\<lparr>jobs := jobs s @ [?row]\<rparr>)"
    using None new by (simp add: schedule_kind_def Let_def insert_job_def bump_def job_key_def)
  then show ?thesis using inv new
    by (fastforce simp: jobs_inv_def bump_def job_key_def less_Suc_eq)
next
  case (Some j)
  then have j: "j \<in> set (jobs s)" "job_key j = (sid, k, at)" by (auto simp: find_Some_iff)
  let ?u = "update_where (\<lambda>r. rj_id r = rj_id j \<and> rj_status r = JRevoked) (set_job JScheduled) (jobs s)"
  have other: "r = j" if "r \<in> set (jobs s)" "rj_id r = rj_id j" for r
    using inv that j(1) unfolding jobs_inv_def by (metis distinct_map inj_onD)
  show ?thesis
  proof (cases "rj_status j = JRevoked")
    case True
    have "schedule_kind t0 sid k at s = (Inr (set_job JScheduled j), s\<lparr>jobs := ?u\<rparr>)"
      using Some True by (simp add: schedule_kind_def)
    moreover have "set_job JScheduled j \<in> set ?u" using j(1) True by (auto simp: set_update_where)
    moreover have "\<forall>r \<in> set (jobs s). job_key r \<noteq> (sid, k, at) \<or> rj_status r \<noteq> JRevoked \<longrightarrow> r \<in> set ?u"
      using other j(2) by (auto simp: set_update_where)
    moreover have "\<forall>r \<in> set ?u. job_key r \<noteq> (sid, k, at) \<longrightarrow> r \<in> set (jobs s)"
      using other j(2) by (fastforce simp: set_update_where)
    ultimately show ?thesis using jobs_inv_update [OF inv] j(2) by simp
  next
    case False
    then have "schedule_kind t0 sid k at s = (Inr j, s)" using Some by (simp add: schedule_kind_def)
    with inv j False show ?thesis by simp
  qed
qed

definition wanted :: "tsession \<Rightarrow> instant \<Rightarrow> offset_kind list \<Rightarrow> (uid \<times> offset_kind \<times> instant) list" where
  "wanted sess now ks = map (\<lambda>k. (ts_id sess, k, ts_start sess - offset_delta k))
     (filter (\<lambda>k. now < ts_start sess - offset_delta k) ks)"

lemma schedule_kinds_run:
  assumes "jobs_inv s"
  shows "\<exists>js t. schedule_kinds t0 sess now ks s = (Inr js, t) \<and> jobs_inv t
     \<and> map job_key js = wanted sess now ks
     \<and> (\<forall>j \<in> set js. j \<in> set (jobs t) \<and> rj_status j \<noteq> JRevoked)
     \<and> (\<forall>r \<in> set (jobs s). job_key r \<notin> set (wanted sess now ks) \<or> rj_status r \<noteq> JRevoked \<longrightarrow> r \<in> set (jobs t))
     \<and> (\<forall>r \<in> set (jobs t). job_key r \<notin> set (wanted sess now ks) \<longrightarrow> r \<in> set (jobs s))
     \<and> t = s\<lparr>jobs := jobs t, next_id := next_id t\<rparr>"
  using assms
proof (induction ks arbitrary: s)
  case (Cons k ks)
  let ?at = "ts_start sess - offset_delta k"
  show ?case
  proof (cases "?at \<le> now")
    case True
    then show ?thesis using Cons.IH [OF Cons.prems] by (simp add: wanted_def Let_def)
  next
    case False
    obtain j u where j: "schedule_kind t0 (ts_id sess) k ?at s = (Inr j, u)" "jobs_inv u"
        "j \<in> set (jobs u)" "job_key j = (ts_id sess, k, ?at)" "rj_status j \<noteq> JRevoked"
        "\<forall>r \<in> set (jobs s). job_key r \<noteq> (ts_id sess, k, ?at) \<or> rj_status r \<noteq> JRevoked \<longrightarrow> r \<in> set (jobs u)"
        "\<forall>r \<in> set (jobs u). job_key r \<noteq> (ts_id sess, k, ?at) \<longrightarrow> r \<in> set (jobs s)"
        "u = s\<lparr>jobs := jobs u, next_id := next_id u\<rparr>"
      using schedule_kind_run [OF Cons.prems] by blast
    obtain js t where js: "schedule_kinds t0 sess now ks u = (Inr js, t)" "jobs_inv t"
        "map job_key js = wanted sess now ks"
        "\<forall>j \<in> set js. j \<in> set (jobs t) \<and> rj_status j \<noteq> JRevoked"
        "\<forall>r \<in> set (jobs u). job_key r \<notin> set (wanted sess now ks) \<or> rj_status r \<noteq> JRevoked \<longrightarrow> r \<in> set (jobs t)"
        "\<forall>r \<in> set (jobs t). job_key r \<notin> set (wanted sess now ks) \<longrightarrow> r \<in> set (jobs u)"
        "t = u\<lparr>jobs := jobs t, next_id := next_id t\<rparr>"
      using Cons.IH [OF j(2)] by blast
    have w: "wanted sess now (k # ks) = (ts_id sess, k, ?at) # wanted sess now ks"
      using False by (simp add: wanted_def)
    have "schedule_kinds t0 sess now (k # ks) s = (Inr (j # js), t)"
      using False j(1) js(1) by (simp add: Let_def)
    moreover have "map job_key (j # js) = wanted sess now (k # ks)" using j(4) js(3) w by simp
    moreover have "\<forall>x \<in> set (j # js). x \<in> set (jobs t) \<and> rj_status x \<noteq> JRevoked"
      using j(3,5) js(4,5) by simp
    moreover have "\<forall>r \<in> set (jobs s). job_key r \<notin> set (wanted sess now (k # ks)) \<or> rj_status r \<noteq> JRevoked \<longrightarrow> r \<in> set (jobs t)"
      using j(6) js(5) w by simp
    moreover have "\<forall>r \<in> set (jobs t). job_key r \<notin> set (wanted sess now (k # ks)) \<longrightarrow> r \<in> set (jobs s)"
      using j(7) js(6) w by simp
    moreover have "t = s\<lparr>jobs := jobs t, next_id := next_id t\<rparr>"
      by (subst js(7), subst j(8)) simp
    ultimately show ?thesis using js(2) by blast
  qed
qed (simp add: wanted_def)

lemma schedule_kinds_again:
  assumes "jobs_inv t" and "map job_key js = wanted sess now ks"
    and "\<forall>j \<in> set js. j \<in> set (jobs t) \<and> rj_status j \<noteq> JRevoked"
  shows "schedule_kinds t0 sess now ks t = (Inr js, t)"
  using assms(2,3)
proof (induction ks arbitrary: js)
  case (Cons k ks)
  let ?at = "ts_start sess - offset_delta k"
  show ?case
  proof (cases "?at \<le> now")
    case True
    with Cons show ?thesis by (simp add: wanted_def Let_def)
  next
    case False
    then obtain j js' where js: "js = j # js'" "job_key j = (ts_id sess, k, ?at)"
        "map job_key js' = wanted sess now ks"
      using Cons.prems(1) by (auto simp: wanted_def)
    have "find (\<lambda>r. job_key r = job_key j) (jobs t) = Some j"
      using assms(1) Cons.prems(2) js(1)
      by (intro find_Some_unique) (auto simp: jobs_inv_def)
    then have "schedule_kind t0 (ts_id sess) k ?at t = (Inr j, t)"
      using Cons.prems(2) js(1,2) by (simp add: schedule_kind_def)
    moreover have "schedule_kinds t0 sess now ks t = (Inr js', t)"
      using Cons.IH [OF js(3)] Cons.prems(2) js(1) by simp
    ultimately show ?thesis using False js(1) by (simp add: Let_def)
  qed
qed (simp add: wanted_def)

lemma schedule_kind_frame:
  "schedule_kind t0 sid k at s = (Inr j, t) \<Longrightarrow>
     t = s\<lparr>jobs := jobs t, next_id := next_id t\<rparr> \<and> next_id s \<le> next_id t"
  by (auto simp: schedule_kind_def Let_def insert_job_def bump_def split: option.splits if_splits)

lemma schedule_kinds_frame:
  "schedule_kinds t0 sess now ks s = (Inr js, t) \<Longrightarrow>
     t = s\<lparr>jobs := jobs t, next_id := next_id t\<rparr> \<and> next_id s \<le> next_id t"
proof (induction ks arbitrary: s js)
  case (Cons k ks)
  show ?case
  proof (cases "ts_start sess - offset_delta k \<le> now")
    case True
    then show ?thesis using Cons by (simp add: Let_def)
  next
    case False
    then obtain j u js' where u: "schedule_kind t0 (ts_id sess) k (ts_start sess - offset_delta k) s = (Inr j, u)"
        "schedule_kinds t0 sess now ks u = (Inr js', t)"
      using Cons.prems by (auto simp: Let_def run_simps)
    note a = schedule_kind_frame [OF u(1)]
    note b = Cons.IH [OF u(2)]
    have "t = s\<lparr>jobs := jobs t, next_id := next_id t\<rparr>"
      by (subst conjunct1 [OF b], subst conjunct1 [OF a]) simp
    with a b show ?thesis by simp
  qed
qed simp

text \<open>What a successful call can have added.\<close>

lemma schedule_for_session_ok:
  assumes "jobs_inv s" and "schedule_for_session cfg t0 sess now offs s = (Inr js, t)"
  shows "jobs_inv t \<and> t = s\<lparr>jobs := jobs t, next_id := next_id t\<rparr> \<and> next_id s \<le> next_id t
    \<and> (\<forall>j \<in> set (jobs t). j \<in> set (jobs s)
        \<or> (rj_session j = ts_id sess \<and> rj_at j = ts_start sess - offset_delta (rj_kind j)
           \<and> now < rj_at j \<and> remindable (ts_status sess)))"
proof (cases "remindable (ts_status sess)")
  case False
  with assms show ?thesis by (simp add: schedule_for_session_def)
next
  case True
  then obtain ks where ks: "schedule_kinds t0 sess now ks s = (Inr js, t)"
    using assms(2) by (auto simp: schedule_for_session_def run_simps)
  obtain js' t' where r: "schedule_kinds t0 sess now ks s = (Inr js', t')" "jobs_inv t'"
     "\<forall>r \<in> set (jobs t'). job_key r \<notin> set (wanted sess now ks) \<longrightarrow> r \<in> set (jobs s)"
    using schedule_kinds_run [OF assms(1)] by blast
  have t': "t' = t" using r(1) ks by simp
  have "j \<in> set (jobs s) \<or> (rj_session j = ts_id sess \<and> rj_at j = ts_start sess - offset_delta (rj_kind j)
      \<and> now < rj_at j)" if "j \<in> set (jobs t)" for j
    using r(3) that unfolding t' by (auto simp: wanted_def job_key_def)
  with schedule_kinds_frame [OF ks] r(2) True show ?thesis unfolding t' by blast
qed

lemma schedule_for_session_core:
  assumes "jobs_inv s" and "schedule_for_session cfg t0 sess now offs s = (Inr js, t)"
  shows "core t = core s" "outbox t = outbox s" "history t = history s"
  by (subst conjunct1 [OF conjunct2 [OF schedule_for_session_ok [OF assms]]], simp)+

text \<open>The dispatch pass.\<close>

definition notifiable :: "db \<Rightarrow> reminder_job \<Rightarrow> bool" where
  "notifiable s j \<longleftrightarrow> (case get_session_row s (rj_session j) of None \<Rightarrow> False
     | Some sess \<Rightarrow> ts_deleted_at sess = None \<and> remindable (ts_status sess))"

definition settle :: "db \<Rightarrow> reminder_job \<Rightarrow> reminder_job" where
  "settle s j = set_job (if notifiable s j then JSent else JRevoked) j"

definition due_pick :: "instant \<Rightarrow> int \<Rightarrow> db \<Rightarrow> reminder_job list" where
  "due_pick now limit s =
     take (nat limit) (sort_key (\<lambda>j. (rj_at j, rj_id j)) (filter (is_due now) (jobs s)))"

definition outbox_view :: "db \<Rightarrow> (outbox_kind \<times> uid) list" where
  "outbox_view s = map (\<lambda>r. (ob_kind r, ob_aggregate r)) (outbox s)"

lemma settle_sel [simp]:
  "rj_id (settle s j) = rj_id j" "job_key (settle s j) = job_key j" "rj_status (settle s j) \<noteq> JScheduled"
  by (simp_all add: settle_def)

lemma claim_job:
  assumes "jobs_inv s" "j \<in> set (jobs s)" "rj_status j = JScheduled"
  shows "update_where (\<lambda>r. rj_id r = rj_id j \<and> rj_status r = JScheduled) f (jobs s)
           = map (\<lambda>r. if r = j then f r else r) (jobs s)"
    and "count_where (\<lambda>r. rj_id r = rj_id j \<and> rj_status r = JScheduled) (jobs s) = 1"
proof -
  have same: "rj_id r = rj_id j \<and> rj_status r = JScheduled \<longleftrightarrow> r = j" if "r \<in> set (jobs s)" for r
    using assms that unfolding jobs_inv_def by (metis distinct_map inj_onD)
  then show "update_where (\<lambda>r. rj_id r = rj_id j \<and> rj_status r = JScheduled) f (jobs s)
           = map (\<lambda>r. if r = j then f r else r) (jobs s)"
    by (simp add: update_where_def)
  have d: "distinct (map rj_id (jobs s))" using assms(1) by (simp add: jobs_inv_def)
  then have "find_row rj_id (rj_id j) (jobs s) = Some j" using assms(2) by (simp add: find_row_Some_iff)
  then show "count_where (\<lambda>r. rj_id r = rj_id j \<and> rj_status r = JScheduled) (jobs s) = 1"
    using assms(3) by (simp add: count_where_by_id [OF d])
qed

lemma enqueue_job_run:
  assumes "jobs_inv s" "j \<in> set (jobs s)" "rj_status j = JScheduled"
    and run: "enqueue_job now j b s = (Inr b', t)"
  shows "jobs t = map (\<lambda>r. if r = j then settle s r else r) (jobs s) \<and> sessions t = sessions s
    \<and> next_id s \<le> next_id t
    \<and> outbox_view t = outbox_view s @ (if notifiable s j then [(Session_reminder, rj_session j)] else [])
    \<and> rb_enqueued b' = rb_enqueued b + (if notifiable s j then 1 else 0)
    \<and> rb_revoked b' = rb_revoked b + (if notifiable s j then 0 else 1)
    \<and> length (rb_intents b') = length (rb_intents b) + (if notifiable s j then 1 else 0)"
proof (cases "notifiable s j")
  case True
  then obtain sess where sess: "get_session_row s (rj_session j) = Some sess" "ts_deleted_at sess = None"
      "remindable (ts_status sess)" "ts_id sess = rj_session j"
    using find_row_SomeD by (fastforce simp: notifiable_def split: option.splits)
  show ?thesis
    using run sess True claim_job [OF assms(1-3)]
    by (auto simp: enqueue_job_def Let_def run_simps enqueue_def bump_def outbox_view_def settle_def
        split: if_splits)
next
  case False
  then show ?thesis
    using run claim_job [OF assms(1-3)]
    by (auto simp: enqueue_job_def Let_def notifiable_def outbox_view_def settle_def split: option.splits)
qed

lemma jobs_inv_map:
  assumes "jobs_inv s" "jobs t = map g (jobs s)" "next_id s \<le> next_id t"
    and "\<And>j. rj_id (g j) = rj_id j" "\<And>j. job_key (g j) = job_key j"
  shows "jobs_inv t"
proof -
  have "map rj_id (jobs t) = map rj_id (jobs s)" "map job_key (jobs t) = map job_key (jobs s)"
    using assms(2,4,5) by (simp_all add: comp_def)
  moreover have "\<forall>j \<in> set (jobs t). rj_id j < next_id t"
    using assms by (auto simp: jobs_inv_def intro: order_less_le_trans)
  ultimately show ?thesis using assms(1) by (simp add: jobs_inv_def)
qed

lemma enqueue_jobs_run:
  assumes "jobs_inv s" "distinct (map rj_id js)" "\<forall>j \<in> set js. j \<in> set (jobs s) \<and> rj_status j = JScheduled"
    and "enqueue_jobs now js b s = (Inr b', t)"
  shows "jobs t = map (\<lambda>r. if r \<in> set js then settle s r else r) (jobs s) \<and> jobs_inv t
    \<and> outbox_view t = outbox_view s @ map (\<lambda>j. (Session_reminder, rj_session j)) (filter (notifiable s) js)
    \<and> rb_enqueued b' = rb_enqueued b + length (filter (notifiable s) js)
    \<and> rb_revoked b' = rb_revoked b + length (filter (\<lambda>j. \<not> notifiable s j) js)
    \<and> length (rb_intents b') = length (rb_intents b) + length (filter (notifiable s) js)"
  using assms
proof (induction js arbitrary: b s)
  case (Cons j js)
  obtain c u where u: "enqueue_job now j b s = (Inr c, u)" "enqueue_jobs now js c u = (Inr b', t)"
    using Cons.prems(4) by (auto simp: run_simps)
  have j: "j \<in> set (jobs s)" "rj_status j = JScheduled" using Cons.prems(3) by simp_all
  note e = enqueue_job_run [OF Cons.prems(1) j u(1)]
  have inv: "jobs_inv u"
    by (rule jobs_inv_map [OF Cons.prems(1), where g = "\<lambda>r. if r = j then settle s r else r"])
       (use e in auto)
  have rest: "\<forall>r \<in> set js. r \<in> set (jobs u) \<and> rj_status r = JScheduled"
    using Cons.prems(2,3) e by auto
  have same: "notifiable u = notifiable s" "settle u = settle s"
    using e by (simp_all add: notifiable_def settle_def fun_eq_iff)
  have "settle s j \<notin> set js" using Cons.prems(3) settle_sel(3) [of s j] by auto
  then have "map (\<lambda>r. if r \<in> set js then settle s r else r) (map (\<lambda>r. if r = j then settle s r else r) (jobs s))
      = map (\<lambda>r. if r \<in> set (j # js) then settle s r else r) (jobs s)"
    using Cons.prems(2) by auto
  with Cons.IH [OF inv _ rest u(2)] Cons.prems(2) e same show ?case by auto
qed simp

lemma due_pick_props:
  assumes "jobs_inv s"
  shows "distinct (map rj_id (due_pick now limit s))"
    and "\<forall>j \<in> set (due_pick now limit s). j \<in> set (jobs s) \<and> rj_status j = JScheduled \<and> rj_at j \<le> now"
proof -
  have "distinct (map rj_id (filter (is_due now) (jobs s)))"
    using assms by (simp add: jobs_inv_def distinct_map_filter)
  then have "distinct (map rj_id (sort_key (\<lambda>j. (rj_at j, rj_id j)) (filter (is_due now) (jobs s))))"
    by (simp add: distinct_map)
  then show "distinct (map rj_id (due_pick now limit s))"
    by (simp add: due_pick_def take_map [symmetric])
  have "set (due_pick now limit s) \<subseteq> set (sort_key (\<lambda>j. (rj_at j, rj_id j)) (filter (is_due now) (jobs s)))"
    by (simp only: due_pick_def set_take_subset)
  then show "\<forall>j \<in> set (due_pick now limit s). j \<in> set (jobs s) \<and> rj_status j = JScheduled \<and> rj_at j \<le> now"
    by (auto simp: is_due_def)
qed

lemma enqueue_due_pick:
  "enqueue_due now limit s = (Inr b, t) \<Longrightarrow>
     enqueue_jobs now (due_pick now limit s) \<lparr>rb_intents = [], rb_enqueued = 0, rb_revoked = 0\<rparr> s = (Inr b, t)"
  by (auto simp: enqueue_due_def run_simps due_jobs_def due_pick_def split: if_splits)

section \<open>Properties\<close>

definition sample_session :: tsession where
  "sample_session = \<lparr>ts_id = 3, ts_slot = 1, ts_tutor = 0, ts_student = 200, ts_order = Some 2,
     ts_start = days 5, ts_end = days 5 + hours 1, ts_tz = ''Asia/Kolkata'', ts_status = Confirmed,
     ts_version = 1, ts_updated_at = 0, ts_deleted_at = None\<rparr>"

definition sample_reminded :: db where
  "sample_reminded = empty_db\<lparr>next_id := 10, sessions := [sample_session],
     jobs := [\<lparr>rj_id = 4, rj_session = 3, rj_kind = Off_1d, rj_at = days 4, rj_status = JScheduled\<rparr>,
              \<lparr>rj_id = 5, rj_session = 3, rj_kind = Off_3h, rj_at = days 5 - hours 3, rj_status = JRevoked\<rparr>,
              \<lparr>rj_id = 6, rj_session = 9, rj_kind = Off_1d, rj_at = days 3, rj_status = JScheduled\<rparr>]\<rparr>"

lemma sample_reminded_inv: "jobs_inv sample_reminded"
  by (simp add: jobs_inv_def sample_reminded_def empty_db_def job_key_def)

lemma due_pick_rest:
  assumes inv: "jobs_inv s" and j: "j \<in> set (jobs s)" "is_due now j" "j \<notin> set (due_pick now limit s)"
  shows "length (due_pick now limit s) = nat limit"
proof (rule ccontr)
  let ?all = "sort_key (\<lambda>j. (rj_at j, rj_id j)) (filter (is_due now) (jobs s))"
  assume "length (due_pick now limit s) \<noteq> nat limit"
  then have "length ?all \<le> nat limit" by (simp add: due_pick_def min_def split: if_splits)
  then have "due_pick now limit s = ?all" by (simp add: due_pick_def)
  moreover have "set ?all = {j \<in> set (jobs s). is_due now j}" by simp
  ultimately show False using j by auto
qed

text \<open>
  Property C35. Scheduling a live session with valid configured offsets always succeeds and gives, for
  exactly the offsets still ahead, one job each, none of them revoked (a revoked row of an instant
  the session comes back to is reinstated), leaves every other job and all the rest of the database
  alone, and is idempotent.
\<close>
theorem schedule_exact:
  assumes "jobs_inv s" and "remindable (ts_status sess)" and "configured_offsets cfg = Inr ks"
  shows "\<exists>js t. schedule_for_session cfg t0 sess now None s = (Inr js, t)
    \<and> map job_key js = map (\<lambda>k. (ts_id sess, k, ts_start sess - offset_delta k))
        (filter (\<lambda>k. now < ts_start sess - offset_delta k) ks)
    \<and> (\<forall>j \<in> set js. j \<in> set (jobs t) \<and> rj_status j \<noteq> JRevoked)
    \<and> (\<forall>j. job_key j \<notin> job_key ` set js \<longrightarrow> (j \<in> set (jobs t) \<longleftrightarrow> j \<in> set (jobs s)))
    \<and> distinct (map job_key (jobs t))
    \<and> t = s\<lparr>jobs := jobs t, next_id := next_id t\<rparr>
    \<and> schedule_for_session cfg t0' sess now None t = (Inr js, t)"
proof -
  obtain js t where r: "schedule_kinds t0 sess now ks s = (Inr js, t)" "jobs_inv t"
     "map job_key js = wanted sess now ks"
     "\<forall>j \<in> set js. j \<in> set (jobs t) \<and> rj_status j \<noteq> JRevoked"
     "\<forall>r \<in> set (jobs s). job_key r \<notin> set (wanted sess now ks) \<or> rj_status r \<noteq> JRevoked \<longrightarrow> r \<in> set (jobs t)"
     "\<forall>r \<in> set (jobs t). job_key r \<notin> set (wanted sess now ks) \<longrightarrow> r \<in> set (jobs s)"
     "t = s\<lparr>jobs := jobs t, next_id := next_id t\<rparr>"
    using schedule_kinds_run [OF assms(1)] by blast
  have keys: "job_key ` set js = set (wanted sess now ks)" using r(3) by (metis list.set_map)
  have "schedule_for_session cfg t0' sess now None t = (Inr js, t)" for t0'
    using schedule_kinds_again [OF r(2,3,4)] assms(2,3) by (simp add: schedule_for_session_def)
  moreover have "schedule_for_session cfg t0 sess now None s = (Inr js, t)"
    using r(1) assms(2,3) by (simp add: schedule_for_session_def)
  moreover have "\<forall>j. job_key j \<notin> job_key ` set js \<longrightarrow> (j \<in> set (jobs t) \<longleftrightarrow> j \<in> set (jobs s))"
    unfolding keys using r(5,6) by blast
  moreover have "distinct (map job_key (jobs t))" using r(2) by (simp add: jobs_inv_def)
  ultimately show ?thesis using r(3,4,7) unfolding wanted_def by blast
qed

theorem schedule_exact_witness:
  "\<exists>js t. schedule_for_session default_settings empty_db sample_session 0 None sample_reminded = (Inr js, t)
     \<and> map job_key js = [(3, Off_1d, days 4), (3, Off_3h, days 5 - hours 3)]"
proof -
  have 1: "configured_offsets default_settings = Inr reminder_kinds" by code_simp
  have 2: "remindable (ts_status sample_session)" by code_simp
  have 3: "map (\<lambda>k. (ts_id sample_session, k, ts_start sample_session - offset_delta k))
      (filter (\<lambda>k. 0 < ts_start sample_session - offset_delta k) reminder_kinds)
    = [(3, Off_1d, days 4), (3, Off_3h, days 5 - hours 3)]" by code_simp
  obtain js t where "schedule_for_session default_settings empty_db sample_session 0 None sample_reminded = (Inr js, t)"
    "map job_key js = map (\<lambda>k. (ts_id sample_session, k, ts_start sample_session - offset_delta k))
      (filter (\<lambda>k. 0 < ts_start sample_session - offset_delta k) reminder_kinds)"
    using schedule_exact [OF sample_reminded_inv 2 1, of empty_db 0 empty_db]
    by (elim exE conjE)
  then show ?thesis unfolding 3 by (intro exI conjI)
qed

text \<open>
  The dispatch pass settles each job it picks exactly once: a picked job of a live
  session becomes \<open>sent\<close> and gets one outbox row, a picked job of any other session is revoked and
  gets none, no other job moves, the report counts both, and a job due at that instant is left for
  the next pass only when the limit was reached.
\<close>
theorem enqueue_due_once:
  assumes "jobs_inv s" and "enqueue_due now limit s = (Inr b, t)"
  shows "jobs t = map (\<lambda>j. if j \<in> set (due_pick now limit s)
             then set_job (if notifiable s j then JSent else JRevoked) j else j) (jobs s)
    \<and> outbox_view t = outbox_view s @ map (\<lambda>j. (Session_reminder, rj_session j))
         (filter (notifiable s) (due_pick now limit s))
    \<and> rb_enqueued b = length (filter (notifiable s) (due_pick now limit s))
    \<and> rb_revoked b = length (filter (\<lambda>j. \<not> notifiable s j) (due_pick now limit s))
    \<and> length (rb_intents b) = rb_enqueued b
    \<and> (\<forall>j \<in> set (jobs t). is_due now j \<longrightarrow> rb_enqueued b + rb_revoked b = nat limit)"
proof -
  let ?js = "due_pick now limit s"
  note p = due_pick_props [OF assms(1), of now limit]
  have pre: "\<forall>j \<in> set ?js. j \<in> set (jobs s) \<and> rj_status j = JScheduled" using p(2) by blast
  note r = enqueue_jobs_run [OF assms(1) p(1) pre enqueue_due_pick [OF assms(2)]]
  have jobs: "jobs t = map (\<lambda>j. if j \<in> set ?js then settle s j else j) (jobs s)" using r by blast
  have "rb_enqueued b + rb_revoked b = nat limit" if j: "j \<in> set (jobs t)" "is_due now j" for j
  proof -
    have "j \<in> set (jobs s)" "j \<notin> set ?js" using j settle_sel(3) [of s] unfolding jobs is_due_def
      by (auto split: if_splits)
    from due_pick_rest [OF assms(1) this(1) j(2) this(2)] r sum_length_filter_compl [of "notifiable s" ?js]
    show ?thesis by simp
  qed
  with r show ?thesis by (simp add: settle_def)
qed

theorem enqueue_due_once_witness:
  "\<exists>b t. enqueue_due (days 4) 100 sample_reminded = (Inr b, t)
     \<and> outbox_view t = [(Session_reminder, 3)] \<and> rb_revoked b = 1"
proof -
  let ?r = "enqueue_due (days 4) 100 sample_reminded"
  have "\<not> isl (fst ?r)" by code_simp
  then obtain b t where e: "?r = (Inr b, t)" by (cases ?r; cases "fst ?r") auto
  have "map (\<lambda>j. (Session_reminder, rj_session j))
      (filter (notifiable sample_reminded) (due_pick (days 4) 100 sample_reminded)) = [(Session_reminder, 3)]"
    and "length (filter (\<lambda>j. \<not> notifiable sample_reminded j) (due_pick (days 4) 100 sample_reminded)) = 1"
    and "outbox_view sample_reminded = []" by code_simp+
  with enqueue_due_once [OF sample_reminded_inv e] e show ?thesis by auto
qed

text \<open>
  A revocation is complete and idempotent: no scheduled job of the session (of the
  offsets asked for) is left, the count is the number of jobs it moved, every other job is the same,
  and revoking again moves none.
\<close>
theorem revoke_complete:
  "(\<forall>j \<in> set (jobs (snd (revoke_for_session sid kinds s))). \<not> revocable sid kinds j)
   \<and> fst (revoke_for_session sid kinds s) = length (filter (revocable sid kinds) (jobs s))
   \<and> jobs (snd (revoke_for_session sid kinds s))
       = map (\<lambda>j. if revocable sid kinds j then set_job JRevoked j else j) (jobs s)
   \<and> revoke_for_session sid kinds (snd (revoke_for_session sid kinds s))
       = (0, snd (revoke_for_session sid kinds s))"
proof -
  let ?u = "update_where (revocable sid kinds) (set_job JRevoked) (jobs s)"
  have none: "\<forall>j \<in> set ?u. \<not> revocable sid kinds j"
    by (auto simp only: update_where_def set_map image_iff revocable_def set_job_sel job_status.distinct
        split: if_splits)
  then have 0: "count_where (revocable sid kinds) ?u = 0" by (simp only: count_where_0)
  have same: "update_where (revocable sid kinds) (set_job JRevoked) ?u = ?u"
    using none by (rule update_where_none)
  have 1: "revoke_for_session sid kinds s = (count_where (revocable sid kinds) (jobs s), s\<lparr>jobs := ?u\<rparr>)"
    by (rule revoke_for_session_def)
  have 2: "revoke_for_session sid kinds (s\<lparr>jobs := ?u\<rparr>) = (0, s\<lparr>jobs := ?u\<rparr>)"
    by (simp add: revoke_for_session_def 0 same)
  have 3: "jobs (s\<lparr>jobs := ?u\<rparr>) = ?u" by simp
  show ?thesis unfolding 1 fst_conv snd_conv 2 3 using none
    by (intro conjI) (simp_all only: count_where_def update_where_def)
qed

theorem revoke_complete_witness:
  "fst (revoke_for_session 3 None sample_reminded) = 1"
proof -
  have "length (filter (revocable 3 None) (jobs sample_reminded)) = 1" by code_simp
  with revoke_complete [of 3 None sample_reminded, THEN conjunct2, THEN conjunct1]
  show ?thesis by (rule trans)
qed

end
