(* ===== verification/Sessions.thy ===== *)
theory Sessions
  imports Payments Reminders
begin

text \<open>
  Sessions (\<open>services/tutoring/sessions.py\<close>): the status graph and the versioned transition, creation
  from a paid hold, scoped reads, rescheduling and cancellation. A row passed as an argument is the
  object the caller holds; a pending change of it that the next flush writes (the order, in
  \<open>create_from_paid_hold\<close>) is checked there.
\<close>

section \<open>Status graph and transition\<close>

fun legal_transitions :: "session_status \<Rightarrow> session_status list" where
  "legal_transitions Pending_provider = [Confirmed, Cancelled]"
| "legal_transitions Confirmed = [Rescheduled, Cancelled, Completed, Disputed]"
| "legal_transitions Rescheduled = [Rescheduled, Cancelled, Completed, Disputed]"
| "legal_transitions Completed = [Disputed]"
| "legal_transitions Disputed = [Completed]"
| "legal_transitions Cancelled = []"

definition live_statuses :: "session_status list" where
  "live_statuses = [Pending_provider, Confirmed, Rescheduled]"

definition refund_window_hours :: "settings \<Rightarrow> int" where
  "refund_window_hours cfg = refund_free_cancel_hours cfg"

definition assert_transition :: "session_status \<Rightarrow> session_status \<Rightarrow> exn + unit" where
  "assert_transition from_status to_status =
     (if to_status \<in> set (legal_transitions from_status) then Inr ()
      else Inl (TutoringError SessionStateInvalid))"

definition append_history ::
    "uid \<Rightarrow> session_status option \<Rightarrow> session_status \<Rightarrow> role \<Rightarrow> instant \<Rightarrow> string option \<Rightarrow> db \<Rightarrow> db" where
  "append_history sid from_status to_status actor_role now reason s =
     s\<lparr>history := history s @
        [\<lparr>hi_session = sid, hi_from = from_status, hi_to = to_status, hi_at = now, hi_actor = actor_role,
          hi_reason = (case reason of Some r \<Rightarrow> if r = [] then None else Some (take 200 r) | None \<Rightarrow> None)\<rparr>]\<rparr>"

text \<open>The \<open>values\<close> of the UPDATE: the status and, for a reschedule, the columns of the new slot.\<close>

record session_values =
  sv_status :: session_status
  sv_now :: instant
  sv_slot :: "slot option"

definition apply_values :: "session_values \<Rightarrow> tsession \<Rightarrow> tsession" where
  "apply_values v r =
     (let r1 = r\<lparr>ts_status := sv_status v, ts_updated_at := sv_now v\<rparr> in
      case sv_slot v of
        None \<Rightarrow> r1
      | Some sl \<Rightarrow> r1\<lparr>ts_slot := sl_id sl, ts_start := sl_start sl, ts_end := sl_end sl, ts_tz := sl_tz sl\<rparr>)"

text \<open>The conditional UPDATE of \<open>transition\<close>, with the constraints of the table.\<close>

definition session_cas :: "uid \<Rightarrow> int \<Rightarrow> session_values \<Rightarrow> db \<Rightarrow> unit run" where
  "session_cas sid expected v s =
     (let p = (\<lambda>r. ts_id r = sid \<and> ts_version r = expected);
          rows = update_where p (\<lambda>r. (apply_values v r)\<lparr>ts_version := expected + 1\<rparr>) (sessions s)
      in if \<not> (distinct (map ts_slot rows) \<and> (\<forall>r \<in> set rows. session_check r)) then (Inl IntegrityError, s)
         else if count_where p (sessions s) \<noteq> 1 then raise SessionStaleVersion s
         else ok () (s\<lparr>sessions := rows\<rparr>))"

definition transition ::
    "tsession \<Rightarrow> session_status \<Rightarrow> role \<Rightarrow> int option \<Rightarrow> instant \<Rightarrow> string option \<Rightarrow> slot option
       \<Rightarrow> event_kind option \<Rightarrow> db \<Rightarrow> tsession run" where
  "transition sess to_status actor_role expected_version now reason extra_slot event s =
     (if actor_role \<notin> {Student, Tutor, Admin, System} then raise ValidationError s
      else bindE (liftE (assert_transition (ts_status sess) to_status) s) (\<lambda>_ s.
        let expected = (case expected_version of None \<Rightarrow> ts_version sess | Some n \<Rightarrow> n) in
        bindE (session_cas (ts_id sess) expected
                 \<lparr>sv_status = to_status, sv_now = now, sv_slot = extra_slot\<rparr> s) (\<lambda>_ s.
          let s1 = append_history (ts_id sess) (Some (ts_status sess)) to_status actor_role now reason s;
              s2 = (case event of None \<Rightarrow> s1
                    | Some k \<Rightarrow> booking_event k actor_role None (Some (ts_id sess)) now s1)
          in ok (case get_session_row s2 (ts_id sess) of Some r \<Rightarrow> r | None \<Rightarrow> sess) s2)))"

section \<open>Creation\<close>

definition has_verified_paid_event :: "order \<Rightarrow> db \<Rightarrow> bool" where
  "has_verified_paid_event ord s \<longleftrightarrow>
     (\<exists>e \<in> set (pay_events s). pe_order e = o_id ord \<and> pe_verified e \<and> pe_type e = Ev_paid)"

record session_created =
  sc_session :: tsession
  sc_intents :: "outbox_intent list"
  sc_jobs :: nat
  sc_replayed :: bool

definition confirmed_payload :: "tsession \<Rightarrow> nat \<Rightarrow> json" where
  "confirmed_payload r n = JObj
     [(''session_id'', JUuid (ts_id r)), (''tutor_id'', JUuid (ts_tutor r)),
      (''start_utc'', JInstant (ts_start r)), (''iana_timezone'', JStr (ts_tz r)),
      (''reminder_jobs'', JInt (int n))]"

text \<open>What \<open>create_from_paid_hold\<close> checks before it writes; \<open>Inr None\<close> is the go-ahead.\<close>

definition check_paid_hold :: "hold \<Rightarrow> order \<Rightarrow> instant \<Rightarrow> db \<Rightarrow> exn + tsession option" where
  "check_paid_hold hold ord now s =
     (if o_hold ord \<noteq> h_id hold then Inl (TutoringError ValidationError)
      else if o_student ord \<noteq> h_student hold then Inl (TutoringError ValidationError)
      else if o_status ord \<noteq> OPaid then Inl (TutoringError PaymentUnverified)
      else if \<not> has_verified_paid_event ord s then Inl (TutoringError PaymentUnverified)
      else case find (\<lambda>r. ts_slot r = h_slot hold) (sessions s) of
        Some existing \<Rightarrow>
          if ts_order existing = Some (o_id ord) then Inr (Some existing)
          else Inl (TutoringError SlotUnavailable)
      | None \<Rightarrow>
          if h_status hold \<noteq> HActive then Inl (TutoringError HoldExpired)
          else if is_expired hold now then Inl (TutoringError HoldExpired)
          else Inr None)"

text \<open>The conditional writes: consume the hold, book the slot, insert the session.\<close>

definition book_slot :: "db \<Rightarrow> hold \<Rightarrow> order \<Rightarrow> instant \<Rightarrow> db \<Rightarrow> tsession run" where
  "book_slot t0 hold ord now s =
     (case get_slot_row s (h_slot hold) of
        None \<Rightarrow> raise NotFound s
      | Some sl \<Rightarrow>
         if sl_deleted_at sl \<noteq> None then raise NotFound s
         else let p = (\<lambda>h. h_id h = h_id hold \<and> h_status h = HActive);
                  s1 = s\<lparr>holds := update_where p (close_hold_row HConsumed now) (holds s)\<rparr>
           in if count_where p (holds s) \<noteq> 1 then raise HoldExpired s1
              else let q = (\<lambda>r. sl_id r = sl_id sl \<and> sl_status r = SHeld);
                       s2 = s1\<lparr>slots := update_where q (set_slot_row SBooked now) (slots s1)\<rparr>
                in if count_where q (slots s1) \<noteq> 1 then raise SlotUnavailable s2
                   else let row = \<lparr>ts_id = next_id s2, ts_slot = sl_id sl, ts_tutor = sl_tutor sl,
                              ts_student = h_student hold, ts_order = Some (o_id ord),
                              ts_start = sl_start sl, ts_end = sl_end sl, ts_tz = sl_tz sl,
                              ts_status = Confirmed, ts_version = 1, ts_updated_at = now,
                              ts_deleted_at = None\<rparr>
                     in if \<not> order_check ord then raise SlotUnavailable t0
                        else (case insert_session row (bump s2) of
                            None \<Rightarrow> raise SlotUnavailable t0
                          | Some s3 \<Rightarrow> ok row s3))"

definition create_from_paid_hold ::
    "settings \<Rightarrow> db \<Rightarrow> hold \<Rightarrow> order \<Rightarrow> instant \<Rightarrow> db \<Rightarrow> session_created run" where
  "create_from_paid_hold cfg t0 hold ord now s =
     bindE (liftE (check_paid_hold hold ord now s) s) (\<lambda>existing s.
       case existing of
         Some r \<Rightarrow> ok \<lparr>sc_session = r, sc_intents = [], sc_jobs = 0, sc_replayed = True\<rparr> s
       | None \<Rightarrow>
           bindE (book_slot t0 hold ord now s) (\<lambda>sess s.
             let s1 = append_history (ts_id sess) None Confirmed System now (Some ''payment_verified'') s;
                 s2 = booking_event Hold_consumed System (Some (h_id hold)) (Some (ts_id sess)) now s1;
                 s3 = booking_event Session_confirmed System None (Some (ts_id sess)) now s2
             in bindE (schedule_for_session cfg t0 sess now None s3) (\<lambda>js s.
                bindE (enqueue Booking_confirmed (ts_id sess) (confirmed_payload sess (length js)) now s) (\<lambda>i s.
                  ok \<lparr>sc_session = sess, sc_intents = [i], sc_jobs = length js, sc_replayed = False\<rparr>
                    (record_audit_event Au_session_created (Some (ts_id sess)) (Some (h_student hold)) System s)))))"

section \<open>Reads\<close>

definition get_session :: "uid \<Rightarrow> uid option \<Rightarrow> role \<Rightarrow> db \<Rightarrow> exn + tsession" where
  "get_session sid user role s =
     (if role \<notin> {Student, Tutor, Admin} then Inl (TutoringError ValidationError)
      else case get_session_row s sid of
        None \<Rightarrow> Inl (TutoringError NotFound)
      | Some sess \<Rightarrow>
          if ts_deleted_at sess \<noteq> None then Inl (TutoringError NotFound)
          else if role = Admin then Inr sess
          else case user of
            None \<Rightarrow> Inl (TutoringError Forbidden)
          | Some u \<Rightarrow>
              if role = Student then
                (if ts_student sess \<noteq> u then Inl (TutoringError NotFound) else Inr sess)
              else (case get_tutor_row s (ts_tutor sess) of
                  None \<Rightarrow> Inl (TutoringError NotFound)
                | Some tu \<Rightarrow> if t_user tu \<noteq> u then Inl (TutoringError NotFound) else Inr sess))"

fun status_name :: "session_status \<Rightarrow> string" where
  "status_name Confirmed = ''confirmed''"
| "status_name Pending_provider = ''pending_provider''"
| "status_name Rescheduled = ''rescheduled''"
| "status_name Cancelled = ''cancelled''"
| "status_name Completed = ''completed''"
| "status_name Disputed = ''disputed''"

definition known_statuses :: "string list" where
  "known_statuses = map status_name [Pending_provider, Confirmed, Rescheduled, Completed, Disputed, Cancelled]"

text \<open>The ownership filter of a list, for an actor that is named when the role needs one.\<close>

definition visible_to :: "db \<Rightarrow> uid option \<Rightarrow> role \<Rightarrow> tsession \<Rightarrow> bool" where
  "visible_to s user role r \<longleftrightarrow> ts_deleted_at r = None
     \<and> (role = Student \<longrightarrow> Some (ts_student r) = user)
     \<and> (role = Tutor \<longrightarrow> (\<exists>tu \<in> set (tutors s). t_id tu = ts_tutor r \<and> Some (t_user tu) = user))"

definition list_sessions ::
    "uid option \<Rightarrow> role \<Rightarrow> string list \<Rightarrow> instant option \<Rightarrow> instant option \<Rightarrow> int \<Rightarrow> int \<Rightarrow> db
       \<Rightarrow> exn + tsession list" where
  "list_sessions user role statuses from_utc to_utc limit offset s =
     (if role \<notin> {Student, Tutor, Admin} then Inl (TutoringError ValidationError)
      else if limit \<le> 0 \<or> 200 < limit then Inl (TutoringError ValidationError)
      else if offset < 0 then Inl (TutoringError ValidationError)
      else if role \<noteq> Admin \<and> user = None then Inl (TutoringError Forbidden)
      else if \<not> set statuses \<subseteq> set known_statuses then Inl (TutoringError ValidationError)
      else Inr (take (nat limit) (drop (nat offset)
        (sort_key (\<lambda>r. (- ts_start r, ts_id r))
          (filter (\<lambda>r. visible_to s user role r
              \<and> (statuses \<noteq> [] \<longrightarrow> status_name (ts_status r) \<in> set statuses)
              \<and> (case from_utc of None \<Rightarrow> True | Some f \<Rightarrow> f \<le> ts_start r)
              \<and> (case to_utc of None \<Rightarrow> True | Some t \<Rightarrow> ts_start r \<le> t)) (sessions s))))))"

definition assert_actor :: "tsession \<Rightarrow> uid option \<Rightarrow> role \<Rightarrow> db \<Rightarrow> exn + unit" where
  "assert_actor sess user role s =
     (if role \<notin> {Student, Tutor, Admin} then Inl (TutoringError ValidationError)
      else if role = Admin then (if user = None then Inl (TutoringError Forbidden) else Inr ())
      else case user of
        None \<Rightarrow> Inl (TutoringError Forbidden)
      | Some u \<Rightarrow>
          if role = Student \<and> ts_student sess \<noteq> u then Inl (TutoringError NotFound)
          else if role = Tutor
            \<and> (case get_tutor_row s (ts_tutor sess) of None \<Rightarrow> True | Some tu \<Rightarrow> t_user tu \<noteq> u)
          then Inl (TutoringError NotFound)
          else Inr ())"

definition hours_before_start :: "tsession \<Rightarrow> instant \<Rightarrow> int" where
  "hours_before_start sess now = hours_before (ts_start sess) now"

definition has_ended :: "tsession \<Rightarrow> instant \<Rightarrow> bool" where
  "has_ended sess now \<longleftrightarrow> ts_end sess \<le> now"

section \<open>Reschedule and cancel\<close>

record session_mutation =
  sm_session :: tsession
  sm_intents :: "outbox_intent list"
  sm_assessment :: "assessment option"
  sm_refund :: "uid option"
  sm_revoked :: nat
  sm_scheduled :: nat

text \<open>\<open>reason or default\<close>: an empty string counts as no reason.\<close>

definition or_default :: "string option \<Rightarrow> string \<Rightarrow> string option" where
  "or_default reason d = (case reason of Some r \<Rightarrow> if r = [] then Some d else Some r | None \<Rightarrow> Some d)"

definition reschedule_payload :: "tsession \<Rightarrow> nat \<Rightarrow> json" where
  "reschedule_payload r n = JObj
     [(''session_id'', JUuid (ts_id r)), (''reason'', JStr ''rescheduled''),
      (''start_utc'', JInstant (ts_start r)), (''iana_timezone'', JStr (ts_tz r)),
      (''reminder_jobs'', JInt (int n))]"

text \<open>The gates of \<open>reschedule\<close>: the session, the policy window, the new slot. The result is the session,
  the new slot and whether the move is inside the window.\<close>

definition reschedule_gates ::
    "settings \<Rightarrow> uid \<Rightarrow> uid \<Rightarrow> uid option \<Rightarrow> role \<Rightarrow> bool \<Rightarrow> uid option \<Rightarrow> instant \<Rightarrow> db
       \<Rightarrow> exn + (tsession \<times> slot \<times> bool)" where
  "reschedule_gates cfg sid new_slot_id actor_user actor_role admin_exception admin_actor now s =
     (case get_session sid actor_user actor_role s of Inl e \<Rightarrow> Inl e
      | Inr sess \<Rightarrow> (case assert_actor sess actor_user actor_role s of Inl e \<Rightarrow> Inl e
        | Inr _ \<Rightarrow>
          if ts_status sess \<notin> set live_statuses then Inl (TutoringError SessionStateInvalid)
          else let inside = hours_before_start sess now < 100 * refund_window_hours cfg in
            if inside \<and> \<not> admin_exception then Inl (TutoringError RescheduleWindowClosed)
            else if inside \<and> (actor_role \<noteq> Admin \<or> admin_actor = None)
            then Inl (TutoringError AdminExceptionUnauthorised)
            else if new_slot_id = ts_slot sess then Inl (TutoringError ValidationError)
            else case get_slot_row s new_slot_id of
              None \<Rightarrow> Inl (TutoringError NotFound)
            | Some sl \<Rightarrow>
                if sl_deleted_at sl \<noteq> None then Inl (TutoringError NotFound)
                else if sl_tutor sl \<noteq> ts_tutor sess then Inl (TutoringError ValidationError)
                else if sl_start sl \<le> now then Inl (TutoringError SlotUnavailable)
                else Inr (sess, sl, inside)))"

text \<open>The slot moves of \<open>reschedule\<close>: take the new slot, vacate the old one.\<close>

definition swap_slots :: "tsession \<Rightarrow> uid \<Rightarrow> instant \<Rightarrow> db \<Rightarrow> unit run" where
  "swap_slots sess new_slot_id now s =
     (let s1 = snd (expire_active_holds now (Some new_slot_id) s);
          p = (\<lambda>sl. sl_id sl = new_slot_id \<and> sl_status sl = SAvailable);
          s2 = s1\<lparr>slots := update_where p (set_slot_row SBooked now) (slots s1)\<rparr>
      in if count_where p (slots s1) \<noteq> 1 then raise SlotUnavailable s2
         else ok () (s2\<lparr>slots := update_where (\<lambda>sl. sl_id sl = ts_slot sess \<and> sl_status sl = SBooked)
                          (set_slot_row SAvailable now) (slots s2)\<rparr>))"

definition reschedule ::
    "settings \<Rightarrow> db \<Rightarrow> uid \<Rightarrow> uid \<Rightarrow> uid option \<Rightarrow> role \<Rightarrow> int option \<Rightarrow> bool \<Rightarrow> uid option
       \<Rightarrow> string option \<Rightarrow> instant \<Rightarrow> db \<Rightarrow> session_mutation run" where
  "reschedule cfg t0 sid new_slot_id actor_user actor_role expected admin_exception admin_actor reason now s =
     bindE (liftE (reschedule_gates cfg sid new_slot_id actor_user actor_role admin_exception admin_actor now s) s)
       (\<lambda>(sess, sl, inside) s.
     bindE (swap_slots sess new_slot_id now s) (\<lambda>_ s.
       let (revoked, s) = revoke_for_session (ts_id sess) None s in
       case transition sess Rescheduled actor_role expected now
              (or_default reason (if inside then ''admin_exception'' else ''reschedule''))
              (Some sl) (Some Session_rescheduled) s of
         (Inl IntegrityError, _) \<Rightarrow> raise SlotUnavailable t0
       | (Inl (TutoringError e), s) \<Rightarrow> raise e s
       | (Inr sess', s) \<Rightarrow>
           bindE (schedule_for_session cfg t0 sess' now None s) (\<lambda>js s.
           bindE (enqueue Booking_confirmed (ts_id sess') (reschedule_payload sess' (length js)) now s) (\<lambda>i s.
             ok \<lparr>sm_session = sess', sm_intents = [i], sm_assessment = None, sm_refund = None,
                 sm_revoked = revoked, sm_scheduled = length js\<rparr>
               (record_audit_event (if inside then Au_reschedule_exception else Au_session_rescheduled)
                 (Some (ts_id sess')) (case admin_actor of Some a \<Rightarrow> Some a | None \<Rightarrow> actor_user) actor_role s)))))"

fun decision_code :: "refund_decision \<Rightarrow> string" where
  "decision_code Full_refund = ''full_refund''"
| "decision_code No_auto_refund = ''no_auto_refund''"
| "decision_code Admin_exception_refund = ''admin_exception''"

fun role_code :: "role \<Rightarrow> string" where
  "role_code Student = ''student''"
| "role_code Tutor = ''tutor''"
| "role_code Admin = ''admin''"
| "role_code System = ''system''"
| "role_code (Other_role r) = r"

definition cancelled_payload :: "uid \<Rightarrow> role \<Rightarrow> assessment \<Rightarrow> nat \<Rightarrow> json" where
  "cancelled_payload sid r a n = JObj
     [(''session_id'', JUuid sid), (''cancelled_by_role'', JStr (role_code r)),
      (''refund_decision'', JStr (decision_code (ra_decision a))),
      (''refund_amount_paise'', JInt (ra_amount a)), (''reminders_revoked'', JInt (int n))]"

text \<open>The decision part of \<open>cancel\<close>: the session, its order and the refund assessment.\<close>

definition cancel_assess ::
    "settings \<Rightarrow> uid \<Rightarrow> uid option \<Rightarrow> role \<Rightarrow> bool \<Rightarrow> uid option \<Rightarrow> pyval \<Rightarrow> instant \<Rightarrow> db
       \<Rightarrow> exn + (tsession \<times> order option \<times> assessment)" where
  "cancel_assess cfg sid actor_user actor_role admin_exception admin_actor exception_amount now s =
     (case get_session sid actor_user actor_role s of Inl e \<Rightarrow> Inl e
      | Inr sess \<Rightarrow> (case assert_actor sess actor_user actor_role s of Inl e \<Rightarrow> Inl e
        | Inr _ \<Rightarrow>
          if ts_status sess \<notin> set live_statuses then Inl (TutoringError SessionStateInvalid)
          else if admin_exception \<and> (actor_role \<noteq> Admin \<or> admin_actor = None)
          then Inl (TutoringError AdminExceptionUnauthorised)
          else let ord = (case ts_order sess of None \<Rightarrow> None | Some i \<Rightarrow> get_order_row s i);
                   captured = (case ord of Some q \<Rightarrow> if o_status q = OPaid then o_amount q else 0 | None \<Rightarrow> 0)
            in (case assess_refund (PyInt captured) (HDec (hours_before_start sess now)) actor_role
                      admin_exception admin_actor exception_amount (refund_window_hours cfg) of
                  Inl e \<Rightarrow> Inl e
                | Inr a \<Rightarrow> Inr (sess, ord, a))))"

text \<open>The row of \<open>session_cancellations\<close>, the revoked reminders, the transition, the retired slot.\<close>

definition retire_session ::
    "db \<Rightarrow> tsession \<Rightarrow> assessment \<Rightarrow> role \<Rightarrow> uid option \<Rightarrow> int option \<Rightarrow> string option \<Rightarrow> instant
       \<Rightarrow> db \<Rightarrow> (tsession \<times> nat) run" where
  "retire_session t0 sess a actor_role admin_actor expected reason now s =
     (let row = \<lparr>ca_session = ts_id sess, ca_role = actor_role, ca_hours = ra_hours a,
                 ca_decision = ra_decision a, ca_admin = admin_actor, ca_audited = True\<rparr>;
          (revoked, s) = revoke_for_session (ts_id sess) None s
      in if \<not> cancellation_check row then (Inl IntegrityError, t0)
         else bindE (transition sess Cancelled actor_role expected now
                 (or_default reason (decision_code (ra_decision a))) None (Some Session_cancelled)
                 (s\<lparr>cancellations := cancellations s @ [row]\<rparr>)) (\<lambda>sess' s.
           ok (sess', revoked)
             (s\<lparr>slots := update_where (\<lambda>sl. sl_id sl = ts_slot sess') (set_slot_row SCancelled now) (slots s)\<rparr>)))"

definition cancel ::
    "settings \<Rightarrow> db \<Rightarrow> uid \<Rightarrow> uid option \<Rightarrow> role \<Rightarrow> int option \<Rightarrow> bool \<Rightarrow> uid option \<Rightarrow> pyval
       \<Rightarrow> string option \<Rightarrow> provider option \<Rightarrow> instant \<Rightarrow> db \<Rightarrow> session_mutation run" where
  "cancel cfg t0 sid actor_user actor_role expected admin_exception admin_actor exception_amount reason prov now s =
     bindE (liftE (cancel_assess cfg sid actor_user actor_role admin_exception admin_actor exception_amount now s) s)
       (\<lambda>(sess, ord, a) s.
     bindE (retire_session t0 sess a actor_role admin_actor expected reason now s) (\<lambda>(sess', revoked) s.
     bindE (case (ord, ra_reason a) of
              (Some q, Some why) \<Rightarrow>
                if refund_due a
                then bindE (refund t0 (o_id q) (PyInt (ra_amount a)) why actor_role
                        (case admin_actor of Some x \<Rightarrow> Some x | None \<Rightarrow> actor_user) prov now True s)
                       (\<lambda>i s. ok (Some i) s)
                else ok None s
            | _ \<Rightarrow> ok None s) (\<lambda>issued s.
     bindE (enqueue Booking_cancelled (ts_id sess') (cancelled_payload (ts_id sess') actor_role a revoked) now s)
       (\<lambda>i s.
         ok \<lparr>sm_session = sess',
             sm_intents = (case issued of Some r \<Rightarrow> ri_intents r | None \<Rightarrow> []) @ [i],
             sm_assessment = Some a,
             sm_refund = map_option (\<lambda>r. rf_id (ri_refund r)) issued,
             sm_revoked = revoked, sm_scheduled = 0\<rparr>
           (record_audit_event
             (if ra_decision a = Admin_exception_refund then Au_cancel_exception else Au_session_cancelled)
             (Some (ts_id sess')) (case admin_actor of Some x \<Rightarrow> Some x | None \<Rightarrow> actor_user) actor_role s)))))"

section \<open>Lemmas: the versioned write\<close>

definition sessions_ok :: "db \<Rightarrow> bool" where
  "sessions_ok s \<longleftrightarrow> distinct (map ts_id (sessions s)) \<and> distinct (map ts_slot (sessions s))
     \<and> (\<forall>r \<in> set (sessions s). session_check r)"

definition session_version :: "db \<Rightarrow> uid \<Rightarrow> int option" where
  "session_version s sid = map_option ts_version (get_session_row s sid)"

definition moved :: "session_values \<Rightarrow> int \<Rightarrow> tsession \<Rightarrow> tsession" where
  "moved v n r = (apply_values v r)\<lparr>ts_version := n + 1\<rparr>"

lemma moved_sel [simp]:
  "ts_id (moved v n r) = ts_id r" "ts_version (moved v n r) = n + 1"
  "ts_status (moved v n r) = sv_status v" "ts_order (moved v n r) = ts_order r"
  "ts_student (moved v n r) = ts_student r" "ts_tutor (moved v n r) = ts_tutor r"
  "ts_deleted_at (moved v n r) = ts_deleted_at r"
  "ts_slot (moved v n r) = (case sv_slot v of None \<Rightarrow> ts_slot r | Some sl \<Rightarrow> sl_id sl)"
  "ts_start (moved v n r) = (case sv_slot v of None \<Rightarrow> ts_start r | Some sl \<Rightarrow> sl_start sl)"
  "ts_end (moved v n r) = (case sv_slot v of None \<Rightarrow> ts_end r | Some sl \<Rightarrow> sl_end sl)"
  "ts_tz (moved v n r) = (case sv_slot v of None \<Rightarrow> ts_tz r | Some sl \<Rightarrow> sl_tz sl)"
  by (simp_all add: moved_def apply_values_def Let_def split: option.split)

lemma session_cas_ok:
  assumes "session_cas sid n v s = (Inr x, t)" and "distinct (map ts_id (sessions s))"
  shows "\<exists>r. get_session_row s sid = Some r \<and> ts_version r = n
    \<and> sessions t = update_where (\<lambda>q. ts_id q = sid) (moved v n) (sessions s)
    \<and> t = s\<lparr>sessions := sessions t\<rparr>
    \<and> distinct (map ts_slot (sessions t)) \<and> (\<forall>q \<in> set (sessions t). session_check q)"
proof -
  let ?p = "\<lambda>r. ts_id r = sid \<and> ts_version r = n"
  have c: "count_where ?p (sessions s) = 1"
    and t: "t = s\<lparr>sessions := update_where ?p (moved v n) (sessions s)\<rparr>"
    and ok: "distinct (map ts_slot (sessions t)) \<and> (\<forall>q \<in> set (sessions t). session_check q)"
    using assms(1) by (auto simp: session_cas_def Let_def moved_def [abs_def] split: if_splits)
  obtain r where r: "get_session_row s sid = Some r" "ts_version r = n"
  proof -
    have "(case get_session_row s sid of Some r \<Rightarrow> if ts_version r = n then 1 else 0 | None \<Rightarrow> 0) = (1 :: nat)"
      using c unfolding count_where_by_id [OF assms(2)] .
    then show ?thesis using that by (cases "get_session_row s sid") (simp_all split: if_split_asm)
  qed
  have "update_where ?p (moved v n) (sessions s) = update_where (\<lambda>q. ts_id q = sid) (moved v n) (sessions s)"
  proof (rule update_where_cong)
    fix q assume "q \<in> set (sessions s)"
    with assms(2) have "ts_id q = sid \<Longrightarrow> get_session_row s sid = Some q" by (simp add: find_row_Some_iff)
    with r show "?p q \<longleftrightarrow> ts_id q = sid" by auto
  qed
  with t ok r show ?thesis by simp
qed

lemma session_cas_stale:
  assumes "sessions_ok s" and "session_version s sid \<noteq> Some n"
  shows "session_cas sid n v s = (Inl (TutoringError SessionStaleVersion), s)"
proof -
  let ?p = "\<lambda>r. ts_id r = sid \<and> ts_version r = n"
  have none: "\<forall>r \<in> set (sessions s). \<not> ?p r"
  proof (intro ballI notI)
    fix r assume "r \<in> set (sessions s)" "?p r"
    moreover have "distinct (map ts_id (sessions s))" using assms(1) by (simp add: sessions_ok_def)
    ultimately have "get_session_row s sid = Some r" by (simp add: find_row_Some_iff)
    with \<open>?p r\<close> assms(2) show False by (simp add: session_version_def)
  qed
  then have "count_where ?p (sessions s) = 0" by (simp add: count_where_0)
  with update_where_none [OF none] assms(1) show ?thesis
    by (simp add: session_cas_def Let_def sessions_ok_def)
qed

interpretation session_write: versioned_write sessions_ok session_version session_cas
    "TutoringError SessionStaleVersion"
proof unfold_locales
  fix s t :: db and k n v and x :: unit
  assume good: "sessions_ok s" and run: "session_cas k n v s = (Inr x, t)"
  then obtain r where r: "get_session_row s k = Some r" "ts_version r = n"
      "sessions t = update_where (\<lambda>q. ts_id q = k) (moved v n) (sessions s)"
      "distinct (map ts_slot (sessions t))" "\<forall>q \<in> set (sessions t). session_check q"
    using session_cas_ok by (metis sessions_ok_def)
  show "sessions_ok t"
    using good r(3-5) by (simp add: sessions_ok_def map_update_where)
  show "session_version s k = Some n" using r(1,2) by (simp add: session_version_def)
  show "session_version t k = Some (n + 1)"
    using r(1,3) find_row_SomeD [OF r(1)] by (simp add: session_version_def find_row_update)
  show "session_version t k' = session_version s k'" if "k' \<noteq> k" for k'
    using r(3) that by (cases "get_session_row s k'") (auto simp: session_version_def find_row_update dest: find_row_SomeD)
next
  fix s :: db and k n v
  assume "sessions_ok s" "session_version s k \<noteq> Some n"
  then show "session_cas k n v s = (Inl (TutoringError SessionStaleVersion), s)"
    by (rule session_cas_stale)
qed

definition logged :: "uid \<Rightarrow> session_status \<Rightarrow> session_status \<Rightarrow> role \<Rightarrow> instant \<Rightarrow> string option
    \<Rightarrow> event_kind option \<Rightarrow> db \<Rightarrow> db" where
  "logged sid from_status to_status r now reason event s =
     (let s1 = append_history sid (Some from_status) to_status r now reason s in
      case event of None \<Rightarrow> s1 | Some k \<Rightarrow> booking_event k r None (Some sid) now s1)"

lemma logged_sel [simp]:
  "next_id (logged i f to r now w e s) = next_id s" "tutors (logged i f to r now w e s) = tutors s"
  "slots (logged i f to r now w e s) = slots s" "holds (logged i f to r now w e s) = holds s"
  "orders (logged i f to r now w e s) = orders s" "sessions (logged i f to r now w e s) = sessions s"
  "pay_events (logged i f to r now w e s) = pay_events s" "refunds (logged i f to r now w e s) = refunds s"
  "attendance (logged i f to r now w e s) = attendance s" "cancellations (logged i f to r now w e s) = cancellations s"
  "reviews (logged i f to r now w e s) = reviews s" "moderation (logged i f to r now w e s) = moderation s"
  "outbox (logged i f to r now w e s) = outbox s" "jobs (logged i f to r now w e s) = jobs s"
  "grants (logged i f to r now w e s) = grants s" "audits (logged i f to r now w e s) = audits s"
  by (simp_all add: logged_def append_history_def booking_event_def Let_def split: option.split)

lemma transition_ok:
  assumes "transition sess to_st r ver now why sl ev s = (Inr sess', t)"
    and "distinct (map ts_id (sessions s))"
  shows "\<exists>row n. r \<in> {Student, Tutor, Admin, System} \<and> to_st \<in> set (legal_transitions (ts_status sess))
    \<and> n = (case ver of None \<Rightarrow> ts_version sess | Some n \<Rightarrow> n)
    \<and> get_session_row s (ts_id sess) = Some row \<and> ts_version row = n
    \<and> sess' = moved \<lparr>sv_status = to_st, sv_now = now, sv_slot = sl\<rparr> n row
    \<and> sessions t = update_where (\<lambda>q. ts_id q = ts_id sess)
        (moved \<lparr>sv_status = to_st, sv_now = now, sv_slot = sl\<rparr> n) (sessions s)
    \<and> distinct (map ts_slot (sessions t)) \<and> (\<forall>q \<in> set (sessions t). session_check q)
    \<and> t = logged (ts_id sess) (ts_status sess) to_st r now why ev (s\<lparr>sessions := sessions t\<rparr>)"
proof -
  let ?n = "case ver of None \<Rightarrow> ts_version sess | Some n \<Rightarrow> n"
  let ?v = "\<lparr>sv_status = to_st, sv_now = now, sv_slot = sl\<rparr>"
  have r: "r \<in> {Student, Tutor, Admin, System}" and legal: "to_st \<in> set (legal_transitions (ts_status sess))"
    using assms(1) by (auto simp: transition_def run_simps assert_transition_def split: if_splits)
  then obtain u where u: "session_cas (ts_id sess) ?n ?v s = (Inr (), u)"
    using assms(1) by (auto simp: transition_def run_simps assert_transition_def Let_def split: if_splits)
  obtain row where row: "get_session_row s (ts_id sess) = Some row" "ts_version row = ?n"
      "sessions u = update_where (\<lambda>q. ts_id q = ts_id sess) (moved ?v ?n) (sessions s)"
      "u = s\<lparr>sessions := sessions u\<rparr>"
      "distinct (map ts_slot (sessions u)) \<and> (\<forall>q \<in> set (sessions u). session_check q)"
    using session_cas_ok [OF u assms(2)] by blast
  have get: "get_session_row u (ts_id sess) = Some (moved ?v ?n row)"
    using row(1,3) find_row_SomeD [OF row(1)] by (simp add: find_row_update)
  have t: "t = logged (ts_id sess) (ts_status sess) to_st r now why ev u"
    and s': "sess' = (case get_session_row t (ts_id sess) of Some q \<Rightarrow> q | None \<Rightarrow> sess)"
    using assms(1) r legal u
    by (auto simp: transition_def assert_transition_def Let_def logged_def)
  have ut: "sessions t = sessions u" unfolding t by simp
  have "sess' = moved ?v ?n row" using s' get ut by simp
  with r legal row t ut show ?thesis by (intro exI [of _ row] exI [of _ ?n]) metis
qed

lemma transition_stale:
  assumes "sessions_ok s" and "r \<in> {Student, Tutor, Admin, System}"
    and "to_st \<in> set (legal_transitions (ts_status sess))"
    and "session_version s (ts_id sess) \<noteq> Some (case ver of None \<Rightarrow> ts_version sess | Some n \<Rightarrow> n)"
  shows "transition sess to_st r ver now why sl ev s = (Inl (TutoringError SessionStaleVersion), s)"
  using assms by (simp add: transition_def assert_transition_def session_cas_stale)

section \<open>Lemmas: creation\<close>

definition new_session :: "uid \<Rightarrow> slot \<Rightarrow> hold \<Rightarrow> order \<Rightarrow> instant \<Rightarrow> tsession" where
  "new_session i sl hold ord now = \<lparr>ts_id = i, ts_slot = sl_id sl, ts_tutor = sl_tutor sl,
     ts_student = h_student hold, ts_order = Some (o_id ord), ts_start = sl_start sl,
     ts_end = sl_end sl, ts_tz = sl_tz sl, ts_status = Confirmed, ts_version = 1,
     ts_updated_at = now, ts_deleted_at = None\<rparr>"

lemma new_session_sel [simp]:
  "ts_id (new_session i sl h q now) = i" "ts_slot (new_session i sl h q now) = sl_id sl"
  "ts_tutor (new_session i sl h q now) = sl_tutor sl" "ts_student (new_session i sl h q now) = h_student h"
  "ts_order (new_session i sl h q now) = Some (o_id q)" "ts_start (new_session i sl h q now) = sl_start sl"
  "ts_end (new_session i sl h q now) = sl_end sl" "ts_tz (new_session i sl h q now) = sl_tz sl"
  "ts_status (new_session i sl h q now) = Confirmed" "ts_version (new_session i sl h q now) = 1"
  "ts_deleted_at (new_session i sl h q now) = None"
  by (simp_all add: new_session_def)

definition booked :: "tsession \<Rightarrow> hold \<Rightarrow> instant \<Rightarrow> db \<Rightarrow> db" where
  "booked r hold now s = s\<lparr>next_id := Suc (next_id s),
     holds := update_where (\<lambda>h. h_id h = h_id hold \<and> h_status h = HActive) (close_hold_row HConsumed now) (holds s),
     slots := update_where (\<lambda>sl. sl_id sl = h_slot hold \<and> sl_status sl = SHeld) (set_slot_row SBooked now) (slots s),
     sessions := sessions s @ [r]\<rparr>"

lemma book_slot_ok:
  assumes "book_slot t0 hold ord now s = (Inr r, t)"
  shows "\<exists>sl. get_slot_row s (h_slot hold) = Some sl \<and> sl_id sl = h_slot hold \<and> sl_deleted_at sl = None
    \<and> r = new_session (next_id s) sl hold ord now \<and> session_check r
    \<and> h_slot hold \<notin> ts_slot ` set (sessions s) \<and> order_check ord
    \<and> t = booked r hold now s"
proof -
  obtain sl where sl: "get_slot_row s (h_slot hold) = Some sl"
    using assms by (auto simp: book_slot_def split: option.splits)
  then have id: "sl_id sl = h_slot hold" by (auto dest: find_row_SomeD)
  show ?thesis
    using assms sl id
    by (auto simp: book_slot_def Let_def new_session_def booked_def insert_session_def bump_def
        split: if_split_asm option.split_asm)
qed

lemma booked_inv:
  assumes "booking_inv s" "hold \<in> set (holds s)" "live_hold hold"
  shows "booking_inv (booked r hold now s)"
  using closed_inv [OF assms, of HConsumed SBooked now] booking_invD(5) [OF assms(1)] assms(2)
  by (auto simp: booking_inv_def booked_def set_update_where less_Suc_eq)

lemma check_paid_hold_ok:
  assumes "check_paid_hold hold ord now s = Inr x"
  shows "o_hold ord = h_id hold \<and> o_student ord = h_student hold \<and> o_status ord = OPaid
    \<and> has_verified_paid_event ord s
    \<and> (case x of Some r \<Rightarrow> find (\<lambda>r. ts_slot r = h_slot hold) (sessions s) = Some r \<and> ts_order r = Some (o_id ord)
       | None \<Rightarrow> find (\<lambda>r. ts_slot r = h_slot hold) (sessions s) = None \<and> live_hold hold \<and> now < h_expires_at hold)"
proof (cases "find (\<lambda>r. ts_slot r = h_slot hold) (sessions s)")
  case None
  with assms show ?thesis by (auto simp: check_paid_hold_def live_hold_def is_expired_def split: if_split_asm)
next
  case (Some r)
  then have "x = Some r" using assms by (simp add: check_paid_hold_def split: if_split_asm)
  with Some assms show ?thesis by (simp add: check_paid_hold_def split: if_split_asm)
qed

text \<open>The parts of the state later theorems read, after a session was created.\<close>

lemma create_session_ok:
  assumes "create_from_paid_hold cfg t0 hold ord now s = (Inr c, t)" and "\<not> sc_replayed c"
    and inv: "jobs_inv s"
  shows "\<exists>sl r. get_slot_row s (h_slot hold) = Some sl \<and> sl_id sl = h_slot hold
    \<and> r = sc_session c \<and> r = new_session (next_id s) sl hold ord now \<and> session_check r
    \<and> o_hold ord = h_id hold \<and> o_student ord = h_student hold \<and> o_status ord = OPaid
    \<and> has_verified_paid_event ord s \<and> live_hold hold \<and> now < h_expires_at hold
    \<and> h_slot hold \<notin> ts_slot ` set (sessions s)
    \<and> core t = core (booked r hold now s)
    \<and> next_id s < next_id t \<and> jobs_inv t
    \<and> (\<exists>x. outbox t = outbox s @ [x] \<and> ob_kind x = Booking_confirmed \<and> ob_aggregate x = ts_id r
          \<and> ob_id x < next_id t \<and> next_id s \<le> ob_id x)
    \<and> (\<forall>j \<in> set (jobs t). j \<in> set (jobs s) \<or> (rj_session j = ts_id r
           \<and> rj_at j = ts_start r - offset_delta (rj_kind j) \<and> now < rj_at j))"
proof -
  have chk: "check_paid_hold hold ord now s = Inr None"
    using assms(1,2) by (auto simp: create_from_paid_hold_def run_simps split: option.split_asm)
  obtain r u where u: "book_slot t0 hold ord now s = (Inr r, u)"
    using assms(1) by (auto simp: create_from_paid_hold_def chk run_simps)
  define v where "v = booking_event Session_confirmed System None (Some (ts_id r)) now
      (booking_event Hold_consumed System (Some (h_id hold)) (Some (ts_id r)) now
        (append_history (ts_id r) None Confirmed System now (Some ''payment_verified'') u))"
  obtain js w where w: "schedule_for_session cfg t0 r now None v = (Inr js, w)"
    using assms(1) by (auto simp: create_from_paid_hold_def chk u run_simps Let_def v_def)
  obtain i x where x: "enqueue Booking_confirmed (ts_id r) (confirmed_payload r (length js)) now w = (Inr i, x)"
    using assms(1) by (auto simp: create_from_paid_hold_def chk u run_simps Let_def w [unfolded v_def])
  have t: "t = record_audit_event Au_session_created (Some (ts_id r)) (Some (h_student hold)) System x"
    and r: "sc_session c = r"
    using assms(1) x by (auto simp: create_from_paid_hold_def chk u Let_def w [unfolded v_def])
  obtain sl where sl: "get_slot_row s (h_slot hold) = Some sl" "sl_id sl = h_slot hold"
      "r = new_session (next_id s) sl hold ord now" "session_check r"
      "h_slot hold \<notin> ts_slot ` set (sessions s)" "u = booked r hold now s"
    using book_slot_ok [OF u] by blast
  have vj: "jobs v = jobs s" "next_id v = Suc (next_id s)" "outbox v = outbox s" "core v = core u"
    by (simp_all add: v_def sl(6) booked_def append_history_def)
  have jv: "jobs_inv v" using inv by (auto simp: jobs_inv_def vj less_Suc_eq)
  note sch = schedule_for_session_ok [OF jv w, unfolded vj] schedule_for_session_core [OF jv w, unfolded vj]
  have xw: "x = outboxed Booking_confirmed (ts_id r) (confirmed_payload r (length js)) now w"
    using enqueue_ok [OF x] by blast
  have "core t = core (booked r hold now s)" using sch(2) sl(6) by (simp add: t xw)
  moreover have "jobs t = jobs w" "next_id t = Suc (next_id w)" by (simp_all add: t xw)
  moreover have "jobs_inv t" using sch(1) by (auto simp: jobs_inv_def t xw less_Suc_eq)
  moreover have "\<exists>y. outbox t = outbox s @ [y] \<and> ob_kind y = Booking_confirmed \<and> ob_aggregate y = ts_id r
      \<and> ob_id y < next_id t \<and> next_id s \<le> ob_id y"
    using sch(1,3) by (simp add: t xw) (simp add: outboxed_def)
  moreover have "\<forall>j \<in> set (jobs t). j \<in> set (jobs s) \<or> (rj_session j = ts_id r
           \<and> rj_at j = ts_start r - offset_delta (rj_kind j) \<and> now < rj_at j)"
    using sch(1) unfolding t xw by simp blast
  moreover note check_paid_hold_ok [OF chk]
  ultimately show ?thesis using sl sch(1) r by (intro exI [of _ sl] exI [of _ r]) simp
qed

section \<open>Lemmas: reschedule and cancel\<close>

lemma get_session_ok:
  "get_session sid user r s = Inr sess \<Longrightarrow> get_session_row s sid = Some sess \<and> ts_id sess = sid
     \<and> ts_deleted_at sess = None \<and> r \<in> {Student, Tutor, Admin}
     \<and> (r = Student \<longrightarrow> user = Some (ts_student sess))
     \<and> (r = Tutor \<longrightarrow> (\<exists>tu. get_tutor_row s (ts_tutor sess) = Some tu \<and> user = Some (t_user tu)))"
  by (auto simp: get_session_def split: if_split_asm option.split_asm dest: find_row_SomeD)

lemma assert_actor_ok:
  "assert_actor sess user r s = Inr x \<Longrightarrow> user \<noteq> None"
  by (auto simp: assert_actor_def split: if_split_asm option.split_asm)

lemma reschedule_gates_ok:
  assumes "reschedule_gates cfg sid new_id user r ex admin now s = Inr (sess, sl, inside)"
  shows "get_session sid user r s = Inr sess \<and> user \<noteq> None \<and> ts_status sess \<in> set live_statuses
    \<and> (inside \<longleftrightarrow> hours_before_start sess now < 100 * refund_window_hours cfg)
    \<and> (inside \<longrightarrow> ex \<and> r = Admin \<and> admin \<noteq> None)
    \<and> new_id \<noteq> ts_slot sess \<and> get_slot_row s new_id = Some sl \<and> sl_id sl = new_id
    \<and> sl_deleted_at sl = None \<and> sl_tutor sl = ts_tutor sess \<and> now < sl_start sl"
  using assms assert_actor_ok
  by (auto simp: reschedule_gates_def Let_def split: if_split_asm option.split_asm sum.split_asm
      dest: find_row_SomeD)

definition swapped :: "tsession \<Rightarrow> uid \<Rightarrow> instant \<Rightarrow> db \<Rightarrow> db" where
  "swapped sess new_id now s = (swept now (Some new_id) s)\<lparr>slots :=
     update_where (\<lambda>sl. sl_id sl = ts_slot sess \<and> sl_status sl = SBooked) (set_slot_row SAvailable now)
       (update_where (\<lambda>sl. sl_id sl = new_id \<and> sl_status sl = SAvailable) (set_slot_row SBooked now)
         (slots (swept now (Some new_id) s)))\<rparr>"

lemma swap_slots_ok:
  assumes "swap_slots sess new_id now s = (Inr x, t)" and "booking_inv s"
  shows "t = swapped sess new_id now s
    \<and> (\<exists>sl. get_slot_row (swept now (Some new_id) s) new_id = Some sl \<and> sl_status sl = SAvailable)"
proof -
  let ?s = "swept now (Some new_id) s"
  let ?p = "\<lambda>sl. sl_id sl = new_id \<and> sl_status sl = SAvailable"
  have e: "snd (expire_active_holds now (Some new_id) s) = ?s"
    by (rule expire_state [OF booking_invD(1) [OF assms(2)]])
  have c: "count_where ?p (slots ?s) = 1" and t: "t = swapped sess new_id now s"
    using assms(1) by (auto simp: swap_slots_def Let_def e swapped_def split: if_split_asm)
  have "(case get_slot_row ?s new_id of Some sl \<Rightarrow> if sl_status sl = SAvailable then 1 else 0 | None \<Rightarrow> 0) = (1 :: nat)"
    using c unfolding count_where_by_id [OF booking_invD(3) [OF swept_inv [OF assms(2)]]] .
  with t show ?thesis by (cases "get_slot_row ?s new_id") (simp_all split: if_split_asm)
qed

lemma swapped_inv:
  assumes "booking_inv s"
  shows "booking_inv (swapped sess new_id now s)"
proof -
  let ?s = "swept now (Some new_id) s"
  have c: "consistent (holds ?s) (slots ?s)" using swept_inv [OF assms] by (simp add: booking_inv_def)
  then have "consistent (holds ?s) (slots (swapped sess new_id now s))"
    unfolding swapped_def by (simp, intro move_consistent) auto
  moreover have "holds (swapped sess new_id now s) = holds ?s" "next_id (swapped sess new_id now s) = next_id s"
    by (simp_all add: swapped_def)
  ultimately show ?thesis using swept_inv [OF assms] by (simp add: booking_inv_def)
qed

lemma swapped_sel [simp]:
  "next_id (swapped sess i now s) = next_id s" "tutors (swapped sess i now s) = tutors s"
  "orders (swapped sess i now s) = orders s" "sessions (swapped sess i now s) = sessions s"
  "pay_events (swapped sess i now s) = pay_events s" "refunds (swapped sess i now s) = refunds s"
  "attendance (swapped sess i now s) = attendance s" "cancellations (swapped sess i now s) = cancellations s"
  "reviews (swapped sess i now s) = reviews s" "moderation (swapped sess i now s) = moderation s"
  "outbox (swapped sess i now s) = outbox s" "jobs (swapped sess i now s) = jobs s"
  "grants (swapped sess i now s) = grants s" "history (swapped sess i now s) = history s"
  by (simp_all add: swapped_def)

lemma revoke_core [simp]:
  "core (snd (revoke_for_session sid kinds s)) = core s"
  "outbox (snd (revoke_for_session sid kinds s)) = outbox s"
  "next_id (snd (revoke_for_session sid kinds s)) = next_id s"
  "history (snd (revoke_for_session sid kinds s)) = history s"
  by (simp_all add: revoke_for_session_def)

lemma revoke_jobs:
  assumes "jobs_inv s"
  shows "jobs_inv (snd (revoke_for_session sid None s))"
    "\<forall>j \<in> set (jobs (snd (revoke_for_session sid None s))). \<not> (rj_session j = sid \<and> rj_status j = JScheduled)"
    "\<forall>j. rj_session j \<noteq> sid \<longrightarrow>
       (j \<in> set (jobs (snd (revoke_for_session sid None s))) \<longleftrightarrow> j \<in> set (jobs s))"
proof -
  show "jobs_inv (snd (revoke_for_session sid None s))"
    using jobs_inv_update [OF assms] by (simp add: revoke_for_session_def)
  let ?f = "\<lambda>j. if revocable sid None j then set_job JRevoked j else j"
  have js: "jobs (snd (revoke_for_session sid None s)) = map ?f (jobs s)"
    by (simp add: revoke_for_session_def update_where_def)
  have f: "\<not> (rj_session (?f j) = sid \<and> rj_status (?f j) = JScheduled)"
    "rj_session j \<noteq> sid \<Longrightarrow> ?f j = j" "rj_session (?f j) = rj_session j" for j
    by (simp_all add: revocable_def)
  show "\<forall>j \<in> set (jobs (snd (revoke_for_session sid None s))). \<not> (rj_session j = sid \<and> rj_status j = JScheduled)"
    unfolding js set_map by (intro ballI, elim imageE, hypsubst) (rule f(1))
  show "\<forall>j. rj_session j \<noteq> sid \<longrightarrow>
       (j \<in> set (jobs (snd (revoke_for_session sid None s))) \<longleftrightarrow> j \<in> set (jobs s))"
    unfolding js set_map
  proof (intro allI impI iffI)
    fix j :: reminder_job assume n: "rj_session j \<noteq> sid"
    show "j \<in> ?f ` set (jobs s) \<Longrightarrow> j \<in> set (jobs s)"
    proof (elim imageE)
      fix i assume i: "j = ?f i" "i \<in> set (jobs s)"
      then have "rj_session i \<noteq> sid" using n f(3) [of i] by simp
      from i f(2) [OF this] show "j \<in> set (jobs s)" by simp
    qed
    show "j \<in> set (jobs s) \<Longrightarrow> j \<in> ?f ` set (jobs s)"
      by (rule image_eqI [where x = j]) (simp_all only: f(2) [OF n])
  qed
qed

text \<open>The outcome of a successful reschedule.\<close>

lemma reschedule_ok:
  assumes run: "reschedule cfg t0 sid new_id user r ver ex admin why now s = (Inr m, t)"
    and inv: "booking_inv s" "sessions_ok s" "jobs_inv s"
  shows "\<exists>sess sl inside n.
      reschedule_gates cfg sid new_id user r ex admin now s = Inr (sess, sl, inside)
    \<and> n = (case ver of None \<Rightarrow> ts_version sess | Some n \<Rightarrow> n) \<and> ts_version sess = n
    \<and> Rescheduled \<in> set (legal_transitions (ts_status sess))
    \<and> sm_session m = moved \<lparr>sv_status = Rescheduled, sv_now = now, sv_slot = Some sl\<rparr> n sess
    \<and> (\<exists>sl'. get_slot_row (swept now (Some new_id) s) new_id = Some sl' \<and> sl_status sl' = SAvailable)
    \<and> core t = core ((swapped sess new_id now s)\<lparr>sessions := sessions t\<rparr>)
    \<and> sessions t = update_where (\<lambda>q. ts_id q = sid)
        (moved \<lparr>sv_status = Rescheduled, sv_now = now, sv_slot = Some sl\<rparr> n) (sessions s)
    \<and> sessions_ok t \<and> jobs_inv t \<and> next_id s < next_id t
    \<and> (\<exists>x. outbox t = outbox s @ [x] \<and> ob_kind x = Booking_confirmed \<and> ob_aggregate x = sid
          \<and> ob_id x < next_id t \<and> next_id s \<le> ob_id x)
    \<and> (\<forall>j \<in> set (jobs t). rj_session j = sid \<and> rj_status j = JScheduled \<longrightarrow>
          rj_at j = sl_start sl - offset_delta (rj_kind j) \<and> now < rj_at j)"
proof -
  obtain sess sl inside where g: "reschedule_gates cfg sid new_id user r ex admin now s = Inr (sess, sl, inside)"
    using run by (auto simp: reschedule_def run_simps)
  note gates = reschedule_gates_ok [OF g]
  have sess: "get_session_row s sid = Some sess" "ts_id sess = sid"
    using gates get_session_ok by blast+
  obtain y s1 where sw: "swap_slots sess new_id now s = (Inr y, s1)"
    using run by (auto simp: reschedule_def g run_simps)
  note swap = swap_slots_ok [OF sw inv(1)]
  obtain n s2 where rv: "revoke_for_session (ts_id sess) None s1 = (n, s2)" by fastforce
  let ?w = "or_default why (if inside then ''admin_exception'' else ''reschedule'')"
  obtain sess' s3 where tr: "transition sess Rescheduled r ver now ?w (Some sl) (Some Session_rescheduled) s2
      = (Inr sess', s3)"
    using run by (auto simp: reschedule_def g sw rv Let_def split: prod.split_asm sum.split_asm exn.split_asm)
  obtain js s4 where sch: "schedule_for_session cfg t0 sess' now None s3 = (Inr js, s4)"
    using run by (auto simp: reschedule_def g sw rv Let_def tr run_simps)
  obtain i s5 where en: "enqueue Booking_confirmed (ts_id sess') (reschedule_payload sess' (length js)) now s4 = (Inr i, s5)"
    using run by (auto simp: reschedule_def g sw rv Let_def tr sch run_simps)
  have m: "sm_session m = sess'" and t: "\<exists>a u. t = record_audit_event a (Some (ts_id sess')) u r s5"
    using run by (auto simp: reschedule_def g sw rv Let_def tr sch en)
  have s2: "core s2 = core s1" "outbox s2 = outbox s1" "next_id s2 = next_id s1" "s2 = snd (revoke_for_session sid None s1)"
    using rv sess(2) revoke_core [of sid None s1] by auto
  have ids: "distinct (map ts_id (sessions s2))" and sess2: "sessions s2 = sessions s"
    using inv(2) swap coreD(7) [OF s2(1)] by (simp_all add: sessions_ok_def)
  let ?v = "\<lparr>sv_status = Rescheduled, sv_now = now, sv_slot = Some sl\<rparr>"
  let ?n = "case ver of None \<Rightarrow> ts_version sess | Some n \<Rightarrow> n"
  from transition_ok [OF tr ids] obtain row where
    leg: "Rescheduled \<in> set (legal_transitions (ts_status sess))" and
    row: "get_session_row s2 (ts_id sess) = Some row" "ts_version row = ?n" "sess' = moved ?v ?n row" and
    st: "sessions s3 = update_where (\<lambda>q. ts_id q = ts_id sess) (moved ?v ?n) (sessions s2)"
      "distinct (map ts_slot (sessions s3)) \<and> (\<forall>q \<in> set (sessions s3). session_check q)" and
    lg: "s3 = logged (ts_id sess) (ts_status sess) Rescheduled r now ?w (Some Session_rescheduled)
        (s2\<lparr>sessions := sessions s3\<rparr>)"
    by blast
  have rowsess: "row = sess" using row(1) sess sess2 by simp
  have c3: "core s3 = core (s2\<lparr>sessions := sessions s3\<rparr>)" "jobs s3 = jobs s2" "outbox s3 = outbox s2" "next_id s3 = next_id s2"
    by (subst lg, simp add: core_def)+
  have j1: "jobs_inv s1" using inv(3) swap by (simp add: jobs_inv_def)
  note j2 = revoke_jobs [OF j1, of sid, folded s2(4)]
  have j3: "jobs_inv s3" using j2(1) c3 by (simp add: jobs_inv_def)
  note so = schedule_for_session_ok [OF j3 sch] schedule_for_session_core [OF j3 sch]
  have s5: "s5 = outboxed Booking_confirmed (ts_id sess') (reschedule_payload sess' (length js)) now s4"
    using enqueue_ok [OF en] by blast
  have tt: "core t = core s3" "jobs t = jobs s4" "next_id t = Suc (next_id s4)" "outbox t = outbox s5"
    using t so by (auto simp: s5)
  have st3: "sessions t = sessions s3" by (rule coreD(7) [OF tt(1)])
  have "core t = core ((swapped sess new_id now s)\<lparr>sessions := sessions t\<rparr>)"
    using tt(1) c3(1) s2(1) swap st3 by (simp add: core_def)
  moreover have "sessions t = update_where (\<lambda>q. ts_id q = sid) (moved ?v ?n) (sessions s)"
    using st(1) st3 sess(2) sess2 by simp
  moreover have "sessions_ok t"
    using st st3 ids by (simp add: sessions_ok_def map_update_where)
  moreover have "next_id s1 = next_id s" "outbox s1 = outbox s" using swap by simp_all
  moreover from this have nx: "next_id s \<le> next_id s4" "outbox s4 = outbox s"
    using so c3 s2 by simp_all
  moreover have "\<exists>x. outbox t = outbox s @ [x] \<and> ob_kind x = Booking_confirmed \<and> ob_aggregate x = sid
          \<and> ob_id x < next_id t \<and> next_id s \<le> ob_id x"
    using nx sess(2) rowsess row(3) by (simp add: tt s5) (simp add: outboxed_def)
  moreover have "jobs_inv t" using so(1) by (auto simp: jobs_inv_def tt less_Suc_eq)
  moreover have "\<forall>j \<in> set (jobs t). rj_session j = sid \<and> rj_status j = JScheduled \<longrightarrow>
      rj_at j = sl_start sl - offset_delta (rj_kind j) \<and> now < rj_at j"
  proof (intro ballI impI)
    fix j assume j: "j \<in> set (jobs t)" "rj_session j = sid \<and> rj_status j = JScheduled"
    then have "j \<notin> set (jobs s3)" using j2(2) c3(2) by auto
    with so(1) j tt(2) row(3) show "rj_at j = sl_start sl - offset_delta (rj_kind j) \<and> now < rj_at j"
      by auto
  qed
  moreover have "next_id s < next_id t" using tt(3) nx by simp
  moreover have "ts_version sess = ?n" "sm_session m = moved ?v ?n sess" using row(2,3) rowsess m by simp_all
  ultimately show ?thesis using g leg swap
    by - (rule exI [of _ sess], rule exI [of _ sl], rule exI [of _ inside], rule exI [of _ ?n],
      intro conjI; (assumption | blast | rule refl))
qed

lemma cancel_assess_ok:
  assumes "cancel_assess cfg sid user r ex admin amount now s = Inr (sess, ord, a)"
  shows "get_session sid user r s = Inr sess \<and> user \<noteq> None \<and> ts_status sess \<in> set live_statuses
    \<and> (ex \<longrightarrow> r = Admin \<and> admin \<noteq> None)
    \<and> ord = (case ts_order sess of None \<Rightarrow> None | Some i \<Rightarrow> get_order_row s i)
    \<and> assess_refund (PyInt (case ord of Some q \<Rightarrow> if o_status q = OPaid then o_amount q else 0 | None \<Rightarrow> 0))
        (HDec (hours_before_start sess now)) r ex admin amount (refund_window_hours cfg) = Inr a"
  using assms assert_actor_ok
  by (auto simp: cancel_assess_def Let_def split: if_split_asm sum.split_asm)

lemma assess_refund_ok:
  assumes "assess_refund (PyInt c) h r ex admin amount w = Inr a"
  shows "0 \<le> ra_amount a" "ra_amount a \<le> c" "refund_due a \<Longrightarrow> ra_reason a \<noteq> None"
    "ra_reason a = Some x \<Longrightarrow> x \<in> set refund_reasons"
    "ra_hours a = (case h of HDec n \<Rightarrow> n | HFloat y \<Rightarrow> format_2f y)"
    "ra_decision a = Admin_exception_refund \<Longrightarrow> admin \<noteq> None"
  using assms
  by (auto simp: assess_refund_def Let_def refund_due_def refund_reasons_def assert_paise_Inr
      split: sum.split_asm if_split_asm)

definition retired :: "tsession \<Rightarrow> int \<Rightarrow> cancellation \<Rightarrow> instant \<Rightarrow> db \<Rightarrow> db" where
  "retired sess n row now s = s\<lparr>
     sessions := update_where (\<lambda>q. ts_id q = ts_id sess)
       (moved \<lparr>sv_status = Cancelled, sv_now = now, sv_slot = None\<rparr> n) (sessions s),
     slots := update_where (\<lambda>sl. sl_id sl = ts_slot sess) (set_slot_row SCancelled now) (slots s),
     cancellations := cancellations s @ [row]\<rparr>"

lemma retire_session_ok:
  assumes run: "retire_session t0 sess a r admin ver why now s = (Inr (sess', k), t)"
    and row: "get_session_row s (ts_id sess) = Some sess"
    and inv: "sessions_ok s" "jobs_inv s"
  shows "\<exists>n c. n = (case ver of None \<Rightarrow> ts_version sess | Some n \<Rightarrow> n) \<and> ts_version sess = n
    \<and> Cancelled \<in> set (legal_transitions (ts_status sess))
    \<and> sess' = moved \<lparr>sv_status = Cancelled, sv_now = now, sv_slot = None\<rparr> n sess
    \<and> c = \<lparr>ca_session = ts_id sess, ca_role = r, ca_hours = ra_hours a, ca_decision = ra_decision a,
           ca_admin = admin, ca_audited = True\<rparr> \<and> cancellation_check c
    \<and> core t = core (retired sess n c now s) \<and> sessions_ok t
    \<and> jobs t = jobs (snd (revoke_for_session (ts_id sess) None s))
    \<and> next_id t = next_id s \<and> outbox t = outbox s"
proof -
  let ?c = "\<lparr>ca_session = ts_id sess, ca_role = r, ca_hours = ra_hours a, ca_decision = ra_decision a,
           ca_admin = admin, ca_audited = True\<rparr>"
  obtain k1 s1 where rv: "revoke_for_session (ts_id sess) None s = (k1, s1)" by fastforce
  have s1: "s1 = snd (revoke_for_session (ts_id sess) None s)" by (simp add: rv)
  let ?s2 = "s1\<lparr>cancellations := cancellations s1 @ [?c]\<rparr>"
  let ?w = "or_default why (decision_code (ra_decision a))"
  have chk: "cancellation_check ?c"
    using run by (auto simp: retire_session_def Let_def rv split: if_split_asm)
  obtain s3 where tr: "transition sess Cancelled r ver now ?w None (Some Session_cancelled) ?s2 = (Inr sess', s3)"
      and t: "t = s3\<lparr>slots := update_where (\<lambda>sl. sl_id sl = ts_slot sess') (set_slot_row SCancelled now) (slots s3)\<rparr>"
    using run by (auto simp: retire_session_def Let_def rv chk run_simps)
  have c1: "core s1 = core s" "next_id s1 = next_id s" "outbox s1 = outbox s" by (simp_all add: s1)
  have ids: "distinct (map ts_id (sessions ?s2))" and sess2: "sessions ?s2 = sessions s"
    using inv(1) coreD(7) [OF c1(1)] by (simp_all add: sessions_ok_def)
  let ?v = "\<lparr>sv_status = Cancelled, sv_now = now, sv_slot = None\<rparr>"
  let ?n = "case ver of None \<Rightarrow> ts_version sess | Some n \<Rightarrow> n"
  from transition_ok [OF tr ids] obtain row' where
    leg: "Cancelled \<in> set (legal_transitions (ts_status sess))" and
    row': "get_session_row ?s2 (ts_id sess) = Some row'" "ts_version row' = ?n" "sess' = moved ?v ?n row'" and
    st: "sessions s3 = update_where (\<lambda>q. ts_id q = ts_id sess) (moved ?v ?n) (sessions ?s2)"
      "distinct (map ts_slot (sessions s3)) \<and> (\<forall>q \<in> set (sessions s3). session_check q)" and
    lg: "s3 = logged (ts_id sess) (ts_status sess) Cancelled r now ?w (Some Session_cancelled)
        (?s2\<lparr>sessions := sessions s3\<rparr>)"
    by blast
  have same: "row' = sess" using row'(1) row sess2 by simp
  have c3: "core s3 = core (?s2\<lparr>sessions := sessions s3\<rparr>)" "jobs s3 = jobs s1" "outbox s3 = outbox s1"
      "next_id s3 = next_id s1"
    by (subst lg, simp add: core_def)+
  have "core t = core (retired sess ?n ?c now s)"
    using c3(1) c1(1) row'(3) same st(1) sess2 by (simp add: t core_def retired_def)
  moreover have "sessions_ok t" using st ids by (simp add: sessions_ok_def map_update_where t)
  moreover have "jobs t = jobs s1" "next_id t = next_id s" "outbox t = outbox s"
    using c3 c1 by (simp_all add: t)
  ultimately show ?thesis using leg row'(2,3) same chk unfolding s1
    by - (rule exI [of _ ?n], rule exI [of _ ?c], intro conjI; (assumption | rule refl | blast))
qed

text \<open>The outcome of a successful cancellation: the retired session, then perhaps a refund.\<close>

lemma cancel_ok:
  assumes run: "cancel cfg t0 sid user r ver ex admin amount why prov now s = (Inr m, t)"
    and inv: "sessions_ok s" "jobs_inv s"
  shows "\<exists>sess ord a n c u.
      cancel_assess cfg sid user r ex admin amount now s = Inr (sess, ord, a)
    \<and> n = (case ver of None \<Rightarrow> ts_version sess | Some n \<Rightarrow> n) \<and> ts_version sess = n
    \<and> Cancelled \<in> set (legal_transitions (ts_status sess))
    \<and> sm_session m = moved \<lparr>sv_status = Cancelled, sv_now = now, sv_slot = None\<rparr> n sess
    \<and> sm_assessment m = Some a
    \<and> c = \<lparr>ca_session = sid, ca_role = r, ca_hours = ra_hours a, ca_decision = ra_decision a,
           ca_admin = admin, ca_audited = True\<rparr>
    \<and> core u = core (retired sess n c now s) \<and> next_id u = next_id s \<and> outbox u = outbox s
    \<and> (if refund_due a
       then \<exists>q why i v. ord = Some q \<and> ra_reason a = Some why
          \<and> refund t0 (o_id q) (PyInt (ra_amount a)) why r
               (case admin of Some x \<Rightarrow> Some x | None \<Rightarrow> user) prov now True u = (Inr i, v)
          \<and> core t = core v \<and> sm_refund m = Some (rf_id (ri_refund i))
          \<and> (\<exists>x. outbox t = outbox v @ [x] \<and> ob_kind x = Booking_cancelled \<and> ob_aggregate x = sid
               \<and> ob_id x = next_id v) \<and> next_id t = Suc (next_id v)
       else core t = core u \<and> sm_refund m = None
          \<and> (\<exists>x. outbox t = outbox u @ [x] \<and> ob_kind x = Booking_cancelled \<and> ob_aggregate x = sid
               \<and> ob_id x = next_id u) \<and> next_id t = Suc (next_id u))
    \<and> sessions_ok u \<and> jobs_inv t \<and> next_id s < next_id t
    \<and> (\<forall>j \<in> set (jobs t). \<not> (rj_session j = sid \<and> rj_status j = JScheduled))"
proof -
  obtain sess ord a where g: "cancel_assess cfg sid user r ex admin amount now s = Inr (sess, ord, a)"
    using run by (auto simp: cancel_def run_simps)
  note ca = cancel_assess_ok [OF g]
  have sess: "get_session_row s sid = Some sess" "ts_id sess = sid" using ca get_session_ok by blast+
  obtain sess' k u where rt: "retire_session t0 sess a r admin ver why now s = (Inr (sess', k), u)"
    using run by (auto simp: cancel_def g run_simps)
  have row: "get_session_row s (ts_id sess) = Some sess" using sess by simp
  note ret = retire_session_ok [OF rt row inv]
  then have id': "ts_id sess' = sid" using sess(2) by auto
  have ju: "jobs_inv u" using revoke_jobs(1) [OF inv(2), of "ts_id sess"] ret by (auto simp: jobs_inv_def)
  have nu: "\<forall>j \<in> set (jobs u). \<not> (rj_session j = sid \<and> rj_status j = JScheduled)"
    using revoke_jobs(2) [OF inv(2), of sid] ret sess(2) by auto
  let ?by = "case admin of Some x \<Rightarrow> Some x | None \<Rightarrow> user"
  have fin: "core t = core v \<and> jobs t = jobs v \<and> next_id t = Suc (next_id v) \<and> sm_session m = sess'
      \<and> sm_assessment m = Some a \<and> sm_refund m = map_option (\<lambda>r. rf_id (ri_refund r)) iss
      \<and> (\<exists>x. outbox t = outbox v @ [x] \<and> ob_kind x = Booking_cancelled \<and> ob_aggregate x = sid \<and> ob_id x = next_id v)"
    if e: "bindE (enqueue Booking_cancelled (ts_id sess') (cancelled_payload (ts_id sess') r a k) now v)
       (\<lambda>i s. ok \<lparr>sm_session = sess',
             sm_intents = (case iss of Some r \<Rightarrow> ri_intents r | None \<Rightarrow> []) @ [i], sm_assessment = Some a,
             sm_refund = map_option (\<lambda>r. rf_id (ri_refund r)) iss, sm_revoked = k, sm_scheduled = 0\<rparr>
           (record_audit_event
             (if ra_decision a = Admin_exception_refund then Au_cancel_exception else Au_session_cancelled)
             (Some (ts_id sess')) ?by r s)) = (Inr m, t)" for v iss
  proof -
    obtain i w where w: "enqueue Booking_cancelled (ts_id sess') (cancelled_payload (ts_id sess') r a k) now v = (Inr i, w)"
      using e by (auto simp: run_simps)
    have "w = outboxed Booking_cancelled (ts_id sess') (cancelled_payload (ts_id sess') r a k) now v"
      using enqueue_ok [OF w] by blast
    moreover have "t = record_audit_event
             (if ra_decision a = Admin_exception_refund then Au_cancel_exception else Au_session_cancelled)
             (Some (ts_id sess')) ?by r w"
      and "m = \<lparr>sm_session = sess',
             sm_intents = (case iss of Some r \<Rightarrow> ri_intents r | None \<Rightarrow> []) @ [i], sm_assessment = Some a,
             sm_refund = map_option (\<lambda>r. rf_id (ri_refund r)) iss, sm_revoked = k, sm_scheduled = 0\<rparr>"
      using e unfolding w bindE_simps by simp_all
    ultimately show ?thesis using id' by (simp add: outboxed_def core_def append_defs)
  qed
  note rest = run [unfolded cancel_def g rt bindE_liftE bindE_simps prod.case]
  show ?thesis
  proof (cases "refund_due a")
    case True
    note as = assess_refund_ok [OF conjunct2 [OF conjunct2 [OF conjunct2 [OF conjunct2 [OF conjunct2 [OF ca]]]]]]
    obtain q where q: "ord = Some q"
      using True as(2) by (cases ord) (auto simp: refund_due_def)
    obtain w where w: "ra_reason a = Some w" using as(3) [OF True] by auto
    obtain i v where v: "refund t0 (o_id q) (PyInt (ra_amount a)) w r ?by prov now True u = (Inr i, v)"
      using rest by (auto simp: q w True run_simps)
    note f = fin [of v "Some i"] rest
    have "core t = core v \<and> jobs t = jobs v \<and> next_id t = Suc (next_id v) \<and> sm_session m = sess'
      \<and> sm_assessment m = Some a \<and> sm_refund m = Some (rf_id (ri_refund i))
      \<and> (\<exists>x. outbox t = outbox v @ [x] \<and> ob_kind x = Booking_cancelled \<and> ob_aggregate x = sid \<and> ob_id x = next_id v)"
      using f by (simp add: q w True v)
    moreover have "jobs v = jobs u" "next_id u \<le> next_id v"
      using refund_ok [OF v] by (auto simp: refunded_def)
    ultimately show ?thesis using g ret ju nu True q w v sess(2)
      by - (rule exI [of _ sess], rule exI [of _ ord], rule exI [of _ a], elim exE, rule exI, rule exI,
          rule exI [of _ u], auto simp: jobs_inv_def)
  next
    case False
    have "core t = core u \<and> jobs t = jobs u \<and> next_id t = Suc (next_id u) \<and> sm_session m = sess'
      \<and> sm_assessment m = Some a \<and> sm_refund m = None
      \<and> (\<exists>x. outbox t = outbox u @ [x] \<and> ob_kind x = Booking_cancelled \<and> ob_aggregate x = sid \<and> ob_id x = next_id u)"
      using fin [of u None] rest False by (cases ord; cases "ra_reason a") simp_all
    then show ?thesis using g ret ju nu False sess(2)
      by - (rule exI [of _ sess], rule exI [of _ ord], rule exI [of _ a], elim exE, rule exI, rule exI,
          rule exI [of _ u], auto simp: jobs_inv_def)
  qed
qed

end
