(* ===== verification/SessionProperties.thy ===== *)
theory SessionProperties
  imports Sessions
begin

text \<open>
  What the operations of the theory \<open>Sessions\<close> guarantee: one winner per version, sessions only
  for verified payments, isolated reads, and the outcome of rescheduling and cancelling. The samples
  continue the ones of \<open>Payments\<close>.
\<close>

section \<open>Properties\<close>

definition sample_event :: pay_event where
  "sample_event = \<lparr>pe_id = 13, pe_order = 11, pe_event_id = ''evt-1'', pe_type = Ev_paid,
     pe_verified = True, pe_digest = ''d'', pe_received_at = 2500\<rparr>"

definition sample_settled :: db where
  "sample_settled = sample_paid\<lparr>next_id := 14, pay_events := [sample_event]\<rparr>"

definition paid_order :: order where
  "paid_order = sample_order\<lparr>o_status := OPaid\<rparr>"

definition sample_booked :: db where
  "sample_booked = snd (create_from_paid_hold default_settings sample_settled sample_hold paid_order 3000 sample_settled)"

definition sample_confirmed :: tsession where
  "sample_confirmed = new_session 14 (set_slot_row SHeld 1000 (sample_slot 1 (days 3))) sample_hold paid_order 3000"

lemma sample_settled_inv: "booking_inv sample_settled" "jobs_inv sample_settled" "sessions_ok sample_settled"
proof -
  have "holds sample_settled = holds sample_held" "slots sample_settled = slots sample_held"
      "next_id sample_settled = 14" "next_id sample_held = 11" "jobs sample_settled = []" "sessions sample_settled = []"
    by code_simp+
  then show "booking_inv sample_settled" "jobs_inv sample_settled" "sessions_ok sample_settled"
    using sample_held_inv by (auto simp: booking_inv_def jobs_inv_def sessions_ok_def)
qed

lemma sample_booked_run:
  "\<exists>c. create_from_paid_hold default_settings sample_settled sample_hold paid_order 3000 sample_settled
     = (Inr c, sample_booked) \<and> sc_session c = sample_confirmed \<and> \<not> sc_replayed c"
proof -
  let ?r = "create_from_paid_hold default_settings sample_settled sample_hold paid_order 3000 sample_settled"
  have "case fst ?r of Inr c \<Rightarrow> sc_session c = sample_confirmed \<and> \<not> sc_replayed c | Inl e \<Rightarrow> False"
    by code_simp
  then obtain c where c: "fst ?r = Inr c" "sc_session c = sample_confirmed" "\<not> sc_replayed c"
    by (cases "fst ?r") auto
  then have "?r = (Inr c, sample_booked)" by (simp add: sample_booked_def prod_eq_iff)
  with c show ?thesis by blast
qed

lemma sample_booked_inv: "booking_inv sample_booked" "jobs_inv sample_booked" "sessions_ok sample_booked"
proof -
  obtain c where c: "create_from_paid_hold default_settings sample_settled sample_hold paid_order 3000 sample_settled
     = (Inr c, sample_booked)" "\<not> sc_replayed c"
    using sample_booked_run by blast
  note ok = create_session_ok [OF c sample_settled_inv(2)]
  have h: "sample_hold \<in> set (holds sample_settled)" "live_hold sample_hold" by code_simp+
  show "jobs_inv sample_booked" using ok by blast
  obtain r where r: "core sample_booked = core (booked r sample_hold 3000 sample_settled)" "session_check r"
      "next_id sample_settled < next_id sample_booked"
    using ok by blast
  have "sessions sample_booked = [r]"
    using coreD(7) [OF r(1)] by (simp add: booked_def) code_simp
  then show "sessions_ok sample_booked" using r(2) by (simp add: sessions_ok_def)
  have "booking_inv (booked r sample_hold 3000 sample_settled)"
    by (rule booked_inv [OF sample_settled_inv(1) h])
  moreover have "\<forall>h \<in> set (holds sample_booked). h_id h < next_id sample_booked" by code_simp
  ultimately show "booking_inv sample_booked"
    using coreD(2,3) [OF r(1)] by (simp add: booking_inv_def)
qed

text \<open>
  Property C11. Two callers that read the same version of a session cannot both move it: after one
  transition has succeeded, any transition made with the version it read fails with
  \<open>SESSION_STALE_VERSION\<close> and changes nothing, and the version went up by one.
\<close>
theorem transition_one_winner:
  assumes "sessions_ok s"
    and "transition sess to_st r (Some n) now why sl ev s = (Inr sess', t)"
    and "r' \<in> {Student, Tutor, Admin, System}" and "to' \<in> set (legal_transitions (ts_status other))"
    and "ts_id other = ts_id sess"
  shows "transition other to' r' (Some n) now' why' sl' ev' t = (Inl (TutoringError SessionStaleVersion), t)
    \<and> map_option ts_version (get_session_row t (ts_id sess)) = Some (n + 1)"
proof -
  obtain u where u: "session_cas (ts_id sess) n \<lparr>sv_status = to_st, sv_now = now, sv_slot = sl\<rparr> s = (Inr (), u)"
      "sessions t = sessions u"
    using assms(2)
    by (auto simp: transition_def run_simps Let_def append_history_def booking_event_def
        split: if_split_asm option.split_asm)
  have ok: "sessions_ok t"
    using session_write.cas_good [OF assms(1) u(1)] u(2) by (simp add: sessions_ok_def)
  have v: "session_version t (ts_id sess) = Some (n + 1)"
    using session_write.cas_bumps [OF assms(1) u(1)] u(2) by (simp add: session_version_def)
  have "transition other to' r' (Some n) now' why' sl' ev' t = (Inl (TutoringError SessionStaleVersion), t)"
    by (rule transition_stale [OF ok assms(3,4)]) (simp add: assms(5) v)
  with v show ?thesis by (simp add: session_version_def)
qed

theorem transition_one_winner_witness:
  "transition sample_confirmed Cancelled Student (Some 1) 9 None None None
     (snd (transition sample_confirmed Completed Tutor (Some 1) 9 None None None sample_booked))
   = (Inl (TutoringError SessionStaleVersion),
      snd (transition sample_confirmed Completed Tutor (Some 1) 9 None None None sample_booked))"
proof -
  let ?r = "transition sample_confirmed Completed Tutor (Some 1) 9 None None None sample_booked"
  have "\<not> isl (fst ?r)" by code_simp
  then obtain x where "?r = (Inr x, snd ?r)" by (cases ?r; cases "fst ?r") auto
  from transition_one_winner [OF sample_booked_inv(3) this, of Student Cancelled sample_confirmed]
  show ?thesis by (simp add: sample_confirmed_def)
qed



text \<open>
  Confirming the same paid hold again returns the session that exists and writes nothing,
  as long as the session is still on the slot of the hold.
\<close>
theorem session_creation_replay:
  assumes "jobs_inv s" and "create_from_paid_hold cfg t0 hold ord now s = (Inr c, t)"
    and "h_id hold' = h_id hold" and "h_slot hold' = h_slot hold" and "h_student hold' = h_student hold"
  shows "create_from_paid_hold cfg' t0' hold' ord now' t
    = (Inr \<lparr>sc_session = sc_session c, sc_intents = [], sc_jobs = 0, sc_replayed = True\<rparr>, t)"
proof -
  obtain x where chk: "check_paid_hold hold ord now s = Inr x"
    using assms(2) by (auto simp: create_from_paid_hold_def run_simps)
  have "find (\<lambda>r. ts_slot r = h_slot hold) (sessions t) = Some (sc_session c) \<and> ts_order (sc_session c) = Some (o_id ord)
      \<and> pay_events t = pay_events s"
  proof (cases "sc_replayed c")
    case True
    then obtain r where x: "x = Some r"
      using assms(2) by (auto simp: create_from_paid_hold_def chk run_simps Let_def split: option.split_asm)
    with assms(2) chk have "t = s \<and> sc_session c = r" by (auto simp: create_from_paid_hold_def)
    with check_paid_hold_ok [OF chk] x show ?thesis by simp
  next
    case False
    obtain sl r where r: "sl_id sl = h_slot hold" "r = sc_session c" "r = new_session (next_id s) sl hold ord now"
        "h_slot hold \<notin> ts_slot ` set (sessions s)" "core t = core (booked r hold now s)"
      using create_session_ok [OF assms(2) False assms(1)] by blast
    have "find (\<lambda>r. ts_slot r = h_slot hold) (sessions s) = None"
      unfolding find_None_iff using r(4) by (metis image_eqI)
    moreover have "ts_slot (sc_session c) = h_slot hold" "ts_order (sc_session c) = Some (o_id ord)"
      unfolding r(2) [symmetric] unfolding r(3) by (simp_all add: r(1))
    ultimately show ?thesis
      using r(2) coreD(5,7) [OF r(5)] by (simp add: booked_def find_append_None)
  qed
  then show ?thesis using check_paid_hold_ok [OF chk] assms(3-5)
    by (simp add: create_from_paid_hold_def check_paid_hold_def has_verified_paid_event_def)
qed

theorem session_creation_replay_witness:
  "snd (create_from_paid_hold default_settings empty_db (close_hold_row HConsumed 3000 sample_hold) paid_order 9 sample_booked)
     = sample_booked"
proof -
  obtain c where c: "create_from_paid_hold default_settings sample_settled sample_hold paid_order 3000 sample_settled
     = (Inr c, sample_booked)"
    using sample_booked_run by blast
  show ?thesis
    by (subst session_creation_replay [OF sample_settled_inv(2) c]) simp_all
qed

text \<open>Once the session has moved to another slot the same call is refused (its hold is consumed).\<close>

lemma moved_session_not_replayed:
  assumes "o_hold ord = h_id hold" "o_student ord = h_student hold" "o_status ord = OPaid"
    and "has_verified_paid_event ord s" "h_status hold = HConsumed"
    and "\<exists>r \<in> set (sessions s). ts_order r = Some (o_id ord)"
    and "h_slot hold \<notin> ts_slot ` set (sessions s)"
  shows "create_from_paid_hold cfg t0 hold ord now s = (Inl (TutoringError HoldExpired), s)"
proof -
  have "find (\<lambda>r. ts_slot r = h_slot hold) (sessions s) = None"
    unfolding find_None_iff using assms(7) by (metis image_eqI)
  with assms show ?thesis by (simp add: create_from_paid_hold_def check_paid_hold_def)
qed

text \<open>
  Reading a session is isolated and does not enumerate: a student or tutor gets a session
  only if it is theirs, and otherwise the very answer a session that does not exist gives; a list
  holds exactly the visible, matching sessions, newest start first, in pages that fit together.
\<close>
theorem session_reads_isolated:
  "(\<forall>x. get_session sid (Some u) r s = Inr x \<longrightarrow> get_session_row s sid = Some x \<and> ts_deleted_at x = None
       \<and> (r = Student \<longrightarrow> ts_student x = u)
       \<and> (r = Tutor \<longrightarrow> (\<exists>tu. get_tutor_row s (ts_tutor x) = Some tu \<and> t_user tu = u)))
   \<and> (\<forall>e. get_session sid (Some u) r s = Inl e \<longrightarrow> get_session sid (Some u) r (s\<lparr>sessions := []\<rparr>) = Inl e)
   \<and> (\<forall>xs. list_sessions user role sts from_utc to_utc limit offset s = Inr xs \<longrightarrow>
        set xs \<subseteq> {x \<in> set (sessions s). visible_to s user role x
                  \<and> (sts \<noteq> [] \<longrightarrow> status_name (ts_status x) \<in> set sts)}
        \<and> sorted (map (\<lambda>x. (- ts_start x, ts_id x)) xs) \<and> length xs \<le> nat limit)
   \<and> (\<forall>xs ys more zs. list_sessions user role sts from_utc to_utc limit offset s = Inr xs
        \<and> list_sessions user role sts from_utc to_utc more (offset + limit) s = Inr ys
        \<and> list_sessions user role sts from_utc to_utc (limit + more) offset s = Inr zs \<longrightarrow> zs = xs @ ys)"
proof (intro conjI)
  show "\<forall>x. get_session sid (Some u) r s = Inr x \<longrightarrow> get_session_row s sid = Some x \<and> ts_deleted_at x = None
       \<and> (r = Student \<longrightarrow> ts_student x = u)
       \<and> (r = Tutor \<longrightarrow> (\<exists>tu. get_tutor_row s (ts_tutor x) = Some tu \<and> t_user tu = u))"
    using get_session_ok by fastforce
  show "\<forall>e. get_session sid (Some u) r s = Inl e \<longrightarrow> get_session sid (Some u) r (s\<lparr>sessions := []\<rparr>) = Inl e"
    by (auto simp: get_session_def split: option.splits if_splits)
  let ?f = "\<lambda>x. visible_to s user role x \<and> (sts \<noteq> [] \<longrightarrow> status_name (ts_status x) \<in> set sts)
      \<and> (case from_utc of None \<Rightarrow> True | Some f \<Rightarrow> f \<le> ts_start x)
      \<and> (case to_utc of None \<Rightarrow> True | Some t \<Rightarrow> ts_start x \<le> t)"
  define all where "all = sort_key (\<lambda>x :: tsession. (- ts_start x, ts_id x)) (filter ?f (sessions s))"
  have all: "set all = {x \<in> set (sessions s). ?f x}" "sorted (map (\<lambda>x. (- ts_start x, ts_id x)) all)"
    by (auto simp: all_def)
  have run: "list_sessions user role sts from_utc to_utc l b s = Inr xs \<Longrightarrow>
      xs = take (nat l) (drop (nat b) all) \<and> 0 < l \<and> 0 \<le> b" for l b xs
    by (auto simp: list_sessions_def all_def split: if_split_asm)
  show "\<forall>xs. list_sessions user role sts from_utc to_utc limit offset s = Inr xs \<longrightarrow>
        set xs \<subseteq> {x \<in> set (sessions s). visible_to s user role x
                  \<and> (sts \<noteq> [] \<longrightarrow> status_name (ts_status x) \<in> set sts)}
        \<and> sorted (map (\<lambda>x. (- ts_start x, ts_id x)) xs) \<and> length xs \<le> nat limit"
  proof (intro allI impI)
    fix xs assume "list_sessions user role sts from_utc to_utc limit offset s = Inr xs"
    then have xs: "xs = take (nat limit) (drop (nat offset) all)" using run by blast
    have "set xs \<subseteq> set all" unfolding xs by (meson order_trans set_drop_subset set_take_subset)
    moreover have "sorted (map (\<lambda>x. (- ts_start x, ts_id x)) xs)"
      unfolding xs take_map [symmetric] drop_map [symmetric] using all(2) by (intro sorted_wrt_take sorted_wrt_drop)
    ultimately show "set xs \<subseteq> {x \<in> set (sessions s). visible_to s user role x
                  \<and> (sts \<noteq> [] \<longrightarrow> status_name (ts_status x) \<in> set sts)}
        \<and> sorted (map (\<lambda>x. (- ts_start x, ts_id x)) xs) \<and> length xs \<le> nat limit"
      using all(1) by (auto simp: xs)
  qed
  show "\<forall>xs ys more zs. list_sessions user role sts from_utc to_utc limit offset s = Inr xs
        \<and> list_sessions user role sts from_utc to_utc more (offset + limit) s = Inr ys
        \<and> list_sessions user role sts from_utc to_utc (limit + more) offset s = Inr zs \<longrightarrow> zs = xs @ ys"
  proof (intro allI impI)
    fix xs ys more zs
    assume "list_sessions user role sts from_utc to_utc limit offset s = Inr xs
        \<and> list_sessions user role sts from_utc to_utc more (offset + limit) s = Inr ys
        \<and> list_sessions user role sts from_utc to_utc (limit + more) offset s = Inr zs"
    then have "xs = take (nat limit) (drop (nat offset) all)" "0 < limit" "0 \<le> offset" "0 < more"
      "ys = take (nat more) (drop (nat (offset + limit)) all)"
      "zs = take (nat (limit + more)) (drop (nat offset) all)"
      using run by blast+
    then show "zs = xs @ ys"
      by (simp add: nat_add_distrib take_add drop_drop add.commute)
  qed
qed

theorem session_reads_isolated_witness:
  "get_session 14 (Some 201) Student sample_booked = get_session 14 (Some 201) Student (sample_booked\<lparr>sessions := []\<rparr>)"
proof -
  have "get_session 14 (Some 201) Student sample_booked = Inl (TutoringError NotFound)" by code_simp
  with session_reads_isolated [of 14 201 Student sample_booked] show ?thesis by metis
qed


definition sample_moved :: db where
  "sample_moved = snd (reschedule default_settings sample_booked 14 2 (Some 900) Admin None True (Some 900) None
     (days 4) sample_booked)"

lemma sample_moved_run:
  "\<exists>m. reschedule default_settings sample_booked 14 2 (Some 900) Admin None True (Some 900) None
     (days 4) sample_booked = (Inr m, sample_moved)"
proof -
  let ?r = "reschedule default_settings sample_booked 14 2 (Some 900) Admin None True (Some 900) None
     (days 4) sample_booked"
  have "\<not> isl (fst ?r)" by code_simp
  then obtain m where "fst ?r = Inr m" by (cases "fst ?r") auto
  then have "?r = (Inr m, sample_moved)" by (simp add: sample_moved_def prod_eq_iff)
  then show ?thesis ..
qed


text \<open>
  Property C14. A cancellation retires a live session and its slot for good, leaves it without a scheduled
  reminder, and moves exactly the money of the policy: a tutor's cancellation refunds the whole captured
  amount; without an exception everyone else gets all of it with the notice of the policy window
  and nothing with less; an exception needs a named admin; and the refunds of the order grow by exactly
  the amount decided.
\<close>
theorem cancel_settles:
  assumes "sessions_ok s" and "jobs_inv s" and "refund_inv s"
    and "cancel cfg t0 sid user r ver ex admin amount why prov now s = (Inr m, t)"
  shows "\<exists>old a. get_session_row s sid = Some old \<and> ts_status old \<in> set live_statuses
    \<and> sm_assessment m = Some a
    \<and> map_option ts_status (get_session_row t sid) = Some Cancelled
    \<and> (\<forall>sl. get_slot_row t (ts_slot old) = Some sl \<longrightarrow> sl_status sl = SCancelled)
    \<and> (\<forall>j \<in> set (jobs t). \<not> (rj_session j = sid \<and> rj_status j = JScheduled))
    \<and> (ex \<longrightarrow> r = Admin \<and> admin \<noteq> None)
    \<and> (\<forall>q. ts_order old = Some (o_id q) \<and> q \<in> set (orders s) \<and> o_status q = OPaid \<longrightarrow>
         ra_amount a \<le> o_amount q
         \<and> (r = Tutor \<longrightarrow> ra_amount a = o_amount q)
         \<and> (r \<noteq> Tutor \<and> \<not> ex \<longrightarrow> ra_amount a =
              (if 100 * refund_window_hours cfg \<le> hours_before (ts_start old) now then o_amount q else 0))
         \<and> refunded_paise t (o_id q) = refunded_paise s (o_id q) + ra_amount a)"
proof -
  obtain sess ord a c u where g: "cancel_assess cfg sid user r ex admin amount now s = Inr (sess, ord, a)"
      and a: "sm_assessment m = Some a"
      and u: "core u = core (retired sess (ts_version sess) c now s)"
      and money: "if refund_due a
       then \<exists>q why i v. ord = Some q \<and> ra_reason a = Some why
          \<and> refund t0 (o_id q) (PyInt (ra_amount a)) why r
               (case admin of Some x \<Rightarrow> Some x | None \<Rightarrow> user) prov now True u = (Inr i, v)
          \<and> core t = core v
       else core t = core u"
      and j: "\<forall>j \<in> set (jobs t). \<not> (rj_session j = sid \<and> rj_status j = JScheduled)"
    using cancel_ok [OF assms(4,1,2)] by (elim exE conjE) (simp split: if_split_asm, blast+)
  note ca = cancel_assess_ok [OF g]
  have sess: "get_session_row s sid = Some sess" "ts_id sess = sid" using ca get_session_ok by blast+
  have tu: "slots t = slots u \<and> sessions t = sessions u"
  proof (cases "refund_due a")
    case True
    with money refund_ok show ?thesis by (fastforce simp: core_def refunded_def)
  qed (use money in \<open>simp add: core_def\<close>)
  have 1: "map_option ts_status (get_session_row t sid) = Some Cancelled"
    using tu sess coreD(7) [OF u] by (simp add: retired_def find_row_update)
  have 2: "\<forall>sl. get_slot_row t (ts_slot sess) = Some sl \<longrightarrow> sl_status sl = SCancelled"
  proof (intro allI impI)
    fix sl assume "get_slot_row t (ts_slot sess) = Some sl"
    then obtain z where "get_slot_row s (ts_slot sess) = Some z"
        "sl = (if sl_id z = ts_slot sess then set_slot_row SCancelled now z else z)"
      using tu coreD(2) [OF u] by (auto simp: retired_def find_row_update)
    then show "sl_status sl = SCancelled" using find_row_SomeD [of sl_id "ts_slot sess" "slots s" z] by simp
  qed
  have ru: "refunds u = refunds s" using coreD(6) [OF u] by (simp add: retired_def)
  have 3: "ra_amount a \<le> o_amount q
         \<and> (r = Tutor \<longrightarrow> ra_amount a = o_amount q)
         \<and> (r \<noteq> Tutor \<and> \<not> ex \<longrightarrow> ra_amount a =
              (if 100 * refund_window_hours cfg \<le> hours_before (ts_start sess) now then o_amount q else 0))
         \<and> refunded_paise t (o_id q) = refunded_paise s (o_id q) + ra_amount a"
    if q: "ts_order sess = Some (o_id q)" "q \<in> set (orders s)" "o_status q = OPaid" for q
  proof -
    have "distinct (map o_id (orders s))" using assms(3) by (simp add: refund_inv_def)
    then have ord: "ord = Some q" using ca q by (simp add: find_row_Some_iff)
    have as: "assess_refund (PyInt (o_amount q)) (HDec (hours_before_start sess now)) r ex admin amount
        (refund_window_hours cfg) = Inr a" using ca ord q(3) by simp
    have pay: "refunded_paise t (o_id q) = refunded_paise s (o_id q) + ra_amount a"
    proof (cases "refund_due a")
      case True
      then obtain w i v where v: "refund t0 (o_id q) (PyInt (ra_amount a)) w r
               (case admin of Some x \<Rightarrow> Some x | None \<Rightarrow> user) prov now True u = (Inr i, v)"
          "core t = core v" using money ord by auto
      from refund_ok [OF v(1)] have "refunds v = refunds u @ [ri_refund i]" "rf_order (ri_refund i) = o_id q"
          "rf_amount (ri_refund i) = ra_amount a" "rf_status (ri_refund i) \<in> {RPending, RSucceeded}"
        by (auto simp: refunded_def)
      then show ?thesis
        by (simp add: refunded_paise_def coreD(6) [OF v(2)] ru live_refund_def) blast
    next
      case False
      then have "ra_amount a = 0"
        using as assess_refund_ok(1) [OF as]
        by (auto simp: refund_due_def assess_refund_def Let_def assert_paise_Inr split: sum.split_asm if_split_asm)
      moreover have "refunds t = refunds s" using False money ru by (simp add: core_def)
      ultimately show ?thesis by (simp add: refunded_paise_def)
    qed
    have "(r = Tutor \<longrightarrow> ra_amount a = o_amount q)
         \<and> (r \<noteq> Tutor \<and> \<not> ex \<longrightarrow> ra_amount a =
              (if 100 * refund_window_hours cfg \<le> hours_before (ts_start sess) now then o_amount q else 0))"
      using as by (auto simp: assess_refund_def Let_def assert_paise_Inr hours_before_start_def
          split: sum.split_asm if_split_asm)
    with pay assess_refund_ok(2) [OF as] show ?thesis by blast
  qed
  show ?thesis
    by (rule exI [of _ sess], rule exI [of _ a]) (use sess a 1 2 j ca 3 in blast)
qed

lemma sample_booked_refunds: "refund_inv sample_booked"
proof -
  have "orders sample_booked = [paid_order]" "refunds sample_booked = []" "next_id sample_booked = 18" by code_simp+
  then show ?thesis
    by (simp add: refund_inv_def refunded_paise_def paid_order_def sample_order_def new_order_def)
qed

theorem cancel_settles_witness:
  "\<exists>m t. cancel default_settings sample_booked 14 (Some 100) Tutor None False None PyNone None
      (Some sample_provider) (days 4) sample_booked = (Inr m, t) \<and> refunded_paise t 11 = 180000"
proof -
  let ?r = "cancel default_settings sample_booked 14 (Some 100) Tutor None False None PyNone None
      (Some sample_provider) (days 4) sample_booked"
  have "\<not> isl (fst ?r)" by code_simp
  then obtain m t where e: "?r = (Inr m, t)" by (cases ?r; cases "fst ?r") auto
  obtain old and a :: assessment where o: "get_session_row sample_booked 14 = Some old"
      "\<forall>q. ts_order old = Some (o_id q) \<and> q \<in> set (orders sample_booked) \<and> o_status q = OPaid \<longrightarrow>
         (Tutor = Tutor \<longrightarrow> ra_amount a = o_amount q)
         \<and> refunded_paise t (o_id q) = refunded_paise sample_booked (o_id q) + ra_amount a"
    using cancel_settles [OF sample_booked_inv(3,2) sample_booked_refunds e]
    by blast
  have "get_session_row sample_booked 14 = Some sample_confirmed" by code_simp
  then have old: "old = sample_confirmed" using o(1) by simp
  have q: "ts_order sample_confirmed = Some (o_id paid_order)" "paid_order \<in> set (orders sample_booked)"
      "o_status paid_order = OPaid" "refunded_paise sample_booked (o_id paid_order) = 0"
      "o_id paid_order = 11" "o_amount paid_order = 180000"
    by code_simp+
  have "refunded_paise t 11 = 180000"
    using o(2) [unfolded old, rule_format, of paid_order] q by simp
  with e show ?thesis by blast
qed

end
