(* ===== verification/Webhook.thy ===== *)
theory Webhook
  imports SessionProperties
begin

text \<open>
  The payment callback (\<open>payments.handle_event\<close>): verification, matching, the money check, the ledger
  row and the four ways an event is applied. The order is an object of the session: what is assigned
  to it is part of the state from then on, and its constraints are checked at the flush that
  follows.
\<close>

section \<open>Verification and matching\<close>

definition verify_delivery :: "provider \<Rightarrow> string \<Rightarrow> string \<Rightarrow> exn + event_data" where
  "verify_delivery p signature raw_body =
     (case p_verify_event p signature raw_body of
        Inl e \<Rightarrow> Inl (TutoringError (if perr_retryable e then ProviderUnavailable True else PaymentUnverified))
      | Inr d \<Rightarrow> if ed_verified d then Inr d else Inl (TutoringError PaymentUnverified))"

definition money_agrees :: "event_data \<Rightarrow> order \<Rightarrow> db \<Rightarrow> exn + unit" where
  "money_agrees d ord s =
     (if ed_currency d \<noteq> o_currency ord then Inl (TutoringError AmountMismatch)
      else if ed_type d = Ev_paid \<or> ed_type d = Ev_pending then
        (if ed_amount d \<noteq> o_amount ord then Inl (TutoringError AmountMismatch)
         else case get_hold_row s (o_hold ord) of
           None \<Rightarrow> Inl (TutoringError NotFound)
         | Some h \<Rightarrow> (case snapshot_of_hold h of
             Inl e \<Rightarrow> Inl e
           | Inr price \<Rightarrow>
               if o_amount ord \<noteq> sp_amount price \<or> o_currency ord \<noteq> sp_currency price
               then Inl (TutoringError AmountMismatch) else Inr ()))
      else Inr ())"

definition match_event :: "event_data \<Rightarrow> uid option \<Rightarrow> db \<Rightarrow> exn + order" where
  "match_event d expected_student s =
     (case find (\<lambda>r. o_provider r = ed_provider d \<and> o_ref r = Some (ed_order_ref d)) (orders s) of
        None \<Rightarrow> Inl (TutoringError NotFound)
      | Some ord \<Rightarrow>
          if list_ex (\<lambda>e. pe_event_id e = ed_event_id d) (pay_events s)
          then Inl (TutoringError DuplicateEvent)
          else if (case expected_student of None \<Rightarrow> False | Some u \<Rightarrow> o_student ord \<noteq> u)
          then Inl (TutoringError Forbidden)
          else (case money_agrees d ord s of Inl e \<Rightarrow> Inl e | Inr _ \<Rightarrow> Inr ord))"

section \<open>Application\<close>

text \<open>The display crumbs: an absent, empty or zero value leaves the column alone.\<close>

definition crumbs :: "event_data \<Rightarrow> order \<Rightarrow> order" where
  "crumbs d ord =
     (let r1 = (case ed_brand d of Some b \<Rightarrow> if b = [] then ord else ord\<lparr>o_brand := Some (take 24 b)\<rparr> | None \<Rightarrow> ord);
          r2 = (case ed_last4 d of Some l \<Rightarrow> if l = [] then r1 else r1\<lparr>o_last4 := Some (last_n 4 l)\<rparr> | None \<Rightarrow> r1);
          r3 = (case ed_exp_month d of Some m \<Rightarrow> if m = 0 then r2 else r2\<lparr>o_exp_month := Some m\<rparr> | None \<Rightarrow> r2)
      in case ed_exp_year d of Some y \<Rightarrow> if y = 0 then r3 else r3\<lparr>o_exp_year := Some y\<rparr> | None \<Rightarrow> r3)"

definition save_order :: "order \<Rightarrow> db \<Rightarrow> db" where
  "save_order ord s = s\<lparr>orders := update_where (\<lambda>r. o_id r = o_id ord) (\<lambda>_. ord) (orders s)\<rparr>"

record event_outcome =
  out_order :: order
  out_event :: pay_event
  out_session :: "tsession option"
  out_released :: bool
  out_intents :: "outbox_intent list"
  out_out_of_order :: bool

definition captured_payload :: "order \<Rightarrow> uid \<Rightarrow> json" where
  "captured_payload ord sid = JObj
     [(''order_id'', JUuid (o_id ord)), (''session_id'', JUuid sid),
      (''amount_paise'', JInt (o_amount ord)), (''currency'', JStr (o_currency ord))]"

definition apply_capture ::
    "settings \<Rightarrow> db \<Rightarrow> order \<Rightarrow> pay_event \<Rightarrow> instant \<Rightarrow> db \<Rightarrow> event_outcome run" where
  "apply_capture cfg t0 ord0 event now s =
     (let ord = ord0\<lparr>o_status := OPaid\<rparr>; s1 = save_order ord s in
      case get_hold_row s1 (o_hold ord) of
        None \<Rightarrow> raise NotFound s1
      | Some hold \<Rightarrow>
          bindE (create_from_paid_hold cfg t0 hold ord now s1) (\<lambda>created s.
            if \<not> order_check ord then (Inl IntegrityError, t0)
            else let sid = ts_id (sc_session created);
                     s = booking_event Payment_succeeded System (Some (h_id hold)) (Some sid) now s
              in bindE (enqueue Payment_captured (o_id ord) (captured_payload ord sid) now s) (\<lambda>i s.
                ok \<lparr>out_order = ord, out_event = event, out_session = Some (sc_session created),
                    out_released = False, out_intents = sc_intents created @ [i], out_out_of_order = False\<rparr>
                  (record_audit_event Au_payment_captured (Some (o_id ord)) None System s))))"

definition apply_failure ::
    "db \<Rightarrow> order \<Rightarrow> pay_event \<Rightarrow> instant \<Rightarrow> db \<Rightarrow> event_outcome run" where
  "apply_failure t0 ord0 event now s =
     (let ord = ord0\<lparr>o_status := (if pe_type event = Ev_failed then OFailed else OExpired)\<rparr> in
      bindE (release_hold (o_hold ord) System None now (save_order ord s)) (\<lambda>_ s.
        if \<not> order_check ord then (Inl IntegrityError, t0)
        else ok \<lparr>out_order = ord, out_event = event, out_session = None, out_released = True,
                 out_intents = [], out_out_of_order = False\<rparr>
          (record_audit_event (if pe_type event = Ev_failed then Au_payment_failed else Au_payment_expired)
             (Some (o_id ord)) None System
             (booking_event Payment_failed System (Some (o_hold ord)) None now s))))"

definition apply_event ::
    "settings \<Rightarrow> db \<Rightarrow> order \<Rightarrow> pay_event \<Rightarrow> instant \<Rightarrow> db \<Rightarrow> event_outcome run" where
  "apply_event cfg t0 ord event now s =
     (if o_status ord = OPaid \<and> pe_type event \<noteq> Ev_paid then
        (if \<not> order_check ord then (Inl IntegrityError, t0)
         else ok \<lparr>out_order = ord, out_event = event, out_session = None, out_released = False,
                  out_intents = [], out_out_of_order = True\<rparr>
           (record_audit_event Au_event_out_of_order (Some (o_id ord)) None System (save_order ord s)))
      else if pe_type event = Ev_paid then apply_capture cfg t0 ord event now s
      else if pe_type event = Ev_failed \<or> pe_type event = Ev_expired then apply_failure t0 ord event now s
      else let ord1 = ord\<lparr>o_status := OPending\<rparr> in
        (if \<not> order_check ord1 then (Inl IntegrityError, t0)
         else ok \<lparr>out_order = ord1, out_event = event, out_session = None, out_released = False,
                  out_intents = [], out_out_of_order = False\<rparr>
           (record_audit_event Au_payment_pending (Some (o_id ord1)) None System (save_order ord1 s))))"

definition ledger_row :: "uid \<Rightarrow> event_data \<Rightarrow> order \<Rightarrow> instant \<Rightarrow> pay_event" where
  "ledger_row i d ord now = \<lparr>pe_id = i, pe_order = o_id ord, pe_event_id = ed_event_id d,
     pe_type = ed_type d, pe_verified = True, pe_digest = ed_digest d, pe_received_at = now\<rparr>"

definition handle_event ::
    "settings \<Rightarrow> db \<Rightarrow> string \<Rightarrow> string \<Rightarrow> provider option \<Rightarrow> uid option \<Rightarrow> instant \<Rightarrow> db \<Rightarrow> event_outcome run" where
  "handle_event cfg t0 signature raw_body prov expected_student now s =
     bindE (liftE (resolve_provider prov) s) (\<lambda>p s.
     bindE (liftE (verify_delivery p signature raw_body) s) (\<lambda>d s.
     bindE (liftE (match_event d expected_student s) s) (\<lambda>ord s.
       let event = ledger_row (next_id s) d ord now in
       case insert_pay_event event (bump s) of
         None \<Rightarrow> raise DuplicateEvent t0
       | Some s1 \<Rightarrow> apply_event cfg t0 (crumbs d ord) event now s1)))"

section \<open>Lemmas\<close>

lemma crumbs_sel [simp]:
  "o_id (crumbs d r) = o_id r" "o_hold (crumbs d r) = o_hold r" "o_student (crumbs d r) = o_student r"
  "o_amount (crumbs d r) = o_amount r" "o_currency (crumbs d r) = o_currency r"
  "o_status (crumbs d r) = o_status r" "o_key (crumbs d r) = o_key r"
  "o_provider (crumbs d r) = o_provider r" "o_ref (crumbs d r) = o_ref r"
  "o_created_at (crumbs d r) = o_created_at r"
  by (simp_all add: crumbs_def Let_def split: option.split)

lemma save_order_sel [simp]:
  "tutors (save_order r s) = tutors s" "slots (save_order r s) = slots s" "holds (save_order r s) = holds s"
  "pay_events (save_order r s) = pay_events s" "refunds (save_order r s) = refunds s"
  "sessions (save_order r s) = sessions s" "jobs (save_order r s) = jobs s"
  "outbox (save_order r s) = outbox s" "next_id (save_order r s) = next_id s"
  "orders (save_order r s) = update_where (\<lambda>q. o_id q = o_id r) (\<lambda>_. r) (orders s)"
  by (simp_all add: save_order_def)

lemma ledger_row_sel [simp]:
  "pe_event_id (ledger_row i d ord now) = ed_event_id d" "pe_order (ledger_row i d ord now) = o_id ord"
  "pe_type (ledger_row i d ord now) = ed_type d" "pe_verified (ledger_row i d ord now)"
  by (simp_all add: ledger_row_def)

lemma match_event_ok:
  assumes "match_event d u s = Inr ord"
  shows "ord \<in> set (orders s) \<and> o_provider ord = ed_provider d \<and> o_ref ord = Some (ed_order_ref d)
    \<and> ed_event_id d \<notin> pe_event_id ` set (pay_events s)
    \<and> (case u of None \<Rightarrow> True | Some x \<Rightarrow> o_student ord = x)
    \<and> money_agrees d ord s = Inr ()"
proof -
  obtain q where q: "find (\<lambda>r. o_provider r = ed_provider d \<and> o_ref r = Some (ed_order_ref d)) (orders s) = Some q"
    using assms by (auto simp: match_event_def split: option.splits)
  have "q = ord" using assms q by (auto simp: match_event_def split: if_splits sum.splits option.splits)
  moreover have "money_agrees d q s = Inr ()"
    using assms q by (auto simp: match_event_def split: if_splits sum.splits option.splits)
  ultimately show ?thesis
    using assms q by (auto simp: match_event_def find_Some_iff list_ex_iff split: if_splits option.splits)
qed

text \<open>A success splits into verification, matching, the ledger row and the application.\<close>

lemma handle_event_split:
  assumes "handle_event cfg t0 signature raw prov u now s = (Inr out, t)"
  obtains p d ord where "prov = Some p" and "p_verify_event p signature raw = Inr d" and "ed_verified d"
    and "match_event d u s = Inr ord"
    and "apply_event cfg t0 (crumbs d ord) (ledger_row (next_id s) d ord now) now
           (bump s\<lparr>pay_events := pay_events s @ [ledger_row (next_id s) d ord now]\<rparr>) = (Inr out, t)"
proof -
  obtain p where p: "prov = Some p"
    using assms by (auto simp: handle_event_def resolve_provider_def run_simps split: option.splits)
  obtain d where d: "p_verify_event p signature raw = Inr d" "ed_verified d"
    using assms p by (auto simp: handle_event_def resolve_provider_def verify_delivery_def
        split: sum.splits if_splits)
  obtain ord where ord: "match_event d u s = Inr ord"
    using assms p d by (auto simp: handle_event_def resolve_provider_def verify_delivery_def run_simps)
  have fresh: "ed_event_id d \<notin> pe_event_id ` set (pay_events s)" using match_event_ok [OF ord] by simp
  show ?thesis
    using that [OF p d ord] assms p d ord fresh
    by (auto simp: handle_event_def resolve_provider_def verify_delivery_def insert_pay_event_def
        bump_def Let_def)
qed


text \<open>What a capture does to the tables: it replays the session of the hold, or books the slot.\<close>

lemma apply_capture_ok:
  assumes run: "apply_capture cfg t0 ord0 ev now s = (Inr out, t)" and inv: "jobs_inv s"
    and ord: "ord = ord0\<lparr>o_status := OPaid\<rparr>"
  obtains hold r where "get_hold_row s (o_hold ord0) = Some hold" and "out_order out = ord"
    and "out_session out = Some r" and "ts_order r = Some (o_id ord0)" and "ts_slot r = h_slot hold"
    and "\<not> out_released out" and "\<not> out_out_of_order out"
    and "o_student ord0 = h_student hold" and "has_verified_paid_event ord s" and "order_check ord"
    and "r \<in> set (sessions s) \<and> core t = core (save_order ord s)
         \<or> live_hold hold \<and> now < h_expires_at hold \<and> session_check r
           \<and> (\<exists>sl. get_slot_row s (h_slot hold) = Some sl \<and> r = new_session (next_id s) sl hold ord now)
           \<and> h_slot hold \<notin> ts_slot ` set (sessions s)
           \<and> core t = core (booked r hold now (save_order ord s))"
    and "next_id s < next_id t" and "jobs_inv t"
proof -
  let ?s = "save_order ord s"
  obtain hold where hold: "get_hold_row s (o_hold ord0) = Some hold"
    using run by (auto simp: apply_capture_def Let_def split: option.splits)
  obtain c u where c: "create_from_paid_hold cfg t0 hold ord now ?s = (Inr c, u)"
    using run hold by (auto simp: apply_capture_def Let_def ord run_simps)
  have chk: "order_check ord"
    using run hold c by (auto simp: apply_capture_def Let_def ord split: if_splits)
  let ?sid = "ts_id (sc_session c)"
  let ?v = "booking_event Payment_succeeded System (Some (h_id hold)) (Some ?sid) now u"
  obtain i w where w: "enqueue Payment_captured (o_id ord) (captured_payload ord ?sid) now ?v = (Inr i, w)"
    using run hold c chk by (auto simp: apply_capture_def Let_def ord run_simps)
  have out: "out_order out = ord" "out_session out = Some (sc_session c)"
      "\<not> out_released out" "\<not> out_out_of_order out"
    and t: "t = record_audit_event Au_payment_captured (Some (o_id ord)) None System w"
    using run hold c chk w by (auto simp: apply_capture_def Let_def ord)
  have wx: "w = outboxed Payment_captured (o_id ord) (captured_payload ord ?sid) now ?v"
    using enqueue_ok [OF w] by blast
  have tu: "core t = core u" "next_id t = Suc (next_id u)" "jobs t = jobs u" by (simp_all add: t wx)
  have "get_hold_row ?s (o_hold ord) = Some hold" using hold by (simp add: ord)
  have same: "jobs_inv ?s" "next_id ?s = next_id s" using inv by (simp_all add: jobs_inv_def)
  obtain x where x: "check_paid_hold hold ord now ?s = Inr x"
    using c by (auto simp: create_from_paid_hold_def run_simps)
  have ev: "o_student ord0 = h_student hold" "has_verified_paid_event ord s"
    using check_paid_hold_ok [OF x] by (auto simp: ord has_verified_paid_event_def)
  show ?thesis
  proof (cases "sc_replayed c")
    case True
    then obtain r where r: "x = Some r"
      using c x by (cases x) (auto simp: create_from_paid_hold_def run_simps Let_def)
    then have cu: "sc_session c = r" "u = ?s"
      using c x by (auto simp: create_from_paid_hold_def)
    have f: "r \<in> set (sessions s)" "ts_slot r = h_slot hold" "ts_order r = Some (o_id ord)"
      using check_paid_hold_ok [OF x] r by (auto simp: find_Some_iff)
    have j: "jobs_inv t" "next_id s < next_id t"
      using same tu cu by (auto simp: jobs_inv_def less_Suc_eq)
    show ?thesis
    proof (rule that [OF hold out(1) out(2) _ _ out(3,4) ev chk _ j(2,1)])
      show "ts_order (sc_session c) = Some (o_id ord0)" using f(3) by (simp add: cu ord)
      show "ts_slot (sc_session c) = h_slot hold" using f(2) by (simp add: cu)
    qed (rule disjI1, use f tu cu in auto)
  next
    case False
    obtain sl r where ok: "get_slot_row s (h_slot hold) = Some sl" "sl_id sl = h_slot hold"
        "r = sc_session c" "r = new_session (next_id s) sl hold ord now" "session_check r"
        "live_hold hold" "now < h_expires_at hold" "h_slot hold \<notin> ts_slot ` set (sessions s)"
        "core u = core (booked r hold now ?s)" "next_id s < next_id u" "jobs_inv u"
      using create_session_ok [OF c False same(1)] by auto
    have j: "jobs_inv t" "next_id s < next_id t"
      using ok(10,11) tu by (auto simp: jobs_inv_def less_Suc_eq)
    show ?thesis
    proof (rule that [OF hold out(1) out(2) _ _ out(3,4) ev chk _ j(2,1)])
      show "ts_order (sc_session c) = Some (o_id ord0)" by (simp add: ok(3) [symmetric] ok(4) ord)
      show "ts_slot (sc_session c) = h_slot hold" by (simp add: ok(3) [symmetric] ok(4) ok(2))
    qed (rule disjI2, use ok tu in auto)
  qed
qed

lemma apply_failure_ok:
  assumes "apply_failure t0 ord0 ev now s = (Inr out, t)"
    and "ord = ord0\<lparr>o_status := (if pe_type ev = Ev_failed then OFailed else OExpired)\<rparr>"
  obtains h u where "get_hold_row s (o_hold ord0) = Some h" and "order_check ord"
    and "out_order out = ord" and "out_session out = None" and "out_released out" and "\<not> out_out_of_order out"
    and "u = (if live_hold h then released h System None now (save_order ord s) else save_order ord s)"
    and "core t = core u" and "next_id t = next_id u" and "jobs t = jobs u" and "outbox t = outbox u"
proof -
  obtain h where h: "get_hold_row s (o_hold ord0) = Some h"
    using assms(1) by (auto simp: apply_failure_def Let_def release_hold_run bindE_def split: option.splits)
  have "order_check ord"
    using assms by (auto simp: apply_failure_def Let_def run_simps split: if_splits)
  then show ?thesis
    using that [OF h] assms h
    by (auto simp: apply_failure_def Let_def release_hold_run bindE_def split: if_splits)
qed


text \<open>The four ways an event is applied.\<close>

lemma apply_event_split:
  assumes "apply_event cfg t0 ord ev now s = (Inr out, t)"
  obtains (ignored) "o_status ord = OPaid" and "pe_type ev \<noteq> Ev_paid" and "order_check ord"
      and "out = \<lparr>out_order = ord, out_event = ev, out_session = None, out_released = False,
             out_intents = [], out_out_of_order = True\<rparr>"
      and "t = record_audit_event Au_event_out_of_order (Some (o_id ord)) None System (save_order ord s)"
  | (capture) "pe_type ev = Ev_paid" and "apply_capture cfg t0 ord ev now s = (Inr out, t)"
  | (failure) "o_status ord \<noteq> OPaid" and "pe_type ev = Ev_failed \<or> pe_type ev = Ev_expired"
      and "apply_failure t0 ord ev now s = (Inr out, t)"
  | (pending) "o_status ord \<noteq> OPaid" and "pe_type ev \<notin> {Ev_paid, Ev_failed, Ev_expired}"
      and "order_check (ord\<lparr>o_status := OPending\<rparr>)"
      and "out = \<lparr>out_order = ord\<lparr>o_status := OPending\<rparr>, out_event = ev, out_session = None,
             out_released = False, out_intents = [], out_out_of_order = False\<rparr>"
      and "t = record_audit_event Au_payment_pending (Some (o_id ord)) None System
             (save_order (ord\<lparr>o_status := OPending\<rparr>) s)"
  using assms by (auto simp: apply_event_def Let_def split: if_split_asm)

lemma capture_event: "apply_capture cfg t0 ord ev now s = (Inr out, t) \<Longrightarrow> out_event out = ev"
  by (auto simp: apply_capture_def Let_def run_simps split: option.splits if_splits)

lemma failure_event: "apply_failure t0 ord ev now s = (Inr out, t) \<Longrightarrow> out_event out = ev"
  by (auto simp: apply_failure_def Let_def run_simps split: if_splits)

lemma booked_events [simp]: "pay_events (booked r h now s) = pay_events s" "refunds (booked r h now s) = refunds s"
  "orders (booked r h now s) = orders s" "tutors (booked r h now s) = tutors s"
  by (simp_all add: booked_def)

lemma released_events [simp]: "pay_events (released h r u now s) = pay_events s" "refunds (released h r u now s) = refunds s"
  "orders (released h r u now s) = orders s" "tutors (released h r u now s) = tutors s"
  "sessions (released h r u now s) = sessions s" "next_id (released h r u now s) = next_id s"
  "jobs (released h r u now s) = jobs s" "outbox (released h r u now s) = outbox s"
  by (simp_all add: released_def)

lemma apply_event_ledger:
  assumes "apply_event cfg t0 ord ev now s = (Inr out, t)" and inv: "jobs_inv s"
  shows "out_event out = ev \<and> pay_events t = pay_events s"
  using assms(1)
proof (cases rule: apply_event_split)
  case ignored
  then show ?thesis by (simp add: record_audit_event_def)
next
  case capture
  show ?thesis
  proof (rule apply_capture_ok [OF capture(2) inv refl])
    fix hold and r :: tsession
    let ?s = "save_order (ord\<lparr>o_status := OPaid\<rparr>) s"
    assume "r \<in> set (sessions s) \<and> core t = core ?s \<or> live_hold hold \<and> now < h_expires_at hold \<and> session_check r
      \<and> (\<exists>sl. get_slot_row s (h_slot hold) = Some sl \<and> r = new_session (next_id s) sl hold (ord\<lparr>o_status := OPaid\<rparr>) now)
      \<and> h_slot hold \<notin> ts_slot ` set (sessions s) \<and> core t = core (booked r hold now ?s)"
    then have "pay_events t = pay_events s" by (elim disjE conjE) (drule coreD(5), simp)+
    with capture_event [OF capture(2)] show ?thesis by simp
  qed
next
  case failure
  show ?thesis
  proof (rule apply_failure_ok [OF failure(3) refl])
    fix h and v :: db
    assume "v = (if live_hold h then released h System None now (save_order (ord\<lparr>o_status :=
        if pe_type ev = Ev_failed then OFailed else OExpired\<rparr>) s) else save_order (ord\<lparr>o_status :=
        if pe_type ev = Ev_failed then OFailed else OExpired\<rparr>) s)" "core t = core v"
    then have "pay_events t = pay_events s" by (auto dest!: coreD(5))
    with failure_event [OF failure(3)] show ?thesis by simp
  qed
next
  case pending
  then show ?thesis by (simp add: record_audit_event_def)
qed

lemma jobs_inv_frame: "jobs_inv s \<Longrightarrow> jobs t = jobs s \<Longrightarrow> next_id s \<le> next_id t \<Longrightarrow> jobs_inv t"
  by (auto simp: jobs_inv_def intro: order_less_le_trans)

text \<open>The effect of an applied event on the tables, in one lemma.\<close>

definition event_effect :: "order \<Rightarrow> order \<Rightarrow> instant \<Rightarrow> db \<Rightarrow> db \<Rightarrow> bool" where
  "event_effect ord ord1 now s t \<longleftrightarrow>
     core t = core (save_order ord1 s)
     \<or> (\<exists>hold. get_hold_row s (o_hold ord) = Some hold \<and> live_hold hold
          \<and> o_status ord1 \<in> {OFailed, OExpired}
          \<and> core t = core (released hold System None now (save_order ord1 s)))
     \<or> (\<exists>hold sl r. get_hold_row s (o_hold ord) = Some hold \<and> live_hold hold \<and> now < h_expires_at hold
          \<and> o_status ord1 = OPaid \<and> o_student ord = h_student hold
          \<and> has_verified_paid_event ord1 s
          \<and> get_slot_row s (h_slot hold) = Some sl \<and> h_slot hold \<notin> ts_slot ` set (sessions s)
          \<and> r = new_session (next_id s) sl hold ord1 now \<and> session_check r \<and> next_id s < next_id t
          \<and> core t = core (booked r hold now (save_order ord1 s)))"

lemma apply_event_effect:
  assumes "apply_event cfg t0 ord ev now s = (Inr out, t)" and inv: "jobs_inv s"
  obtains st where "out_order out = ord\<lparr>o_status := st\<rparr>" and "o_status ord = OPaid \<Longrightarrow> st = OPaid"
    and "st = OPaid \<Longrightarrow> o_status ord = OPaid \<or> has_verified_paid_event ord s"
    and "order_check (out_order out)" and "event_effect ord (out_order out) now s t"
    and "out_out_of_order out \<Longrightarrow> core t = core (save_order ord s) \<and> jobs t = jobs s \<and> outbox t = outbox s"
    and "jobs_inv t" and "next_id s \<le> next_id t"
  using assms(1)
proof (cases rule: apply_event_split)
  case ignored
  show ?thesis
    by (rule that [of OPaid])
      (use ignored inv in \<open>auto simp: event_effect_def jobs_inv_def\<close>)
next
  case capture
  let ?q = "ord\<lparr>o_status := OPaid\<rparr>"
  show ?thesis
  proof (rule apply_capture_ok [OF capture(2) inv refl])
    fix hold and r :: tsession
    assume h: "get_hold_row s (o_hold ord) = Some hold" "out_order out = ?q" "\<not> out_out_of_order out"
      "o_student ord = h_student hold" "has_verified_paid_event ?q s" "order_check ?q"
      "r \<in> set (sessions s) \<and> core t = core (save_order ?q s) \<or> live_hold hold \<and> now < h_expires_at hold \<and> session_check r
        \<and> (\<exists>sl. get_slot_row s (h_slot hold) = Some sl \<and> r = new_session (next_id s) sl hold ?q now)
        \<and> h_slot hold \<notin> ts_slot ` set (sessions s) \<and> core t = core (booked r hold now (save_order ?q s))"
      "next_id s < next_id t" "jobs_inv t"
    note lt = h(8)
    have "has_verified_paid_event ord s" using h(5) by (simp add: has_verified_paid_event_def)
    moreover have "event_effect ord ?q now s t" using h lt unfolding event_effect_def by auto
    ultimately show ?thesis using that [of OPaid] h by auto
  qed
next
  case failure
  define st where "st = (if pe_type ev = Ev_failed then OFailed else OExpired)"
  let ?q = "ord\<lparr>o_status := st\<rparr>"
  show ?thesis
  proof (rule apply_failure_ok [OF failure(3), of ?q])
    show "?q = ord\<lparr>o_status := if pe_type ev = Ev_failed then OFailed else OExpired\<rparr>" by (simp add: st_def)
    fix h and v :: db
    assume h: "get_hold_row s (o_hold ord) = Some h" "order_check ?q" "out_order out = ?q" "\<not> out_out_of_order out"
      "v = (if live_hold h then released h System None now (save_order ?q s) else save_order ?q s)"
      "core t = core v" "next_id t = next_id v" "jobs t = jobs v"
    have "jobs_inv t" "next_id s \<le> next_id t" using inv h(5,7,8) by (auto simp: jobs_inv_def split: if_splits)
    moreover have "event_effect ord ?q now s t"
      using h(1,5,6) unfolding event_effect_def st_def by (auto split: if_splits)
    moreover have "st \<noteq> OPaid" by (simp add: st_def)
    ultimately show ?thesis
      by (intro that [of st]) (use h failure(1) in simp_all)
  qed
next
  case pending
  show ?thesis
    by (rule that [of OPending])
      (use pending inv in \<open>auto simp: event_effect_def jobs_inv_def\<close>)
qed

section \<open>Properties\<close>

text \<open>A provider that signs with \<open>sig\<close> and sends the event its body names.\<close>

definition sample_delivery :: "string \<Rightarrow> event_data" where
  "sample_delivery body = \<lparr>ed_provider = ''deterministic'', ed_event_id = ''evt-'' @ body,
     ed_type = (if body = ''paid'' then Ev_paid else if body = ''failed'' then Ev_failed else Ev_pending),
     ed_order_ref = ''det_ord_pay-1'', ed_amount = 180000, ed_currency = ''INR'', ed_digest = ''d'',
     ed_brand = Some ''visa'', ed_last4 = Some ''4242'', ed_exp_month = Some 12, ed_exp_year = Some 2030,
     ed_verified = True\<rparr>"

definition sample_gateway :: provider where
  "sample_gateway = sample_provider\<lparr>p_verify_event := (\<lambda>signature body.
     if signature = ''sig'' then Inr (sample_delivery body)
     else Inl (PaymentProviderError ''SIGNATURE_INVALID'' False))\<rparr>"

definition sample_event_run :: "string \<Rightarrow> db \<Rightarrow> event_outcome run" where
  "sample_event_run body s = handle_event default_settings s ''sig'' body (Some sample_gateway) None 3000 s"

definition sample_captured :: db where
  "sample_captured = snd (sample_event_run ''paid'' sample_ordered)"

lemma sample_gateway_verifies [simp]: "p_verify_event sample_gateway ''sig'' body = Inr (sample_delivery body)"
  by (simp add: sample_gateway_def)

text \<open>
  A delivery that is refused before it is recorded touches nothing: a forged signature is
  answered with \<open>PaymentUnverified\<close> (with a retryable error while the provider cannot check), an event
  that is already in the ledger with \<open>DuplicateEvent\<close>, and a correctly signed event whose amount
  is not the amount of the order, or whose order no longer carries the price the hold was quoted,
  with \<open>AmountMismatch\<close>; the state is the state before in every case.
\<close>

theorem webhook_guards:
  assumes verify: "p_verify_event p sg raw = v"
  shows "case v of
      Inl e \<Rightarrow> handle_event cfg t0 sg raw (Some p) u now s
        = (Inl (TutoringError (if perr_retryable e then ProviderUnavailable True else PaymentUnverified)), s)
    | Inr d \<Rightarrow>
        (\<not> ed_verified d \<longrightarrow>
           handle_event cfg t0 sg raw (Some p) u now s = (Inl (TutoringError PaymentUnverified), s))
        \<and> (\<forall>ord. ed_verified d
             \<and> find (\<lambda>r. o_provider r = ed_provider d \<and> o_ref r = Some (ed_order_ref d)) (orders s) = Some ord
             \<and> ed_event_id d \<in> pe_event_id ` set (pay_events s) \<longrightarrow>
             handle_event cfg t0 sg raw (Some p) u now s = (Inl (TutoringError DuplicateEvent), s))
        \<and> (\<forall>ord hold. ed_verified d \<and> u = None
             \<and> find (\<lambda>r. o_provider r = ed_provider d \<and> o_ref r = Some (ed_order_ref d)) (orders s) = Some ord
             \<and> get_hold_row s (o_hold ord) = Some hold \<and> ed_event_id d \<notin> pe_event_id ` set (pay_events s)
             \<and> ed_type d = Ev_paid \<and> 0 < h_price hold \<and> h_currency hold \<in> set payment_currencies
             \<and> (ed_amount d \<noteq> o_amount ord \<or> o_amount ord \<noteq> h_price hold) \<longrightarrow>
             handle_event cfg t0 sg raw (Some p) u now s = (Inl (TutoringError AmountMismatch), s))"
proof (cases v)
  case (Inl e)
  with verify show ?thesis by (simp add: handle_event_def resolve_provider_def verify_delivery_def)
next
  case (Inr d)
  have unverified: "handle_event cfg t0 sg raw (Some p) u now s = (Inl (TutoringError PaymentUnverified), s)"
    if "\<not> ed_verified d"
    using verify Inr that by (simp add: handle_event_def resolve_provider_def verify_delivery_def)
  have dup: "handle_event cfg t0 sg raw (Some p) u now s = (Inl (TutoringError DuplicateEvent), s)"
    if "ed_verified d" "ed_event_id d \<in> pe_event_id ` set (pay_events s)"
      "find (\<lambda>r. o_provider r = ed_provider d \<and> o_ref r = Some (ed_order_ref d)) (orders s) = Some ord" for ord
    using verify Inr that
    by (auto simp: handle_event_def resolve_provider_def verify_delivery_def match_event_def list_ex_iff)
  have money: "handle_event cfg t0 sg raw (Some p) u now s = (Inl (TutoringError AmountMismatch), s)"
    if "ed_verified d" "u = None" "ed_event_id d \<notin> pe_event_id ` set (pay_events s)"
      "find (\<lambda>r. o_provider r = ed_provider d \<and> o_ref r = Some (ed_order_ref d)) (orders s) = Some ord"
      "get_hold_row s (o_hold ord) = Some hold" "ed_type d = Ev_paid" "0 < h_price hold"
      "h_currency hold \<in> set payment_currencies" "ed_amount d \<noteq> o_amount ord \<or> o_amount ord \<noteq> h_price hold"
    for ord hold
    using verify Inr that
    by (auto simp: handle_event_def resolve_provider_def verify_delivery_def match_event_def money_agrees_def
        snapshot_of_hold_def list_ex_iff image_iff split: if_splits)
  show ?thesis unfolding Inr sum.case using unverified dup money by blast
qed

definition sample_tampered :: db where
  "sample_tampered = sample_ordered\<lparr>orders := [sample_order\<lparr>o_amount := 100\<rparr>]\<rparr>"

theorem webhook_guards_witness:
  "handle_event default_settings sample_ordered ''forged'' ''paid'' (Some sample_gateway) None 3000 sample_ordered
     = (Inl (TutoringError PaymentUnverified), sample_ordered)
   \<and> sample_event_run ''paid'' sample_tampered = (Inl (TutoringError AmountMismatch), sample_tampered)"
proof
  show "handle_event default_settings sample_ordered ''forged'' ''paid'' (Some sample_gateway) None 3000 sample_ordered
     = (Inl (TutoringError PaymentUnverified), sample_ordered)"
    using webhook_guards [of sample_gateway "''forged''" "''paid''" "Inl (PaymentProviderError ''SIGNATURE_INVALID'' False)"
        default_settings sample_ordered None 3000 sample_ordered]
    by (simp add: sample_gateway_def)
  have h: "find (\<lambda>r. o_provider r = ed_provider (sample_delivery ''paid'')
         \<and> o_ref r = Some (ed_order_ref (sample_delivery ''paid''))) (orders sample_tampered)
       = Some (sample_order\<lparr>o_amount := 100\<rparr>)"
      "get_hold_row sample_tampered (o_hold sample_order) = Some sample_hold"
      "pay_events sample_tampered = []" "ed_verified (sample_delivery ''paid'')"
      "ed_type (sample_delivery ''paid'') = Ev_paid" "ed_amount (sample_delivery ''paid'') = 180000"
      "0 < h_price sample_hold" "h_currency sample_hold \<in> set payment_currencies"
    by code_simp+
  note g = webhook_guards [OF sample_gateway_verifies, unfolded sum.case, THEN conjunct2, THEN conjunct2, rule_format]
  show "sample_event_run ''paid'' sample_tampered = (Inl (TutoringError AmountMismatch), sample_tampered)"
    unfolding sample_event_run_def
    by (rule g [of _ _ _ "sample_order\<lparr>o_amount := 100\<rparr>" sample_hold]) (simp add: h)
qed

text \<open>
  Property C36. An event is applied at most once: after a delivery of it has succeeded, at any later
  time, whatever signature and body carry it again, the provider event id is refused and the state
  stays what it is.
\<close>

theorem webhook_exactly_once:
  assumes "handle_event cfg t0 sg raw prov u now s = (Inr out, t)" and "jobs_inv s"
    and later: "set (pay_events t) \<subseteq> set (pay_events v)"
    and again: "p_verify_event p sg' raw' = Inr d" "ed_event_id d = pe_event_id (out_event out)"
  shows "\<exists>e \<in> {PaymentUnverified, NotFound, DuplicateEvent}.
    handle_event cfg t1 sg' raw' (Some p) u' now' v = (Inl (TutoringError e), v)"
proof -
  have "out_event out \<in> set (pay_events t)"
  proof (rule handle_event_split [OF assms(1)])
    fix d ord
    let ?s = "bump s\<lparr>pay_events := pay_events s @ [ledger_row (next_id s) d ord now]\<rparr>"
    assume "apply_event cfg t0 (crumbs d ord) (ledger_row (next_id s) d ord now) now ?s = (Inr out, t)"
    moreover have "jobs_inv ?s" by (rule jobs_inv_frame [OF assms(2)]) (simp_all add: bump_def)
    ultimately show ?thesis by (auto dest: apply_event_ledger)
  qed
  with later again(2) have dup: "list_ex (\<lambda>e. pe_event_id e = ed_event_id d) (pay_events v)"
    by (auto simp: list_ex_iff)
  show ?thesis
    using again(1) dup
    by (simp add: handle_event_def resolve_provider_def verify_delivery_def match_event_def split: option.split)
qed

lemma sample_ordered_inv: "jobs_inv sample_ordered" "distinct (map o_id (orders sample_ordered))"
proof -
  have "jobs sample_ordered = []" "orders sample_ordered = [sample_order]" by code_simp+
  then show "jobs_inv sample_ordered" "distinct (map o_id (orders sample_ordered))" by (simp_all add: jobs_inv_def)
qed

lemma sample_captured_run:
  obtains out where "sample_event_run ''paid'' sample_ordered = (Inr out, sample_captured)"
    and "out_event out = ledger_row 12 (sample_delivery ''paid'') sample_order 3000"
    and "out_order out = crumbs (sample_delivery ''paid'') sample_order\<lparr>o_status := OPaid\<rparr>"
proof -
  let ?r = "sample_event_run ''paid'' sample_ordered"
  have "case fst ?r of Inl e \<Rightarrow> False | Inr out \<Rightarrow>
      out_event out = ledger_row 12 (sample_delivery ''paid'') sample_order 3000
      \<and> out_order out = crumbs (sample_delivery ''paid'') sample_order\<lparr>o_status := OPaid\<rparr>"
    by code_simp
  then show ?thesis
    by (cases ?r; cases "fst ?r") (auto simp: sample_captured_def intro: that)
qed

theorem webhook_exactly_once_witness:
  "fst (sample_event_run ''paid'' sample_captured) = Inl (TutoringError DuplicateEvent)
   \<and> snd (sample_event_run ''paid'' sample_captured) = sample_captured"
proof -
  obtain out where out: "sample_event_run ''paid'' sample_ordered = (Inr out, sample_captured)"
      "out_event out = ledger_row 12 (sample_delivery ''paid'') sample_order 3000"
    by (rule sample_captured_run)
  have "ed_event_id (sample_delivery ''paid'') = pe_event_id (out_event out)" by (simp add: out(2))
  then have "\<exists>e \<in> {PaymentUnverified, NotFound, DuplicateEvent}.
      handle_event default_settings sample_captured ''sig'' ''paid'' (Some sample_gateway) None 3000 sample_captured
        = (Inl (TutoringError e), sample_captured)"
    by (rule webhook_exactly_once [OF out(1) [unfolded sample_event_run_def] sample_ordered_inv(1) order_refl
        sample_gateway_verifies])
  then obtain e where "sample_event_run ''paid'' sample_captured = (Inl (TutoringError e), sample_captured)"
    by (auto simp: sample_event_run_def)
  moreover have "fst (sample_event_run ''paid'' sample_captured) = Inl (TutoringError DuplicateEvent)"
    by code_simp
  ultimately show ?thesis by simp
qed

lemma find_row_replace:
  assumes "key q = k"
  shows "find_row key i (update_where (\<lambda>r. key r = k) (\<lambda>_. q) xs)
    = (if i = k then map_option (\<lambda>_. q) (find_row key k xs) else find_row key i xs)"
  using assms by (induction xs) auto

lemma save_order_row:
  assumes "distinct (map o_id (orders s))" and "ord \<in> set (orders s)" and "o_id q = o_id ord"
  shows "get_order_row (save_order q s) (o_id ord) = Some q"
    and "i \<noteq> o_id ord \<Longrightarrow> get_order_row (save_order q s) i = get_order_row s i"
proof -
  have "get_order_row s (o_id ord) = Some ord" using assms(1,2) by (simp add: find_row_Some_iff)
  with assms(3) show "get_order_row (save_order q s) (o_id ord) = Some q"
    by (simp add: find_row_replace)
  show "i \<noteq> o_id ord \<Longrightarrow> get_order_row (save_order q s) i = get_order_row s i"
    using assms(3) by (simp add: find_row_replace)
qed

text \<open>
  Property C37. A capture that is applied settles the money against the price the student was quoted:
  the event, the order and the hold agree on the amount and the currency, the order is paid with
  that amount, the verified event is in the ledger, and the one session of the hold's slot is backed
  by this order; it is either the session that existed already or a new one, and no other session is added.
\<close>

theorem webhook_capture:
  assumes run: "handle_event cfg t0 sg raw (Some p) u now s = (Inr out, t)"
    and d: "p_verify_event p sg raw = Inr d" "ed_type d = Ev_paid"
    and inv: "jobs_inv s" "distinct (map o_id (orders s))"
  shows "\<exists>ord hold r. ord \<in> set (orders s) \<and> o_ref ord = Some (ed_order_ref d)
      \<and> get_hold_row s (o_hold ord) = Some hold \<and> o_student ord = h_student hold
      \<and> ed_amount d = o_amount ord \<and> o_amount ord = h_price hold
      \<and> ed_currency d = o_currency ord \<and> o_currency ord = h_currency hold
      \<and> get_order_row t (o_id ord) = Some (crumbs d ord\<lparr>o_status := OPaid\<rparr>)
      \<and> out_event out \<in> set (pay_events t) \<and> pe_verified (out_event out) \<and> pe_order (out_event out) = o_id ord
      \<and> out_session out = Some r \<and> ts_order r = Some (o_id ord) \<and> ts_slot r = h_slot hold
      \<and> (sessions t = sessions s \<and> r \<in> set (sessions s) \<or> sessions t = sessions s @ [r])"
proof (rule handle_event_split [OF run])
  fix p' d' ord
  let ?ev = "ledger_row (next_id s) d ord now"
  let ?s = "bump s\<lparr>pay_events := pay_events s @ [?ev]\<rparr>"
  let ?q = "crumbs d ord\<lparr>o_status := OPaid\<rparr>"
  assume "Some p = Some p'" "p_verify_event p' sg raw = Inr d'" and m': "match_event d' u s = Inr ord"
    and ap': "apply_event cfg t0 (crumbs d' ord) (ledger_row (next_id s) d' ord now) now
           (bump s\<lparr>pay_events := pay_events s @ [ledger_row (next_id s) d' ord now]\<rparr>) = (Inr out, t)"
  then have dd: "d' = d" using d(1) by simp
  note m = m' [unfolded dd] and ap = ap' [unfolded dd]
  have j: "jobs_inv ?s" by (rule jobs_inv_frame [OF inv(1)]) (simp_all add: bump_def)
  note ok = match_event_ok [OF m]
  obtain hold where hold: "get_hold_row s (o_hold ord) = Some hold" "ed_amount d = o_amount ord"
      "o_amount ord = h_price hold" "ed_currency d = o_currency ord" "o_currency ord = h_currency hold"
    using ok d(2) by (auto simp: money_agrees_def snapshot_of_hold_def split: if_splits option.splits sum.splits)
  have cap: "apply_capture cfg t0 (crumbs d ord) ?ev now ?s = (Inr out, t)"
    using ap by (cases rule: apply_event_split) (use d(2) in auto)
  obtain hold' r where r: "get_hold_row ?s (o_hold (crumbs d ord)) = Some hold'" "out_session out = Some r"
      "ts_order r = Some (o_id (crumbs d ord))" "ts_slot r = h_slot hold'" "o_student (crumbs d ord) = h_student hold'"
      "r \<in> set (sessions ?s) \<and> core t = core (save_order ?q ?s) \<or> live_hold hold' \<and> now < h_expires_at hold' \<and> session_check r
        \<and> (\<exists>sl. get_slot_row ?s (h_slot hold') = Some sl \<and> r = new_session (next_id ?s) sl hold' ?q now)
        \<and> h_slot hold' \<notin> ts_slot ` set (sessions ?s) \<and> core t = core (booked r hold' now (save_order ?q ?s))"
    by (rule apply_capture_ok [OF cap j refl]) (rule that, assumption+)
  have h': "hold' = hold" using r(1) hold(1) by (simp add: bump_def)
  have ev: "out_event out = ?ev" "pay_events t = pay_events s @ [?ev]"
    using apply_event_ledger [OF ap j] by simp_all
  have "orders t = orders (save_order ?q s)"
    using r(6) by (elim disjE conjE) (drule coreD(4), simp add: bump_def)+
  then have o: "get_order_row t (o_id ord) = Some ?q"
    using save_order_row(1) [OF inv(2), of ord ?q] ok by simp
  have "sessions t = sessions s \<and> r \<in> set (sessions s) \<or> sessions t = sessions s @ [r]"
    using r(6) by (elim disjE conjE) (drule coreD(7), simp add: bump_def booked_def)+
  then show ?thesis
    using ok hold r(2-5) h' o ev
    by - (rule exI [of _ ord], rule exI [of _ hold], rule exI [of _ r], simp)
qed

theorem webhook_capture_witness:
  "\<exists>r. ts_order r = Some 11 \<and> sessions sample_captured = [r]
     \<and> get_order_row sample_captured 11 = Some (crumbs (sample_delivery ''paid'') sample_order\<lparr>o_status := OPaid\<rparr>)"
proof -
  obtain out where out: "sample_event_run ''paid'' sample_ordered = (Inr out, sample_captured)"
    by (rule sample_captured_run)
  have o: "orders sample_ordered = [sample_order]" "sessions sample_ordered = []" "o_id sample_order = 11" by code_simp+
  have "ed_type (sample_delivery ''paid'') = Ev_paid" by code_simp
  from webhook_capture [OF out [unfolded sample_event_run_def] sample_gateway_verifies this sample_ordered_inv,
      unfolded o]
  show ?thesis using o(3) by auto
qed

lemma event_effect_orders:
  "event_effect ord q now s t \<Longrightarrow> orders t = orders (save_order q s)"
  unfolding event_effect_def by (elim disjE exE conjE) (drule coreD(4), simp)+

text \<open>
  Property C38. A capture is final: no delivery, in whatever order the provider sends them, moves an order
  that is paid to another status or changes its amount, its currency or its hold. A late event of
  another kind is recorded as out of order and changes neither holds, slots, sessions, refunds,
  reminders nor the outbox; of the order it rewrites the display crumbs alone.
\<close>

theorem webhook_paid_is_final:
  assumes run: "handle_event cfg t0 sg raw (Some p) u now s = (Inr out, t)"
    and d: "p_verify_event p sg raw = Inr d"
    and inv: "jobs_inv s" "distinct (map o_id (orders s))"
    and paid: "get_order_row s i = Some q" "o_status q = OPaid"
  shows "\<exists>q'. get_order_row t i = Some q' \<and> o_status q' = OPaid \<and> o_amount q' = o_amount q
      \<and> o_currency q' = o_currency q \<and> o_hold q' = o_hold q \<and> q' \<in> {q, crumbs d q}
      \<and> (ed_type d \<noteq> Ev_paid \<and> o_ref q = Some (ed_order_ref d) \<and> o_id (out_order out) = i \<longrightarrow>
           out_out_of_order out \<and> q' = crumbs d q \<and> holds t = holds s \<and> slots t = slots s
           \<and> sessions t = sessions s \<and> refunds t = refunds s \<and> jobs t = jobs s \<and> outbox t = outbox s)"
proof (rule handle_event_split [OF run])
  fix p' d' ord
  let ?ev = "ledger_row (next_id s) d ord now"
  let ?s = "bump s\<lparr>pay_events := pay_events s @ [?ev]\<rparr>"
  assume "Some p = Some p'" "p_verify_event p' sg raw = Inr d'" and m': "match_event d' u s = Inr ord"
    and ap': "apply_event cfg t0 (crumbs d' ord) (ledger_row (next_id s) d' ord now) now
           (bump s\<lparr>pay_events := pay_events s @ [ledger_row (next_id s) d' ord now]\<rparr>) = (Inr out, t)"
  then have dd: "d' = d" using d(1) by simp
  note m = m' [unfolded dd] and ap = ap' [unfolded dd]
  have j: "jobs_inv ?s" by (rule jobs_inv_frame [OF inv(1)]) (simp_all add: bump_def)
  obtain st where st: "out_order out = (crumbs d ord)\<lparr>o_status := st\<rparr>" "o_status (crumbs d ord) = OPaid \<Longrightarrow> st = OPaid"
      "event_effect (crumbs d ord) (out_order out) now ?s t"
      "out_out_of_order out \<Longrightarrow> core t = core (save_order (crumbs d ord) ?s) \<and> jobs t = jobs ?s \<and> outbox t = outbox ?s"
    by (rule apply_event_effect [OF ap j]) (rule that, assumption+)
  have ord: "ord \<in> set (orders s)" using match_event_ok [OF m] by simp
  have o: "orders t = orders (save_order (out_order out) s)"
    using event_effect_orders [OF st(3)] by (simp add: bump_def)
  have id: "o_id (out_order out) = o_id ord" by (simp add: st(1))
  show ?thesis
  proof (cases "i = o_id ord")
    case False
    then have "get_order_row t i = Some q"
      using save_order_row(2) [OF inv(2) ord id, of i] o paid(1) by simp
    with paid(2) False id show ?thesis by simp
  next
    case True
    have "get_order_row s (o_id ord) = Some ord" using inv(2) ord by (simp add: find_row_Some_iff)
    then have q: "q = ord" using paid(1) True by simp
    then have s: "st = OPaid" using st(2) paid(2) by simp
    then have c: "out_order out = crumbs d q" using st(1) q paid(2) by simp
    have g: "get_order_row t i = Some (crumbs d q)"
      using save_order_row(1) [OF inv(2) ord id] o True c by simp
    have late: "out_out_of_order out" if "ed_type d \<noteq> Ev_paid"
      using ap that paid(2) q by (auto simp: apply_event_def split: if_splits)
    have same: "holds t = holds s \<and> slots t = slots s \<and> sessions t = sessions s \<and> refunds t = refunds s
        \<and> jobs t = jobs s \<and> outbox t = outbox s" if "ed_type d \<noteq> Ev_paid"
    proof -
      have e: "core t = core (save_order (crumbs d ord) ?s)" "jobs t = jobs ?s" "outbox t = outbox ?s"
        using st(4) [OF late [OF that]] by blast+
      show ?thesis using coreD(2,3,6,7) [OF e(1)] e(2,3) by (simp add: bump_def)
    qed
    show ?thesis
      by (rule exI [of _ "crumbs d q"]) (use g paid(2) late same in auto)
  qed
qed

text \<open>A late failure that carries another card rewrites the crumbs of the captured order.\<close>

definition sample_late :: event_data where
  "sample_late = (sample_delivery ''failed'')\<lparr>ed_brand := Some ''other''\<rparr>"

definition late_gateway :: provider where
  "late_gateway = sample_provider\<lparr>p_verify_event := (\<lambda>signature body. Inr sample_late)\<rparr>"

theorem webhook_paid_is_final_witness:
  "\<exists>out t. handle_event default_settings sample_captured ''sig'' ''failed'' (Some late_gateway) None 4000 sample_captured
       = (Inr out, t) \<and> out_out_of_order out \<and> holds t = holds sample_captured
     \<and> map_option o_brand (get_order_row sample_captured 11) = Some (Some ''visa'')
     \<and> map_option (\<lambda>q. (o_status q, o_brand q)) (get_order_row t 11) = Some (OPaid, Some ''other'')"
proof -
  let ?r = "handle_event default_settings sample_captured ''sig'' ''failed'' (Some late_gateway) None 4000 sample_captured"
  have "case fst ?r of Inl e \<Rightarrow> False | Inr out \<Rightarrow> o_id (out_order out) = 11" by code_simp
  then obtain out t where r: "?r = (Inr out, t)" "o_id (out_order out) = 11" by (cases ?r; cases "fst ?r") auto
  have v: "p_verify_event late_gateway ''sig'' ''failed'' = Inr sample_late" by (simp add: late_gateway_def)
  obtain q where q: "get_order_row sample_captured 11 = Some q" "o_status q = OPaid" "o_ref q = Some ''det_ord_pay-1''"
      "o_brand q = Some ''visa''"
  proof -
    have "case get_order_row sample_captured 11 of None \<Rightarrow> False
      | Some q \<Rightarrow> o_status q = OPaid \<and> o_ref q = Some ''det_ord_pay-1'' \<and> o_brand q = Some ''visa''" by code_simp
    then show ?thesis using that by (cases "get_order_row sample_captured 11") auto
  qed
  obtain o1 where o1: "sample_event_run ''paid'' sample_ordered = (Inr o1, sample_captured)"
    by (rule sample_captured_run)
  have inv: "jobs_inv sample_captured" "distinct (map o_id (orders sample_captured))"
  proof -
    have "map o_id (orders sample_captured) = [11]"
      "list_all (\<lambda>j. rj_id j < next_id sample_captured) (jobs sample_captured)"
      "distinct (map rj_id (jobs sample_captured))" "distinct (map job_key (jobs sample_captured))" by code_simp+
    then show "jobs_inv sample_captured" "distinct (map o_id (orders sample_captured))"
      by (auto simp: jobs_inv_def list_all_iff)
  qed
  have late: "ed_type sample_late \<noteq> Ev_paid" "ed_order_ref sample_late = ''det_ord_pay-1''"
    "o_brand (crumbs sample_late q) = Some ''other''" "o_status (crumbs sample_late q) = o_status q"
    by (simp_all add: sample_late_def sample_delivery_def crumbs_def Let_def)
  from webhook_paid_is_final [OF r(1) v inv q(1,2)] r late q show ?thesis by auto
qed

text \<open>
  A failed or expired payment books nothing and frees what it had reserved: the order takes
  the status of the event, no session changes, the order's hold is not live afterwards, and if it was
  live its slot is on sale again. The reported \<open>slot_released\<close> is true in every case, also when the
  hold was gone already and neither a hold nor a slot changed.
\<close>

theorem webhook_failure:
  assumes run: "handle_event cfg t0 sg raw (Some p) u now s = (Inr out, t)"
    and d: "p_verify_event p sg raw = Inr d" "ed_type d = Ev_failed \<or> ed_type d = Ev_expired"
    and inv: "booking_inv s" "distinct (map o_id (orders s))" and "\<not> out_out_of_order out"
  shows "\<exists>ord hold. ord \<in> set (orders s) \<and> o_ref ord = Some (ed_order_ref d)
      \<and> get_hold_row s (o_hold ord) = Some hold
      \<and> get_order_row t (o_id ord) = Some (crumbs d ord\<lparr>o_status := (if ed_type d = Ev_failed then OFailed else OExpired)\<rparr>)
      \<and> sessions t = sessions s \<and> out_session out = None \<and> out_released out
      \<and> (\<forall>h \<in> set (holds t). h_id h = o_hold ord \<longrightarrow> \<not> live_hold h)
      \<and> (if live_hold hold then map_option sl_status (get_slot_row t (h_slot hold)) = Some SAvailable
         else holds t = holds s \<and> slots t = slots s)"
proof (rule handle_event_split [OF run])
  fix p' d' ord
  let ?ev = "ledger_row (next_id s) d ord now"
  let ?s = "bump s\<lparr>pay_events := pay_events s @ [?ev]\<rparr>"
  let ?q = "crumbs d ord\<lparr>o_status := (if ed_type d = Ev_failed then OFailed else OExpired)\<rparr>"
  assume "Some p = Some p'" "p_verify_event p' sg raw = Inr d'" and m': "match_event d' u s = Inr ord"
    and ap': "apply_event cfg t0 (crumbs d' ord) (ledger_row (next_id s) d' ord now) now
           (bump s\<lparr>pay_events := pay_events s @ [ledger_row (next_id s) d' ord now]\<rparr>) = (Inr out, t)"
  then have dd: "d' = d" using d(1) by simp
  note m = m' [unfolded dd] and ap = ap' [unfolded dd]
  have fail: "apply_failure t0 (crumbs d ord) ?ev now ?s = (Inr out, t)"
    using ap by (cases rule: apply_event_split) (use d(2) assms(6) in auto)
  obtain h v where h: "get_hold_row ?s (o_hold (crumbs d ord)) = Some h" "out_session out = None" "out_released out"
      "v = (if live_hold h then released h System None now (save_order ?q ?s) else save_order ?q ?s)"
      "core t = core v"
    by (rule apply_failure_ok [OF fail, of ?q]) (simp, rule that, assumption+)
  have h': "get_hold_row s (o_hold ord) = Some h" using h(1) by (simp add: bump_def)
  note hm = find_row_SomeD [OF h']
  have ord: "ord \<in> set (orders s)" "o_ref ord = Some (ed_order_ref d)" using match_event_ok [OF m] by simp_all
  have tabs: "orders t = orders (save_order ?q s)" "sessions t = sessions s" "holds t = holds v" "slots t = slots v"
    using coreD(2,3,4,7) [OF h(5)] h(4) by (simp_all add: bump_def)
  have g: "get_order_row t (o_id ord) = Some ?q"
    using save_order_row(1) [OF inv(2) ord(1), of ?q] tabs(1) by simp
  have only: "x = h" if "x \<in> set (holds s)" "h_id x = o_hold ord" for x
    using booking_invD(1) [OF inv(1)] that hm by (metis distinct_map inj_onD)
  have rest: "(\<forall>x \<in> set (holds t). h_id x = o_hold ord \<longrightarrow> \<not> live_hold x)
      \<and> (if live_hold h then map_option sl_status (get_slot_row t (h_slot h)) = Some SAvailable
         else holds t = holds s \<and> slots t = slots s)"
  proof (cases "live_hold h")
    case False
    then have "holds t = holds s" "slots t = slots s" using tabs h(4) by (simp_all add: bump_def)
    with False only show ?thesis by auto
  next
    case True
    have hs: "holds t = update_where (\<lambda>g. h_id g = h_id h \<and> h_status g = HActive) (close_hold_row HReleased now) (holds s)"
      and ss: "slots t = update_where (\<lambda>sl. sl_id sl = h_slot h \<and> sl_status sl = SHeld) (set_slot_row SAvailable now) (slots s)"
      using True tabs h(4) by (simp_all add: released_def bump_def)
    have dead: "\<forall>x \<in> set (holds t). h_id x = o_hold ord \<longrightarrow> \<not> live_hold x"
      unfolding hs set_update_where using only hm by (auto simp: live_hold_def)
    obtain sl where sl: "get_slot_row s (h_slot h) = Some sl" "sl_status sl = SHeld"
      using live_hold_slot [OF inv(1) _ True] hm by blast
    have "get_slot_row t (h_slot h) = Some (set_slot_row SAvailable now sl)"
      unfolding ss using sl find_row_SomeD [OF sl(1)] by (simp add: find_row_update)
    with True dead show ?thesis by simp
  qed
  show ?thesis
    by (rule exI [of _ ord], rule exI [of _ h]) (use ord h' g tabs(2) h(2,3) rest in simp)
qed

theorem webhook_failure_witness:
  "\<exists>out t. sample_event_run ''failed'' sample_ordered = (Inr out, t) \<and> out_released out \<and> sessions t = []
     \<and> map_option o_status (get_order_row t 11) = Some OFailed"
proof -
  let ?r = "sample_event_run ''failed'' sample_ordered"
  have "case fst ?r of Inl e \<Rightarrow> False | Inr out \<Rightarrow> \<not> out_out_of_order out" by code_simp
  then obtain out t where r: "?r = (Inr out, t)" "\<not> out_out_of_order out" by (cases ?r; cases "fst ?r") auto
  have o: "orders sample_ordered = [sample_order]" "sessions sample_ordered = []" "o_id sample_order = 11"
    "ed_type (sample_delivery ''failed'') = Ev_failed" by code_simp+
  have "holds sample_ordered = holds sample_held" "slots sample_ordered = slots sample_held"
    "next_id sample_ordered = 12" "next_id sample_held = 11" by code_simp+
  then have b: "booking_inv sample_ordered" using sample_held_inv by (auto simp: booking_inv_def)
  show ?thesis
    using webhook_failure [OF r(1) [unfolded sample_event_run_def] sample_gateway_verifies disjI1 [OF o(4)] b
        sample_ordered_inv(2) r(2), unfolded o(1,2)] r(1) o by auto
qed

end
