(* ===== verification/Attendance.thy ===== *)
theory Attendance
  imports SessionProperties
begin

text \<open>
  Attendance (\<open>services/tutoring/attendance.py\<close>): recording after the scheduled end, the student's
  confirmation or dispute and the admin's resolution, each a versioned update of the one attendance
  row of the session, with the session status following along.
\<close>

section \<open>State machine and versioned update\<close>

definition recorder_roles :: "role list" where
  "recorder_roles = [Tutor, Admin]"

definition reviewable_states :: "attendance_state list" where
  "reviewable_states = [AConfirmed, AResolved]"

fun legal_states :: "attendance_state \<Rightarrow> attendance_state list" where
  "legal_states APending = [ARecorded]"
| "legal_states ARecorded = [AConfirmed, ADisputed]"
| "legal_states AConfirmed = [ADisputed]"
| "legal_states ADisputed = [AResolved]"
| "legal_states AResolved = []"

record attendance_mutation =
  am_attendance :: attendance_row
  am_session :: tsession
  am_intents :: "outbox_intent list"

definition get_attendance :: "db \<Rightarrow> uid \<Rightarrow> attendance_row option" where
  "get_attendance s sid = find (\<lambda>r. at_session r = sid) (attendance s)"

definition require_attendance :: "db \<Rightarrow> uid \<Rightarrow> exn + attendance_row" where
  "require_attendance s sid =
     (case get_attendance s sid of None \<Rightarrow> Inl (TutoringError AttendanceStateInvalid) | Some r \<Rightarrow> Inr r)"

definition assert_state :: "attendance_row \<Rightarrow> attendance_state \<Rightarrow> exn + unit" where
  "assert_state row to_state =
     (if to_state \<notin> set (legal_states (at_state row)) then Inl (TutoringError AttendanceStateInvalid)
      else Inr ())"

text \<open>The \<open>values\<close> the callers of \<open>_bump\<close> pass.\<close>

datatype att_values = Set_confirmed instant | Set_disputed instant | Set_resolved resolution instant

fun apply_att :: "att_values \<Rightarrow> attendance_row \<Rightarrow> attendance_row" where
  "apply_att (Set_confirmed now) r = r\<lparr>at_state := AConfirmed, at_confirmed_at := Some now\<rparr>"
| "apply_att (Set_disputed now) r = r\<lparr>at_state := ADisputed, at_disputed_at := Some now\<rparr>"
| "apply_att (Set_resolved res now) r =
     r\<lparr>at_state := AResolved, at_resolution := Some res, at_resolved_at := Some now\<rparr>"

definition attendance_cas :: "uid \<Rightarrow> int \<Rightarrow> att_values \<Rightarrow> db \<Rightarrow> unit run" where
  "attendance_cas aid expected v s =
     (let p = (\<lambda>r. at_id r = aid \<and> at_version r = expected);
          rows = update_where p (\<lambda>r. (apply_att v r)\<lparr>at_version := expected + 1\<rparr>) (attendance s)
      in if \<not> list_all attendance_check rows then (Inl IntegrityError, s)
         else if count_where p (attendance s) \<noteq> 1 then raise AttendanceStaleVersion s
         else ok () (s\<lparr>attendance := rows\<rparr>))"

definition bump_attendance ::
    "attendance_row \<Rightarrow> int option \<Rightarrow> att_values \<Rightarrow> db \<Rightarrow> attendance_row run" where
  "bump_attendance row expected_version v s =
     bindE (attendance_cas (at_id row) (case expected_version of None \<Rightarrow> at_version row | Some n \<Rightarrow> n) v s)
       (\<lambda>_ s. ok (case get_attendance_row s (at_id row) of Some r \<Rightarrow> r | None \<Rightarrow> row) s)"

section \<open>Record\<close>

definition recorded_payload :: "uid \<Rightarrow> role \<Rightarrow> json" where
  "recorded_payload sid r = JObj
     [(''session_id'', JUuid sid), (''state'', JStr ''recorded''), (''recorded_by_role'', JStr (role_code r))]"

text \<open>The gates of \<open>record\<close>. \<open>authority\<close> is \<open>require_effect_authority\<close>, when the route supplies it.\<close>

definition record_gates ::
    "uid \<Rightarrow> uid option \<Rightarrow> role \<Rightarrow> instant \<Rightarrow> (db \<Rightarrow> exn + unit) option \<Rightarrow> db \<Rightarrow> exn + tsession" where
  "record_gates sid actor_user actor_role now authority s =
     (if actor_role \<notin> set recorder_roles then Inl (TutoringError Forbidden)
      else if actor_user = None then Inl (TutoringError Forbidden)
      else case get_session sid actor_user actor_role s of Inl e \<Rightarrow> Inl e
      | Inr sess \<Rightarrow>
          if actor_role = Tutor
             \<and> (case get_tutor_row s (ts_tutor sess) of None \<Rightarrow> True | Some tu \<Rightarrow> Some (t_user tu) \<noteq> actor_user)
          then Inl (TutoringError NotFound)
          else (case (case authority of None \<Rightarrow> Inr () | Some check \<Rightarrow> check s) of Inl e \<Rightarrow> Inl e
            | Inr _ \<Rightarrow>
                if ts_status sess \<noteq> Confirmed \<and> ts_status sess \<noteq> Rescheduled
                then Inl (TutoringError AttendanceStateInvalid)
                else if \<not> has_ended sess now then Inl (TutoringError AttendanceTooEarly)
                else if get_attendance s (ts_id sess) \<noteq> None then Inl (TutoringError AttendanceStateInvalid)
                else Inr sess))"

definition record_attendance ::
    "db \<Rightarrow> uid \<Rightarrow> uid option \<Rightarrow> role \<Rightarrow> instant \<Rightarrow> (db \<Rightarrow> exn + unit) option \<Rightarrow> db \<Rightarrow> attendance_mutation run" where
  "record_attendance t0 sid actor_user actor_role now authority s =
     bindE (liftE (record_gates sid actor_user actor_role now authority s) s) (\<lambda>sess s.
       let row = \<lparr>at_id = next_id s, at_session = ts_id sess, at_state = ARecorded,
                  at_recorded_by = Some actor_role, at_recorded_at = Some now, at_confirmed_at = None,
                  at_disputed_at = None, at_resolved_at = None, at_resolution = None, at_version = 1\<rparr>
       in case insert_attendance row (bump s) of
         None \<Rightarrow> raise AttendanceStateInvalid t0
       | Some s1 \<Rightarrow>
           bindE (transition sess Completed actor_role None now (Some ''attendance_recorded'') None
                    (Some Session_completed) s1) (\<lambda>sess' s.
           bindE (enqueue Attendance_recorded (ts_id sess') (recorded_payload (ts_id sess') actor_role) now s) (\<lambda>i s.
             ok \<lparr>am_attendance = row, am_session = sess', am_intents = [i]\<rparr>
               (record_audit_event Au_attendance_recorded (Some (at_id row)) actor_user actor_role s))))"

section \<open>Confirm, dispute, resolve\<close>

definition confirm_attendance ::
    "uid \<Rightarrow> uid \<Rightarrow> int option \<Rightarrow> instant \<Rightarrow> db \<Rightarrow> attendance_mutation run" where
  "confirm_attendance sid actor_user expected_version now s =
     bindE (liftE (get_session sid (Some actor_user) Student s) s) (\<lambda>sess s.
     bindE (liftE (require_attendance s (ts_id sess)) s) (\<lambda>row s.
     bindE (liftE (assert_state row AConfirmed) s) (\<lambda>_ s.
     bindE (bump_attendance row expected_version (Set_confirmed now) s) (\<lambda>row' s.
       ok \<lparr>am_attendance = row', am_session = sess, am_intents = []\<rparr>
         (record_audit_event Au_attendance_confirmed (Some (at_id row')) (Some actor_user) Student s)))))"

definition dispute_attendance ::
    "uid \<Rightarrow> uid \<Rightarrow> int option \<Rightarrow> string option \<Rightarrow> instant \<Rightarrow> db \<Rightarrow> attendance_mutation run" where
  "dispute_attendance sid actor_user expected_version why now s =
     bindE (liftE (get_session sid (Some actor_user) Student s) s) (\<lambda>sess s.
     bindE (liftE (require_attendance s (ts_id sess)) s) (\<lambda>row s.
     bindE (liftE (assert_state row ADisputed) s) (\<lambda>_ s.
     bindE (bump_attendance row expected_version (Set_disputed now) s) (\<lambda>row' s.
     bindE (if ts_status sess \<noteq> Disputed
            then transition sess Disputed Student None now
                   (map_option (take 200) (or_default why ''attendance_disputed'')) None None s
            else ok sess s) (\<lambda>sess' s.
       ok \<lparr>am_attendance = row', am_session = sess', am_intents = []\<rparr>
         (record_audit_event Au_attendance_disputed (Some (at_id row')) (Some actor_user) Student s))))))"

fun resolution_code :: "resolution \<Rightarrow> string" where
  "resolution_code Attended = ''attended''"
| "resolution_code No_show_student = ''no_show_student''"
| "resolution_code No_show_tutor = ''no_show_tutor''"
| "resolution_code Waived = ''waived''"
| "resolution_code (Other_resolution r) = r"

definition resolve_attendance ::
    "uid \<Rightarrow> uid option \<Rightarrow> resolution \<Rightarrow> role \<Rightarrow> int option \<Rightarrow> instant \<Rightarrow> db \<Rightarrow> attendance_mutation run" where
  "resolve_attendance sid admin_user res actor_role expected_version now s =
     (if actor_role \<noteq> Admin then raise Forbidden s
      else if admin_user = None then raise Forbidden s
      else if res \<notin> set attendance_resolutions then raise ValidationError s
      else
     bindE (liftE (get_session sid None Admin s) s) (\<lambda>sess s.
     bindE (liftE (require_attendance s (ts_id sess)) s) (\<lambda>row s.
     bindE (liftE (assert_state row AResolved) s) (\<lambda>_ s.
     bindE (bump_attendance row expected_version (Set_resolved res now) s) (\<lambda>row' s.
     bindE (if ts_status sess = Disputed
            then transition sess Completed Admin None now
                   (Some (take 200 (''resolved_'' @ resolution_code res))) None None s
            else ok sess s) (\<lambda>sess' s.
       ok \<lparr>am_attendance = row', am_session = sess', am_intents = []\<rparr>
         (record_audit_event Au_attendance_resolved (Some (at_id row')) admin_user Admin s)))))))"

section \<open>Lemmas: the versioned update\<close>

definition attendance_ok :: "db \<Rightarrow> bool" where
  "attendance_ok s \<longleftrightarrow> distinct (map at_id (attendance s)) \<and> distinct (map at_session (attendance s))
     \<and> (\<forall>r \<in> set (attendance s). attendance_check r \<and> at_id r < next_id s)"

definition attendance_version :: "db \<Rightarrow> uid \<Rightarrow> int option" where
  "attendance_version s aid = map_option at_version (get_attendance_row s aid)"

definition decided :: "att_values \<Rightarrow> int \<Rightarrow> attendance_row \<Rightarrow> attendance_row" where
  "decided v n r = (apply_att v r)\<lparr>at_version := n + 1\<rparr>"

lemma decided_sel [simp]:
  "at_id (decided v n r) = at_id r" "at_session (decided v n r) = at_session r" "at_version (decided v n r) = n + 1"
  "at_recorded_by (decided v n r) = at_recorded_by r" "at_recorded_at (decided v n r) = at_recorded_at r"
  by (cases v; simp add: decided_def)+

lemma attendance_cas_ok:
  assumes "attendance_cas aid n v s = (Inr x, t)" and "distinct (map at_id (attendance s))"
  obtains r where "get_attendance_row s aid = Some r" and "at_version r = n"
    and "attendance t = update_where (\<lambda>q. at_id q = aid) (decided v n) (attendance s)"
    and "t = s\<lparr>attendance := attendance t\<rparr>" and "list_all attendance_check (attendance t)"
proof -
  let ?p = "\<lambda>r. at_id r = aid \<and> at_version r = n"
  have c: "count_where ?p (attendance s) = 1"
    and t: "t = s\<lparr>attendance := update_where ?p (decided v n) (attendance s)\<rparr>"
    and good: "list_all attendance_check (attendance t)"
    using assms(1) by (auto simp: attendance_cas_def Let_def decided_def [abs_def] split: if_splits)
  obtain r where r: "get_attendance_row s aid = Some r" "at_version r = n"
  proof -
    have "(case get_attendance_row s aid of Some r \<Rightarrow> if at_version r = n then 1 else 0 | None \<Rightarrow> 0) = (1 :: nat)"
      using c unfolding count_where_by_id [OF assms(2)] .
    then show ?thesis using that by (cases "get_attendance_row s aid") (simp_all split: if_split_asm)
  qed
  have "update_where ?p (decided v n) (attendance s) = update_where (\<lambda>q. at_id q = aid) (decided v n) (attendance s)"
  proof (rule update_where_cong)
    fix q assume "q \<in> set (attendance s)"
    with assms(2) have "at_id q = aid \<Longrightarrow> get_attendance_row s aid = Some q" by (simp add: find_row_Some_iff)
    with r show "?p q \<longleftrightarrow> at_id q = aid" by auto
  qed
  with t good r that show ?thesis by simp
qed

lemma attendance_cas_stale:
  assumes "attendance_ok s" and "attendance_version s aid \<noteq> Some n"
  shows "attendance_cas aid n v s = (Inl (TutoringError AttendanceStaleVersion), s)"
proof -
  let ?p = "\<lambda>r. at_id r = aid \<and> at_version r = n"
  have none: "\<forall>r \<in> set (attendance s). \<not> ?p r"
  proof (intro ballI notI)
    fix r assume "r \<in> set (attendance s)" "?p r"
    moreover have "distinct (map at_id (attendance s))" using assms(1) by (simp add: attendance_ok_def)
    ultimately have "get_attendance_row s aid = Some r" by (simp add: find_row_Some_iff)
    with \<open>?p r\<close> assms(2) show False by (simp add: attendance_version_def)
  qed
  then have "count_where ?p (attendance s) = 0" by (simp add: count_where_0)
  with update_where_none [OF none] assms(1) show ?thesis
    by (simp add: attendance_cas_def Let_def attendance_ok_def list_all_iff)
qed

lemma attendance_update_ok:
  assumes "attendance_ok s" and "list_all attendance_check rows" and "t = s\<lparr>attendance := rows\<rparr>"
    and "rows = update_where (\<lambda>q. at_id q = aid) (decided v n) (attendance s)"
  shows "attendance_ok t"
proof -
  have "map at_id rows = map at_id (attendance s)" "map at_session rows = map at_session (attendance s)"
    by (simp_all add: assms(4) map_update_where)
  moreover have "\<forall>r \<in> set rows. at_id r < next_id s"
    using assms(1) by (auto simp: assms(4) set_update_where attendance_ok_def)
  ultimately show ?thesis using assms(1-3) by (simp add: attendance_ok_def list_all_iff)
qed

interpretation attendance_write: versioned_write attendance_ok attendance_version attendance_cas
    "TutoringError AttendanceStaleVersion"
proof unfold_locales
  fix s t :: db and k n v and x :: unit
  assume good: "attendance_ok s" and run: "attendance_cas k n v s = (Inr x, t)"
  have d: "distinct (map at_id (attendance s))" using good by (simp add: attendance_ok_def)
  obtain r where r: "get_attendance_row s k = Some r" "at_version r = n"
      "attendance t = update_where (\<lambda>q. at_id q = k) (decided v n) (attendance s)"
      "t = s\<lparr>attendance := attendance t\<rparr>" "list_all attendance_check (attendance t)"
    using attendance_cas_ok [OF run d] by blast
  show "attendance_ok t" by (rule attendance_update_ok [OF good r(5,4,3)])
  show "attendance_version s k = Some n" using r(1,2) by (simp add: attendance_version_def)
  show "attendance_version t k = Some (n + 1)"
    using r(1,3) find_row_SomeD [OF r(1)] by (simp add: attendance_version_def find_row_update)
  show "attendance_version t k' = attendance_version s k'" if "k' \<noteq> k" for k'
    using r(3) that
    by (cases "get_attendance_row s k'") (auto simp: attendance_version_def find_row_update dest: find_row_SomeD)
next
  fix s :: db and k n v
  assume "attendance_ok s" "attendance_version s k \<noteq> Some n"
  then show "attendance_cas k n v s = (Inl (TutoringError AttendanceStaleVersion), s)"
    by (rule attendance_cas_stale)
qed

section \<open>Lemmas: the operations\<close>

definition move_session :: "uid \<Rightarrow> session_status \<Rightarrow> instant \<Rightarrow> int \<Rightarrow> db \<Rightarrow> db" where
  "move_session sid st now n s = s\<lparr>sessions := update_where (\<lambda>q. ts_id q = sid)
     (moved \<lparr>sv_status = st, sv_now = now, sv_slot = None\<rparr> n) (sessions s)\<rparr>"

lemma move_session_sel [simp]:
  "tutors (move_session i st now n s) = tutors s" "slots (move_session i st now n s) = slots s"
  "holds (move_session i st now n s) = holds s" "orders (move_session i st now n s) = orders s"
  "pay_events (move_session i st now n s) = pay_events s" "refunds (move_session i st now n s) = refunds s"
  "attendance (move_session i st now n s) = attendance s" "next_id (move_session i st now n s) = next_id s"
  by (simp_all add: move_session_def)

lemma move_session_row:
  assumes "get_session_row s sid = Some q"
  shows "get_session_row (move_session sid st now n s) sid
           = Some (moved \<lparr>sv_status = st, sv_now = now, sv_slot = None\<rparr> n q)"
    and "i \<noteq> sid \<Longrightarrow> get_session_row (move_session sid st now n s) i = get_session_row s i"
proof -
  show "get_session_row (move_session sid st now n s) sid
      = Some (moved \<lparr>sv_status = st, sv_now = now, sv_slot = None\<rparr> n q)"
    using assms find_row_SomeD [OF assms] by (simp add: move_session_def find_row_update)
  show "get_session_row (move_session sid st now n s) i = get_session_row s i" if "i \<noteq> sid"
    using that by (cases "get_session_row s i") (auto simp: move_session_def find_row_update dest: find_row_SomeD)
qed

lemma transition_core:
  assumes "transition sess to_st r ver now why None ev s = (Inr sess', t)"
    and "distinct (map ts_id (sessions s))"
  obtains row n where "get_session_row s (ts_id sess) = Some row" and "ts_version row = n"
    and "to_st \<in> set (legal_transitions (ts_status sess))"
    and "sess' = moved \<lparr>sv_status = to_st, sv_now = now, sv_slot = None\<rparr> n row"
    and "core t = core (move_session (ts_id sess) to_st now n s)"
    and "next_id t = next_id s" and "jobs t = jobs s" and "outbox t = outbox s"
    and "distinct (map ts_slot (sessions t))" and "\<forall>q \<in> set (sessions t). session_check q"
proof -
  obtain row n where ok: "to_st \<in> set (legal_transitions (ts_status sess))"
      "get_session_row s (ts_id sess) = Some row" "ts_version row = n"
      "sess' = moved \<lparr>sv_status = to_st, sv_now = now, sv_slot = None\<rparr> n row"
      "sessions t = update_where (\<lambda>q. ts_id q = ts_id sess)
        (moved \<lparr>sv_status = to_st, sv_now = now, sv_slot = None\<rparr> n) (sessions s)"
      "distinct (map ts_slot (sessions t))" "\<forall>q \<in> set (sessions t). session_check q"
      "t = logged (ts_id sess) (ts_status sess) to_st r now why ev (s\<lparr>sessions := sessions t\<rparr>)"
    using transition_ok [OF assms] by (elim exE conjE) (rule that, assumption+)
  have c: "core t = core (s\<lparr>sessions := sessions t\<rparr>)" and f: "next_id t = next_id s" "jobs t = jobs s" "outbox t = outbox s"
    by (subst ok(8), simp add: core_def)+
  have "s\<lparr>sessions := sessions t\<rparr> = move_session (ts_id sess) to_st now n s"
    unfolding move_session_def ok(5) ..
  from that [OF ok(2,3,1,4) c [unfolded this] f ok(6,7)] show ?thesis .
qed

lemma get_attendance_row:
  assumes "attendance_ok s" and "get_attendance s sid = Some row"
  shows "row \<in> set (attendance s)" "at_session row = sid" "get_attendance_row s (at_id row) = Some row"
  using assms by (auto simp: get_attendance_def attendance_ok_def find_Some_iff find_row_Some_iff)

text \<open>The row of a session, as one statement.\<close>

lemma get_attendance_iff:
  "attendance_ok s \<Longrightarrow> get_attendance s sid = Some row \<longleftrightarrow> row \<in> set (attendance s) \<and> at_session row = sid"
  using find_Some_unique [of at_session "attendance s"]
  by (auto simp: get_attendance_def attendance_ok_def find_Some_iff)

lemma record_gates_ok:
  assumes "record_gates sid actor_user actor_role now authority s = Inr sess"
  shows "actor_role \<in> {Tutor, Admin} \<and> actor_user \<noteq> None \<and> get_session sid actor_user actor_role s = Inr sess
    \<and> ts_status sess \<in> {Confirmed, Rescheduled} \<and> ts_end sess \<le> now \<and> get_attendance s (ts_id sess) = None
    \<and> (\<forall>check. authority = Some check \<longrightarrow> check s = Inr ())"
  using assms
  by (auto simp: record_gates_def recorder_roles_def has_ended_def
      split: if_splits sum.splits option.splits)

lemma record_attendance_ok:
  assumes "record_attendance t0 sid actor_user actor_role now authority s = (Inr out, t)" and "sessions_ok s"
  obtains sess row where "record_gates sid actor_user actor_role now authority s = Inr sess"
    and "row = \<lparr>at_id = next_id s, at_session = ts_id sess, at_state = ARecorded,
                  at_recorded_by = Some actor_role, at_recorded_at = Some now, at_confirmed_at = None,
                  at_disputed_at = None, at_resolved_at = None, at_resolution = None, at_version = 1\<rparr>"
    and "am_attendance out = row" and "attendance_check row" and "get_session_row s sid = Some sess"
    and "core t = core (move_session (ts_id sess) Completed now (ts_version sess) (s\<lparr>attendance := attendance s @ [row]\<rparr>))"
    and "next_id s < next_id t" and "jobs t = jobs s"
    and "outbox t = outbox s @ [\<lparr>ob_id = Suc (next_id s), ob_kind = Attendance_recorded, ob_aggregate = ts_id sess,
           ob_payload = recorded_payload (ts_id sess) actor_role, ob_status = XPending, ob_attempts = 0,
           ob_last_error = None, ob_delivered_at = None, ob_created_at = now\<rparr>]"
    and "distinct (map ts_slot (sessions t))" and "\<forall>q \<in> set (sessions t). session_check q"
proof -
  obtain sess where g: "record_gates sid actor_user actor_role now authority s = Inr sess"
    using assms(1) by (auto simp: record_attendance_def run_simps)
  define row where "row = \<lparr>at_id = next_id s, at_session = ts_id sess, at_state = ARecorded,
                  at_recorded_by = Some actor_role, at_recorded_at = Some now, at_confirmed_at = None,
                  at_disputed_at = None, at_resolved_at = None, at_resolution = None, at_version = 1\<rparr>"
  let ?s = "bump s\<lparr>attendance := attendance s @ [row]\<rparr>"
  have ins: "insert_attendance row (bump s) = Some ?s" and chk: "attendance_check row"
    using assms(1) g by (auto simp: record_attendance_def row_def insert_attendance_def bump_def Let_def
        split: option.splits if_splits)
  obtain sess' u where u: "transition sess Completed actor_role None now (Some ''attendance_recorded'') None
      (Some Session_completed) ?s = (Inr sess', u)"
    using assms(1) g ins by (auto simp: record_attendance_def row_def [symmetric] Let_def run_simps)
  obtain i w where w: "enqueue Attendance_recorded (ts_id sess') (recorded_payload (ts_id sess') actor_role) now u = (Inr i, w)"
    using assms(1) g ins u by (auto simp: record_attendance_def row_def [symmetric] Let_def run_simps)
  have t: "t = record_audit_event Au_attendance_recorded (Some (at_id row)) actor_user actor_role w"
    and out: "am_attendance out = row"
    using assms(1) g ins u w by (auto simp: record_attendance_def row_def [symmetric] Let_def)
  have gs: "get_session_row s sid = Some sess" "ts_id sess = sid"
    using record_gates_ok [OF g] get_session_ok by blast+
  have d: "distinct (map ts_id (sessions ?s))" using assms(2) by (simp add: sessions_ok_def bump_def)
  obtain q n where q: "get_session_row ?s (ts_id sess) = Some q" "ts_version q = n"
      "sess' = moved \<lparr>sv_status = Completed, sv_now = now, sv_slot = None\<rparr> n q"
      "core u = core (move_session (ts_id sess) Completed now n ?s)" "next_id u = next_id ?s" "jobs u = jobs ?s"
      "outbox u = outbox ?s" "distinct (map ts_slot (sessions u))" "\<forall>q \<in> set (sessions u). session_check q"
    by (rule transition_core [OF u d]) (rule that, assumption+)
  have qs: "q = sess" using q(1) gs by (simp add: bump_def)
  have wx: "w = outboxed Attendance_recorded (ts_id sess') (recorded_payload (ts_id sess') actor_role) now u"
    using enqueue_ok [OF w] by blast
  have sid: "ts_id sess' = ts_id sess" by (simp add: q(3) qs)
  have ct: "core t = core u" by (simp add: t wx)
  show ?thesis
  proof (rule that [OF g row_def out chk gs(1)])
    show "core t = core (move_session (ts_id sess) Completed now (ts_version sess) (s\<lparr>attendance := attendance s @ [row]\<rparr>))"
      using ct q(2,4) qs by (simp add: bump_def move_session_def core_def)
    show "next_id s < next_id t" using q(5) by (simp add: t wx bump_def)
    show "jobs t = jobs s" using q(6) by (simp add: t wx bump_def)
    show "outbox t = outbox s @ [\<lparr>ob_id = Suc (next_id s), ob_kind = Attendance_recorded, ob_aggregate = ts_id sess,
           ob_payload = recorded_payload (ts_id sess) actor_role, ob_status = XPending, ob_attempts = 0,
           ob_last_error = None, ob_delivered_at = None, ob_created_at = now\<rparr>]"
      using q(5,7) by (simp add: t wx sid outboxed_def record_audit_event_def bump_def)
  qed (use coreD(7) [OF ct] q(8,9) in simp_all)
qed

definition decide_att :: "attendance_row \<Rightarrow> att_values \<Rightarrow> db \<Rightarrow> db" where
  "decide_att row v s = s\<lparr>attendance := update_where (\<lambda>q. at_id q = at_id row)
     (decided v (at_version row)) (attendance s)\<rparr>"

lemma decide_att_sel [simp]:
  "tutors (decide_att r v s) = tutors s" "slots (decide_att r v s) = slots s" "holds (decide_att r v s) = holds s"
  "orders (decide_att r v s) = orders s" "sessions (decide_att r v s) = sessions s"
  "next_id (decide_att r v s) = next_id s" "jobs (decide_att r v s) = jobs s" "outbox (decide_att r v s) = outbox s"
  by (simp_all add: decide_att_def)

lemma bump_attendance_ok:
  assumes "bump_attendance row ver v s = (Inr row', t)" and "attendance_ok s" and "row \<in> set (attendance s)"
  shows "t = decide_att row v s" and "row' = decided v (at_version row) row" and "attendance_ok t"
    and "ver \<in> {None, Some (at_version row)}"
proof -
  let ?n = "case ver of None \<Rightarrow> at_version row | Some n \<Rightarrow> n"
  have d: "distinct (map at_id (attendance s))" using assms(2) by (simp add: attendance_ok_def)
  have u: "attendance_cas (at_id row) ?n v s = (Inr (), t)"
    and row': "row' = (case get_attendance_row t (at_id row) of Some r \<Rightarrow> r | None \<Rightarrow> row)"
    using assms(1) by (auto simp: bump_attendance_def run_simps)
  obtain r where r: "get_attendance_row s (at_id row) = Some r" "at_version r = ?n"
      "attendance t = update_where (\<lambda>q. at_id q = at_id row) (decided v ?n) (attendance s)"
      "t = s\<lparr>attendance := attendance t\<rparr>" "list_all attendance_check (attendance t)"
    by (rule attendance_cas_ok [OF u d]) (rule that, assumption+)
  have "get_attendance_row s (at_id row) = Some row" using d assms(3) by (simp add: find_row_Some_iff)
  then have n: "r = row" "?n = at_version row" using r(1,2) by simp_all
  show "ver \<in> {None, Some (at_version row)}" using n(2) by (cases ver) auto
  show "t = decide_att row v s" unfolding decide_att_def using r(3,4) n by metis
  show "attendance_ok t" by (rule attendance_update_ok [OF assms(2) r(5,4,3)])
  have "get_attendance_row t (at_id row) = Some (decided v (at_version row) row)"
    using r(1,3) n by (simp add: find_row_update)
  then show "row' = decided v (at_version row) row" by (simp add: row')
qed

lemma require_ok: "require_attendance s sid = Inr row \<longleftrightarrow> get_attendance s sid = Some row"
  by (auto simp: require_attendance_def split: option.split)

lemma assert_state_ok: "assert_state row st = Inr x \<longleftrightarrow> st \<in> set (legal_states (at_state row))"
  by (auto simp: assert_state_def)

lemma confirm_attendance_ok:
  assumes "confirm_attendance sid u ver now s = (Inr out, t)" and "attendance_ok s"
  obtains sess row where "get_session sid (Some u) Student s = Inr sess" and "get_attendance s sid = Some row"
    and "at_state row = ARecorded" and "ver \<in> {None, Some (at_version row)}" and "am_session out = sess"
    and "am_attendance out = decided (Set_confirmed now) (at_version row) row"
    and "core t = core (decide_att row (Set_confirmed now) s)" and "attendance_ok t"
    and "next_id t = next_id s" and "jobs t = jobs s" and "outbox t = outbox s"
proof -
  obtain sess where sess: "get_session sid (Some u) Student s = Inr sess"
    using assms(1) by (auto simp: confirm_attendance_def run_simps)
  then have id: "ts_id sess = sid" by (auto dest: get_session_ok)
  obtain row where row: "get_attendance s sid = Some row" "AConfirmed \<in> set (legal_states (at_state row))"
    using assms(1) sess id by (auto simp: confirm_attendance_def run_simps require_ok assert_state_ok)
  obtain row' v where v: "bump_attendance row ver (Set_confirmed now) s = (Inr row', v)"
      "t = record_audit_event Au_attendance_confirmed (Some (at_id row')) (Some u) Student v"
      "am_attendance out = row'" "am_session out = sess"
    using assms(1) sess id row by (auto simp: confirm_attendance_def run_simps require_attendance_def assert_state_def)
  note b = bump_attendance_ok [OF v(1) assms(2) get_attendance_row(1) [OF assms(2) row(1)]]
  have "at_state row = ARecorded" using row(2) by (cases "at_state row") auto
  moreover have "attendance_ok t" using b(3) by (simp add: v(2) attendance_ok_def record_audit_event_def)
  ultimately show ?thesis using that [OF sess row(1)] b v by simp
qed

text \<open>A decision that the session status follows: the dispute and the resolution.\<close>

definition followed :: "tsession \<Rightarrow> session_status \<Rightarrow> bool \<Rightarrow> instant \<Rightarrow> db \<Rightarrow> db" where
  "followed sess st moves_on now s = (if moves_on then move_session (ts_id sess) st now (ts_version sess) s else s)"

lemma followed_run:
  assumes "(if moves_on then transition sess st r None now why None None s else ok sess s) = (Inr sess', t)"
    and "sessions_ok s" and "get_session_row s (ts_id sess) = Some sess"
  shows "core t = core (followed sess st moves_on now s)" and "next_id t = next_id s" and "jobs t = jobs s"
    and "outbox t = outbox s" and "distinct (map ts_slot (sessions t))" and "\<forall>q \<in> set (sessions t). session_check q"
proof -
  have "core t = core (followed sess st moves_on now s) \<and> next_id t = next_id s \<and> jobs t = jobs s
    \<and> outbox t = outbox s \<and> distinct (map ts_slot (sessions t)) \<and> (\<forall>q \<in> set (sessions t). session_check q)"
  proof (cases moves_on)
    case True
    have d: "distinct (map ts_id (sessions s))" using assms(2) by (simp add: sessions_ok_def)
    have run: "transition sess st r None now why None None s = (Inr sess', t)" using assms(1) True by simp
    show ?thesis
      by (rule transition_core [OF run d]) (use assms(3) True in \<open>simp add: followed_def\<close>)
  next
    case False
    then have "t = s" using assms(1) by simp
    with False assms(2) show ?thesis by (simp add: followed_def sessions_ok_def)
  qed
  then show "core t = core (followed sess st moves_on now s)" "next_id t = next_id s" "jobs t = jobs s"
    "outbox t = outbox s" "distinct (map ts_slot (sessions t))" "\<forall>q \<in> set (sessions t). session_check q" by blast+
qed

lemma dispute_attendance_ok:
  assumes "dispute_attendance sid u ver why now s = (Inr out, t)" and "attendance_ok s" and "sessions_ok s"
  obtains sess row where "get_session sid (Some u) Student s = Inr sess" and "get_attendance s sid = Some row"
    and "at_state row \<in> {ARecorded, AConfirmed}" and "ver \<in> {None, Some (at_version row)}"
    and "am_attendance out = decided (Set_disputed now) (at_version row) row"
    and "core t = core (followed sess Disputed (ts_status sess \<noteq> Disputed) now (decide_att row (Set_disputed now) s))"
    and "attendance_ok (decide_att row (Set_disputed now) s)"
    and "next_id t = next_id s" and "jobs t = jobs s" and "outbox t = outbox s"
    and "distinct (map ts_slot (sessions t))" and "\<forall>q \<in> set (sessions t). session_check q"
proof -
  obtain sess where sess: "get_session sid (Some u) Student s = Inr sess"
    using assms(1) by (auto simp: dispute_attendance_def run_simps)
  then have id: "ts_id sess = sid" "get_session_row s (ts_id sess) = Some sess" by (auto dest: get_session_ok)
  obtain row where row: "get_attendance s sid = Some row" "ADisputed \<in> set (legal_states (at_state row))"
    using assms(1) sess id by (auto simp: dispute_attendance_def run_simps require_ok assert_state_ok)
  obtain row' v where v: "bump_attendance row ver (Set_disputed now) s = (Inr row', v)"
    using assms(1) sess id row by (auto simp: dispute_attendance_def run_simps require_attendance_def assert_state_def)
  obtain sess' w where w: "(if ts_status sess \<noteq> Disputed then transition sess Disputed Student None now
        (map_option (take 200) (or_default why ''attendance_disputed'')) None None v else ok sess v) = (Inr sess', w)"
      "t = record_audit_event Au_attendance_disputed (Some (at_id row')) (Some u) Student w" "am_attendance out = row'"
    using assms(1) sess id row v by (auto simp: dispute_attendance_def run_simps require_attendance_def assert_state_def)
  note b = bump_attendance_ok [OF v assms(2) get_attendance_row(1) [OF assms(2) row(1)]]
  have sv: "sessions_ok v" "get_session_row v (ts_id sess) = Some sess" using assms(3) id(2) by (simp_all add: b(1) sessions_ok_def)
  note f = followed_run [OF w(1) sv]
  have ct: "core t = core w" "next_id t = next_id w" "jobs t = jobs w" "outbox t = outbox w" by (simp_all add: w(2))
  have st: "at_state row \<in> {ARecorded, AConfirmed}" using row(2) by (cases "at_state row") auto
  show ?thesis
    using that [OF sess row(1) st b(4)] b(1-3) f ct w(3) coreD(7) [OF ct(1)] by simp
qed

lemma resolve_attendance_ok:
  assumes "resolve_attendance sid admin res r ver now s = (Inr out, t)" and "attendance_ok s" and "sessions_ok s"
  obtains sess row where "r = Admin" and "admin \<noteq> None" and "res \<in> set attendance_resolutions"
    and "get_session_row s sid = Some sess" and "ts_id sess = sid" and "get_attendance s sid = Some row"
    and "at_state row = ADisputed" and "ver \<in> {None, Some (at_version row)}"
    and "am_attendance out = decided (Set_resolved res now) (at_version row) row"
    and "core t = core (followed sess Completed (ts_status sess = Disputed) now (decide_att row (Set_resolved res now) s))"
    and "attendance_ok (decide_att row (Set_resolved res now) s)"
    and "next_id t = next_id s" and "jobs t = jobs s" and "outbox t = outbox s"
    and "distinct (map ts_slot (sessions t))" and "\<forall>q \<in> set (sessions t). session_check q"
proof -
  have g: "r = Admin" "admin \<noteq> None" "res \<in> set attendance_resolutions"
    using assms(1) by (auto simp: resolve_attendance_def split: if_splits)
  obtain sess where sess: "get_session sid None Admin s = Inr sess"
    using assms(1) g by (auto simp: resolve_attendance_def run_simps)
  then have id: "ts_id sess = sid" "get_session_row s (ts_id sess) = Some sess" by (auto dest: get_session_ok)
  obtain row where row: "get_attendance s sid = Some row" "AResolved \<in> set (legal_states (at_state row))"
    using assms(1) g sess id by (auto simp: resolve_attendance_def run_simps require_ok assert_state_ok)
  obtain row' v where v: "bump_attendance row ver (Set_resolved res now) s = (Inr row', v)"
    using assms(1) g sess id row by (auto simp: resolve_attendance_def run_simps require_attendance_def assert_state_def)
  obtain sess' w where w: "(if ts_status sess = Disputed then transition sess Completed Admin None now
        (Some (take 200 (''resolved_'' @ resolution_code res))) None None v else ok sess v) = (Inr sess', w)"
      "t = record_audit_event Au_attendance_resolved (Some (at_id row')) admin Admin w" "am_attendance out = row'"
    using assms(1) g sess id row v by (auto simp: resolve_attendance_def run_simps require_attendance_def assert_state_def)
  note b = bump_attendance_ok [OF v assms(2) get_attendance_row(1) [OF assms(2) row(1)]]
  have sv: "sessions_ok v" "get_session_row v (ts_id sess) = Some sess" using assms(3) id(2) by (simp_all add: b(1) sessions_ok_def)
  note f = followed_run [OF w(1) sv]
  have ct: "core t = core w" "next_id t = next_id w" "jobs t = jobs w" "outbox t = outbox w" by (simp_all add: w(2))
  have st: "at_state row = ADisputed" using row(2) by (cases "at_state row") auto
  show ?thesis
    using that [OF g id(2) [unfolded id(1)] id(1) row(1) st b(4)] b(1-3) f ct w(3) coreD(7) [OF ct(1)] by simp
qed

section \<open>The session follows the attendance\<close>

definition session_status_of :: "db \<Rightarrow> uid \<Rightarrow> session_status option" where
  "session_status_of s sid = map_option ts_status (get_session_row s sid)"

definition attendance_state_of :: "db \<Rightarrow> uid \<Rightarrow> attendance_state option" where
  "attendance_state_of s sid = map_option at_state (get_attendance s sid)"

text \<open>
  A session is completed or disputed exactly when it has an attendance row, and it is disputed
  exactly while the row is.
\<close>

fun follows :: "attendance_state option \<Rightarrow> session_status option \<Rightarrow> bool" where
  "follows None st \<longleftrightarrow> st \<noteq> Some Completed \<and> st \<noteq> Some Disputed"
| "follows (Some a) st \<longleftrightarrow> a \<noteq> APending \<and> st = Some (if a = ADisputed then Disputed else Completed)"

definition attendance_inv :: "db \<Rightarrow> bool" where
  "attendance_inv s \<longleftrightarrow> sessions_ok s \<and> attendance_ok s
     \<and> (\<forall>sid. follows (attendance_state_of s sid) (session_status_of s sid))"

fun target :: "att_values \<Rightarrow> attendance_state" where
  "target (Set_confirmed now) = AConfirmed"
| "target (Set_disputed now) = ADisputed"
| "target (Set_resolved res now) = AResolved"

lemma decided_state [simp]: "at_state (decided v n r) = target v"
  by (cases v) (simp_all add: decided_def)

lemma session_status_of_cong: "sessions t = sessions s \<Longrightarrow> session_status_of t i = session_status_of s i"
  by (simp add: session_status_of_def)

lemma attendance_state_of_cong: "attendance t = attendance s \<Longrightarrow> attendance_state_of t i = attendance_state_of s i"
  by (simp add: attendance_state_of_def get_attendance_def)

lemma session_status_of_move:
  assumes "get_session_row s sid = Some q"
  shows "session_status_of (move_session sid st now n s) i = (if i = sid then Some st else session_status_of s i)"
  using move_session_row(1) [OF assms] move_session_row(2) [OF assms] by (simp add: session_status_of_def)

lemma attendance_state_of_decide:
  assumes "attendance_ok s" and "row \<in> set (attendance s)"
  shows "attendance_state_of (decide_att row v s) i
    = (if i = at_session row then Some (target v) else attendance_state_of s i)"
proof -
  have f: "get_attendance (decide_att row v s) i
      = map_option (\<lambda>r. if at_id r = at_id row then decided v (at_version row) r else r) (get_attendance s i)"
    using find_row_update [of at_session "decided v (at_version row)" i "\<lambda>q. at_id q = at_id row" "attendance s"]
    by (simp add: get_attendance_def find_row_def decide_att_def)
  have row: "get_attendance s (at_session row) = Some row"
    using get_attendance_iff [OF assms(1)] assms(2) by simp
  have other: "at_id r \<noteq> at_id row" if "get_attendance s i = Some r" "i \<noteq> at_session row" for r
    using get_attendance_row(2,3) [OF assms(1) that(1)] get_attendance_row(3) [OF assms(1) row] that(2)
    by (metis option.inject)
  show ?thesis
  proof (cases "i = at_session row")
    case True
    show ?thesis using row f unfolding True by (simp add: attendance_state_of_def)
  next
    case False
    then show ?thesis using other by (cases "get_attendance s i") (simp_all add: attendance_state_of_def f)
  qed
qed

lemma attendance_state_of_append:
  assumes "get_attendance s (at_session row) = None"
  shows "attendance_state_of (s\<lparr>attendance := attendance s @ [row]\<rparr>) i
    = (if i = at_session row then Some (at_state row) else attendance_state_of s i)"
  using assms find_row_append [of at_session i "attendance s" "[row]"]
  by (auto simp: attendance_state_of_def get_attendance_def find_row_def split: option.splits)

lemma sessions_ok_core:
  assumes "sessions_ok s" and "sessions t = sessions (move_session i st now n s) \<or> sessions t = sessions s"
    and "distinct (map ts_slot (sessions t))" and "\<forall>q \<in> set (sessions t). session_check q"
  shows "sessions_ok t"
  using assms by (auto simp: sessions_ok_def move_session_def map_update_where)

lemma attendance_inv_intro:
  assumes "attendance_inv s" and "sessions_ok t" and "attendance_ok t"
    and "\<And>i. i \<noteq> sid \<Longrightarrow> attendance_state_of t i = attendance_state_of s i \<and> session_status_of t i = session_status_of s i"
    and "follows (attendance_state_of t sid) (session_status_of t sid)"
  shows "attendance_inv t"
  using assms unfolding attendance_inv_def by metis

lemma attendance_ok_frame:
  "attendance_ok s \<Longrightarrow> attendance t = attendance s \<Longrightarrow> next_id s \<le> next_id t \<Longrightarrow> attendance_ok t"
  by (auto simp: attendance_ok_def intro: order_less_le_trans)

lemma record_attendance_inv:
  assumes "record_attendance t0 sid u r now authority s = (Inr out, t)" and inv: "attendance_inv s"
  shows "attendance_inv t"
proof -
  have so: "sessions_ok s" and ao: "attendance_ok s" using inv by (simp_all add: attendance_inv_def)
  obtain sess row where ok: "record_gates sid u r now authority s = Inr sess"
      "row = \<lparr>at_id = next_id s, at_session = ts_id sess, at_state = ARecorded,
                  at_recorded_by = Some r, at_recorded_at = Some now, at_confirmed_at = None,
                  at_disputed_at = None, at_resolved_at = None, at_resolution = None, at_version = 1\<rparr>"
      "attendance_check row" "get_session_row s sid = Some sess"
      "core t = core (move_session (ts_id sess) Completed now (ts_version sess) (s\<lparr>attendance := attendance s @ [row]\<rparr>))"
      "next_id s < next_id t" "distinct (map ts_slot (sessions t))" "\<forall>q \<in> set (sessions t). session_check q"
    by (rule record_attendance_ok [OF assms(1) so]) (rule that, assumption+)
  let ?s = "s\<lparr>attendance := attendance s @ [row]\<rparr>"
  have id: "ts_id sess = sid" using find_row_SomeD [OF ok(4)] by simp
  have none: "get_attendance s (at_session row) = None" using record_gates_ok [OF ok(1)] by (simp add: ok(2))
  note tabs = coreD(7,8) [OF ok(5), simplified]
  show ?thesis
  proof (rule attendance_inv_intro [OF inv, of _ sid])
    show "sessions_ok t"
      by (rule sessions_ok_core [OF so _ ok(7,8), of sid Completed now "ts_version sess"])
        (simp add: tabs(1) id move_session_def)
    have fresh: "at_session row \<notin> at_session ` set (attendance s)"
      using none by (auto simp: get_attendance_def find_None_iff)
    have old: "\<forall>q \<in> set (attendance s). at_id q < next_id s" using ao by (simp add: attendance_ok_def)
    have new: "at_id row = next_id s" by (simp add: ok(2))
    show "attendance_ok t"
      using ao ok(3,6) fresh old by (auto simp: attendance_ok_def tabs(2) new)
    have st: "session_status_of t i = (if i = sid then Some Completed else session_status_of s i)" for i
      using session_status_of_move [of sid ?s sess Completed now "ts_version sess" i] ok(4)
      by (simp add: session_status_of_def tabs(1) id)
    have at: "attendance_state_of t i = (if i = sid then Some ARecorded else attendance_state_of s i)" for i
      using attendance_state_of_append [OF none, of i]
      by (simp add: attendance_state_of_def get_attendance_def tabs(2)) (simp add: ok(2) id)
    show "\<And>i. i \<noteq> sid \<Longrightarrow> attendance_state_of t i = attendance_state_of s i \<and> session_status_of t i = session_status_of s i"
      "follows (attendance_state_of t sid) (session_status_of t sid)"
      by (simp_all add: st at)
  qed
qed

lemma followed_inv:
  assumes inv: "attendance_inv s" and row: "get_attendance s sid = Some row"
    and sess: "get_session_row s sid = Some sess" "ts_id sess = sid"
    and core: "core t = core (followed sess st moves_on now (decide_att row v s))"
    and ok: "attendance_ok (decide_att row v s)" "next_id t = next_id s"
    and check: "distinct (map ts_slot (sessions t))" "\<forall>q \<in> set (sessions t). session_check q"
    and st: "target v \<noteq> APending" "st = (if target v = ADisputed then Disputed else Completed)"
    and on: "moves_on \<longleftrightarrow> ts_status sess \<noteq> st"
  shows "attendance_inv t"
proof -
  have so: "sessions_ok s" and ao: "attendance_ok s" using inv by (simp_all add: attendance_inv_def)
  note r = get_attendance_row [OF ao row]
  let ?s = "decide_att row v s"
  have tabs: "sessions t = sessions (followed sess st moves_on now ?s)" "attendance t = attendance ?s"
    using coreD(7,8) [OF core] by (simp_all add: followed_def)
  show ?thesis
  proof (rule attendance_inv_intro [OF inv, of _ sid])
    show "sessions_ok t"
      by (rule sessions_ok_core [OF so _ check, of sid st now "ts_version sess"])
        (simp add: tabs(1) followed_def move_session_def sess(2))
    show "attendance_ok t" by (rule attendance_ok_frame [OF ok(1) tabs(2)]) (simp add: ok(2))
    have a: "session_status_of t i = (if i = sid then Some st else session_status_of s i)" for i
      using session_status_of_move [of sid ?s sess st now "ts_version sess" i] sess on
      by (auto simp: session_status_of_def tabs(1) followed_def)
    have b: "attendance_state_of t i = (if i = sid then Some (target v) else attendance_state_of s i)" for i
      using attendance_state_of_decide [OF ao r(1), of v i] r(2)
      by (simp add: attendance_state_of_def get_attendance_def tabs(2))
    show "\<And>i. i \<noteq> sid \<Longrightarrow> attendance_state_of t i = attendance_state_of s i \<and> session_status_of t i = session_status_of s i"
      "follows (attendance_state_of t sid) (session_status_of t sid)"
      using st by (simp_all add: a b)
  qed
qed

lemma confirm_attendance_inv:
  assumes "confirm_attendance sid u ver now s = (Inr out, t)" and inv: "attendance_inv s"
  shows "attendance_inv t"
proof -
  have so: "sessions_ok s" and ao: "attendance_ok s" using inv by (simp_all add: attendance_inv_def)
  obtain sess row where ok: "get_session sid (Some u) Student s = Inr sess" "get_attendance s sid = Some row"
      "at_state row = ARecorded" "core t = core (decide_att row (Set_confirmed now) s)" "attendance_ok t"
      "next_id t = next_id s"
    by (rule confirm_attendance_ok [OF assms(1) ao]) (rule that, assumption+)
  have id: "get_session_row s sid = Some sess" "ts_id sess = sid" using get_session_ok [OF ok(1)] by simp_all
  have "follows (Some ARecorded) (Some (ts_status sess))"
    using inv ok(2,3) id by (auto simp: attendance_inv_def attendance_state_of_def session_status_of_def dest: spec [of _ sid])
  then have st: "ts_status sess = Completed" by simp
  note tabs = coreD(7,8) [OF ok(4), simplified]
  have aok: "attendance_ok (decide_att row (Set_confirmed now) s)"
    using ok(5,6) tabs(2) by (simp add: attendance_ok_def)
  show ?thesis
    by (rule followed_inv [OF inv ok(2) id _ aok ok(6), where st = Completed and moves_on = False and now = now])
      (use ok(4) so st tabs(1) in \<open>simp_all add: followed_def sessions_ok_def\<close>)
qed

lemma dispute_attendance_inv:
  assumes "dispute_attendance sid u ver why now s = (Inr out, t)" and inv: "attendance_inv s"
  shows "attendance_inv t"
proof -
  have so: "sessions_ok s" and ao: "attendance_ok s" using inv by (simp_all add: attendance_inv_def)
  obtain sess row where ok: "get_session sid (Some u) Student s = Inr sess" "get_attendance s sid = Some row"
      "core t = core (followed sess Disputed (ts_status sess \<noteq> Disputed) now (decide_att row (Set_disputed now) s))"
      "attendance_ok (decide_att row (Set_disputed now) s)" "next_id t = next_id s"
      "distinct (map ts_slot (sessions t))" "\<forall>q \<in> set (sessions t). session_check q"
    by (rule dispute_attendance_ok [OF assms(1) ao so]) (rule that, assumption+)
  have id: "get_session_row s sid = Some sess" "ts_id sess = sid" using get_session_ok [OF ok(1)] by simp_all
  show ?thesis by (rule followed_inv [OF inv ok(2) id ok(3-7)]) simp_all
qed

lemma resolve_attendance_inv:
  assumes "resolve_attendance sid admin res r ver now s = (Inr out, t)" and inv: "attendance_inv s"
  shows "attendance_inv t"
proof -
  have so: "sessions_ok s" and ao: "attendance_ok s" using inv by (simp_all add: attendance_inv_def)
  obtain sess row where ok: "get_session_row s sid = Some sess" "ts_id sess = sid" "get_attendance s sid = Some row"
      "at_state row = ADisputed"
      "core t = core (followed sess Completed (ts_status sess = Disputed) now (decide_att row (Set_resolved res now) s))"
      "attendance_ok (decide_att row (Set_resolved res now) s)" "next_id t = next_id s"
      "distinct (map ts_slot (sessions t))" "\<forall>q \<in> set (sessions t). session_check q"
    by (rule resolve_attendance_ok [OF assms(1) ao so]) (rule that, assumption+)
  have "follows (Some ADisputed) (Some (ts_status sess))"
    using inv ok(1,3,4) by (auto simp: attendance_inv_def attendance_state_of_def session_status_of_def dest: spec [of _ sid])
  then have "ts_status sess = Disputed" by simp
  then show ?thesis by (intro followed_inv [OF inv ok(3,1,2,5-9)]) simp_all
qed

section \<open>Properties\<close>

text \<open>
  Attendance is recorded only after the scheduled end, by the session's own tutor or an
  admin, on a session that is confirmed or rescheduled and has no attendance yet; it creates the
  one row of the session in state \<open>recorded\<close> with version 1, completes the session, and enqueues one
  intent. One microsecond before the end the same request is refused with \<open>AttendanceTooEarly\<close> and
  changes nothing.
\<close>

theorem attendance_after_end:
  assumes run: "record_attendance t0 sid u r now authority s = (Inr out, t)" and inv: "attendance_inv s"
  shows "\<exists>sess. get_session_row s sid = Some sess \<and> ts_status sess \<in> {Confirmed, Rescheduled}
      \<and> ts_end sess \<le> now \<and> attendance_state_of s sid = None
      \<and> (r = Admin \<or> r = Tutor \<and> (\<exists>tu. get_tutor_row s (ts_tutor sess) = Some tu \<and> u = Some (t_user tu)))
      \<and> attendance t = attendance s @ [am_attendance out]
      \<and> at_session (am_attendance out) = sid \<and> at_state (am_attendance out) = ARecorded
      \<and> at_version (am_attendance out) = 1 \<and> at_recorded_by (am_attendance out) = Some r
      \<and> session_status_of t sid = Some Completed
      \<and> (\<exists>x. outbox t = outbox s @ [x] \<and> ob_kind x = Attendance_recorded \<and> ob_aggregate x = sid)
      \<and> record_attendance t0 sid u r (ts_end sess - 1) authority s = (Inl (TutoringError AttendanceTooEarly), s)"
proof -
  have so: "sessions_ok s" using inv by (simp add: attendance_inv_def)
  obtain sess row where ok: "record_gates sid u r now authority s = Inr sess"
      "row = \<lparr>at_id = next_id s, at_session = ts_id sess, at_state = ARecorded,
                  at_recorded_by = Some r, at_recorded_at = Some now, at_confirmed_at = None,
                  at_disputed_at = None, at_resolved_at = None, at_resolution = None, at_version = 1\<rparr>"
      "am_attendance out = row" "get_session_row s sid = Some sess"
      "core t = core (move_session (ts_id sess) Completed now (ts_version sess) (s\<lparr>attendance := attendance s @ [row]\<rparr>))"
      "outbox t = outbox s @ [\<lparr>ob_id = Suc (next_id s), ob_kind = Attendance_recorded, ob_aggregate = ts_id sess,
           ob_payload = recorded_payload (ts_id sess) r, ob_status = XPending, ob_attempts = 0,
           ob_last_error = None, ob_delivered_at = None, ob_created_at = now\<rparr>]"
    by (rule record_attendance_ok [OF run so]) (rule that, assumption+)
  have id: "ts_id sess = sid" using find_row_SomeD [OF ok(4)] by simp
  note g = record_gates_ok [OF ok(1)]
  note tabs = coreD(7,8) [OF ok(5), simplified]
  have st: "session_status_of t sid = Some Completed"
    using session_status_of_move [of sid "s\<lparr>attendance := attendance s @ [row]\<rparr>" sess Completed now "ts_version sess" sid] ok(4)
    by (simp add: session_status_of_def tabs(1) id)
  have early: "record_attendance t0 sid u r (ts_end sess - 1) authority s = (Inl (TutoringError AttendanceTooEarly), s)"
    using ok(1) by (auto simp: record_attendance_def record_gates_def has_ended_def split: if_splits sum.splits option.splits)
  have who: "r = Admin \<or> r = Tutor \<and> (\<exists>tu. get_tutor_row s (ts_tutor sess) = Some tu \<and> u = Some (t_user tu))"
    using g get_session_ok [of sid u r s sess] by auto
  show ?thesis
    by (rule exI [of _ sess]) (use ok(2-4,6) g who st early tabs(2) id in \<open>auto simp: attendance_state_of_def\<close>)
qed

definition sample_recorded :: db where
  "sample_recorded = snd (record_attendance sample_booked 14 (Some 1) Admin (days 4) None sample_booked)"

lemma status_clear: "st \<in> {None, Some Confirmed} \<Longrightarrow> follows None st"
  by auto

lemma student_read:
  "get_session_row s sid = Some q \<Longrightarrow> ts_deleted_at q = None \<Longrightarrow> ts_student q = u
     \<Longrightarrow> get_session sid (Some u) Student s = Inr q"
  by (simp add: get_session_def)

lemma sample_attendance_inv: "attendance_inv sample_booked"
proof -
  have a: "attendance sample_booked = []" by code_simp
  have "list_all (\<lambda>q. ts_status q = Confirmed) (sessions sample_booked)" by code_simp
  then have "session_status_of sample_booked i \<in> {None, Some Confirmed}" for i
    by (cases "get_session_row sample_booked i")
      (auto simp: session_status_of_def list_all_iff dest: find_row_SomeD)
  then have "follows None (session_status_of sample_booked i)" for i
    by (metis status_clear)
  then show ?thesis
    using sample_booked_inv(3) a
    by (simp add: attendance_inv_def attendance_ok_def attendance_state_of_def get_attendance_def)
qed

lemma sample_recorded_run:
  obtains out where "record_attendance sample_booked 14 (Some 1) Admin (days 4) None sample_booked = (Inr out, sample_recorded)"
proof -
  let ?r = "record_attendance sample_booked 14 (Some 1) Admin (days 4) None sample_booked"
  have "\<not> isl (fst ?r)" by code_simp
  then show ?thesis using that by (cases ?r; cases "fst ?r") (auto simp: sample_recorded_def)
qed

theorem attendance_after_end_witness:
  "session_status_of sample_recorded 14 = Some Completed \<and> (\<exists>a. attendance sample_recorded = [a] \<and> at_state a = ARecorded)"
proof -
  obtain out where out: "record_attendance sample_booked 14 (Some 1) Admin (days 4) None sample_booked = (Inr out, sample_recorded)"
    by (rule sample_recorded_run)
  have a: "attendance sample_booked = []" by code_simp
  from attendance_after_end [OF out sample_attendance_inv, unfolded a] show ?thesis by auto
qed

text \<open>
  Of two decisions a student sends from the same version of the attendance row one wins:
  after the confirmation the dispute that carries the version read before is refused as stale, after
  the dispute the confirmation is refused because a disputed row cannot be confirmed; the refused
  request changes nothing.
\<close>

theorem attendance_one_winner:
  assumes inv: "attendance_inv s"
  shows "(\<forall>out t. confirm_attendance sid u (Some n) now s = (Inr out, t) \<longrightarrow>
        dispute_attendance sid u (Some n) why now' t = (Inl (TutoringError AttendanceStaleVersion), t))
      \<and> (\<forall>out t. dispute_attendance sid u (Some n) why now s = (Inr out, t) \<longrightarrow>
        confirm_attendance sid u (Some n) now' t = (Inl (TutoringError AttendanceStateInvalid), t))"
proof (intro conjI allI impI)
  have so: "sessions_ok s" and ao: "attendance_ok s" using inv by (simp_all add: attendance_inv_def)
  fix out t
  {
    assume "confirm_attendance sid u (Some n) now s = (Inr out, t)"
    then obtain sess row where ok: "get_session sid (Some u) Student s = Inr sess" "get_attendance s sid = Some row"
      "at_state row = ARecorded" "Some n \<in> {None, Some (at_version row)}"
      "core t = core (decide_att row (Set_confirmed now) s)" "attendance_ok t"
      by (rule confirm_attendance_ok [OF _ ao]) (rule that, assumption+)
    note r = get_attendance_row [OF ao ok(2)]
    note tabs = coreD(7,8) [OF ok(5), simplified]
    have id: "ts_id sess = sid" using get_session_ok [OF ok(1)] by simp
    have sess: "get_session sid (Some u) Student t = Inr sess"
      using get_session_ok [OF ok(1)] by (intro student_read) (simp_all add: tabs(1))
    define row' where "row' = decided (Set_confirmed now) n row"
    have row': "get_attendance t sid = Some row'"
    proof -
      have "row' \<in> set (attendance t)"
        using r(1) ok(4) by (auto simp: tabs(2) decide_att_def set_update_where row'_def)
      then show ?thesis using get_attendance_iff [OF ok(6)] r(2) by (simp add: row'_def)
    qed
    have "attendance_version t (at_id row') = Some (n + 1)"
      using get_attendance_row(3) [OF ok(6) row'] by (simp add: attendance_version_def row'_def)
    then have "attendance_cas (at_id row') n (Set_disputed now') t = (Inl (TutoringError AttendanceStaleVersion), t)"
      by (intro attendance_write.cas_loses [OF ok(6)]) simp
    then show "dispute_attendance sid u (Some n) why now' t = (Inl (TutoringError AttendanceStaleVersion), t)"
      using sess row' id
      by (simp add: dispute_attendance_def require_attendance_def assert_state_def bump_attendance_def row'_def)
  next
    assume "dispute_attendance sid u (Some n) why now s = (Inr out, t)"
    then have d: "attendance_inv t" and run: "dispute_attendance sid u (Some n) why now s = (Inr out, t)"
      using dispute_attendance_inv inv by blast+
    obtain sess row where ok: "get_session sid (Some u) Student s = Inr sess" "get_attendance s sid = Some row"
      "core t = core (followed sess Disputed (ts_status sess \<noteq> Disputed) now (decide_att row (Set_disputed now) s))"
      by (rule dispute_attendance_ok [OF run ao so]) (rule that, assumption+)
    note r = get_attendance_row [OF ao ok(2)]
    have id: "get_session_row s sid = Some sess" "ts_id sess = sid" "ts_deleted_at sess = None" "u = ts_student sess"
      using get_session_ok [OF ok(1)] by simp_all
    have tabs: "sessions t = sessions (followed sess Disputed (ts_status sess \<noteq> Disputed) now s)"
      "attendance t = attendance (decide_att row (Set_disputed now) s)"
      using coreD(7,8) [OF ok(3)] by (simp_all add: followed_def move_session_def)
    obtain q where q: "get_session_row t sid = Some q" "ts_deleted_at q = None" "ts_student q = u" "ts_id q = sid"
    proof (cases "ts_status sess = Disputed")
      case True
      then show ?thesis using that [of sess] id by (simp add: tabs(1) followed_def)
    next
      case False
      then show ?thesis
        using that move_session_row(1) [OF id(1), of Disputed now "ts_version sess"] id
        by (simp add: tabs(1) followed_def)
    qed
    have "attendance_state_of t sid = Some ADisputed"
      using attendance_state_of_decide [OF ao r(1), of "Set_disputed now" sid] r(2)
      by (simp add: attendance_state_of_def get_attendance_def tabs(2))
    then obtain row' where "get_attendance t sid = Some row'" "at_state row' = ADisputed"
      by (auto simp: attendance_state_of_def)
    then show "confirm_attendance sid u (Some n) now' t = (Inl (TutoringError AttendanceStateInvalid), t)"
      using q by (simp add: confirm_attendance_def get_session_def require_attendance_def assert_state_def)
  }
qed

theorem attendance_one_winner_witness:
  "\<exists>out t. confirm_attendance 14 200 (Some 1) (days 5) sample_recorded = (Inr out, t)
     \<and> dispute_attendance 14 200 (Some 1) None (days 5) t = (Inl (TutoringError AttendanceStaleVersion), t)"
proof -
  obtain o1 where o1: "record_attendance sample_booked 14 (Some 1) Admin (days 4) None sample_booked = (Inr o1, sample_recorded)"
    by (rule sample_recorded_run)
  have inv: "attendance_inv sample_recorded" by (rule record_attendance_inv [OF o1 sample_attendance_inv])
  let ?r = "confirm_attendance 14 200 (Some 1) (days 5) sample_recorded"
  have "\<not> isl (fst ?r)" by code_simp
  then obtain out t where "?r = (Inr out, t)" by (cases ?r; cases "fst ?r") auto
  with attendance_one_winner [OF inv] show ?thesis by blast
qed

end
