(* ===== verification/Reviews.thy ===== *)
theory Reviews
  imports Attendance
begin

text \<open>
  Reviews (\<open>services/tutoring/reviews.py\<close>): validation, the attendance gate, the public aggregate on the
  tutor's row, and the life of a review: creation, edit, deletion and moderation. The average is
  a number of hundredths, as in the column \<open>Numeric(3,2)\<close>.
\<close>

section \<open>Validation\<close>

definition edit_window_days :: int where "edit_window_days = 7"
definition min_rating :: int where "min_rating = 1"
definition max_rating :: int where "max_rating = 5"
definition min_body :: nat where "min_body = 10"
definition max_body :: nat where "max_body = 1000"

fun validate_rating :: "pyval \<Rightarrow> exn + int" where
  "validate_rating (PyInt v) =
     (if v < min_rating \<or> max_rating < v then Inl (TutoringError ValidationError) else Inr v)"
| "validate_rating _ = Inl (TutoringError ValidationError)"

fun validate_body :: "pyval \<Rightarrow> exn + string option" where
  "validate_body PyNone = Inr None"
| "validate_body (PyStr body) =
     (let text = strip body in
      if length text < min_body \<or> max_body < length text then Inl (TutoringError ValidationError)
      else Inr (Some text))"
| "validate_body _ = Inl (TutoringError ValidationError)"

definition assert_reviewable :: "db \<Rightarrow> uid \<Rightarrow> uid \<Rightarrow> exn + tsession" where
  "assert_reviewable s sid author =
     (case get_session sid (Some author) Student s of Inl e \<Rightarrow> Inl e
      | Inr sess \<Rightarrow> (case get_attendance s (ts_id sess) of
          None \<Rightarrow> Inl (TutoringError ReviewBlocked)
        | Some row \<Rightarrow>
            if at_state row \<notin> set reviewable_states then Inl (TutoringError ReviewBlocked) else Inr sess))"

section \<open>The public aggregate\<close>

definition published_reviews :: "db \<Rightarrow> uid \<Rightarrow> review list" where
  "published_reviews s tutor_id =
     filter (\<lambda>r. rv_tutor r = tutor_id \<and> rv_published r \<and> rv_deleted_at r = None) (reviews s)"

record public_aggregate =
  pa_tutor :: uid
  pa_count :: int
  pa_avg :: "int option"
  pa_distribution :: "(int \<times> nat) list"

definition public_aggregate_of :: "db \<Rightarrow> uid \<Rightarrow> public_aggregate" where
  "public_aggregate_of s tutor_id =
     (let rows = published_reviews s tutor_id; ratings = map rv_rating rows;
          count = int (length rows); total = sum_list ratings
      in \<lparr>pa_tutor = tutor_id, pa_count = count,
          pa_avg = (if count \<noteq> 0 then Some (quantize_cents (decimal_div total count)) else None),
          pa_distribution = map (\<lambda>x. (x, count_list ratings x)) (remdups ratings)\<rparr>)"

definition rated :: "public_aggregate \<Rightarrow> instant \<Rightarrow> tutor \<Rightarrow> tutor" where
  "rated a now t = t\<lparr>t_rating_avg := pa_avg a, t_rating_count := pa_count a, t_updated_at := now\<rparr>"

definition recompute_tutor_aggregate :: "uid \<Rightarrow> instant \<Rightarrow> db \<Rightarrow> public_aggregate run" where
  "recompute_tutor_aggregate tutor_id now s =
     (let a = public_aggregate_of s tutor_id; p = (\<lambda>t. t_id t = tutor_id);
          rows = update_where p (rated a now) (tutors s)
      in if \<not> list_all (\<lambda>t. p t \<longrightarrow> tutor_check t) rows then (Inl IntegrityError, s)
         else ok a (s\<lparr>tutors := rows\<rparr>))"

definition list_public_reviews :: "db \<Rightarrow> uid \<Rightarrow> int \<Rightarrow> int \<Rightarrow> exn + review list" where
  "list_public_reviews s tutor_id limit offset =
     (if limit \<le> 0 \<or> 100 < limit then Inl (TutoringError ValidationError)
      else if offset < 0 then Inl (TutoringError ValidationError)
      else Inr (take (nat limit) (drop (nat offset)
        (sort_key (\<lambda>r. (- rv_created_at r, rv_id r)) (published_reviews s tutor_id)))))"

section \<open>Create\<close>

record review_mutation =
  rm_review :: review
  rm_moderation :: "moderation_row option"
  rm_aggregate :: public_aggregate
  rm_intents :: "outbox_intent list"

definition moderation_of :: "db \<Rightarrow> uid \<Rightarrow> moderation_row option" where
  "moderation_of s rid = find (\<lambda>m. md_review m = rid) (moderation s)"

definition published_payload :: "review \<Rightarrow> string \<Rightarrow> json" where
  "published_payload r reason = JObj
     [(''review_id'', JUuid (rv_id r)), (''tutor_id'', JUuid (rv_tutor r)),
      (''session_id'', JUuid (rv_session r)), (''rating'', JInt (rv_rating r)),
      (''has_text'', JBool (rv_body r \<noteq> None)),
      (''text_length'', JInt (case rv_body r of None \<Rightarrow> 0 | Some b \<Rightarrow> int (length b))),
      (''reason'', JStr reason)]"

definition publish_intent :: "review \<Rightarrow> string \<Rightarrow> instant \<Rightarrow> db \<Rightarrow> outbox_intent run" where
  "publish_intent r reason now s =
     enqueue Review_published (rv_id r) (published_payload r reason) now s"

text \<open>The end every mutation shares: the aggregate, the audit row and the result.\<close>

definition finish_review ::
    "audit_action \<Rightarrow> uid \<Rightarrow> uid option \<Rightarrow> role \<Rightarrow> review \<Rightarrow> moderation_row option \<Rightarrow> outbox_intent list
       \<Rightarrow> instant \<Rightarrow> db \<Rightarrow> review_mutation run" where
  "finish_review action resource actor r rw md intents now s =
     bindE (recompute_tutor_aggregate (rv_tutor rw) now s) (\<lambda>a s.
       ok \<lparr>rm_review = rw, rm_moderation = md, rm_aggregate = a, rm_intents = intents\<rparr>
         (record_audit_event action (Some resource) actor r s))"

definition create_review ::
    "db \<Rightarrow> uid \<Rightarrow> uid \<Rightarrow> pyval \<Rightarrow> pyval \<Rightarrow> instant \<Rightarrow> db \<Rightarrow> review_mutation run" where
  "create_review t0 sid author rating body now s =
     bindE (liftE (validate_rating rating) s) (\<lambda>value s.
     bindE (liftE (validate_body body) s) (\<lambda>text s.
     bindE (liftE (assert_reviewable s sid author) s) (\<lambda>sess s.
       if list_ex (\<lambda>r. rv_session r = ts_id sess) (reviews s) then raise ReviewDuplicate s
       else
         let rw = \<lparr>rv_id = next_id s, rv_session = ts_id sess, rv_tutor = ts_tutor sess, rv_author = author,
                    rv_rating = value, rv_body = text, rv_published = (text = None),
                    rv_deadline = now + days edit_window_days, rv_created_at = now, rv_deleted_at = None\<rparr>
         in case insert_review rw (bump s) of
           None \<Rightarrow> raise ReviewDuplicate t0
         | Some s1 \<Rightarrow>
             let md = \<lparr>md_id = next_id s1, md_review = rv_id rw,
                       md_state = (if text = None then MApproved else MPending), md_moderator = None,
                       md_decided_at = (if text = None then Some now else None),
                       md_reason = (if text = None then Some ''auto_approved_rating_only'' else None),
                       md_created_at = now\<rparr>;
                 s2 = bump s1\<lparr>moderation := moderation s1 @ [md]\<rparr>
             in bindE (if rv_published rw
                       then bindE (publish_intent rw ''created'' now s2) (\<lambda>i s. ok [i] s)
                       else ok [] s2) (\<lambda>intents s.
                  finish_review Au_review_created (rv_id rw) (Some author) Student rw (Some md) intents now s))))"

section \<open>Read, edit, delete\<close>

definition get_review :: "db \<Rightarrow> uid \<Rightarrow> uid option \<Rightarrow> bool \<Rightarrow> exn + review" where
  "get_review s rid author include_deleted =
     (case get_review_row s rid of
        None \<Rightarrow> Inl (TutoringError NotFound)
      | Some r \<Rightarrow>
          if rv_deleted_at r \<noteq> None \<and> \<not> include_deleted then Inl (TutoringError NotFound)
          else if (case author of None \<Rightarrow> False | Some u \<Rightarrow> rv_author r \<noteq> u) then Inl (TutoringError NotFound)
          else Inr r)"

text \<open>
  The \<open>values\<close> of an edit: the new rating and the new text, each if it is given. An absent text is
  \<open>None\<close>, a text that is cleared \<open>Some None\<close>.
\<close>

definition edit_values :: "pyval \<Rightarrow> pyval option \<Rightarrow> exn + int option \<times> string option option" where
  "edit_values rating body =
     (case (if rating = PyNone then Inr None
            else case validate_rating rating of Inl e \<Rightarrow> Inl e | Inr v \<Rightarrow> Inr (Some v)) of
        Inl e \<Rightarrow> Inl e
      | Inr value \<Rightarrow>
          (case (case body of None \<Rightarrow> Inr None
                 | Some b \<Rightarrow> (case validate_body b of Inl e \<Rightarrow> Inl e | Inr t \<Rightarrow> Inr (Some t))) of
             Inl e \<Rightarrow> Inl e
           | Inr text \<Rightarrow>
               if value = None \<and> text = None then Inl (TutoringError ValidationError)
               else Inr (value, text)))"

definition re_moderate :: "instant \<Rightarrow> bool \<Rightarrow> moderation_row \<Rightarrow> moderation_row" where
  "re_moderate now text_present m =
     (if text_present
      then m\<lparr>md_state := MPending, md_decided_at := None, md_moderator := None,
             md_reason := Some ''edited_pending_remoderation''\<rparr>
      else m\<lparr>md_state := MApproved, md_decided_at := Some now, md_reason := Some ''auto_approved_rating_only''\<rparr>)"

definition edited :: "int option \<Rightarrow> string option option \<Rightarrow> bool option \<Rightarrow> review \<Rightarrow> review" where
  "edited value text published r =
     r\<lparr>rv_rating := (case value of None \<Rightarrow> rv_rating r | Some v \<Rightarrow> v),
       rv_body := (case text of None \<Rightarrow> rv_body r | Some b \<Rightarrow> b),
       rv_published := (case published of None \<Rightarrow> rv_published r | Some p \<Rightarrow> p)\<rparr>"

definition update_review :: "uid \<Rightarrow> (review \<Rightarrow> review) \<Rightarrow> db \<Rightarrow> unit run" where
  "update_review rid f s =
     (let rows = update_where (\<lambda>r. rv_id r = rid) f (reviews s)
      in if \<not> list_all (\<lambda>r. rv_id r = rid \<longrightarrow> review_check r) rows then (Inl IntegrityError, s)
         else ok () (s\<lparr>reviews := rows\<rparr>))"

definition refreshed :: "db \<Rightarrow> review \<Rightarrow> review" where
  "refreshed s r = (case get_review_row s (rv_id r) of Some q \<Rightarrow> q | None \<Rightarrow> r)"

definition edit_review ::
    "uid \<Rightarrow> uid \<Rightarrow> pyval \<Rightarrow> pyval option \<Rightarrow> instant \<Rightarrow> db \<Rightarrow> review_mutation run" where
  "edit_review rid author rating body now s =
     bindE (liftE (get_review s rid (Some author) False) s) (\<lambda>rw s.
       if rv_deadline rw < now then raise ReviewEditWindowClosed s
       else bindE (liftE (edit_values rating body) s) (\<lambda>(value, text) s.
         let text_changed = (case text of None \<Rightarrow> False | Some b \<Rightarrow> b \<noteq> rv_body rw);
             present = ((case text of None \<Rightarrow> rv_body rw | Some b \<Rightarrow> b) \<noteq> None);
             s1 = (if text_changed
                   then (case moderation_of s (rv_id rw) of None \<Rightarrow> s
                         | Some m \<Rightarrow> s\<lparr>moderation := update_where (\<lambda>x. md_id x = md_id m) (re_moderate now present) (moderation s)\<rparr>)
                   else s)
         in bindE (update_review (rv_id rw) (edited value text (if text_changed then Some (\<not> present) else None)) s1) (\<lambda>_ s.
            let rw' = refreshed s rw; md = moderation_of s (rv_id rw) in
            bindE (if rv_published rw' \<and> text_changed \<and> \<not> present
                   then bindE (publish_intent rw' ''edited'' now s) (\<lambda>i s. ok [i] s)
                   else ok [] s) (\<lambda>intents s.
              finish_review Au_review_edited (rv_id rw') (Some author) Student rw' md intents now s))))"

definition delete_review :: "uid \<Rightarrow> uid \<Rightarrow> instant \<Rightarrow> db \<Rightarrow> review_mutation run" where
  "delete_review rid author now s =
     bindE (liftE (get_review s rid (Some author) False) s) (\<lambda>rw s.
       let s1 = s\<lparr>reviews := update_where (\<lambda>r. rv_id r = rv_id rw \<and> rv_deleted_at r = None)
                    (\<lambda>r. r\<lparr>rv_deleted_at := Some now, rv_published := False\<rparr>) (reviews s)\<rparr>;
           rw' = refreshed s1 rw
       in finish_review Au_review_deleted (rv_id rw') (Some author) Student rw'
            (moderation_of s1 (rv_id rw')) [] now s1)"

section \<open>Moderation\<close>

definition moderation_decisions :: "(string \<times> moderation_state) list" where
  "moderation_decisions = [(''approved'', MApproved), (''rejected'', MRejected)]"

definition moderate_review ::
    "uid \<Rightarrow> uid option \<Rightarrow> string \<Rightarrow> role \<Rightarrow> string option \<Rightarrow> instant \<Rightarrow> db \<Rightarrow> review_mutation run" where
  "moderate_review rid moderator decision actor_role reason now s =
     (if actor_role \<noteq> Admin then raise Forbidden s
      else if moderator = None then raise Forbidden s
      else case map_of moderation_decisions decision of
        None \<Rightarrow> raise ValidationError s
      | Some st \<Rightarrow>
     bindE (liftE (get_review s rid None False) s) (\<lambda>rw s.
       case moderation_of s (rv_id rw) of
         None \<Rightarrow> raise NotFound s
       | Some m \<Rightarrow>
          if md_state m \<noteq> MPending then raise ReviewNotModeratable s
          else
            let p = (\<lambda>x. md_id x = md_id m \<and> md_state x = MPending);
                s1 = s\<lparr>moderation := update_where p (\<lambda>x. x\<lparr>md_state := st, md_moderator := moderator,
                       md_decided_at := Some now,
                       md_reason := (case reason of Some why \<Rightarrow> if why = [] then None else Some (take 200 why) | None \<Rightarrow> None)\<rparr>)
                       (moderation s)\<rparr>
            in if count_where p (moderation s) \<noteq> 1 then raise ReviewNotModeratable s1
               else bindE (update_review (rv_id rw) (edited None None (Some (st = MApproved))) s1) (\<lambda>_ s.
                 let rw' = refreshed s rw; md = moderation_of s (rv_id rw) in
                 bindE (if st = MApproved
                        then bindE (publish_intent rw' ''moderated'' now s) (\<lambda>i s. ok [i] s)
                        else ok [] s) (\<lambda>intents s.
                   finish_review (if st = MApproved then Au_review_approved else Au_review_rejected)
                     (md_id m) moderator Admin rw' md intents now s))))"

definition pending_moderation :: "db \<Rightarrow> int \<Rightarrow> exn + moderation_row list" where
  "pending_moderation s limit =
     (if limit \<le> 0 \<or> 200 < limit then Inl (TutoringError ValidationError)
      else Inr (take (nat limit) (sort_key (\<lambda>m. (md_created_at m, md_id m))
        (filter (\<lambda>m. md_state m = MPending) (moderation s)))))"

section \<open>Lemmas: the average\<close>

text \<open>
  The division is rounded to 27 decimals and the result to two; the two roundings give what one
  exact rounding of the quotient gives, for every count up to \<open>10 ^ 20\<close>.
\<close>

lemma round_half_even_int [simp]: "round_half_even (of_int n) = n"
  by (rule antisym) (simp_all add: round_half_even_le round_half_even_ge)

lemma decimal_quantize:
  assumes b: "0 < b" "b \<le> 10 ^ 20"
  shows "quantize_cents (decimal_div a b) = (200 * a + b) div (2 * b)"
proof -
  define q :: rat where "q = of_int a / of_int b"
  define k r where "k = (200 * a + b) div (2 * b)" and "r = (200 * a + b) mod (2 * b)"
  have kr: "200 * a + b = 2 * b * k + r" "0 \<le> r" "r < 2 * b" using b by (simp_all add: k_def r_def)
  have bq: "(0 :: rat) < of_int b" using b by simp
  have y: "100 * q + 1 / 2 = of_int k + of_int r / (2 * of_int b)"
  proof -
    have "(of_int (200 * a + b) :: rat) = of_int (2 * b * k + r)" using kr(1) by simp
    then have "200 * (of_int a :: rat) + of_int b = 2 * of_int b * of_int k + of_int r" by simp
    then show ?thesis using bq by (simp add: q_def field_simps)
  qed
  define e where "e = decimal_div a b - q"
  have e: "\<bar>e\<bar> \<le> 1 / (2 * 10 ^ 27)"
  proof -
    let ?w = "of_int (round_half_even (q * 10 ^ 27)) - q * 10 ^ 27 :: rat"
    have "e = ?w / 10 ^ 27" by (simp add: e_def decimal_div_def q_def field_simps)
    then have "\<bar>e\<bar> = \<bar>?w\<bar> / 10 ^ 27" by (simp add: abs_divide)
    also have "\<dots> \<le> (1 / 2) / 10 ^ 27" by (intro divide_right_mono round_half_even_err) simp
    finally show ?thesis by simp
  qed
  have "\<lfloor>100 * decimal_div a b + 1 / 2\<rfloor> = k"
  proof (cases "r = 0")
    case True
    then have "q * 10 ^ 27 = of_int ((2 * k - 1) * 5 * 10 ^ 24)" using y by simp
    then have "decimal_div a b = q"
      unfolding decimal_div_def q_def [symmetric] by (simp only: round_half_even_int) (simp add: field_simps)
    with y True show ?thesis by simp
  next
    case False
    have "(of_int b :: rat) \<le> of_int (10 ^ 20)" using b(2) by (simp only: of_int_le_iff)
    then have b20: "(of_int b :: rat) \<le> 10 ^ 20" by simp
    then have "2 * (of_int b :: rat) \<le> 2 * 10 ^ 20" by (rule mult_left_mono) simp
    then have small: "1 / (2 * 10 ^ 20) \<le> 1 / (2 * (of_int b :: rat))"
      by (rule divide_left_mono) (use bq in simp_all)
    have r1: "1 \<le> r" and r2: "r \<le> 2 * b - 1" using False kr by simp_all
    have "(1 :: rat) \<le> of_int r" using r1 by (simp only: of_int_1_le_iff)
    then have lo: "1 / (2 * of_int b :: rat) \<le> of_int r / (2 * of_int b)"
      using bq by (intro divide_right_mono) simp_all
    have "(of_int r :: rat) \<le> of_int (2 * b - 1)" using r2 by (simp only: of_int_le_iff)
    then have "(of_int r :: rat) / (2 * of_int b) \<le> (2 * of_int b - 1) / (2 * of_int b)"
      using bq by (intro divide_right_mono) simp_all
    also have "\<dots> = 1 - 1 / (2 * of_int b)" using bq by (simp add: diff_divide_distrib)
    finally have hi: "(of_int r :: rat) / (2 * of_int b) \<le> 1 - 1 / (2 * of_int b)" .
    have "50 * e + 50 * e + (of_int k + of_int r / (2 * of_int b)) = 100 * (q + e) + 1 / 2" using y by simp
    moreover have "- (1 / (2 * 10 ^ 27)) \<le> e" "e \<le> 1 / (2 * 10 ^ 27)" using e by linarith+
    ultimately have "of_int k \<le> 100 * (q + e) + 1 / 2 \<and> 100 * (q + e) + 1 / 2 < of_int k + 1"
      using lo hi small by simp
    then show ?thesis by (simp add: e_def floor_eq_iff)
  qed
  then show ?thesis by (simp add: quantize_cents_def round_half_up_def k_def)
qed

lemma sum_list_bounds:
  "\<forall>x \<in> set xs. lo \<le> x \<and> x \<le> hi \<Longrightarrow> lo * int (length xs) \<le> sum_list xs \<and> sum_list xs \<le> hi * int (length xs)"
  by (induction xs) (auto simp: algebra_simps)

lemma average_bounds:
  assumes "0 < (n :: int)" "n \<le> w" "w \<le> 5 * n"
  shows "100 \<le> (200 * w + n) div (2 * n)" "(200 * w + n) div (2 * n) \<le> 500"
proof -
  show "100 \<le> (200 * w + n) div (2 * n)"
    using zdiv_mono1 [of "100 * (2 * n)" "200 * w + n" "2 * n"] assms by simp
  have "(200 * w + n) div (2 * n) \<le> (500 * (2 * n) + n) div (2 * n)"
    using assms by (intro zdiv_mono1) simp_all
  also have "\<dots> = 500" using assms(1) by (subst div_mult_self3) simp_all
  finally show "(200 * w + n) div (2 * n) \<le> 500" .
qed

section \<open>Lemmas: the shared steps\<close>

definition rated_tutors :: "uid \<Rightarrow> instant \<Rightarrow> db \<Rightarrow> db" where
  "rated_tutors tid now s = s\<lparr>tutors := update_where (\<lambda>t. t_id t = tid)
     (rated (public_aggregate_of s tid) now) (tutors s)\<rparr>"

lemma rated_tutors_sel [simp]:
  "reviews (rated_tutors i now s) = reviews s" "moderation (rated_tutors i now s) = moderation s"
  "sessions (rated_tutors i now s) = sessions s" "attendance (rated_tutors i now s) = attendance s"
  "slots (rated_tutors i now s) = slots s" "holds (rated_tutors i now s) = holds s"
  "orders (rated_tutors i now s) = orders s" "refunds (rated_tutors i now s) = refunds s"
  "pay_events (rated_tutors i now s) = pay_events s" "next_id (rated_tutors i now s) = next_id s"
  "jobs (rated_tutors i now s) = jobs s" "outbox (rated_tutors i now s) = outbox s"
  by (simp_all add: rated_tutors_def)

lemma aggregate_cong: "reviews u = reviews s \<Longrightarrow> public_aggregate_of u i = public_aggregate_of s i"
  by (simp add: public_aggregate_of_def published_reviews_def)

lemma rated_core: "core u = core s \<Longrightarrow> core (rated_tutors i now u) = core (rated_tutors i now s)"
  using aggregate_cong [OF coreD(10), of u s i] coreD(1) [of u s]
  by (simp add: rated_tutors_def) (simp add: core_def)

lemma finish_review_ok:
  assumes "finish_review act res actor r rw md is now s = (Inr out, t)"
  shows "rm_review out = rw" and "rm_moderation out = md" and "rm_intents out = is"
    and "rm_aggregate out = public_aggregate_of s (rv_tutor rw)"
    and "core t = core (rated_tutors (rv_tutor rw) now s)"
    and "next_id t = next_id s" and "jobs t = jobs s" and "outbox t = outbox s"
proof -
  have "t = record_audit_event act (Some res) actor r (rated_tutors (rv_tutor rw) now s) \<and> rm_review out = rw
    \<and> rm_moderation out = md \<and> rm_intents out = is \<and> rm_aggregate out = public_aggregate_of s (rv_tutor rw)"
    using assms by (auto simp: finish_review_def recompute_tutor_aggregate_def run_simps Let_def rated_tutors_def
        split: if_split_asm)
  then show "rm_review out = rw" "rm_moderation out = md" "rm_intents out = is"
    "rm_aggregate out = public_aggregate_of s (rv_tutor rw)" "core t = core (rated_tutors (rv_tutor rw) now s)"
    "next_id t = next_id s" "jobs t = jobs s" "outbox t = outbox s" by simp_all
qed

lemma publish_ok:
  assumes "(if b then bindE (publish_intent rw why now s) (\<lambda>i s. ok [i] s) else ok [] s) = (Inr is, t)"
  shows "core t = core s" and "next_id s \<le> next_id t" and "jobs t = jobs s"
    and "\<exists>xs. outbox t = outbox s @ xs \<and> map ob_kind xs = (if b then [Review_published] else [])
      \<and> (\<forall>x \<in> set xs. ob_id x = next_id s \<and> ob_id x < next_id t \<and> ob_aggregate x = rv_id rw)"
proof -
  have "t = (if b then outboxed Review_published (rv_id rw) (published_payload rw why) now s else s)"
    using assms by (auto simp: publish_intent_def run_simps split: if_splits dest: enqueue_ok)
  then show "core t = core s" "next_id s \<le> next_id t" "jobs t = jobs s"
    "\<exists>xs. outbox t = outbox s @ xs \<and> map ob_kind xs = (if b then [Review_published] else [])
      \<and> (\<forall>x \<in> set xs. ob_id x = next_id s \<and> ob_id x < next_id t \<and> ob_aggregate x = rv_id rw)"
    by (auto simp: outboxed_def core_def)
qed

lemma update_review_ok:
  assumes "update_review rid f s = (Inr x, t)"
  shows "t = s\<lparr>reviews := update_where (\<lambda>r. rv_id r = rid) f (reviews s)\<rparr>"
    and "\<And>r. r \<in> set (reviews t) \<Longrightarrow> rv_id r = rid \<Longrightarrow> review_check r"
  using assms by (auto simp: update_review_def Let_def list_all_iff split: if_split_asm)

section \<open>Lemmas: the review tables\<close>

text \<open>
  One review per session, one moderation record per review, every deleted review unpublished, and no
  published text without the approval of a named moderator.
\<close>

definition vetted :: "moderation_row option \<Rightarrow> review \<Rightarrow> bool" where
  "vetted md r \<longleftrightarrow> (rv_deleted_at r \<noteq> None \<longrightarrow> \<not> rv_published r)
     \<and> (\<exists>m. md = Some m \<and> (rv_published r \<and> rv_body r \<noteq> None \<longrightarrow> md_state m = MApproved \<and> md_moderator m \<noteq> None))"

definition reviews_inv :: "db \<Rightarrow> bool" where
  "reviews_inv s \<longleftrightarrow> distinct (map rv_id (reviews s)) \<and> distinct (map rv_session (reviews s))
     \<and> distinct (map md_id (moderation s)) \<and> distinct (map md_review (moderation s))
     \<and> (\<forall>r \<in> set (reviews s). review_check r \<and> rv_id r < next_id s \<and> vetted (moderation_of s (rv_id r)) r)
     \<and> (\<forall>m \<in> set (moderation s). md_id m < next_id s \<and> md_review m < next_id s)"

lemma reviews_invD:
  assumes "reviews_inv s"
  shows "distinct (map rv_id (reviews s))" "distinct (map rv_session (reviews s))"
    "distinct (map md_id (moderation s))" "distinct (map md_review (moderation s))"
    "\<And>r. r \<in> set (reviews s) \<Longrightarrow> review_check r" "\<And>r. r \<in> set (reviews s) \<Longrightarrow> rv_id r < next_id s"
    "\<And>r. r \<in> set (reviews s) \<Longrightarrow> vetted (moderation_of s (rv_id r)) r"
    "\<And>m. m \<in> set (moderation s) \<Longrightarrow> md_id m < next_id s" "\<And>m. m \<in> set (moderation s) \<Longrightarrow> md_review m < next_id s"
  using assms unfolding reviews_inv_def by blast+

lemma reviews_inv_frame:
  assumes "reviews_inv s" and "reviews t = reviews s" and "moderation t = moderation s" and "next_id s \<le> next_id t"
  shows "reviews_inv t"
  using assms by (auto simp: reviews_inv_def moderation_of_def intro: order_less_le_trans)

lemma moderation_of_row: "moderation_of s rid = find_row md_review rid (moderation s)"
  by (simp add: moderation_of_def find_row_def)

text \<open>A change of one review and of its moderation record.\<close>

lemma reviews_inv_update:
  assumes inv: "reviews_inv s" and rw: "rw \<in> set (reviews s)" "f rw = rw'" and m: "moderation_of s (rv_id rw) = Some m"
    and f: "\<And>r. rv_id (f r) = rv_id r" "\<And>r. rv_session (f r) = rv_session r"
    and g: "\<And>x. md_id (g x) = md_id x" "\<And>x. md_review (g x) = md_review x"
    and check: "review_check rw'" and vet: "vetted (Some (g m)) rw'"
    and t: "reviews t = update_where (\<lambda>r. rv_id r = rv_id rw) f (reviews s)"
      "moderation t = update_where (\<lambda>x. md_id x = md_id m) g (moderation s)" "next_id s \<le> next_id t"
  shows "reviews_inv t"
proof -
  have m': "m \<in> set (moderation s)" "md_review m = rv_id rw"
    using m by (auto simp: moderation_of_row dest: find_row_SomeD)
  have mod: "moderation_of t i = map_option (\<lambda>x. if md_id x = md_id m then g x else x) (moderation_of s i)" for i
    by (simp add: moderation_of_row t(2) find_row_update g)
  have same: "moderation_of t i = moderation_of s i" if "i \<noteq> rv_id rw" for i
  proof (cases "moderation_of s i")
    case (Some x)
    then have "x \<in> set (moderation s)" "md_review x = i" by (auto simp: moderation_of_row dest: find_row_SomeD)
    then have "md_id x \<noteq> md_id m" using reviews_invD(3) [OF inv] m' that by (metis distinct_map inj_onD)
    with Some show ?thesis by (simp add: mod)
  qed (simp add: mod)
  have own: "r = rw" if "r \<in> set (reviews s)" "rv_id r = rv_id rw" for r
    using reviews_invD(1) [OF inv] rw(1) that by (metis distinct_map inj_onD)
  have 1: "review_check r \<and> rv_id r < next_id t \<and> vetted (moderation_of t (rv_id r)) r" if r: "r \<in> set (reviews t)" for r
  proof (cases "rv_id r = rv_id rw")
    case True
    then have "r = rw'" using r own rw(2) by (auto simp: t(1) set_update_where f)
    moreover have "rv_id rw' = rv_id rw" using rw(2) f(1) by auto
    ultimately show ?thesis
      using check vet m reviews_invD(6) [OF inv rw(1)] t(3) by (simp add: mod)
  next
    case False
    then have "r \<in> set (reviews s)" using r by (auto simp: t(1) set_update_where f)
    then show ?thesis using reviews_invD(5-7) [OF inv, of r] same [OF False] t(3) by simp
  qed
  have 2: "md_id x < next_id t \<and> md_review x < next_id t" if "x \<in> set (moderation t)" for x
  proof -
    have "\<exists>y \<in> set (moderation s). md_id x = md_id y \<and> md_review x = md_review y"
    proof (cases "x \<in> set (moderation s)")
      case False
      then obtain y where "y \<in> set (moderation s)" "x = g y" using \<open>x \<in> set (moderation t)\<close> by (auto simp: t(2) set_update_where)
      then show ?thesis by (intro bexI [of _ y]) (simp_all add: g)
    qed blast
    then show ?thesis using reviews_invD(8,9) [OF inv] t(3) by (metis order_less_le_trans)
  qed
  have "map rv_id (reviews t) = map rv_id (reviews s)" "map rv_session (reviews t) = map rv_session (reviews s)"
    "map md_id (moderation t) = map md_id (moderation s)" "map md_review (moderation t) = map md_review (moderation s)"
    by (simp_all add: t map_update_where f g)
  with reviews_invD(1-4) [OF inv] 1 2 show ?thesis unfolding reviews_inv_def by simp
qed

lemma update_where_id [simp]: "update_where p (\<lambda>x. x) xs = xs"
  by (induction xs) auto

lemma get_review_ok:
  "get_review s rid author False = Inr rw \<Longrightarrow> get_review_row s rid = Some rw \<and> rv_id rw = rid
     \<and> rw \<in> set (reviews s) \<and> rv_deleted_at rw = None \<and> (\<forall>u. author = Some u \<longrightarrow> rv_author rw = u)"
  by (auto simp: get_review_def split: option.split_asm if_split_asm dest: find_row_SomeD)

lemma validate_rating_ok: "validate_rating v = Inr n \<longleftrightarrow> v = PyInt n \<and> 1 \<le> n \<and> n \<le> 5"
  by (cases v) (auto simp: min_rating_def max_rating_def)

lemma validate_body_ok:
  "validate_body v = Inr b \<Longrightarrow> (case b of None \<Rightarrow> v = PyNone | Some x \<Rightarrow> 10 \<le> length x \<and> length x \<le> 1000)"
  by (cases v) (auto simp: Let_def min_body_def max_body_def split: if_split_asm)

lemma edit_values_ok:
  assumes "edit_values rating body = Inr (value, text)"
  shows "(\<forall>v. value = Some v \<longrightarrow> 1 \<le> v \<and> v \<le> 5)"
    and "(\<forall>b. text = Some (Some b) \<longrightarrow> 10 \<le> length b \<and> length b \<le> 1000)"
proof -
  have "value = None \<or> (\<exists>v. value = Some v \<and> validate_rating rating = Inr v)"
    using assms by (auto simp: edit_values_def split: if_splits sum.splits option.splits)
  then show "\<forall>v. value = Some v \<longrightarrow> 1 \<le> v \<and> v \<le> 5" by (auto simp: validate_rating_ok)
  have "text = None \<or> (\<exists>b t. text = Some t \<and> validate_body b = Inr t)"
    using assms by (auto simp: edit_values_def split: if_splits sum.splits option.splits)
  then show "\<forall>b. text = Some (Some b) \<longrightarrow> 10 \<le> length b \<and> length b \<le> 1000"
    by (auto dest: validate_body_ok)
qed

lemma edited_sel [simp]:
  "rv_id (edited v b p r) = rv_id r" "rv_session (edited v b p r) = rv_session r"
  "rv_tutor (edited v b p r) = rv_tutor r" "rv_author (edited v b p r) = rv_author r"
  "rv_deleted_at (edited v b p r) = rv_deleted_at r"
  by (simp_all add: edited_def)

lemma re_moderate_sel [simp]:
  "md_id (re_moderate now b m) = md_id m" "md_review (re_moderate now b m) = md_review m"
  by (simp_all add: re_moderate_def)

lemma bump_sel:
  "next_id (bump s) = Suc (next_id s)" "reviews (bump s) = reviews s" "moderation (bump s) = moderation s"
  by (simp_all add: bump_def)

lemma create_review_ok:
  assumes "create_review t0 sid author rating body now s = (Inr out, t)" and inv: "reviews_inv s"
  obtains stars content sess rw md where "validate_rating rating = Inr stars" and "validate_body body = Inr content"
    and "assert_reviewable s sid author = Inr sess"
    and "rw = \<lparr>rv_id = next_id s, rv_session = ts_id sess, rv_tutor = ts_tutor sess, rv_author = author,
                rv_rating = stars, rv_body = content, rv_published = (content = None),
                rv_deadline = now + days edit_window_days, rv_created_at = now, rv_deleted_at = None\<rparr>"
    and "md_id md = Suc (next_id s)" and "md_review md = next_id s" and "md_state md = (if content = None then MApproved else MPending)"
    and "rm_review out = rw" and "rm_moderation out = Some md" and "review_check rw"
    and "ts_id sess \<notin> rv_session ` set (reviews s)"
    and "core t = core (rated_tutors (ts_tutor sess) now (s\<lparr>reviews := reviews s @ [rw], moderation := moderation s @ [md]\<rparr>))"
    and "next_id s < next_id t" and "jobs t = jobs s" and "reviews_inv t"
    and "\<exists>xs. outbox t = outbox s @ xs \<and> map ob_kind xs = (if content = None then [Review_published] else [])
           \<and> (\<forall>x \<in> set xs. next_id s \<le> ob_id x \<and> ob_id x < next_id t)"
proof -
  obtain stars where v: "validate_rating rating = Inr stars"
    using assms(1) by (auto simp: create_review_def run_simps)
  obtain content where b: "validate_body body = Inr content"
    using assms(1) v by (auto simp: create_review_def run_simps)
  obtain sess where g: "assert_reviewable s sid author = Inr sess"
    using assms(1) v b by (auto simp: create_review_def run_simps)
  define rw where "rw = \<lparr>rv_id = next_id s, rv_session = ts_id sess, rv_tutor = ts_tutor sess, rv_author = author,
                rv_rating = stars, rv_body = content, rv_published = (content = None),
                rv_deadline = now + days edit_window_days, rv_created_at = now, rv_deleted_at = None\<rparr>"
  define md where "md = \<lparr>md_id = Suc (next_id s), md_review = next_id s,
                       md_state = (if content = None then MApproved else MPending), md_moderator = None,
                       md_decided_at = (if content = None then Some now else None),
                       md_reason = (if content = None then Some ''auto_approved_rating_only'' else None),
                       md_created_at = now\<rparr>"
  let ?s = "bump (bump s\<lparr>reviews := reviews s @ [rw]\<rparr>)\<lparr>moderation := moderation s @ [md]\<rparr>"
  have ins: "insert_review rw (bump s) = Some (bump s\<lparr>reviews := reviews s @ [rw]\<rparr>)" and chk: "review_check rw"
    and one: "ts_id sess \<notin> rv_session ` set (reviews s)"
    using assms(1) v b g by (auto simp: create_review_def rw_def insert_review_def bump_def Let_def
        split: if_split_asm option.split_asm)
  have nodup: "\<not> list_ex (\<lambda>r. rv_session r = ts_id sess) (reviews s)"
    using one by (metis (mono_tags, lifting) image_eqI list_ex_iff)
  let ?run = "if rv_published rw then bindE (publish_intent rw ''created'' now ?s) (\<lambda>i s. ok [i] s) else ok [] ?s"
  let ?finish = "\<lambda>ix. finish_review Au_review_created (rv_id rw) (Some author) Student rw (Some md) ix now"
  have "create_review t0 sid author rating body now s = bindE ?run ?finish"
    using ins nodup unfolding rw_def md_def
    by (simp add: create_review_def v b g bump_sel Let_def split del: if_split)
  then have "bindE ?run ?finish = (Inr out, t)" using assms(1) by (rule subst)
  then obtain ix u where u: "?run = (Inr ix, u)" "?finish ix u = (Inr out, t)"
    unfolding bindE_Inr by (elim exE conjE) (rule that)
  note p = publish_ok [OF u(1)] and f = finish_review_ok [OF u(2)]
  have c: "core t = core (rated_tutors (ts_tutor sess) now (s\<lparr>reviews := reviews s @ [rw], moderation := moderation s @ [md]\<rparr>))"
  proof -
    have "rv_tutor rw = ts_tutor sess" by (simp add: rw_def)
    moreover have "core u = core (s\<lparr>reviews := reviews s @ [rw], moderation := moderation s @ [md]\<rparr>)"
      using p(1) by (simp add: core_def bump_def)
    ultimately show ?thesis using f(5) by (metis rated_core)
  qed
  note tabs = coreD(10,11) [OF c, simplified]
  have fresh: "next_id s \<notin> md_review ` set (moderation s)" "next_id s \<notin> rv_id ` set (reviews s)"
    "Suc (next_id s) \<notin> md_id ` set (moderation s)"
    using reviews_invD(6,8,9) [OF inv] by fastforce+
  have mod: "moderation_of t i = (if i = next_id s then Some md else moderation_of s i)" for i
    using fresh(1) find_row_None_iff [of md_review "next_id s" "moderation s"]
    by (auto simp: moderation_of_row tabs find_row_append split: option.splits) (simp_all add: md_def)
  have lt: "Suc (next_id s) < next_id t" using f(6) p(2) by (simp add: bump_def)
  have "vetted (Some md) rw" by (cases content) (simp_all add: vetted_def rw_def md_def)
  moreover have keys: "rv_id rw = next_id s" "rv_session rw = ts_id sess" "md_id md = Suc (next_id s)" "md_review md = next_id s"
    by (simp_all add: rw_def md_def)
  ultimately have new: "review_check rw \<and> rv_id rw < next_id t \<and> vetted (moderation_of t (rv_id rw)) rw"
    "md_id md < next_id t \<and> md_review md < next_id t"
    using chk lt by (simp_all add: mod)
  have old: "review_check r \<and> rv_id r < next_id t \<and> vetted (moderation_of t (rv_id r)) r" if "r \<in> set (reviews s)" for r
  proof -
    have "rv_id r \<noteq> next_id s" using fresh(2) that by (metis image_eqI)
    then show ?thesis using reviews_invD(5-7) [OF inv that] lt by (simp add: mod)
  qed
  have oldm: "md_id m < next_id t \<and> md_review m < next_id t" if "m \<in> set (moderation s)" for m
    using reviews_invD(8,9) [OF inv that] lt by simp
  have inv': "reviews_inv t"
    using reviews_invD(1-4) [OF inv] fresh one new old oldm keys by (auto simp: reviews_inv_def tabs)
  show ?thesis
  proof (rule that [OF v b g rw_def _ _ _ f(1,2) chk one c _ _ inv'])
    show "next_id s < next_id t" using lt by simp
    show "jobs t = jobs s" using p(3) f(7) by (simp add: bump_def)
    have pub: "rv_published rw \<longleftrightarrow> content = None" by (simp add: rw_def)
    show "\<exists>xs. outbox t = outbox s @ xs \<and> map ob_kind xs = (if content = None then [Review_published] else [])
           \<and> (\<forall>x \<in> set xs. next_id s \<le> ob_id x \<and> ob_id x < next_id t)"
      using p(4) unfolding f(6,8) pub by (force simp: bump_def)
  qed (simp_all add: md_def)
qed

lemma refreshed_row:
  fixes s t :: db
  assumes "distinct (map rv_id (reviews s))" and "rw \<in> set (reviews s)" and "\<And>r. rv_id (f r) = rv_id r"
    and "reviews t = update_where (\<lambda>r. rv_id r = rv_id rw) f (reviews s)"
  shows "refreshed t rw = f rw"
proof -
  have "get_review_row s (rv_id rw) = Some rw" using assms(1,2) by (simp add: find_row_Some_iff)
  then have "get_review_row t (rv_id rw) = Some (f rw)" by (simp add: assms(4) find_row_update assms(3))
  then show ?thesis by (simp add: refreshed_def)
qed

lemma edit_review_ok:
  assumes "edit_review rid author rating body now s = (Inr out, t)" and inv: "reviews_inv s"
  obtains stars content rw pub u where "get_review_row s rid = Some rw" and "rw \<in> set (reviews s)"
    and "rv_author rw = author" and "rv_deleted_at rw = None" and "now \<le> rv_deadline rw"
    and "edit_values rating body = Inr (stars, content)" and "rm_review out = edited stars content pub rw"
    and "pub = (case content of None \<Rightarrow> None | Some b \<Rightarrow> if b = rv_body rw then None else Some (b = None))"
    and "reviews u = update_where (\<lambda>r. rv_id r = rid) (edited stars content pub) (reviews s)"
    and "u = s\<lparr>reviews := reviews u, moderation := moderation u\<rparr>"
    and "core t = core (rated_tutors (rv_tutor rw) now u)"
    and "next_id s \<le> next_id t" and "jobs t = jobs s" and "reviews_inv t"
    and "\<exists>xs. outbox t = outbox s @ xs \<and> (\<forall>x \<in> set xs. next_id s \<le> ob_id x \<and> ob_id x < next_id t) \<and> length xs \<le> 1"
proof -
  obtain rw where g: "get_review s rid (Some author) False = Inr rw" "now \<le> rv_deadline rw"
    using assms(1) by (auto simp: edit_review_def run_simps not_less split: if_split_asm)
  obtain stars content where e: "edit_values rating body = Inr (stars, content)"
    using assms(1) g by (auto simp: edit_review_def run_simps)
  note gr = get_review_ok [OF g(1)]
  have id: "rv_id rw = rid" and mem: "rw \<in> set (reviews s)" using gr by simp_all
  define changed where "changed = (case content of None \<Rightarrow> False | Some b \<Rightarrow> b \<noteq> rv_body rw)"
  define present where "present = ((case content of None \<Rightarrow> rv_body rw | Some b \<Rightarrow> b) \<noteq> None)"
  define pub where "pub = (if changed then Some (\<not> present) else None)"
  obtain m where m: "moderation_of s rid = Some m" using reviews_invD(7) [OF inv mem] id by (auto simp: vetted_def)
  define k where "k = (if changed then re_moderate now present else (\<lambda>x. x))"
  define s1 where "s1 = (if changed then s\<lparr>moderation := update_where (\<lambda>x. md_id x = md_id m) (re_moderate now present) (moderation s)\<rparr> else s)"
  have s1: "s1 = s\<lparr>moderation := update_where (\<lambda>x. md_id x = md_id m) k (moderation s)\<rparr>"
    by (simp add: s1_def k_def)
  let ?tail = "\<lambda>_ (s :: db). let rw' = refreshed s rw; md = moderation_of s (rv_id rw) in
            bindE (if rv_published rw' \<and> changed \<and> \<not> present
                   then bindE (publish_intent rw' ''edited'' now s) (\<lambda>i s. ok [i] s)
                   else ok [] s) (\<lambda>intents s.
              finish_review Au_review_edited (rv_id rw') (Some author) Student rw' md intents now s)"
  have "edit_review rid author rating body now s = bindE (update_review (rv_id rw) (edited stars content pub) s1) ?tail"
    unfolding edit_review_def using g e m id
    by (simp add: changed_def present_def pub_def s1_def Let_def cong: option.case_cong)
  then have "bindE (update_review (rv_id rw) (edited stars content pub) s1) ?tail = (Inr out, t)"
    using assms(1) by (rule subst)
  then obtain u where u: "update_review (rv_id rw) (edited stars content pub) s1 = (Inr (), u)" "?tail () u = (Inr out, t)"
    unfolding bindE_Inr by auto
  note ur = update_review_ok [OF u(1)]
  have uu: "reviews u = update_where (\<lambda>r. rv_id r = rid) (edited stars content pub) (reviews s)"
    "moderation u = update_where (\<lambda>x. md_id x = md_id m) k (moderation s)" "next_id u = next_id s" "jobs u = jobs s" "outbox u = outbox s"
    "u = s\<lparr>reviews := reviews u, moderation := moderation u\<rparr>"
    using ur(1) by (simp_all add: s1 id)
  define rw' where "rw' = edited stars content pub rw"
  have rr: "refreshed u rw = rw'"
    unfolding rw'_def
    by (rule refreshed_row [OF reviews_invD(1) [OF inv] mem]) (simp_all add: uu(1) id)
  obtain ix v where v: "(if rv_published rw' \<and> changed \<and> \<not> present
        then bindE (publish_intent rw' ''edited'' now u) (\<lambda>i s. ok [i] s) else ok [] u) = (Inr ix, v)"
      "finish_review Au_review_edited (rv_id rw') (Some author) Student rw' (moderation_of u (rv_id rw)) ix now v = (Inr out, t)"
    using u(2) unfolding Let_def rr bindE_Inr by (elim exE conjE) (rule that)
  note p = publish_ok [OF v(1)] and f = finish_review_ok [OF v(2)]
  have c: "core t = core (rated_tutors (rv_tutor rw) now u)"
    using f(5) rated_core [OF p(1)] by (simp add: rw'_def)
  note tabs = coreD(10,11) [OF c, simplified]
  have "rw' \<in> set (reviews u)" using mem by (auto simp: uu(1) set_update_where id rw'_def)
  then have chk: "review_check rw'" using ur(2) by (simp add: rw'_def)
  have vet: "vetted (Some (k m)) rw'"
    using reviews_invD(7) [OF inv mem] m id gr
    by (auto simp: vetted_def rw'_def edited_def pub_def changed_def present_def k_def re_moderate_def split: option.splits)
  have "reviews_inv t"
    by (rule reviews_inv_update [OF inv mem, of "edited stars content pub" rw' m k, OF rw'_def [symmetric] _ _ _ _ _ chk vet])
      (use m id f(6) p(2) uu in \<open>simp_all add: tabs k_def\<close>)
  moreover have "pub = (case content of None \<Rightarrow> None | Some b \<Rightarrow> if b = rv_body rw then None else Some (b = None))"
    by (simp add: pub_def changed_def present_def split: option.split)
  moreover have "\<exists>xs. outbox t = outbox s @ xs \<and> (\<forall>x \<in> set xs. next_id s \<le> ob_id x \<and> ob_id x < next_id t) \<and> length xs \<le> 1"
    using p(4) unfolding f(6,8) uu(3,5) by (metis (no_types, lifting) One_nat_def le_0_eq le_eq_less_or_eq length_0_conv length_Cons length_map list.size(3) nat_le_linear)
  ultimately show ?thesis
    using that [of rw stars content pub u] gr g(2) e uu c f(1,6,7) p(2,3) by (simp add: rw'_def)
qed

lemma delete_review_ok:
  assumes "delete_review rid author now s = (Inr out, t)" and inv: "reviews_inv s"
  obtains rw u where "get_review_row s rid = Some rw" and "rw \<in> set (reviews s)" and "rv_id rw = rid"
    and "rv_author rw = author" and "rv_deleted_at rw = None"
    and "rm_review out = rw\<lparr>rv_deleted_at := Some now, rv_published := False\<rparr>"
    and "u = s\<lparr>reviews := update_where (\<lambda>r. rv_id r = rid) (\<lambda>r. r\<lparr>rv_deleted_at := Some now, rv_published := False\<rparr>) (reviews s)\<rparr>"
    and "core t = core (rated_tutors (rv_tutor rw) now u)"
    and "next_id t = next_id s" and "jobs t = jobs s" and "outbox t = outbox s" and "reviews_inv t"
proof -
  obtain rw where g: "get_review s rid (Some author) False = Inr rw"
    using assms(1) by (auto simp: delete_review_def run_simps)
  note gr = get_review_ok [OF g]
  have id: "rv_id rw = rid" and mem: "rw \<in> set (reviews s)" using gr by simp_all
  obtain m where m: "moderation_of s rid = Some m" using reviews_invD(7) [OF inv mem] id by (auto simp: vetted_def)
  let ?f = "\<lambda>r. r\<lparr>rv_deleted_at := Some now, rv_published := False\<rparr>"
  define u where "u = s\<lparr>reviews := update_where (\<lambda>r. rv_id r = rid) ?f (reviews s)\<rparr>"
  have "update_where (\<lambda>r. rv_id r = rid \<and> rv_deleted_at r = None) ?f (reviews s)
      = update_where (\<lambda>r. rv_id r = rid) ?f (reviews s)"
  proof (rule update_where_cong)
    fix r assume "r \<in> set (reviews s)"
    then have "rv_id r = rid \<Longrightarrow> r = rw" using reviews_invD(1) [OF inv] mem id by (metis distinct_map inj_onD)
    then show "rv_id r = rid \<and> rv_deleted_at r = None \<longleftrightarrow> rv_id r = rid" using gr by auto
  qed
  then have u: "s\<lparr>reviews := update_where (\<lambda>r. rv_id r = rv_id rw \<and> rv_deleted_at r = None) ?f (reviews s)\<rparr> = u"
    by (simp add: u_def id)
  have rr: "refreshed u rw = ?f rw"
    by (rule refreshed_row [OF reviews_invD(1) [OF inv] mem]) (simp_all add: u_def id)
  have v: "finish_review Au_review_deleted (rv_id (?f rw)) (Some author) Student (?f rw)
      (moderation_of u (rv_id (?f rw))) [] now u = (Inr out, t)"
    using assms(1) unfolding delete_review_def Let_def g liftE_def bindE_simps u rr by simp
  note f = finish_review_ok [OF v]
  have c: "core t = core (rated_tutors (rv_tutor rw) now u)" using f(5) by simp
  note tabs = coreD(10,11) [OF c, simplified]
  have vet: "vetted (Some m) (?f rw)" by (simp add: vetted_def)
  have chk: "review_check (?f rw)" using reviews_invD(5) [OF inv mem] by (simp add: review_check_def)
  have "reviews_inv t"
    by (rule reviews_inv_update [OF inv mem, of ?f "?f rw" m "\<lambda>x. x", OF refl _ _ _ _ _ chk])
      (use m id f(6) vet in \<open>simp_all add: tabs u_def\<close>)
  then show ?thesis using that [of rw u] gr f c by (simp add: u_def)
qed

lemma moderate_review_ok:
  assumes "moderate_review rid moderator decision r reason now s = (Inr out, t)" and inv: "reviews_inv s"
  obtains st rw m u where "r = Admin" and "moderator \<noteq> None" and "map_of moderation_decisions decision = Some st"
    and "get_review_row s rid = Some rw" and "rw \<in> set (reviews s)" and "rv_id rw = rid" and "rv_deleted_at rw = None"
    and "moderation_of s rid = Some m" and "md_state m = MPending"
    and "rm_review out = edited None None (Some (st = MApproved)) rw"
    and "reviews u = update_where (\<lambda>r. rv_id r = rid) (edited None None (Some (st = MApproved))) (reviews s)"
    and "moderation_of u rid = Some (m\<lparr>md_state := st, md_moderator := moderator, md_decided_at := Some now,
           md_reason := (case reason of Some why \<Rightarrow> if why = [] then None else Some (take 200 why) | None \<Rightarrow> None)\<rparr>)"
    and "u = s\<lparr>reviews := reviews u, moderation := moderation u\<rparr>"
    and "core t = core (rated_tutors (rv_tutor rw) now u)"
    and "next_id s \<le> next_id t" and "jobs t = jobs s" and "reviews_inv t"
    and "\<exists>xs. outbox t = outbox s @ xs \<and> map ob_kind xs = (if st = MApproved then [Review_published] else [])
           \<and> (\<forall>x \<in> set xs. next_id s \<le> ob_id x \<and> ob_id x < next_id t)"
proof -
  have who: "r = Admin" "moderator \<noteq> None" using assms(1) by (auto simp: moderate_review_def split: if_split_asm)
  obtain w where w: "moderator = Some w" using who(2) by auto
  obtain st where st: "map_of moderation_decisions decision = Some st"
    using assms(1) who by (auto simp: moderate_review_def split: option.split_asm)
  obtain rw where g: "get_review s rid None False = Inr rw"
    using assms(1) who st by (auto simp: moderate_review_def run_simps)
  note gr = get_review_ok [OF g]
  have id: "rv_id rw = rid" and mem: "rw \<in> set (reviews s)" using gr by simp_all
  obtain m where m: "moderation_of s rid = Some m" using reviews_invD(7) [OF inv mem] id by (auto simp: vetted_def)
  have mm: "m \<in> set (moderation s)" "md_review m = rid" using m by (auto simp: moderation_of_row dest: find_row_SomeD)
  have pend: "md_state m = MPending"
    using assms(1) who st g m id by (auto simp: moderate_review_def run_simps split: if_split_asm)
  let ?p = "\<lambda>x. md_id x = md_id m \<and> md_state x = MPending"
  let ?g = "\<lambda>x. x\<lparr>md_state := st, md_moderator := moderator, md_decided_at := Some now,
           md_reason := (case reason of Some why \<Rightarrow> if why = [] then None else Some (take 200 why) | None \<Rightarrow> None)\<rparr>"
  have "update_where ?p ?g (moderation s) = update_where (\<lambda>x. md_id x = md_id m) ?g (moderation s)"
  proof (rule update_where_cong)
    fix x assume "x \<in> set (moderation s)"
    then have "md_id x = md_id m \<Longrightarrow> x = m" using reviews_invD(3) [OF inv] mm(1) by (metis distinct_map inj_onD)
    then show "?p x \<longleftrightarrow> md_id x = md_id m" using pend by auto
  qed
  then have s1: "s\<lparr>moderation := update_where ?p ?g (moderation s)\<rparr>
      = s\<lparr>moderation := update_where (\<lambda>x. md_id x = md_id m) ?g (moderation s)\<rparr>" (is "_ = ?s1") by simp
  have "get_mod (moderation s) = Some m" if "get_mod = find_row md_id (md_id m)" for get_mod
    using reviews_invD(3) [OF inv] mm(1) that by (simp add: find_row_Some_iff)
  then have cnt: "count_where ?p (moderation s) = 1"
    using pend by (simp add: count_where_by_id [OF reviews_invD(3) [OF inv]])
  let ?e = "edited None None (Some (st = MApproved))"
  let ?tail = "\<lambda>_ (s :: db). let rw' = refreshed s rw; md = moderation_of s (rv_id rw) in
                 bindE (if st = MApproved
                        then bindE (publish_intent rw' ''moderated'' now s) (\<lambda>i s. ok [i] s)
                        else ok [] s) (\<lambda>intents s.
                   finish_review (if st = MApproved then Au_review_approved else Au_review_rejected)
                     (md_id m) moderator Admin rw' md intents now s)"
  have "moderate_review rid moderator decision r reason now s = bindE (update_review (rv_id rw) ?e ?s1) ?tail"
    unfolding moderate_review_def using w who(1) st g m id pend cnt
    by (simp add: Let_def s1 [unfolded w] split del: if_split)
  then have "bindE (update_review (rv_id rw) ?e ?s1) ?tail = (Inr out, t)" using assms(1) by (rule subst)
  then obtain u where u: "update_review (rv_id rw) ?e ?s1 = (Inr (), u)" "?tail () u = (Inr out, t)"
    unfolding bindE_Inr by auto
  note ur = update_review_ok [OF u(1)]
  have uu: "reviews u = update_where (\<lambda>r. rv_id r = rid) ?e (reviews s)"
    "moderation u = update_where (\<lambda>x. md_id x = md_id m) ?g (moderation s)" "next_id u = next_id s" "jobs u = jobs s" "outbox u = outbox s"
    "u = s\<lparr>reviews := reviews u, moderation := moderation u\<rparr>"
    using ur(1) by (simp_all add: id)
  define rw' where "rw' = ?e rw"
  have rr: "refreshed u rw = rw'"
    unfolding rw'_def by (rule refreshed_row [OF reviews_invD(1) [OF inv] mem]) (simp_all add: uu(1) id)
  obtain ix v where v: "(if st = MApproved then bindE (publish_intent rw' ''moderated'' now u) (\<lambda>i s. ok [i] s) else ok [] u) = (Inr ix, v)"
      "finish_review (if st = MApproved then Au_review_approved else Au_review_rejected)
         (md_id m) moderator Admin rw' (moderation_of u (rv_id rw)) ix now v = (Inr out, t)"
    using u(2) unfolding Let_def rr bindE_Inr by (elim exE conjE) (rule that)
  note p = publish_ok [OF v(1)] and f = finish_review_ok [OF v(2)]
  have c: "core t = core (rated_tutors (rv_tutor rw) now u)" using f(5) rated_core [OF p(1)] by (simp add: rw'_def)
  note tabs = coreD(10,11) [OF c, simplified]
  have mu: "moderation_of u rid = Some (?g m)" using m by (simp add: moderation_of_row uu(2) find_row_update)
  have "rw' \<in> set (reviews u)" using mem by (auto simp: uu(1) set_update_where id rw'_def)
  then have chk: "review_check rw'" using ur(2) id by (simp add: rw'_def)
  have vet: "vetted (Some (?g m)) rw'" using gr who(2) by (simp add: vetted_def rw'_def edited_def)
  have i: "reviews_inv t"
    by (rule reviews_inv_update [OF inv mem, of ?e rw' m ?g, OF rw'_def [symmetric] _ _ _ _ _ chk vet])
      (use m id f(6) p(2) uu in \<open>simp_all add: tabs\<close>)
  have x: "\<exists>xs. outbox t = outbox s @ xs \<and> map ob_kind xs = (if st = MApproved then [Review_published] else [])
           \<and> (\<forall>x \<in> set xs. next_id s \<le> ob_id x \<and> ob_id x < next_id t)"
    using p(4) unfolding f(6,8) uu(3,5) by force
  show ?thesis
    by (rule that [OF who st _ mem id _ m pend _ uu(1) mu uu(6) c _ _ i x])
      (use gr f(1,6,7) p(2,3) uu(3,4) in \<open>simp_all add: rw'_def\<close>)
qed

section \<open>Properties\<close>

text \<open>
  Property C39. The public rating is the exact average: for reviews with ratings from 1 to 5 (up to
  \<open>10 ^ 20\<close> of them) the recomputation succeeds, counts the published, undeleted reviews of the tutor
  and stores their mean rounded half up to hundredths, whatever the intermediate 28-digit division
  rounds; the value lies between 1.00 and 5.00, so it never violates the table's constraint.
\<close>

theorem rating_average_exact:
  assumes checks: "\<forall>r \<in> set (reviews s). review_check r" "\<forall>tu \<in> set (tutors s). tutor_check tu"
    and n: "n = int (length (published_reviews s tid))" "n \<le> 10 ^ 20"
    and w: "w = sum_list (map rv_rating (published_reviews s tid))"
  shows "\<exists>a t. recompute_tutor_aggregate tid now s = (Inr a, t) \<and> pa_count a = n
      \<and> pa_avg a = (if n = 0 then None else Some ((200 * w + n) div (2 * n)))
      \<and> (n = 0 \<or> 100 \<le> (200 * w + n) div (2 * n) \<and> (200 * w + n) div (2 * n) \<le> 500)
      \<and> t = s\<lparr>tutors := tutors t\<rparr>
      \<and> (\<forall>tu \<in> set (tutors t). tutor_check tu
           \<and> (t_id tu = tid \<longrightarrow> t_rating_count tu = n \<and> t_rating_avg tu = pa_avg a))"
proof -
  let ?a = "public_aggregate_of s tid"
  let ?t = "s\<lparr>tutors := update_where (\<lambda>t. t_id t = tid) (rated ?a now) (tutors s)\<rparr>"
  have "\<forall>x \<in> set (map rv_rating (published_reviews s tid)). 1 \<le> x \<and> x \<le> 5"
    using checks(1) by (auto simp: published_reviews_def review_check_def)
  then have lo: "n \<le> w" and hi: "w \<le> 5 * n"
    using sum_list_bounds [of "map rv_rating (published_reviews s tid)" 1 5] by (auto simp: n(1) w)
  have n0: "0 \<le> n" by (simp add: n(1))
  have avg: "pa_avg ?a = (if n = 0 then None else Some ((200 * w + n) div (2 * n)))"
  proof -
    have "pa_avg ?a = (if n \<noteq> 0 then Some (quantize_cents (decimal_div w n)) else None)"
      unfolding public_aggregate_of_def Let_def n(1) w by simp
    then show ?thesis using decimal_quantize [of n w] n0 n(2) by simp
  qed
  have cnt: "pa_count ?a = n" by (simp add: public_aggregate_of_def Let_def n(1))
  have rng: "n = 0 \<or> 100 \<le> (200 * w + n) div (2 * n) \<and> (200 * w + n) div (2 * n) \<le> 500"
    using average_bounds [of n w] n0 lo hi by auto
  have good: "tutor_check (rated ?a now tu)" if "tutor_check tu" for tu
    using that avg cnt rng n0 by (auto simp: tutor_check_def rated_def)
  have id: "t_id (rated ?a now tu) = t_id tu" for tu by (simp add: rated_def)
  have allgood: "tutor_check x" if "x \<in> set (tutors ?t)" for x
  proof -
    have "x \<in> set (tutors s) \<or> (\<exists>y \<in> set (tutors s). x = rated ?a now y)"
      using that by (auto simp: set_update_where)
    then show ?thesis using checks(2) good by metis
  qed
  have "list_all (\<lambda>t. t_id t = tid \<longrightarrow> tutor_check t) (tutors ?t)"
    using allgood by (simp add: list_all_iff)
  then have run: "recompute_tutor_aggregate tid now s = (Inr ?a, ?t)"
    by (simp add: recompute_tutor_aggregate_def Let_def)
  have tus: "tutor_check tu \<and> (t_id tu = tid \<longrightarrow> t_rating_count tu = n \<and> t_rating_avg tu = pa_avg ?a)"
    if "tu \<in> set (tutors ?t)" for tu
  proof (intro conjI impI)
    show "tutor_check tu" by (rule allgood [OF that])
    assume "t_id tu = tid"
    then have "\<exists>y. tu = rated ?a now y" using that by (auto simp: set_update_where)
    then show "t_rating_count tu = n" "t_rating_avg tu = pa_avg ?a" using cnt by (auto simp: rated_def)
  qed
  show ?thesis
    by (rule exI [of _ ?a], rule exI [of _ ?t]) (use run avg cnt rng tus in simp)
qed

definition sample_review :: "uid \<Rightarrow> int \<Rightarrow> review" where
  "sample_review i stars = \<lparr>rv_id = i, rv_session = i, rv_tutor = 0, rv_author = 200, rv_rating = stars,
     rv_body = None, rv_published = True, rv_deadline = days 20, rv_created_at = days 10, rv_deleted_at = None\<rparr>"

definition sample_rated :: db where
  "sample_rated = sample_market\<lparr>reviews := [sample_review 1 5, sample_review 2 4, sample_review 3 4]\<rparr>"

theorem rating_average_exact_witness:
  "\<exists>a t. recompute_tutor_aggregate 0 (days 11) sample_rated = (Inr a, t) \<and> pa_avg a = Some 433"
proof -
  have r: "published_reviews sample_rated 0 = [sample_review 1 5, sample_review 2 4, sample_review 3 4]"
    by (simp add: published_reviews_def sample_rated_def sample_review_def)
  have "\<forall>r \<in> set (reviews sample_rated). review_check r" "\<forall>tu \<in> set (tutors sample_rated). tutor_check tu"
    by (simp_all add: sample_rated_def sample_review_def review_check_def sample_market_def sample_tutor_def
        tutor_check_def payment_currencies_def)
  moreover have "(3 :: int) = int (length (published_reviews sample_rated 0))"
    "13 = sum_list (map rv_rating (published_reviews sample_rated 0))" by (simp_all add: r sample_review_def)
  ultimately have "\<exists>a t. recompute_tutor_aggregate 0 (days 11) sample_rated = (Inr a, t) \<and> pa_count a = 3
      \<and> pa_avg a = (if (3 :: int) = 0 then None else Some ((200 * 13 + 3) div (2 * 3)))"
    using rating_average_exact [of sample_rated 3 0 13 "days 11"] by auto
  then show ?thesis by auto
qed

text \<open>
  A review needs attendance: one that is created is the student's own, for a session whose
  attendance the student confirmed or an admin resolved, with a rating from 1 to 5 and no text or a
  text of 10 to 1000 characters; it is public at once exactly when it has no text. It is the only
  review of its session: a second valid attempt is refused as a duplicate and changes nothing.
\<close>

theorem review_gate:
  assumes run: "create_review t0 sid author rating body now s = (Inr out, t)" and inv: "reviews_inv s"
  shows "(\<exists>sess row. get_session_row s sid = Some sess \<and> ts_student sess = author
        \<and> get_attendance s sid = Some row \<and> at_state row \<in> {AConfirmed, AResolved})
      \<and> reviews t = reviews s @ [rm_review out] \<and> rv_session (rm_review out) = sid \<and> rv_author (rm_review out) = author
      \<and> 1 \<le> rv_rating (rm_review out) \<and> rv_rating (rm_review out) \<le> 5
      \<and> (case rv_body (rm_review out) of None \<Rightarrow> True | Some b \<Rightarrow> 10 \<le> length b \<and> length b \<le> 1000)
      \<and> (rv_published (rm_review out) \<longleftrightarrow> rv_body (rm_review out) = None)
      \<and> sid \<notin> rv_session ` set (reviews s)
      \<and> (\<forall>rating' body' now' v c. validate_rating rating' = Inr v \<and> validate_body body' = Inr c \<longrightarrow>
           create_review t1 sid author rating' body' now' t = (Inl (TutoringError ReviewDuplicate), t))"
proof -
  obtain stars content sess rw md where ok: "validate_rating rating = Inr stars" "validate_body body = Inr content"
      "assert_reviewable s sid author = Inr sess"
      "rw = \<lparr>rv_id = next_id s, rv_session = ts_id sess, rv_tutor = ts_tutor sess, rv_author = author,
                rv_rating = stars, rv_body = content, rv_published = (content = None),
                rv_deadline = now + days edit_window_days, rv_created_at = now, rv_deleted_at = None\<rparr>"
      "rm_review out = rw" "ts_id sess \<notin> rv_session ` set (reviews s)"
      "core t = core (rated_tutors (ts_tutor sess) now (s\<lparr>reviews := reviews s @ [rw], moderation := moderation s @ [md]\<rparr>))"
    by (rule create_review_ok [OF run inv]) (rule that, assumption+)
  obtain row where g: "get_session sid (Some author) Student s = Inr sess" "get_attendance s (ts_id sess) = Some row"
      "at_state row \<in> set reviewable_states"
    using ok(3) by (auto simp: assert_reviewable_def split: sum.splits option.splits if_splits)
  note gs = get_session_ok [OF g(1)]
  note tabs = coreD(7,8,10) [OF ok(7), simplified]
  have again: "assert_reviewable t sid author = Inr sess"
  proof -
    have "get_session sid (Some author) Student t = Inr sess" using gs by (intro student_read) (simp_all add: tabs(1))
    then show ?thesis using g(2,3) by (simp add: assert_reviewable_def get_attendance_def tabs(2))
  qed
  have dup: "list_ex (\<lambda>r. rv_session r = ts_id sess) (reviews t)" by (simp add: tabs(3) ok(4))
  have "create_review t1 sid author rating' body' now' t = (Inl (TutoringError ReviewDuplicate), t)"
    if "validate_rating rating' = Inr v" "validate_body body' = Inr c" for rating' body' now' v c
    using that again dup by (simp add: create_review_def)
  then show ?thesis
    using ok(1,2,6) g gs validate_body_ok [OF ok(2)]
    by (auto simp: ok(4,5) tabs(3) validate_rating_ok reviewable_states_def split: option.splits)
qed

definition sample_confirmed_attendance :: db where
  "sample_confirmed_attendance = snd (confirm_attendance 14 200 None (days 5) sample_recorded)"

definition sample_reviewed :: db where
  "sample_reviewed = snd (create_review sample_confirmed_attendance 14 200 (PyInt 4)
     (PyStr ''clear and patient'') (days 6) sample_confirmed_attendance)"

lemma sample_reviews_inv: "reviews_inv sample_confirmed_attendance"
proof -
  have "reviews sample_confirmed_attendance = []" "moderation sample_confirmed_attendance = []" by code_simp+
  then show ?thesis by (simp add: reviews_inv_def)
qed

lemma sample_reviewed_run:
  obtains out where "create_review sample_confirmed_attendance 14 200 (PyInt 4) (PyStr ''clear and patient'') (days 6)
    sample_confirmed_attendance = (Inr out, sample_reviewed)"
proof -
  let ?r = "create_review sample_confirmed_attendance 14 200 (PyInt 4) (PyStr ''clear and patient'') (days 6)
    sample_confirmed_attendance"
  have "\<not> isl (fst ?r)" by code_simp
  then show ?thesis using that by (cases ?r; cases "fst ?r") (auto simp: sample_reviewed_def)
qed

theorem review_gate_witness:
  "create_review t1 14 200 (PyInt 5) PyNone (days 7) sample_reviewed = (Inl (TutoringError ReviewDuplicate), sample_reviewed)
   \<and> (\<exists>r. reviews sample_reviewed = [r] \<and> \<not> rv_published r)"
proof -
  obtain out where out: "create_review sample_confirmed_attendance 14 200 (PyInt 4) (PyStr ''clear and patient'') (days 6)
    sample_confirmed_attendance = (Inr out, sample_reviewed)"
    by (rule sample_reviewed_run)
  have r: "reviews sample_confirmed_attendance = []" by code_simp
  have b: "list_all (\<lambda>r. rv_body r \<noteq> None) (reviews sample_reviewed)" by code_simp
  have v: "validate_rating (PyInt 5) = Inr 5" "validate_body PyNone = Inr None" by code_simp+
  from review_gate [OF out sample_reviews_inv] r b v show ?thesis by auto
qed

text \<open>
  A review is decided once: a decision that succeeds was an admin's on a pending, undeleted
  review, publishes it exactly when it approves, names the moderator on the record, and every later
  decision, whoever takes it and whatever it says, is refused without a change.
\<close>

theorem moderation_once:
  assumes run: "moderate_review rid moderator decision r reason now s = (Inr out, t)" and inv: "reviews_inv s"
  shows "r = Admin \<and> map_option md_state (moderation_of s rid) = Some MPending
      \<and> (rv_published (rm_review out) \<longleftrightarrow> decision = ''approved'')
      \<and> get_review_row t rid = Some (rm_review out)
      \<and> (\<exists>m. moderation_of t rid = Some m \<and> md_moderator m = moderator \<and> moderator \<noteq> None
           \<and> md_state m = (if decision = ''approved'' then MApproved else MRejected))
      \<and> (\<forall>x decision' reason' now'. map_of moderation_decisions decision' \<noteq> None \<longrightarrow>
           moderate_review rid (Some x) decision' Admin reason' now' t = (Inl (TutoringError ReviewNotModeratable), t))"
proof -
  obtain st rw m u where ok: "r = Admin" "moderator \<noteq> None" "map_of moderation_decisions decision = Some st"
      "rw \<in> set (reviews s)" "rv_id rw = rid" "rv_deleted_at rw = None" "moderation_of s rid = Some m" "md_state m = MPending"
      "rm_review out = edited None None (Some (st = MApproved)) rw"
      "reviews u = update_where (\<lambda>r. rv_id r = rid) (edited None None (Some (st = MApproved))) (reviews s)"
      "moderation_of u rid = Some (m\<lparr>md_state := st, md_moderator := moderator, md_decided_at := Some now,
           md_reason := (case reason of Some why \<Rightarrow> if why = [] then None else Some (take 200 why) | None \<Rightarrow> None)\<rparr>)"
      "core t = core (rated_tutors (rv_tutor rw) now u)"
    by (rule moderate_review_ok [OF run inv]) (rule that, assumption+)
  have st: "(decision = ''approved'' \<and> st = MApproved) \<or> (decision = ''rejected'' \<and> st = MRejected)"
    using ok(3) by (auto simp: moderation_decisions_def split: if_split_asm)
  note tabs = coreD(10,11) [OF ok(12), simplified]
  have mt: "moderation_of t rid = moderation_of u rid" by (simp add: moderation_of_def tabs(2))
  have "get_review_row s rid = Some rw" using reviews_invD(1) [OF inv] ok(4,5) by (simp add: find_row_Some_iff)
  then have row: "get_review_row t rid = Some (rm_review out)"
    using ok(5) by (simp add: tabs(1) ok(9,10) find_row_update)
  have g: "get_review t rid None False = Inr (rm_review out)" "rv_id (rm_review out) = rid"
    using row ok(5,6) by (simp_all add: get_review_def ok(9))
  have refuse: "moderate_review rid (Some x) decision' Admin reason' now' t = (Inl (TutoringError ReviewNotModeratable), t)"
    if "map_of moderation_decisions decision' = Some st'" for x decision' reason' now' st'
    using that g mt ok(11) st by (auto simp: moderate_review_def)
  have pub: "rv_published (rm_review out) \<longleftrightarrow> st = MApproved" by (simp add: ok(9) edited_def)
  show ?thesis
    using ok(1,2,7,8,11) mt row pub refuse st by auto
qed

definition sample_published :: db where
  "sample_published = snd (moderate_review 20 (Some 1) ''approved'' Admin None (days 7) sample_reviewed)"

lemma sample_reviewed_inv: "reviews_inv sample_reviewed"
  by (rule sample_reviewed_run) (rule create_review_ok [OF _ sample_reviews_inv], assumption+)

lemma sample_published_run:
  obtains out where "moderate_review 20 (Some 1) ''approved'' Admin None (days 7) sample_reviewed = (Inr out, sample_published)"
proof -
  let ?r = "moderate_review 20 (Some 1) ''approved'' Admin None (days 7) sample_reviewed"
  have "\<not> isl (fst ?r)" by code_simp
  then show ?thesis using that by (cases ?r; cases "fst ?r") (auto simp: sample_published_def)
qed

theorem moderation_once_witness:
  "moderate_review 20 (Some 2) ''rejected'' Admin None (days 8) sample_published
     = (Inl (TutoringError ReviewNotModeratable), sample_published)
   \<and> (\<exists>r. get_review_row sample_published 20 = Some r \<and> rv_published r)"
proof -
  obtain out where out: "moderate_review 20 (Some 1) ''approved'' Admin None (days 7) sample_reviewed = (Inr out, sample_published)"
    by (rule sample_published_run)
  have "map_of moderation_decisions ''rejected'' \<noteq> None" by code_simp
  with moderation_once [OF out sample_reviewed_inv] show ?thesis by blast
qed



end
