(* ===== verification/Market.thy ===== *)
theory Market
  imports Webhook Reviews
begin

text \<open>
  The marketplace as one system: \<open>market_step\<close> is the step relation of all operations of the tutoring
  services, each with every argument a caller can send (a request commits when the operation
  returns and is rolled back when it raises, \<open>api/v1/tutoring.py\<close>), so that a run of it is a history of
  the database. The theory collects the invariants of the components, adds the ones that relate
  several tables, proves that every step keeps them, and reads off what holds of whole histories.
\<close>

section \<open>Invariants across tables\<close>

definition slot_state :: "db \<Rightarrow> uid \<Rightarrow> slot_status option" where
  "slot_state s i = map_option sl_status (get_slot_row s i)"

definition sold :: "db \<Rightarrow> uid \<Rightarrow> bool" where
  "sold s i \<longleftrightarrow> (\<exists>r \<in> set (sessions s). ts_slot r = i \<and> ts_status r \<noteq> Cancelled)"

text \<open>The calendar and the sessions agree: a slot is \<open>booked\<close> exactly while an uncancelled session is on it.\<close>

definition calendar_inv :: "db \<Rightarrow> bool" where
  "calendar_inv s \<longleftrightarrow> (\<forall>i. slot_state s i = Some SBooked \<longleftrightarrow> sold s i)"

text \<open>
  An order charges its hold's student the price of the hold's snapshot, and it is paid only with a
  verified \<open>paid\<close> event in the ledger. A session rests on a paid order of its student whose hold is
  consumed, and no two sessions rest on the same order.
\<close>

definition order_backed :: "db \<Rightarrow> order \<Rightarrow> bool" where
  "order_backed s q \<longleftrightarrow> (\<exists>h. get_hold_row s (o_hold q) = Some h \<and> h_student h = o_student q
     \<and> h_price h = o_amount q \<and> h_currency h = o_currency q)
     \<and> (o_status q = OPaid \<longrightarrow> has_verified_paid_event q s)"

definition session_backed :: "db \<Rightarrow> tsession \<Rightarrow> bool" where
  "session_backed s r \<longleftrightarrow> (\<exists>i q h. ts_order r = Some i \<and> get_order_row s i = Some q \<and> o_status q = OPaid
     \<and> o_student q = ts_student r \<and> get_hold_row s (o_hold q) = Some h \<and> h_status h = HConsumed)"

definition ledger_inv :: "db \<Rightarrow> bool" where
  "ledger_inv s \<longleftrightarrow> (\<forall>q \<in> set (orders s). order_backed s q)
     \<and> (\<forall>r \<in> set (sessions s). session_backed s r \<and> ts_id r < next_id s)
     \<and> distinct (map ts_order (sessions s))"

definition tables_inv :: "db \<Rightarrow> bool" where
  "tables_inv s \<longleftrightarrow> booking_inv s \<and> attendance_inv s \<and> refund_inv s \<and> reviews_inv s
     \<and> calendar_inv s \<and> ledger_inv s"

definition market_inv :: "db \<Rightarrow> bool" where
  "market_inv s \<longleftrightarrow> tables_inv s \<and> jobs_inv s"

lemma tables_invD:
  assumes "tables_inv s"
  shows "booking_inv s" "attendance_inv s" "refund_inv s" "reviews_inv s" "calendar_inv s" "ledger_inv s"
    "sessions_ok s" "attendance_ok s"
  using assms by (simp_all add: tables_inv_def attendance_inv_def)

section \<open>What no step takes back\<close>

text \<open>
  The facts of a row that are settled when it is written: whose hold and for what price, whose
  order and for what amount, whose session and on which order. A consumed hold stays consumed and
  a paid order stays paid.
\<close>

definition hold_kept :: "hold \<Rightarrow> hold \<Rightarrow> bool" where
  "hold_kept h h' \<longleftrightarrow> h_student h' = h_student h \<and> h_price h' = h_price h \<and> h_currency h' = h_currency h
     \<and> h_slot h' = h_slot h \<and> (h_status h = HConsumed \<longrightarrow> h_status h' = HConsumed)"

definition order_kept :: "order \<Rightarrow> order \<Rightarrow> bool" where
  "order_kept q q' \<longleftrightarrow> o_id q' = o_id q \<and> o_hold q' = o_hold q \<and> o_student q' = o_student q
     \<and> o_amount q' = o_amount q \<and> o_currency q' = o_currency q \<and> (o_status q = OPaid \<longrightarrow> o_status q' = OPaid)"

definition session_kept :: "tsession \<Rightarrow> tsession \<Rightarrow> bool" where
  "session_kept r r' \<longleftrightarrow> ts_id r' = ts_id r \<and> ts_student r' = ts_student r \<and> ts_tutor r' = ts_tutor r
     \<and> ts_order r' = ts_order r
     \<and> (ts_status r' = ts_status r \<or> ts_status r' \<in> set (legal_transitions (ts_status r)))"

definition rows_kept :: "('r \<Rightarrow> uid) \<Rightarrow> ('r \<Rightarrow> 'r \<Rightarrow> bool) \<Rightarrow> 'r list \<Rightarrow> 'r list \<Rightarrow> bool" where
  "rows_kept key R t t' \<longleftrightarrow> (\<forall>i r. find_row key i t = Some r \<longrightarrow> (\<exists>r'. find_row key i t' = Some r' \<and> R r r'))"

definition attendance_moves :: "db \<Rightarrow> db \<Rightarrow> bool" where
  "attendance_moves s t \<longleftrightarrow> (\<forall>i a. attendance_state_of s i = Some a \<longrightarrow>
     (\<exists>b. attendance_state_of t i = Some b \<and> (b = a \<or> b \<in> set (legal_states a))))"

definition kept :: "db \<Rightarrow> db \<Rightarrow> bool" where
  "kept s t \<longleftrightarrow> rows_kept h_id hold_kept (holds s) (holds t) \<and> rows_kept o_id order_kept (orders s) (orders t)
     \<and> rows_kept ts_id session_kept (sessions s) (sessions t) \<and> attendance_moves s t"

text \<open>One step of the system: the invariants hold after it and nothing settled is taken back.\<close>

definition advance :: "db \<Rightarrow> db \<Rightarrow> bool" where
  "advance s t \<longleftrightarrow> tables_inv t \<and> kept s t"

lemma hold_kept_refl [simp]: "hold_kept h h"
  and order_kept_refl [simp]: "order_kept q q"
  and session_kept_refl [simp]: "session_kept r r"
  by (simp_all add: hold_kept_def order_kept_def session_kept_def)

lemma hold_kept_trans: "hold_kept x y \<Longrightarrow> hold_kept y z \<Longrightarrow> hold_kept x z"
  and order_kept_trans: "order_kept a b \<Longrightarrow> order_kept b c \<Longrightarrow> order_kept a c"
  by (simp_all add: hold_kept_def order_kept_def)

lemma rows_kept_refl [simp]: "(\<And>r. R r r) \<Longrightarrow> rows_kept key R t t"
  by (simp add: rows_kept_def)

lemma rows_kept_append: "(\<And>r. R r r) \<Longrightarrow> rows_kept key R t (t @ t')"
  by (auto simp: rows_kept_def find_row_append split: option.split)

lemma rows_kept_update:
  assumes "\<And>r. key (f r) = key r" and "\<And>r. r \<in> set t \<Longrightarrow> p r \<Longrightarrow> R r (f r)" and "\<And>r. R r r"
  shows "rows_kept key R t (update_where p f t)"
  unfolding rows_kept_def
proof (intro allI impI)
  fix i r assume r: "find_row key i t = Some r"
  then have "find_row key i (update_where p f t) = Some (if p r then f r else r)"
    using assms(1) by (simp add: find_row_update)
  moreover have "R r (if p r then f r else r)" using assms(2,3) find_row_SomeD [OF r] by simp
  ultimately show "\<exists>r'. find_row key i (update_where p f t) = Some r' \<and> R r r'" by blast
qed

lemma rows_kept_trans:
  assumes "rows_kept key R t u" and "rows_kept key R u v" and "\<And>x y z. R x y \<Longrightarrow> R y z \<Longrightarrow> R x z"
  shows "rows_kept key R t v"
  using assms unfolding rows_kept_def by metis

lemma attendance_moves_refl [simp]: "attendance t = attendance s \<Longrightarrow> attendance_moves s t"
  using attendance_state_of_cong [of t s] by (simp add: attendance_moves_def)

lemma kept_refl [simp]: "kept s s"
  by (simp add: kept_def)

lemma kept_core:
  assumes c: "core t = core u" and "kept s u"
  shows "kept s t"
  using assms(2) attendance_state_of_cong [OF coreD(8) [OF c]]
  by (simp add: kept_def coreD [OF c] attendance_moves_def)

lemma close_kept:
  assumes "\<And>h. p h \<Longrightarrow> h_status h = HActive"
  shows "rows_kept h_id hold_kept hs (update_where p (close_hold_row st now) hs)"
  by (rule rows_kept_update) (auto simp: hold_kept_def dest: assms)

section \<open>Frames\<close>

lemma booking_inv_frame:
  "booking_inv s \<Longrightarrow> holds t = holds s \<Longrightarrow> slots t = slots s \<Longrightarrow> next_id s \<le> next_id t \<Longrightarrow> booking_inv t"
  by (auto simp: booking_inv_def intro: order_less_le_trans)

lemma attendance_inv_frame:
  assumes "attendance_inv s" and "sessions t = sessions s" and "attendance t = attendance s" and "next_id s \<le> next_id t"
  shows "attendance_inv t"
  using assms attendance_ok_frame [of s t] session_status_of_cong [OF assms(2)] attendance_state_of_cong [OF assms(3)]
  by (simp add: attendance_inv_def sessions_ok_def)

lemma slot_state_cong: "slots t = slots s \<Longrightarrow> slot_state t i = slot_state s i"
  by (simp add: slot_state_def)

lemma sold_cong: "sessions t = sessions s \<Longrightarrow> sold t i = sold s i"
  by (simp add: sold_def)

lemma calendar_inv_frame:
  "calendar_inv s \<Longrightarrow> slots t = slots s \<Longrightarrow> sessions t = sessions s \<Longrightarrow> calendar_inv t"
  using slot_state_cong [of t s] sold_cong [of t s] by (simp add: calendar_inv_def)

lemma slot_state_update:
  assumes "slots t = update_where q (set_slot_row st now) (slots s)"
  shows "slot_state t i = map_option (\<lambda>sl. if q sl then st else sl_status sl) (get_slot_row s i)"
  by (cases "get_slot_row s i") (simp_all add: slot_state_def assms find_row_update)

text \<open>A statement that touches no booked slot and books none leaves the calendar in agreement.\<close>

lemma calendar_inv_update:
  assumes "calendar_inv s" and "slots t = update_where q (set_slot_row st now) (slots s)"
    and "sessions t = sessions s" and "st \<noteq> SBooked" and "\<And>sl. q sl \<Longrightarrow> sl_status sl \<noteq> SBooked"
  shows "calendar_inv t"
  unfolding calendar_inv_def
proof
  fix i
  have "slot_state t i = Some SBooked \<longleftrightarrow> slot_state s i = Some SBooked"
    using assms(4,5) unfolding slot_state_update [OF assms(2)]
    by (cases "get_slot_row s i") (auto simp: slot_state_def)
  with assms(1) show "slot_state t i = Some SBooked \<longleftrightarrow> sold t i"
    by (simp add: calendar_inv_def sold_cong [OF assms(3)])
qed

lemma has_event_mono:
  "has_verified_paid_event q s \<Longrightarrow> o_id q' = o_id q \<Longrightarrow> set (pay_events s) \<subseteq> set (pay_events t) \<Longrightarrow> has_verified_paid_event q' t"
  by (auto simp: has_verified_paid_event_def)

text \<open>Where a row of the later state comes from: an old row, carried over, or a new one that is backed.\<close>

definition order_traced :: "db \<Rightarrow> db \<Rightarrow> order \<Rightarrow> bool" where
  "order_traced s t q' \<longleftrightarrow> (\<exists>q \<in> set (orders s). order_kept q q'
     \<and> (o_status q' = OPaid \<longrightarrow> o_status q = OPaid \<or> has_verified_paid_event q' t)) \<or> order_backed t q'"

definition session_traced :: "db \<Rightarrow> db \<Rightarrow> tsession \<Rightarrow> bool" where
  "session_traced s t r' \<longleftrightarrow> (\<exists>r \<in> set (sessions s). session_kept r r')
     \<or> session_backed t r' \<and> ts_id r' < next_id t"

lemma order_traced_old: "q \<in> set (orders s) \<Longrightarrow> order_traced s t q"
  unfolding order_traced_def by (intro disjI1 bexI [of _ q]) simp_all

lemma session_traced_old: "r \<in> set (sessions s) \<Longrightarrow> session_traced s t r"
  unfolding session_traced_def by (intro disjI1 bexI [of _ r]) simp_all

text \<open>The ledger after a step: what was backed stays backed, what is new has to be.\<close>

lemma ledger_inv_step:
  assumes inv: "ledger_inv s" and k: "kept s t"
    and events: "set (pay_events s) \<subseteq> set (pay_events t)" and "next_id s \<le> next_id t"
    and orders: "\<And>q'. q' \<in> set (orders t) \<Longrightarrow>
      order_traced s t q'"
    and sessions: "\<And>r'. r' \<in> set (sessions t) \<Longrightarrow>
      session_traced s t r'"
    and d: "distinct (map ts_order (sessions t))"
  shows "ledger_inv t"
proof -
  have hk: "\<exists>h'. get_hold_row t i = Some h' \<and> hold_kept h h'" if "get_hold_row s i = Some h" for i h
    using k that by (auto simp: kept_def rows_kept_def)
  have ok: "\<exists>q'. get_order_row t i = Some q' \<and> order_kept q q'" if "get_order_row s i = Some q" for i q
    using k that by (auto simp: kept_def rows_kept_def)
  have "order_backed t q'" if q': "q' \<in> set (orders t)" for q'
    using orders [OF q'] unfolding order_traced_def
  proof
    assume "\<exists>q \<in> set (orders s). order_kept q q' \<and> (o_status q' = OPaid \<longrightarrow> o_status q = OPaid \<or> has_verified_paid_event q' t)"
    then obtain q where q: "q \<in> set (orders s)" "order_kept q q'"
        "o_status q' = OPaid \<Longrightarrow> o_status q = OPaid \<or> has_verified_paid_event q' t" by blast
    have b: "order_backed s q" using inv q(1) by (simp add: ledger_inv_def)
    then obtain h where h: "get_hold_row s (o_hold q) = Some h" "h_student h = o_student q" "h_price h = o_amount q"
        "h_currency h = o_currency q" by (auto simp: order_backed_def)
    obtain h' where "get_hold_row t (o_hold q) = Some h'" "hold_kept h h'" using hk [OF h(1)] by blast
    moreover have "o_status q' = OPaid \<Longrightarrow> has_verified_paid_event q' t"
      using q(2,3) b has_event_mono [OF _ _ events] by (auto simp: order_backed_def order_kept_def)
    ultimately show ?thesis using h q(2) by (auto simp: order_backed_def order_kept_def hold_kept_def)
  qed
  moreover have "session_backed t r' \<and> ts_id r' < next_id t" if r': "r' \<in> set (sessions t)" for r'
    using sessions [OF r'] unfolding session_traced_def
  proof
    assume "\<exists>r \<in> set (sessions s). session_kept r r'"
    then obtain r where r: "r \<in> set (sessions s)" "session_kept r r'" by blast
    then obtain i q h where b: "ts_order r = Some i" "get_order_row s i = Some q" "o_status q = OPaid"
        "o_student q = ts_student r" "get_hold_row s (o_hold q) = Some h" "h_status h = HConsumed"
      using inv by (auto simp: ledger_inv_def session_backed_def)
    obtain q' h' where "get_order_row t i = Some q'" "order_kept q q'" "get_hold_row t (o_hold q) = Some h'" "hold_kept h h'"
      using ok [OF b(2)] hk [OF b(5)] by blast
    moreover have "ts_id r < next_id s" using inv r(1) by (simp add: ledger_inv_def)
    ultimately show ?thesis using b r(2) assms(4)
      by (auto simp: session_backed_def session_kept_def order_kept_def hold_kept_def)
  qed
  ultimately show ?thesis using d by (simp add: ledger_inv_def)
qed


lemma tables_inv_core:
  assumes "tables_inv u" and c: "core t = core u" and "next_id u \<le> next_id t"
  shows "tables_inv t"
proof -
  note tab = coreD [OF c]
  have "ledger_inv t"
  proof (rule ledger_inv_step [of u])
    show "kept u t" by (rule kept_core [OF c kept_refl])
    show "distinct (map ts_order (sessions t))" using assms(1) tab by (simp add: tables_inv_def ledger_inv_def)
  qed (use assms tab in \<open>simp_all add: tables_inv_def order_traced_old session_traced_old\<close>)
  then show ?thesis
    using assms tab booking_inv_frame [of u t] attendance_inv_frame [of u t] refund_inv_frame [of u t]
      reviews_inv_frame [of u t] calendar_inv_frame [of u t]
    by (simp add: tables_inv_def)
qed

lemma advance_core: "advance s u \<Longrightarrow> core t = core u \<Longrightarrow> next_id u \<le> next_id t \<Longrightarrow> advance s t"
  unfolding advance_def using tables_inv_core kept_core by blast

lemma advance_refl: "tables_inv s \<Longrightarrow> core t = core s \<Longrightarrow> next_id s \<le> next_id t \<Longrightarrow> advance s t"
  by (rule advance_core [of s s]) (simp_all add: advance_def)

text \<open>A step that touches holds and slots only.\<close>

lemma advance_calendar:
  assumes inv: "tables_inv s" and t: "booking_inv t" "calendar_inv t"
    and kept: "rows_kept h_id hold_kept (holds s) (holds t)"
    and same: "orders t = orders s" "sessions t = sessions s" "attendance t = attendance s" "refunds t = refunds s"
      "reviews t = reviews s" "moderation t = moderation s" "pay_events t = pay_events s" "next_id s \<le> next_id t"
  shows "advance s t"
proof -
  have k: "kept s t" using kept same by (simp add: kept_def)
  have "ledger_inv t"
    by (rule ledger_inv_step [of s, OF _ k])
      (use inv same in \<open>simp_all add: tables_inv_def order_traced_old session_traced_old, simp add: ledger_inv_def\<close>)
  then show ?thesis
    using inv t k same attendance_inv_frame [of s t] refund_inv_frame [of s t] reviews_inv_frame [of s t]
    by (simp add: advance_def tables_inv_def)
qed

section \<open>Booking\<close>

lemma swept_calendar: "calendar_inv s \<Longrightarrow> calendar_inv (swept now sid s)"
  by (rule calendar_inv_update [of s _ _ SAvailable now]) (simp, simp add: swept_def, auto)

lemma swept_holds: "rows_kept h_id hold_kept (holds s) (holds (swept now sid s))"
  by (simp add: swept_def) (rule close_kept, simp add: dead_def live_hold_def)

lemma advance_swept: "tables_inv s \<Longrightarrow> advance s (swept now sid s)"
  by (rule advance_calendar)
    (simp_all add: swept_holds tables_invD swept_inv swept_calendar)

lemma advance_placed:
  assumes inv: "tables_inv s" and h: "booking_inv (placed h now (swept now' sid s))"
  shows "advance s (placed h now (swept now' sid s))"
proof (rule advance_calendar [OF inv h])
  show "calendar_inv (placed h now (swept now' sid s))"
    by (rule calendar_inv_update [of "swept now' sid s" _ _ SHeld now])
      (simp add: swept_calendar tables_invD(5) [OF inv], simp add: placed_def, auto simp: placed_def)
  have "rows_kept h_id hold_kept (holds (swept now' sid s)) (holds (placed h now (swept now' sid s)))"
    by (simp add: placed_def rows_kept_append)
  then show "rows_kept h_id hold_kept (holds s) (holds (placed h now (swept now' sid s)))"
    by (rule rows_kept_trans [OF swept_holds]) (auto simp: hold_kept_def)
qed (simp_all add: placed_def)

lemma advance_create_hold:
  assumes inv: "tables_inv s" and run: "create_hold cfg t0 slot_id u k now ttl s = (Inr h, t)"
  shows "advance s t"
proof -
  have b: "booking_inv s" using inv by (rule tables_invD)
  show ?thesis
    using create_hold_ok [OF run booking_invD(1) [OF b]] create_hold_inv [OF b run] inv place_hold_ok(2)
      advance_placed [OF inv] advance_refl [OF inv, of s]
    by (auto dest!: place_hold_ok(2))
qed

lemma released_kept: "rows_kept h_id hold_kept (holds s) (holds (released h r u now s))"
  by (simp add: released_def) (rule close_kept, simp)

lemma released_calendar: "calendar_inv s \<Longrightarrow> calendar_inv (released h r u now s)"
  by (rule calendar_inv_update [of s _ _ SAvailable now]) (simp, simp add: released_def, auto simp: released_def)

lemma advance_released:
  assumes inv: "tables_inv s" and h: "h \<in> set (holds s)" "live_hold h"
  shows "advance s (released h r u now s)"
  by (rule advance_calendar [OF inv released_inv [OF tables_invD(1) [OF inv] h]
        released_calendar [OF tables_invD(5) [OF inv]] released_kept])
    (simp_all add: released_def)

lemma advance_release_hold: "tables_inv s \<Longrightarrow> advance s (snd (release_hold i r u now s))"
  unfolding release_hold_run
  by (auto simp: advance_refl advance_released split: option.split dest!: find_row_SomeD)

lemma advance_expire_holds: "tables_inv s \<Longrightarrow> advance s (snd (expire_holds now s))"
  using expire_holds_run [OF tables_invD(1), of s now] advance_swept [of s now None]
  by (auto simp: advance_refl intro: advance_core)

section \<open>Money\<close>

text \<open>A step that touches orders, the event ledger and refunds only.\<close>

lemma advance_money:
  assumes inv: "tables_inv s" and t: "refund_inv t"
    and kept: "rows_kept o_id order_kept (orders s) (orders t)"
    and new: "\<And>q'. q' \<in> set (orders t) \<Longrightarrow>
      order_traced s t q'"
    and same: "holds t = holds s" "slots t = slots s" "sessions t = sessions s" "attendance t = attendance s"
      "reviews t = reviews s" "moderation t = moderation s" "next_id s \<le> next_id t"
      "set (pay_events s) \<subseteq> set (pay_events t)"
  shows "advance s t"
proof -
  have k: "kept s t" using kept same by (simp add: kept_def)
  have "ledger_inv t"
    by (rule ledger_inv_step [of s, OF _ k same(8,7) new])
      (use inv same in \<open>simp_all add: tables_inv_def session_traced_old, simp add: ledger_inv_def\<close>)
  then show ?thesis
    using inv t k same attendance_inv_frame [of s t] reviews_inv_frame [of s t] booking_inv_frame [of s t]
      calendar_inv_frame [of s t]
    by (simp add: advance_def tables_inv_def)
qed

lemma refund_inv_append:
  assumes inv: "refund_inv s" and t: "orders t = orders s @ [q]" "refunds t = refunds s" "next_id s < next_id t"
    and q: "o_id q = next_id s" "0 \<le> o_amount q"
  shows "refund_inv t"
proof -
  have ids: "\<forall>r \<in> set (orders s). o_id r < next_id s" and d: "distinct (map o_id (orders s))"
    and rs: "\<forall>r \<in> set (refunds s). rf_order r \<in> o_id ` set (orders s)"
    using inv by (simp_all add: refund_inv_def)
  then have fresh: "\<forall>r \<in> set (refunds s). rf_order r \<noteq> next_id s" and fresh': "next_id s \<notin> o_id ` set (orders s)"
    by fastforce+
  have "refunded_paise s (next_id s) = 0"
  proof -
    have "filter (live_refund (next_id s)) (refunds s) = []"
      using fresh by (auto simp: filter_empty_conv live_refund_def )
    then show ?thesis by (simp add: refunded_paise_def)
  qed
  then show ?thesis
    using inv ids d fresh' t q by (auto simp: refund_inv_def refunded_paise_def)
qed

lemma advance_create_order:
  assumes inv: "tables_inv s" and run: "create_order t0 hid u k amount currency prov now s = (Inr c, t)"
  shows "advance s t"
proof (cases "oc_replayed c")
  case True
  then show ?thesis using create_order_ok [OF run] inv by (auto intro: advance_refl)
next
  case False
  then obtain h price where h: "get_hold_row s hid = Some h" "h_id h = hid" "h_student h = u"
      "snapshot_of_hold h = Inr price" "open_order t0 h u (strip k) price prov now s = (Inr c, t)"
    using create_order_ok [OF run] by blast
  obtain p :: provider and res :: order_result where q: "oc_order c = new_order (next_id s) hid u (strip k) (p_name p) (or_ref res) price now"
      "order_check (oc_order c)" "t = ordered (oc_order c) now s"
    using open_order_ok [OF h(5)] unfolding h(2) by (elim exE conjE) (rule that, assumption+)
  have backed: "order_backed t (oc_order c)"
    using h(1,3,4) by (simp add: q(1,3) order_backed_def ordered_def new_order_def snapshot_of_hold_Inr)
  show ?thesis
  proof (rule advance_money [OF inv])
    show "refund_inv t"
      by (rule refund_inv_append [OF tables_invD(3) [OF inv], of _ "oc_order c"])
        (use q(2) in \<open>simp_all add: q(3) ordered_def, simp_all add: q(1) new_order_def order_check_def\<close>)
    show "rows_kept o_id order_kept (orders s) (orders t)" by (simp add: q(3) ordered_def rows_kept_append)
    show "order_traced s t q'" if "q' \<in> set (orders t)" for q'
      using that backed order_traced_old [of q' s t] by (auto simp: q(3) ordered_def order_traced_def)
  qed (simp_all add: q(3) ordered_def)
qed

lemma advance_refund:
  assumes inv: "tables_inv s" and run: "refund t0 oid amount reason r u prov now pend s = (Inr i, t)"
  shows "advance s t"
proof -
  obtain ord where t: "t = refunded (ri_refund i) ord (ri_pending_retry i) r u now s"
    using refund_ok [OF run] by blast
  show ?thesis
    by (rule advance_money [OF inv refund_keeps_inv [OF tables_invD(3) [OF inv] run]])
      (simp_all add: t refunded_def order_traced_old)
qed


text \<open>Two steps, of which one leaves sessions and attendance alone.\<close>

lemma advance_trans:
  assumes su: "advance s u" and ut: "advance u t"
    and one: "sessions u = sessions s \<and> attendance u = attendance s \<or> sessions t = sessions u \<and> attendance t = attendance u"
  shows "advance s t"
proof -
  note k = su [unfolded advance_def kept_def] ut [unfolded advance_def kept_def]
  have "rows_kept h_id hold_kept (holds s) (holds t)"
    by (rule rows_kept_trans [of _ _ _ "holds u"]) (use k in \<open>auto simp: hold_kept_def\<close>)
  moreover have "rows_kept o_id order_kept (orders s) (orders t)"
    by (rule rows_kept_trans [of _ _ _ "orders u"]) (use k in \<open>auto simp: order_kept_def\<close>)
  moreover have "rows_kept ts_id session_kept (sessions s) (sessions t)" using k one by auto
  moreover have "attendance_moves s t"
    using one
  proof
    assume "sessions u = sessions s \<and> attendance u = attendance s"
    then show ?thesis using k attendance_state_of_cong [of u s] by (simp add: attendance_moves_def)
  next
    assume "sessions t = sessions u \<and> attendance t = attendance u"
    then show ?thesis using k attendance_state_of_cong [of t u] by (simp add: attendance_moves_def)
  qed
  ultimately show ?thesis using k by (simp add: advance_def kept_def)
qed

text \<open>Replacing one order by a later version of it.\<close>

lemma advance_save_order:
  assumes inv: "tables_inv s" and ord: "ord \<in> set (orders s)" and q: "order_kept ord q"
    and paid: "o_status q = OPaid \<Longrightarrow> o_status ord = OPaid \<or> has_verified_paid_event q t"
    and t: "orders t = orders (save_order q s)" "refunds t = refunds s"
    and same: "holds t = holds s" "slots t = slots s" "sessions t = sessions s" "attendance t = attendance s"
      "reviews t = reviews s" "moderation t = moderation s" "next_id s \<le> next_id t"
      "set (pay_events s) \<subseteq> set (pay_events t)"
  shows "advance s t"
proof -
  have r: "refund_inv s" by (rule tables_invD(3) [OF inv])
  have d: "distinct (map o_id (orders s))" using r by (simp add: refund_inv_def)
  have q': "o_id q = o_id ord" "o_amount q = o_amount ord" using q by (simp_all add: order_kept_def)
  have os: "set (orders t) = insert q (set (orders s) - {r. o_id r = o_id ord})"
    using ord by (auto simp: t(1) set_update_where q'(1))
  have ids: "map o_id (orders t) = map o_id (orders s)"
    by (simp add: t(1) update_where_def q'(1))
  have ids': "o_id ` set (orders t) = o_id ` set (orders s)" using arg_cong [OF ids, of set] by simp
  have "refunded_paise t i = refunded_paise s i" for i by (simp add: refunded_paise_def t(2))
  then have "refund_inv t"
    unfolding refund_inv_def ids t(2) ids' using r ord q' same(7)
    by (auto simp: refund_inv_def os intro: order_less_le_trans)
  moreover have "rows_kept o_id order_kept (orders s) (orders t)"
    unfolding rows_kept_def
  proof (intro allI impI)
    fix i r assume r: "find_row o_id i (orders s) = Some r"
    show "\<exists>r'. find_row o_id i (orders t) = Some r' \<and> order_kept r r'"
    proof (cases "i = o_id ord")
      case True
      then have "r = ord" using r ord by (simp add: find_row_Some_iff [OF d]) (metis d find_row_Some_iff option.inject r)
      then show ?thesis using save_order_row(1) [OF d ord q'(1)] q True by (simp add: t(1))
    next
      case False
      then show ?thesis using save_order_row(2) [OF d ord q'(1)] r by (simp add: t(1))
    qed
  qed
  moreover have "order_traced s t q'" if "q' \<in> set (orders t)" for q'
    using that ord q paid order_traced_old [of q' s t] by (auto simp: os order_traced_def)
  ultimately show ?thesis by (rule advance_money [OF inv _ _ _ same])
qed

section \<open>Sessions\<close>

lemma no_early_attendance:
  assumes "tables_inv s"
  shows "attendance_state_of s (next_id s) = None"
proof (rule ccontr)
  assume "attendance_state_of s (next_id s) \<noteq> None"
  then have "session_status_of s (next_id s) \<noteq> None"
    using assms tables_invD(2) [OF assms] unfolding attendance_inv_def
    by (metis follows.simps(2) option.exhaust option.simps(3))
  then obtain r where "r \<in> set (sessions s)" "ts_id r = next_id s"
    by (auto simp: session_status_of_def dest: find_row_SomeD)
  then show False using tables_invD(6) [OF assms] by (auto simp: ledger_inv_def)
qed

lemma session_of_order:
  assumes inv: "tables_inv s" and q: "q \<in> set (orders s)" and h: "get_hold_row s (o_hold q) = Some h" "h_status h \<noteq> HConsumed"
  shows "Some (o_id q) \<notin> ts_order ` set (sessions s)"
proof
  assume "Some (o_id q) \<in> ts_order ` set (sessions s)"
  then obtain r where r: "r \<in> set (sessions s)" "ts_order r = Some (o_id q)" by auto
  have "get_order_row s (o_id q) = Some q"
    using tables_invD(3) [OF inv] q by (simp add: refund_inv_def find_row_Some_iff)
  with r tables_invD(6) [OF inv] h show False by (auto simp: ledger_inv_def session_backed_def)
qed

lemma advance_booked:
  assumes inv: "tables_inv s" and q: "q \<in> set (orders s)" "o_status q = OPaid" "o_student q = h_student hold"
    and hold: "get_hold_row s (o_hold q) = Some hold" "live_hold hold"
    and sl: "get_slot_row s (h_slot hold) = Some sl" and free: "h_slot hold \<notin> ts_slot ` set (sessions s)"
    and r: "r = new_session (next_id s) sl hold q now" "session_check r"
  shows "advance s (booked r hold now s)"
proof -
  let ?t = "booked r hold now s"
  have hin: "hold \<in> set (holds s)" "h_id hold = o_hold q" using find_row_SomeD [OF hold(1)] by simp_all
  have b: "booking_inv s" by (rule tables_invD [OF inv])
  have ri: "ts_id r = next_id s" "ts_slot r = h_slot hold" "ts_status r = Confirmed" "ts_order r = Some (o_id q)"
      "ts_student r = o_student q"
    using find_row_SomeD [OF sl] q(3) by (simp_all add: r(1))
  have sess: "sessions ?t = sessions s @ [r]" and nx: "next_id ?t = Suc (next_id s)"
    and same: "orders ?t = orders s" "attendance ?t = attendance s" "refunds ?t = refunds s" "pay_events ?t = pay_events s"
      "reviews ?t = reviews s" "moderation ?t = moderation s"
    by (simp_all add: booked_def)
  have bt: "booking_inv ?t" by (rule booked_inv [OF b hin(1) hold(2)])
  have ids: "\<forall>x \<in> set (sessions s). ts_id x < next_id s" using tables_invD(6) [OF inv] by (simp add: ledger_inv_def)
  have holds': "rows_kept h_id hold_kept (holds s) (holds ?t)"
    by (simp add: booked_def) (rule close_kept, simp)
  have consumed: "get_hold_row ?t (o_hold q) = Some (close_hold_row HConsumed now hold)"
    using hold hin(2) by (simp add: booked_def find_row_update live_hold_def)
  have qrow: "get_order_row s (o_id q) = Some q"
    using tables_invD(3) [OF inv] q(1) by (simp add: refund_inv_def find_row_Some_iff)
  have k: "kept s ?t" using holds' same by (simp add: kept_def sess rows_kept_append)
  have att: "attendance_inv ?t"
    unfolding attendance_inv_def
  proof (intro conjI allI)
    show "sessions_ok ?t"
      using tables_invD(7) [OF inv] ids free ri r(2) by (auto simp: sessions_ok_def sess)
    show "attendance_ok ?t" using attendance_ok_frame [OF tables_invD(8) [OF inv] same(2)] nx by simp
    fix i
    have st: "session_status_of ?t i = (if i = next_id s then Some Confirmed else session_status_of s i)"
      using ids by (auto simp: session_status_of_def sess find_row_append ri dest!: find_row_SomeD split: option.split)
    show "follows (attendance_state_of ?t i) (session_status_of ?t i)"
      using tables_invD(2) [OF inv] no_early_attendance [OF inv] attendance_state_of_cong [OF same(2)]
      by (simp add: st attendance_inv_def)
  qed
  obtain sl' where sl': "get_slot_row s (h_slot hold) = Some sl'" "sl_id sl' = h_slot hold" "sl_status sl' = SHeld"
    using live_hold_slot [OF b hin(1) hold(2)] by blast
  have slot: "slot_state ?t i = (if i = h_slot hold then Some SBooked else slot_state s i)" for i
  proof -
    have "slots ?t = update_where (\<lambda>sl. sl_id sl = h_slot hold \<and> sl_status sl = SHeld) (set_slot_row SBooked now) (slots s)"
      by (simp add: booked_def)
    from slot_state_update [OF this, of i] show ?thesis
      using sl' by (cases "get_slot_row s i") (auto simp: slot_state_def dest: find_row_SomeD)
  qed
  have cal: "calendar_inv ?t"
    using tables_invD(5) [OF inv] ri by (auto simp: calendar_inv_def slot sold_def sess)
  have backed: "session_backed ?t r"
    using consumed qrow q ri same(1) by (simp add: session_backed_def)
  have "ledger_inv ?t"
  proof (rule ledger_inv_step [OF tables_invD(6) [OF inv] k])
    show "distinct (map ts_order (sessions ?t))"
      using tables_invD(6) [OF inv] session_of_order [OF inv q(1) hold(1)] hold(2) ri(4)
      by (simp add: ledger_inv_def sess live_hold_def)
    show "session_traced s ?t r'" if "r' \<in> set (sessions ?t)" for r'
      using that backed session_traced_old [of r' s ?t] by (auto simp: sess session_traced_def ri nx)
  qed (simp_all add: same nx order_traced_old)
  then show ?thesis
    using k bt att cal same refund_inv_frame [of s ?t] reviews_inv_frame [of s ?t] inv nx
    by (simp add: advance_def tables_inv_def)
qed

lemma advance_create_session:
  assumes inv: "market_inv s" and run: "create_from_paid_hold cfg t0 hold q now s = (Inr c, t)"
    and rows: "get_hold_row s (h_id hold) = Some hold" "q \<in> set (orders s)"
  shows "advance s t \<and> jobs_inv t"
proof (cases "sc_replayed c")
  case True
  then have "t = s" using run by (auto simp: create_from_paid_hold_def run_simps split: option.splits)
  then show ?thesis using inv by (simp add: market_inv_def advance_refl)
next
  case False
  have ti: "tables_inv s" and ji: "jobs_inv s" using inv by (simp_all add: market_inv_def)
  obtain sl r where ok: "get_slot_row s (h_slot hold) = Some sl" "r = new_session (next_id s) sl hold q now" "session_check r"
      "o_hold q = h_id hold" "o_student q = h_student hold" "o_status q = OPaid" "live_hold hold"
      "h_slot hold \<notin> ts_slot ` set (sessions s)" "core t = core (booked r hold now s)" "next_id s < next_id t" "jobs_inv t"
    using create_session_ok [OF run False ji] by (elim exE conjE) (rule that, assumption+)
  have "advance s (booked r hold now s)"
    by (rule advance_booked [OF ti rows(2) ok(6,5) _ ok(7,1,8,2,3)]) (simp add: ok(4) rows(1))
  then show ?thesis using ok(9-11) advance_core [of s "booked r hold now s" t] by (simp add: booked_def)
qed

text \<open>
  A delivery as two writes: the ledger row and the order first, then nothing, the release of the
  order's hold or the booking of its slot.
\<close>

lemma event_parts:
  assumes inv: "market_inv s" and run: "handle_event cfg t0 sg raw prov u now s = (Inr out, t)"
  obtains v where "advance s v" and "sessions v = sessions s" and "attendance v = attendance s"
    and "holds v = holds s" and "slots v = slots s" and "jobs_inv t"
    and "core t = core v \<and> next_id v \<le> next_id t
      \<or> (\<exists>hold \<in> set (holds v). live_hold hold \<and> advance v (released hold System None now v)
           \<and> core t = core (released hold System None now v) \<and> next_id v \<le> next_id t)
      \<or> (\<exists>hold \<in> set (holds v). \<exists>r. live_hold hold \<and> now < h_expires_at hold \<and> ts_slot r = h_slot hold
           \<and> ts_student r = h_student hold \<and> ts_status r = Confirmed \<and> advance v (booked r hold now v)
           \<and> core t = core (booked r hold now v) \<and> next_id v < next_id t)"
proof -
  have ti: "tables_inv s" and ji: "jobs_inv s" using inv by (simp_all add: market_inv_def)
  obtain p d ord where h: "match_event d u s = Inr ord"
      "apply_event cfg t0 (crumbs d ord) (ledger_row (next_id s) d ord now) now
        (bump s\<lparr>pay_events := pay_events s @ [ledger_row (next_id s) d ord now]\<rparr>) = (Inr out, t)"
    using handle_event_split [OF run] by metis
  define e where "e = bump s\<lparr>pay_events := pay_events s @ [ledger_row (next_id s) d ord now]\<rparr>"
  have je: "jobs_inv e" by (rule jobs_inv_frame [OF ji]) (simp_all add: e_def bump_def)
  obtain st where st: "out_order out = (crumbs d ord)\<lparr>o_status := st\<rparr>" "o_status (crumbs d ord) = OPaid \<Longrightarrow> st = OPaid"
      "st = OPaid \<Longrightarrow> o_status (crumbs d ord) = OPaid \<or> has_verified_paid_event (crumbs d ord) e"
      "event_effect (crumbs d ord) (out_order out) now e t" "jobs_inv t" "next_id e \<le> next_id t"
    by (rule apply_event_effect [OF h(2) [folded e_def] je]) (rule that, assumption+)
  let ?q = "out_order out" and ?v = "save_order (out_order out) e"
  have ord: "ord \<in> set (orders s)" using match_event_ok [OF h(1)] by simp
  have q: "order_kept ord ?q" using st(2) by (simp add: st(1) order_kept_def)
  have v: "advance s ?v"
  proof (rule advance_save_order [OF ti ord q])
    show "o_status ord = OPaid \<or> has_verified_paid_event ?q ?v" if "o_status ?q = OPaid"
      using st(3) that by (auto simp: st(1) has_verified_paid_event_def)
  qed (auto simp: e_def bump_def save_order_def)
  have same: "sessions ?v = sessions s" "attendance ?v = attendance s" "holds ?v = holds s" "slots ?v = slots s"
    by (simp_all add: save_order_def e_def bump_def)
  have tv: "tables_inv ?v" using v by (simp add: advance_def)
  have qin: "?q \<in> set (orders ?v)"
    using ord by (auto simp: set_update_where e_def bump_def st(1) image_iff)
  show ?thesis
  proof (rule that [OF v same st(5)])
    show "core t = core ?v \<and> next_id ?v \<le> next_id t
      \<or> (\<exists>hold \<in> set (holds ?v). live_hold hold \<and> advance ?v (released hold System None now ?v)
           \<and> core t = core (released hold System None now ?v) \<and> next_id ?v \<le> next_id t)
      \<or> (\<exists>hold \<in> set (holds ?v). \<exists>r. live_hold hold \<and> now < h_expires_at hold \<and> ts_slot r = h_slot hold
           \<and> ts_student r = h_student hold \<and> ts_status r = Confirmed \<and> advance ?v (booked r hold now ?v)
           \<and> core t = core (booked r hold now ?v) \<and> next_id ?v < next_id t)"
      using st(4) unfolding event_effect_def
    proof (elim disjE exE conjE)
      assume "core t = core ?v"
      then show ?thesis using st(6) by simp
    next
      fix hold
      assume a: "get_hold_row e (o_hold (crumbs d ord)) = Some hold" "live_hold hold"
        "core t = core (released hold System None now ?v)"
      have hin: "hold \<in> set (holds ?v)" using find_row_SomeD [OF a(1)] by simp
      have "advance ?v (released hold System None now ?v)" by (rule advance_released [OF tv hin a(2)])
      then show ?thesis using hin a(2,3) st(6) by auto
    next
      fix hold sl r
      assume a: "get_hold_row e (o_hold (crumbs d ord)) = Some hold" "live_hold hold" "o_status ?q = OPaid"
        "o_student (crumbs d ord) = h_student hold" "get_slot_row e (h_slot hold) = Some sl"
        "h_slot hold \<notin> ts_slot ` set (sessions e)" "r = new_session (next_id e) sl hold ?q now" "session_check r"
        "next_id e < next_id t" "core t = core (booked r hold now ?v)" "now < h_expires_at hold"
      have hin: "hold \<in> set (holds ?v)" using find_row_SomeD [OF a(1)] by simp
      have b: "advance ?v (booked r hold now ?v)"
        by (rule advance_booked [OF tv qin a(3) _ _ a(2)]) (use a st(1) in simp_all)
      have "ts_slot r = h_slot hold" "ts_student r = h_student hold" "ts_status r = Confirmed"
        using find_row_SomeD [OF a(5)] by (simp_all add: a(7))
      then show ?thesis using hin a(2,9,10,11) b by auto
    qed
  qed
qed

lemma advance_handle_event:
  assumes inv: "market_inv s" and run: "handle_event cfg t0 sg raw prov u now s = (Inr out, t)"
  shows "advance s t \<and> jobs_inv t"
proof (rule event_parts [OF inv run])
  fix v :: db
  assume v: "advance s v" "sessions v = sessions s" "attendance v = attendance s" and "jobs_inv t"
    and eff: "core t = core v \<and> next_id v \<le> next_id t
      \<or> (\<exists>hold \<in> set (holds v). live_hold hold \<and> advance v (released hold System None now v)
           \<and> core t = core (released hold System None now v) \<and> next_id v \<le> next_id t)
      \<or> (\<exists>hold \<in> set (holds v). \<exists>r. live_hold hold \<and> now < h_expires_at hold \<and> ts_slot r = h_slot hold
           \<and> ts_student r = h_student hold \<and> ts_status r = Confirmed \<and> advance v (booked r hold now v)
           \<and> core t = core (booked r hold now v) \<and> next_id v < next_id t)"
  have then_by: "advance s w" if "advance v w" for w
    using advance_trans [OF v(1) that] v(2,3) by blast
  have "advance s t"
    using eff
  proof (elim disjE bexE exE conjE)
    assume "core t = core v" "next_id v \<le> next_id t"
    then show ?thesis by (rule advance_core [OF v(1)])
  next
    fix hold assume "advance v (released hold System None now v)"
      and c: "core t = core (released hold System None now v)" "next_id v \<le> next_id t"
    then show ?thesis using advance_core [OF then_by, of "released hold System None now v" t] by (simp add: released_def)
  next
    fix hold r assume "advance v (booked r hold now v)" and c: "core t = core (booked r hold now v)" "next_id v < next_id t"
    then show ?thesis using advance_core [OF then_by, of "booked r hold now v" t] by (simp add: booked_def)
  qed
  with \<open>jobs_inv t\<close> show ?thesis by simp
qed

text \<open>A step that moves one session along its graph.\<close>

lemma update_where_traced:
  assumes "r' \<in> set (update_where p f t)" and "\<And>r. r \<in> set t \<Longrightarrow> p r \<Longrightarrow> R r (f r)" and "\<And>r. R r r"
  shows "\<exists>r \<in> set t. R r r'"
  using assms by (auto simp: set_update_where)

lemma advance_session:
  assumes inv: "tables_inv s" and t: "booking_inv t" "attendance_inv t" "calendar_inv t"
    and holds: "rows_kept h_id hold_kept (holds s) (holds t)"
    and row: "get_session_row s sid = Some q"
    and legal: "sv_status v = ts_status q \<or> sv_status v \<in> set (legal_transitions (ts_status q))"
    and sess: "sessions t = update_where (\<lambda>r. ts_id r = sid) (moved v n) (sessions s)"
    and att: "attendance_moves s t"
    and same: "orders t = orders s" "refunds t = refunds s" "reviews t = reviews s" "moderation t = moderation s"
      "pay_events t = pay_events s" "next_id s \<le> next_id t"
  shows "advance s t"
proof -
  have "distinct (map ts_id (sessions s))" using tables_invD(7) [OF inv] by (simp add: sessions_ok_def)
  then have "r = q" if "r \<in> set (sessions s)" "ts_id r = sid" for r
    using that row find_row_Some_iff [of ts_id "sessions s" sid r] by simp
  then have sk: "session_kept r (moved v n r)" if "r \<in> set (sessions s)" "ts_id r = sid" for r
    using that legal by (auto simp: session_kept_def)
  have k: "kept s t"
    using holds att same by (simp add: kept_def sess) (rule rows_kept_update; simp add: sk)
  have "ledger_inv t"
  proof (rule ledger_inv_step [OF tables_invD(6) [OF inv] k])
    show "session_traced s t r'" if "r' \<in> set (sessions t)" for r'
      using update_where_traced [OF that [unfolded sess], of session_kept] sk by (simp add: session_traced_def)
    show "distinct (map ts_order (sessions t))"
      using tables_invD(6) [OF inv] by (simp add: ledger_inv_def sess map_update_where)
  qed (use same in \<open>simp_all add: order_traced_old\<close>)
  then show ?thesis
    using k t same refund_inv_frame [of s t] reviews_inv_frame [of s t] inv by (simp add: advance_def tables_inv_def)
qed

text \<open>The uncancelled session of a slot is the only row that can sell it.\<close>

lemma sold_moved:
  assumes inv: "tables_inv s" and row: "get_session_row s sid = Some q"
    and sess: "sessions t = update_where (\<lambda>r. ts_id r = sid) (moved v n) (sessions s)"
  shows "sold t i \<longleftrightarrow> (if sv_status v \<noteq> Cancelled \<and> i = ts_slot (moved v n q) then True
      else if i = ts_slot q then False else sold s i)"
proof -
  have so: "distinct (map ts_id (sessions s))" "distinct (map ts_slot (sessions s))"
    using tables_invD(7) [OF inv] by (simp_all add: sessions_ok_def)
  have q: "q \<in> set (sessions s)" "ts_id q = sid" using find_row_SomeD [OF row] by auto
  have uq: "r = q" if "r \<in> set (sessions s)" "ts_id r = sid" for r
    using that row find_row_Some_iff [OF so(1), of sid r] by simp
  have us: "r = q" if "r \<in> set (sessions s)" "ts_slot r = ts_slot q" for r
    using that q(1) so(2) by (simp add: distinct_map inj_on_def)
  have "{r \<in> set (sessions s). ts_id r = sid} = {q}" "{r \<in> set (sessions s). ts_id r \<noteq> sid} = set (sessions s) - {q}"
    using q uq by blast+
  then have "set (sessions t) = insert (moved v n q) (set (sessions s) - {q})"
    by (simp add: sess set_update_where)
  then have "sold t i \<longleftrightarrow> i = ts_slot (moved v n q) \<and> sv_status v \<noteq> Cancelled
      \<or> (\<exists>r \<in> set (sessions s) - {q}. ts_slot r = i \<and> ts_status r \<noteq> Cancelled)"
    unfolding sold_def by (simp only: bex_simps moved_sel) blast
  moreover have "(\<exists>r \<in> set (sessions s) - {q}. ts_slot r = i \<and> ts_status r \<noteq> Cancelled) \<longleftrightarrow> i \<noteq> ts_slot q \<and> sold s i"
    unfolding sold_def using us by blast
  ultimately show ?thesis by (simp only: if_bool_eq_conj) blast
qed

lemma attendance_inv_moved:
  assumes inv: "attendance_inv s" and row: "get_session_row s sid = Some q"
    and sess: "sessions t = update_where (\<lambda>r. ts_id r = sid) (moved v n) (sessions s)" and ok: "sessions_ok t"
    and st: "ts_status q \<notin> {Completed, Disputed}" "sv_status v \<notin> {Completed, Disputed}"
    and t: "attendance t = attendance s" "next_id s \<le> next_id t"
  shows "attendance_inv t"
proof (rule attendance_inv_intro [OF inv ok, of sid])
  show "attendance_ok t" using attendance_ok_frame [OF _ t] inv by (simp add: attendance_inv_def)
  fix i assume "i \<noteq> sid"
  then show "attendance_state_of t i = attendance_state_of s i \<and> session_status_of t i = session_status_of s i"
    using attendance_state_of_cong [OF t(1)]
    by (cases "get_session_row s i") (auto simp: session_status_of_def sess find_row_update dest: find_row_SomeD)
next
  have "session_status_of t sid = Some (sv_status v)"
    using row find_row_SomeD [OF row] by (simp add: session_status_of_def sess find_row_update)
  moreover have "follows (attendance_state_of s sid) (Some (ts_status q))"
    using inv row unfolding attendance_inv_def session_status_of_def by (metis option.simps(9))
  ultimately show "follows (attendance_state_of t sid) (session_status_of t sid)"
    using st attendance_state_of_cong [OF t(1), of sid] by (cases "attendance_state_of s sid") (auto split: if_splits)
qed

lemma live_status: "st \<in> set live_statuses \<Longrightarrow> st \<notin> {Completed, Disputed, Cancelled}"
  by (auto simp: live_statuses_def)

lemma advance_reschedule:
  assumes inv: "market_inv s" and run: "reschedule cfg t0 sid new_id u r ver ex admin why now s = (Inr m, t)"
  shows "advance s t \<and> jobs_inv t"
proof -
  have ti: "tables_inv s" and ji: "jobs_inv s" using inv by (simp_all add: market_inv_def)
  note D = tables_invD [OF ti]
  obtain sess sl inside n sl' where ok: "reschedule_gates cfg sid new_id u r ex admin now s = Inr (sess, sl, inside)"
      "Rescheduled \<in> set (legal_transitions (ts_status sess))"
      "get_slot_row (swept now (Some new_id) s) new_id = Some sl'" "sl_status sl' = SAvailable"
      "core t = core ((swapped sess new_id now s)\<lparr>sessions := sessions t\<rparr>)"
      "sessions t = update_where (\<lambda>q. ts_id q = sid)
        (moved \<lparr>sv_status = Rescheduled, sv_now = now, sv_slot = Some sl\<rparr> n) (sessions s)"
      "sessions_ok t" "jobs_inv t" "next_id s < next_id t"
    using reschedule_ok [OF run D(1,7) ji] by (elim exE conjE) (rule that, assumption+)
  have g: "get_session_row s sid = Some sess" "ts_status sess \<in> set live_statuses" "new_id \<noteq> ts_slot sess" "sl_id sl = new_id"
    using reschedule_gates_ok [OF ok(1)] get_session_ok by blast+
  let ?u = "(swapped sess new_id now s)\<lparr>sessions := sessions t\<rparr>"
  let ?w = "swept now (Some new_id) s"
  have slot: "slot_state ?u i = (if i = new_id then Some SBooked
      else if i = ts_slot sess \<and> slot_state ?w i = Some SBooked then Some SAvailable else slot_state ?w i)" for i
  proof (cases "i = new_id")
    case True
    then show ?thesis using ok(3,4) g(3) find_row_SomeD [OF ok(3)] by (simp add: slot_state_def swapped_def find_row_update)
  next
    case False
    then show ?thesis
      by (cases "get_slot_row ?w i") (auto simp: slot_state_def swapped_def find_row_update dest!: find_row_SomeD)
  qed
  have "sold ?u i \<longleftrightarrow> (if i = new_id then True else if i = ts_slot sess then False else sold s i)" for i
    using sold_moved [OF ti g(1) ok(6)] g(4) sold_cong [of ?u t i] by simp
  moreover have "calendar_inv ?w" by (rule swept_calendar [OF D(5)])
  ultimately have cal: "calendar_inv ?u"
    using sold_cong [of ?w s] by (auto simp: calendar_inv_def slot)
  have "advance s ?u"
  proof (rule advance_session [OF ti _ _ cal _ g(1)])
    show "booking_inv ?u" using booking_inv_frame [OF swapped_inv [OF D(1)]] by simp
    show "attendance_inv ?u"
    proof (rule attendance_inv_moved [OF D(2) g(1)])
      show "sessions ?u = update_where (\<lambda>q. ts_id q = sid)
          (moved \<lparr>sv_status = Rescheduled, sv_now = now, sv_slot = Some sl\<rparr> n) (sessions s)" using ok(6) by simp
      show "sessions_ok ?u" using ok(7) by (simp add: sessions_ok_def)
    qed (use live_status [OF g(2)] in simp_all)
    show "rows_kept h_id hold_kept (holds s) (holds ?u)" using swept_holds [of s now "Some new_id"] by (simp add: swapped_def)
    show "sessions ?u = update_where (\<lambda>q. ts_id q = sid)
        (moved \<lparr>sv_status = Rescheduled, sv_now = now, sv_slot = Some sl\<rparr> n) (sessions s)" using ok(6) by simp
  qed (use ok(2) in simp_all)
  then show ?thesis using advance_core [OF _ ok(5)] ok(8,9) by simp
qed

lemma advance_cancel:
  assumes inv: "market_inv s" and run: "cancel cfg t0 sid u r ver ex admin amount why prov now s = (Inr m, t)"
  shows "advance s t \<and> jobs_inv t"
proof -
  have ti: "tables_inv s" and ji: "jobs_inv s" using inv by (simp_all add: market_inv_def)
  note D = tables_invD [OF ti]
  obtain sess ord a n c v where ok: "cancel_assess cfg sid u r ex admin amount now s = Inr (sess, ord, a)"
      "Cancelled \<in> set (legal_transitions (ts_status sess))"
      "core v = core (retired sess n c now s)" "next_id v = next_id s"
      "if refund_due a
       then \<exists>q why i w. ord = Some q \<and> ra_reason a = Some why
          \<and> refund t0 (o_id q) (PyInt (ra_amount a)) why r
               (case admin of Some x \<Rightarrow> Some x | None \<Rightarrow> u) prov now True v = (Inr i, w)
          \<and> core t = core w \<and> sm_refund m = Some (rf_id (ri_refund i))
          \<and> (\<exists>x. outbox t = outbox w @ [x] \<and> ob_kind x = Booking_cancelled \<and> ob_aggregate x = sid
               \<and> ob_id x = next_id w) \<and> next_id t = Suc (next_id w)
       else core t = core v \<and> sm_refund m = None
          \<and> (\<exists>x. outbox t = outbox v @ [x] \<and> ob_kind x = Booking_cancelled \<and> ob_aggregate x = sid
               \<and> ob_id x = next_id v) \<and> next_id t = Suc (next_id v)"
      "sessions_ok v" "jobs_inv t"
    using cancel_ok [OF run D(7) ji] by (elim exE conjE) (rule that, assumption+)
  have g: "get_session_row s sid = Some sess" "ts_id sess = sid" "ts_status sess \<in> set live_statuses"
    using cancel_assess_ok [OF ok(1)] get_session_ok by blast+
  let ?v = "\<lparr>sv_status = Cancelled, sv_now = now, sv_slot = None\<rparr>"
  let ?u = "retired sess n c now s"
  have us: "sessions ?u = update_where (\<lambda>q. ts_id q = sid) (moved ?v n) (sessions s)" by (simp add: retired_def g(2))
  have uq: "slots ?u = update_where (\<lambda>sl. sl_id sl = ts_slot sess) (set_slot_row SCancelled now) (slots s)"
    by (simp add: retired_def)
  have booked: "slot_state s (ts_slot sess) = Some SBooked"
    using D(5) find_row_SomeD [OF g(1)] live_status [OF g(3)] by (auto simp: calendar_inv_def sold_def)
  have "slot_state ?u i = (if i = ts_slot sess then Some SCancelled else slot_state s i)" for i
    using slot_state_update [OF uq, of i] booked
    by (cases "get_slot_row s i") (auto simp: slot_state_def dest: find_row_SomeD)
  then have cal: "calendar_inv ?u"
    using sold_moved [OF ti g(1) us] D(5) by (simp add: calendar_inv_def)
  have "advance s ?u"
  proof (rule advance_session [OF ti _ _ cal _ g(1) _ us])
    show "booking_inv ?u"
    proof -
      have "sl_status sl \<noteq> SHeld" if "sl \<in> set (slots s)" "sl_id sl = ts_slot sess" for sl
        using that booked find_row_Some_iff [OF booking_invD(3) [OF D(1)], of "ts_slot sess" sl]
        by (auto simp: slot_state_def)
      then have "consistent (holds s) (slots ?u)"
        unfolding uq using D(1) by (intro move_consistent) (simp_all add: booking_inv_def)
      then show ?thesis using D(1) by (simp add: booking_inv_def retired_def)
    qed
    show "attendance_inv ?u"
      by (rule attendance_inv_moved [OF D(2) g(1) us])
        (use ok(6) coreD(7) [OF ok(3)] live_status [OF g(3)] in \<open>simp_all add: sessions_ok_def, simp_all add: retired_def\<close>)
  qed (use ok(2) in \<open>simp_all add: retired_def\<close>)
  then have v: "advance s v" by (rule advance_core [OF _ ok(3)]) (simp add: ok(4) retired_def)
  show ?thesis
  proof (cases "refund_due a")
    case True
    then obtain q :: order and i :: refund_issued and w why where w: "refund t0 (o_id q) (PyInt (ra_amount a)) why r
          (case admin of Some x \<Rightarrow> Some x | None \<Rightarrow> u) prov now True v = (Inr i, w)"
        "core t = core w" "next_id t = Suc (next_id w)" using ok(5) by auto
    have "advance v w" by (rule advance_refund [OF _ w(1)]) (use v in \<open>simp add: advance_def\<close>)
    moreover have "sessions w = sessions v" "attendance w = attendance v"
      using refund_ok [OF w(1)] by (auto simp: refunded_def)
    ultimately have "advance s w" using advance_trans [OF v] by blast
    then show ?thesis using advance_core [OF _ w(2)] w(3) ok(7) by simp
  next
    case False
    then show ?thesis using advance_core [OF v] ok(5,7) by simp
  qed
qed


section \<open>Attendance\<close>

lemma calendar_inv_moved:
  assumes inv: "tables_inv s" and row: "get_session_row s sid = Some q"
    and sess: "sessions t = update_where (\<lambda>r. ts_id r = sid) (moved v n) (sessions s)"
    and v: "sv_slot v = None" "ts_status q \<noteq> Cancelled" "sv_status v \<noteq> Cancelled" and "slots t = slots s"
  shows "calendar_inv t"
proof -
  have "sold s (ts_slot q)" using find_row_SomeD [OF row] v(2) by (auto simp: sold_def)
  then have "sold t i = sold s i" for i using sold_moved [OF inv row sess] v by auto
  then show ?thesis
    using tables_invD(5) [OF inv] slot_state_cong [OF assms(7)] by (simp add: calendar_inv_def)
qed

lemma followed_sel [simp]:
  "holds (followed q st m now s) = holds s" "slots (followed q st m now s) = slots s"
  "orders (followed q st m now s) = orders s" "refunds (followed q st m now s) = refunds s"
  "reviews (followed q st m now s) = reviews s" "moderation (followed q st m now s) = moderation s"
  "pay_events (followed q st m now s) = pay_events s" "attendance (followed q st m now s) = attendance s"
  by (simp_all add: followed_def move_session_def)

lemma advance_followed:
  assumes inv: "tables_inv s" and att: "attendance_inv t"
    and row: "get_attendance s (ts_id sess) = Some row" and sess: "get_session_row s (ts_id sess) = Some sess"
    and core: "core t = core (followed sess st moves_on now (decide_att row v s))" and "next_id t = next_id s"
    and legal: "target v \<in> set (legal_states (at_state row))"
      "moves_on \<Longrightarrow> st \<in> set (legal_transitions (ts_status sess)) \<and> st \<noteq> Cancelled"
  shows "advance s t"
proof -
  have ao: "attendance_ok s" by (rule tables_invD(8) [OF inv])
  have ra: "row \<in> set (attendance s)" "at_session row = ts_id sess" using get_attendance_row [OF ao row] by simp_all
  have old: "attendance_state_of s (ts_id sess) = Some (at_state row)" using row by (simp add: attendance_state_of_def)
  have "attendance t = attendance (decide_att row v s)"
    using coreD(8) [OF core] by simp
  note ta = attendance_state_of_cong [OF this]
  have am: "attendance_moves s t"
    unfolding attendance_moves_def ta attendance_state_of_decide [OF ao ra(1)] ra(2) using old legal(1) by auto
  have same: "holds t = holds s" "slots t = slots s" "orders t = orders s" "refunds t = refunds s"
      "reviews t = reviews s" "moderation t = moderation s" "pay_events t = pay_events s"
    using coreD [OF core] by (simp_all add: decide_att_def)
  have bi: "booking_inv t"
    by (rule booking_inv_frame [OF tables_invD(1) [OF inv]]) (simp_all add: same assms(6))
  show ?thesis
  proof (cases moves_on)
    case True
    let ?v = "\<lparr>sv_status = st, sv_now = now, sv_slot = None\<rparr>"
    have st: "sessions t = update_where (\<lambda>r. ts_id r = ts_id sess) (moved ?v (ts_version sess)) (sessions s)"
      using coreD(7) [OF core] True by (simp add: followed_def decide_att_def move_session_def)
    have "ts_status sess \<noteq> Cancelled" using legal(2) [OF True] by auto
    then have "calendar_inv t"
      by (intro calendar_inv_moved [OF inv sess st]) (use legal(2) [OF True] same in auto)
    then show ?thesis
      by (intro advance_session [OF inv bi att _ _ sess _ st am]) (use legal(2) [OF True] same assms(6) in simp_all)
  next
    case False
    then have st: "sessions t = sessions s" using coreD(7) [OF core] by (simp add: followed_def)
    then have k: "kept s t" using am same by (simp add: kept_def)
    have "ledger_inv t"
      by (rule ledger_inv_step [OF tables_invD(6) [OF inv] k])
        (use same st assms(6) inv in \<open>simp_all add: order_traced_old session_traced_old, simp add: tables_inv_def ledger_inv_def\<close>)
    then show ?thesis
      using k bi att same st inv refund_inv_frame [of s t] reviews_inv_frame [of s t] calendar_inv_frame [of s t] assms(6)
      by (simp add: advance_def tables_inv_def)
  qed
qed

lemma advance_record:
  assumes inv: "tables_inv s" and run: "record_attendance t0 sid u r now authority s = (Inr out, t)"
  shows "advance s t" "jobs t = jobs s" "next_id s \<le> next_id t"
proof -
  obtain sess row where ok: "record_gates sid u r now authority s = Inr sess"
      "row = \<lparr>at_id = next_id s, at_session = ts_id sess, at_state = ARecorded,
                  at_recorded_by = Some r, at_recorded_at = Some now, at_confirmed_at = None,
                  at_disputed_at = None, at_resolved_at = None, at_resolution = None, at_version = 1\<rparr>"
      "core t = core (move_session (ts_id sess) Completed now (ts_version sess) (s\<lparr>attendance := attendance s @ [row]\<rparr>))"
      "next_id s < next_id t" "jobs t = jobs s" "get_session_row s sid = Some sess"
    by (rule record_attendance_ok [OF run tables_invD(7) [OF inv]]) (rule that, assumption+)
  show "jobs t = jobs s" "next_id s \<le> next_id t" using ok(4,5) by simp_all
  have g: "ts_status sess \<in> {Confirmed, Rescheduled}" "get_attendance s (ts_id sess) = None" "ts_id sess = sid"
    using record_gates_ok [OF ok(1)] find_row_SomeD [OF ok(6)] by blast+
  let ?v = "\<lparr>sv_status = Completed, sv_now = now, sv_slot = None\<rparr>"
  note c = coreD [OF ok(3), simplified]
  have st: "sessions t = update_where (\<lambda>r. ts_id r = sid) (moved ?v (ts_version sess)) (sessions s)"
    using c(7) g(3) by (simp add: move_session_def)
  have rs: "get_attendance s (at_session row) = None" using g(2) ok(2) by simp
  have at: "attendance t = attendance (s\<lparr>attendance := attendance s @ [row]\<rparr>)" using c(8) by simp
  have none: "attendance_state_of s (at_session row) = None" using rs by (simp add: attendance_state_of_def)
  have am: "attendance_moves s t"
    unfolding attendance_moves_def attendance_state_of_cong [OF at] attendance_state_of_append [OF rs] using none by auto
  have rest: "reviews t = reviews s" "moderation t = moderation s"
    using coreD(10,11) [OF ok(3)] by (simp_all add: move_session_def)
  show "advance s t"
  proof (rule advance_session [OF inv _ record_attendance_inv [OF run tables_invD(2) [OF inv]] _ _ ok(6) _ st am])
    show "booking_inv t"
      by (rule booking_inv_frame [OF tables_invD(1) [OF inv]]) (use c ok(4) in simp_all)
    show "calendar_inv t"
      by (rule calendar_inv_moved [OF inv ok(6) st]) (use g(1) c in auto)
  qed (use g(1) c ok(4) rest in auto)
qed

lemma followed_state:
  assumes "tables_inv s" and "get_attendance s sid = Some row" and "get_session_row s sid = Some sess"
  shows "at_state row \<noteq> APending \<and> ts_status sess = (if at_state row = ADisputed then Disputed else Completed)"
proof -
  have "follows (attendance_state_of s sid) (session_status_of s sid)"
    using tables_invD(2) [OF assms(1)] by (simp add: attendance_inv_def)
  then show ?thesis using assms(2,3) by (auto simp: attendance_state_of_def session_status_of_def split: if_splits)
qed

lemma advance_confirm:
  assumes inv: "tables_inv s" and run: "confirm_attendance sid u ver now s = (Inr out, t)"
  shows "advance s t" "jobs t = jobs s" "next_id s \<le> next_id t"
proof -
  obtain sess row where ok: "get_session sid (Some u) Student s = Inr sess" "get_attendance s sid = Some row"
      "at_state row = ARecorded" "core t = core (decide_att row (Set_confirmed now) s)"
      "next_id t = next_id s" "jobs t = jobs s"
    by (rule confirm_attendance_ok [OF run tables_invD(8) [OF inv]]) (rule that, assumption+)
  show "jobs t = jobs s" "next_id s \<le> next_id t" using ok(5,6) by simp_all
  have g: "get_session_row s (ts_id sess) = Some sess" "ts_id sess = sid" using get_session_ok [OF ok(1)] by auto
  show "advance s t"
    by (rule advance_followed [OF inv confirm_attendance_inv [OF run tables_invD(2) [OF inv]] _ g(1), of row Completed False now "Set_confirmed now"])
      (use ok g(2) in \<open>simp_all add: followed_def\<close>)
qed

lemma advance_dispute:
  assumes inv: "tables_inv s" and run: "dispute_attendance sid u ver why now s = (Inr out, t)"
  shows "advance s t" "jobs t = jobs s" "next_id s \<le> next_id t"
proof -
  obtain sess row where ok: "get_session sid (Some u) Student s = Inr sess" "get_attendance s sid = Some row"
      "at_state row \<in> {ARecorded, AConfirmed}"
      "core t = core (followed sess Disputed (ts_status sess \<noteq> Disputed) now (decide_att row (Set_disputed now) s))"
      "next_id t = next_id s" "jobs t = jobs s"
    by (rule dispute_attendance_ok [OF run tables_invD(8,7) [OF inv]]) (rule that, assumption+)
  show "jobs t = jobs s" "next_id s \<le> next_id t" using ok(5,6) by simp_all
  have g: "get_session_row s (ts_id sess) = Some sess" "ts_id sess = sid" using get_session_ok [OF ok(1)] by auto
  have "ts_status sess = Completed" using followed_state [OF inv ok(2)] g ok(3) by auto
  then show "advance s t"
    by (intro advance_followed [OF inv dispute_attendance_inv [OF run tables_invD(2) [OF inv]] _ g(1) ok(4,5)])
      (use ok g(2) in auto)
qed

lemma advance_resolve:
  assumes inv: "tables_inv s" and run: "resolve_attendance sid admin res r ver now s = (Inr out, t)"
  shows "advance s t" "jobs t = jobs s" "next_id s \<le> next_id t"
proof -
  obtain sess row where ok: "get_session_row s sid = Some sess" "ts_id sess = sid" "get_attendance s sid = Some row"
      "at_state row = ADisputed"
      "core t = core (followed sess Completed (ts_status sess = Disputed) now (decide_att row (Set_resolved res now) s))"
      "next_id t = next_id s" "jobs t = jobs s"
    by (rule resolve_attendance_ok [OF run tables_invD(8,7) [OF inv]]) (rule that, assumption+)
  show "jobs t = jobs s" "next_id s \<le> next_id t" using ok(6,7) by simp_all
  have "ts_status sess = Disputed" using followed_state [OF inv ok(3,1)] ok(4) by simp
  then show "advance s t"
    by (intro advance_followed [OF inv resolve_attendance_inv [OF run tables_invD(2) [OF inv]] _ _ ok(5,6)])
      (use ok in auto)
qed

section \<open>Reviews, prices, the calendar's owner\<close>

lemma advance_reviews:
  assumes inv: "tables_inv s" and t: "reviews_inv t" and "next_id s \<le> next_id t"
    and core: "core t = core (rated_tutors i now u)" and u: "u = s\<lparr>reviews := rs, moderation := ms\<rparr>"
  shows "advance s t"
proof -
  have same: "holds t = holds s" "slots t = slots s" "orders t = orders s" "refunds t = refunds s"
      "sessions t = sessions s" "attendance t = attendance s" "pay_events t = pay_events s"
    using coreD(2-8) [OF core] by (simp_all add: u)
  then have k: "kept s t" by (simp add: kept_def)
  have "ledger_inv t"
    by (rule ledger_inv_step [OF tables_invD(6) [OF inv] k])
      (use same assms(3) inv in \<open>simp_all add: order_traced_old session_traced_old, simp add: tables_inv_def ledger_inv_def\<close>)
  then show ?thesis
    using k same inv t refund_inv_frame [of s t] booking_inv_frame [of s t] attendance_inv_frame [of s t]
      calendar_inv_frame [of s t] assms(3)
    by (simp add: advance_def tables_inv_def)
qed

lemma advance_tutors:
  assumes inv: "tables_inv s" and t: "core t = core (s\<lparr>tutors := ts\<rparr>)" "next_id s \<le> next_id t"
  shows "advance s t"
proof -
  have "advance s (s\<lparr>tutors := ts\<rparr>)"
    by (rule advance_calendar [OF inv])
      (use inv in \<open>simp_all add: booking_inv_frame [OF tables_invD(1) [OF inv]] calendar_inv_frame [OF tables_invD(5) [OF inv]]\<close>)
  then show ?thesis by (rule advance_core [OF _ t(1)]) (use t(2) in simp)
qed

text \<open>A slot that is put on sale is new to the calendar.\<close>

lemma advance_publish:
  assumes inv: "tables_inv s" and sl: "sl_id sl \<notin> sl_id ` set (slots s)" "sl_status sl = SAvailable"
  shows "advance s (s\<lparr>slots := slots s @ [sl]\<rparr>)"
proof (rule advance_calendar [OF inv])
  have b: "booking_inv s" and c: "calendar_inv s" using tables_invD [OF inv] by simp_all
  have k: "consistent (holds s) (slots s)" using b by (simp add: booking_inv_def)
  have other: "\<not> (\<exists>h \<in> set (holds s). live_hold h \<and> h_slot h = sl_id sl)"
    using consistentD(7) [OF k] sl(1) by metis
  have "consistent (holds s) (slots s @ [sl])"
    unfolding consistent_def
  proof (intro conjI)
    show "\<forall>x \<in> set (slots s @ [sl]). (sl_status x = SHeld) = (\<exists>h \<in> set (holds s). live_hold h \<and> h_slot h = sl_id x)"
      using consistentD(6) [OF k] other sl(2) by auto
    show "\<forall>h \<in> set (holds s). \<forall>g \<in> set (holds s). live_hold h \<and> live_hold g \<and> h_slot h = h_slot g \<longrightarrow> h_id h = h_id g"
      using consistentD(5) [OF k] by blast
    show "\<forall>h \<in> set (holds s). live_hold h \<longrightarrow> h_slot h \<in> sl_id ` set (slots s @ [sl])"
      using consistentD(7) [OF k] by simp
  qed (use consistentD(1-4) [OF k] sl(1) in simp_all)
  then show "booking_inv (s\<lparr>slots := slots s @ [sl]\<rparr>)"
    using b by (simp add: booking_inv_def)
  have none: "get_slot_row s (sl_id sl) = None" using sl(1) by (simp add: find_row_None_iff)
  then have "\<not> sold s (sl_id sl)"
    using spec [OF c [unfolded calendar_inv_def], of "sl_id sl"] by (simp add: slot_state_def)
  moreover have "slot_state (s\<lparr>slots := slots s @ [sl]\<rparr>) i
      = (if i = sl_id sl then Some SAvailable else slot_state s i)" for i
    using none sl(2) by (cases "get_slot_row s i") (auto simp: slot_state_def find_row_append)
  ultimately show "calendar_inv (s\<lparr>slots := slots s @ [sl]\<rparr>)"
    using c sold_cong [of "s\<lparr>slots := slots s @ [sl]\<rparr>" s] by (auto simp: calendar_inv_def)
qed simp_all

section \<open>Queues\<close>

lemma enqueue_job_core:
  assumes "enqueue_job now j b s = (Inr b', t)"
  shows "core t = core s" "next_id s \<le> next_id t"
  using assms
  by (auto simp: enqueue_job_def Let_def run_simps outboxed_def dest!: enqueue_ok split: option.splits if_splits)

lemma enqueue_jobs_core:
  "enqueue_jobs now js b s = (Inr b', t) \<Longrightarrow> core t = core s \<and> next_id s \<le> next_id t"
proof (induction js arbitrary: b s)
  case (Cons j js)
  then obtain b1 u where u: "enqueue_job now j b s = (Inr b1, u)" "enqueue_jobs now js b1 u = (Inr b', t)"
    by (auto simp: run_simps)
  show ?case using Cons.IH [OF u(2)] enqueue_job_core [OF u(1)] by simp
qed simp

lemma finish_core: "core (finish i st err now s) = core s" "next_id (finish i st err now s) = next_id s"
    "jobs (finish i st err now s) = jobs s"
  and claim_core: "core (snd (claim i n s)) = core s" "next_id (snd (claim i n s)) = next_id s" "jobs (snd (claim i n s)) = jobs s"
  by (simp_all add: finish_def claim_def Let_def)

lemma relay_row_core:
  "relay_row disp limit now row (rep, s, w) = (rep', t, w') \<Longrightarrow> core t = core s \<and> next_id t = next_id s \<and> jobs t = jobs s"
  using claim_core [of "ob_id row" "ob_attempts row" s]
  by (auto simp: relay_row_def Let_def finish_core split: if_splits prod.splits option.splits)

lemma relay_core:
  "fold (relay_row disp limit now) rows (rep, s, w) = (rep', t, w') \<Longrightarrow> core t = core s \<and> next_id t = next_id s \<and> jobs t = jobs s"
proof (induction rows arbitrary: rep s w)
  case (Cons row rows)
  obtain rep1 u w1 where u: "relay_row disp limit now row (rep, s, w) = (rep1, u, w1)" by (metis prod_cases3)
  with Cons.prems have "fold (relay_row disp limit now) rows (rep1, u, w1) = (rep', t, w')" by simp
  from Cons.IH [OF this] relay_row_core [OF u] show ?case by simp
qed simp


section \<open>The step relation\<close>

text \<open>
  One committed transaction of the marketplace, for all arguments. The last two clauses stand for
  the code outside the services that writes their tables: tutor profiles and new free slots.
\<close>

inductive market_step :: "db \<Rightarrow> db \<Rightarrow> bool" where
  step_hold: "create_hold cfg t0 slot_id u key now ttl s = (Inr h, t) \<Longrightarrow> market_step s t"
| step_release: "release_hold hid r u now s = (Inr h, t) \<Longrightarrow> market_step s t"
| step_expire: "expire_holds now s = (n, t) \<Longrightarrow> market_step s t"
| step_order: "create_order t0 hid u key amount currency prov now s = (Inr c, t) \<Longrightarrow> market_step s t"
| step_event: "handle_event cfg t0 sg raw prov u now s = (Inr out, t) \<Longrightarrow> market_step s t"
| step_session: "get_hold_row s (h_id hold) = Some hold \<Longrightarrow> q \<in> set (orders s)
    \<Longrightarrow> create_from_paid_hold cfg t0 hold q now s = (Inr cr, t) \<Longrightarrow> market_step s t"
| step_refund: "refund t0 oid amount why r u prov now pend s = (Inr i, t) \<Longrightarrow> market_step s t"
| step_reschedule: "reschedule cfg t0 sid new_id u r ver ex admin why now s = (Inr m, t) \<Longrightarrow> market_step s t"
| step_cancel: "cancel cfg t0 sid u r ver ex admin amount why prov now s = (Inr m, t) \<Longrightarrow> market_step s t"
| step_record: "record_attendance t0 sid u r now authority s = (Inr am, t) \<Longrightarrow> market_step s t"
| step_confirm: "confirm_attendance sid v ver now s = (Inr am, t) \<Longrightarrow> market_step s t"
| step_dispute: "dispute_attendance sid v ver why now s = (Inr am, t) \<Longrightarrow> market_step s t"
| step_resolve: "resolve_attendance sid admin res r ver now s = (Inr am, t) \<Longrightarrow> market_step s t"
| step_review: "create_review t0 sid v rating body now s = (Inr rm, t) \<Longrightarrow> market_step s t"
| step_edit: "edit_review rid v rating new_body now s = (Inr rm, t) \<Longrightarrow> market_step s t"
| step_delete: "delete_review rid v now s = (Inr rm, t) \<Longrightarrow> market_step s t"
| step_moderate: "moderate_review rid u decision r why now s = (Inr rm, t) \<Longrightarrow> market_step s t"
| step_price: "set_tutor_session_price tid amount currency r u s = (Inr tu, t) \<Longrightarrow> market_step s t"
| step_remind: "enqueue_due now limit s = (Inr b, t) \<Longrightarrow> market_step s t"
| step_relay: "relay_pending (disp :: nat dispatcher) batch limit now kinds (s, w) = (rep, t, w') \<Longrightarrow> market_step s t"
| step_tutors: "market_step s (s\<lparr>tutors := ts\<rparr>)"
| step_publish: "sl_id sl \<notin> sl_id ` set (slots s) \<Longrightarrow> sl_status sl = SAvailable
    \<Longrightarrow> market_step s (s\<lparr>slots := slots s @ [sl]\<rparr>)"

abbreviation market_run :: "db \<Rightarrow> db \<Rightarrow> bool" where
  "market_run \<equiv> market_step\<^sup>*\<^sup>*"

lemma review_steps:
  assumes "market_inv s"
  shows "create_review t0 sid v rating body now s = (Inr rm, t) \<Longrightarrow> advance s t \<and> jobs_inv t"
    and "edit_review rid v rating' new_body now s = (Inr rm, t) \<Longrightarrow> advance s t \<and> jobs_inv t"
    and "delete_review rid v now s = (Inr rm, t) \<Longrightarrow> advance s t \<and> jobs_inv t"
    and "moderate_review rid u decision r why now s = (Inr rm, t) \<Longrightarrow> advance s t \<and> jobs_inv t"
proof -
  have ti: "tables_inv s" and ji: "jobs_inv s" using assms by (simp_all add: market_inv_def)
  note ri = tables_invD(4) [OF ti]
  have j: "jobs_inv t" if "jobs t = jobs s" "next_id s \<le> next_id t" for t using jobs_inv_frame [OF ji that] .
  show "advance s t \<and> jobs_inv t" if run: "create_review t0 sid v rating body now s = (Inr rm, t)"
  proof -
    obtain sess :: tsession and rw md where ok: "core t = core (rated_tutors (ts_tutor sess) now (s\<lparr>reviews := reviews s @ [rw], moderation := moderation s @ [md]\<rparr>))"
        "next_id s < next_id t" "jobs t = jobs s" "reviews_inv t"
      by (rule create_review_ok [OF run ri]) (rule that, assumption+)
    show ?thesis using advance_reviews [OF ti ok(4) _ ok(1) refl] j ok(2,3) by simp
  qed
  show "advance s t \<and> jobs_inv t" if run: "edit_review rid v rating' new_body now s = (Inr rm, t)"
  proof -
    obtain rw :: review and u :: db where ok: "u = s\<lparr>reviews := reviews u, moderation := moderation u\<rparr>"
        "core t = core (rated_tutors (rv_tutor rw) now u)" "next_id s \<le> next_id t" "jobs t = jobs s" "reviews_inv t"
      by (rule edit_review_ok [OF run ri]) (rule that, assumption+)
    show ?thesis using advance_reviews [OF ti ok(5,3,2,1)] j ok(3,4) by simp
  qed
  show "advance s t \<and> jobs_inv t" if run: "delete_review rid v now s = (Inr rm, t)"
  proof -
    obtain rw :: review and u :: db where ok: "u = s\<lparr>reviews := update_where (\<lambda>r. rv_id r = rid) (\<lambda>r. r\<lparr>rv_deleted_at := Some now, rv_published := False\<rparr>) (reviews s)\<rparr>"
        "core t = core (rated_tutors (rv_tutor rw) now u)" "next_id t = next_id s" "jobs t = jobs s" "reviews_inv t"
      by (rule delete_review_ok [OF run ri]) (rule that, assumption+)
    have "u = s\<lparr>reviews := reviews u, moderation := moderation s\<rparr>" by (simp add: ok(1))
    from advance_reviews [OF ti ok(5) _ ok(2) this] show ?thesis using j ok(3,4) by simp
  qed
  show "advance s t \<and> jobs_inv t" if run: "moderate_review rid u decision r why now s = (Inr rm, t)"
  proof -
    obtain rw :: review and v :: db where ok: "v = s\<lparr>reviews := reviews v, moderation := moderation v\<rparr>"
        "core t = core (rated_tutors (rv_tutor rw) now v)" "next_id s \<le> next_id t" "jobs t = jobs s" "reviews_inv t"
      by (rule moderate_review_ok [OF run ri]) (rule that, assumption+)
    show ?thesis using advance_reviews [OF ti ok(5,3,2,1)] j ok(3,4) by simp
  qed
qed

lemma step_advances:
  assumes "market_step s t" and inv: "market_inv s"
  shows "advance s t \<and> jobs_inv t"
proof -
  have ti: "tables_inv s" and ji: "jobs_inv s" using inv by (simp_all add: market_inv_def)
  have j: "jobs_inv t" if "jobs t = jobs s" "next_id s \<le> next_id t" for t using jobs_inv_frame [OF ji that] .
  show ?thesis
    using assms(1)
  proof cases
    case (step_hold cfg t0 slot_id u key now ttl h)
    have "jobs t = jobs s \<and> next_id s \<le> next_id t"
      using create_hold_ok [OF step_hold booking_invD(1) [OF tables_invD(1) [OF ti]]]
      by (auto dest!: place_hold_ok(2) simp: placed_def)
    then show ?thesis using advance_create_hold [OF ti step_hold] j by simp
  next
    case (step_release hid r u now h)
    then have "t = snd (release_hold hid r u now s)" by simp
    moreover have "jobs t = jobs s \<and> next_id t = next_id s"
      using step_release unfolding release_hold_run by (auto simp: released_def split: option.splits if_splits)
    ultimately show ?thesis using advance_release_hold [OF ti] j by simp
  next
    case (step_expire now n)
    then have t: "t = snd (expire_holds now s)" by simp
    have "jobs t = jobs s \<and> next_id t = next_id s"
      by (simp add: t expire_holds_run [OF tables_invD(1) [OF ti]])
    then show ?thesis using advance_expire_holds [OF ti] j t by simp
  next
    case (step_order t0 hid u key amount currency prov now c)
    have "jobs t = jobs s \<and> next_id s \<le> next_id t"
      using create_order_ok [OF step_order] by (auto dest!: open_order_ok simp: ordered_def)
    then show ?thesis using advance_create_order [OF ti step_order] j by simp
  next
    case step_event
    then show ?thesis by (rule advance_handle_event [OF inv])
  next
    case step_session
    then show ?thesis by (intro advance_create_session [OF inv])
  next
    case (step_refund t0 oid amount why r u prov now pend i)
    have "jobs t = jobs s \<and> next_id s \<le> next_id t" using refund_ok [OF step_refund] by (auto simp: refunded_def)
    then show ?thesis using advance_refund [OF ti step_refund] j by simp
  next
    case step_reschedule
    then show ?thesis by (rule advance_reschedule [OF inv])
  next
    case step_cancel
    then show ?thesis by (rule advance_cancel [OF inv])
  next
    case step_record
    from advance_record [OF ti this] show ?thesis using j by simp
  next
    case step_confirm
    from advance_confirm [OF ti this] show ?thesis using j by simp
  next
    case step_dispute
    from advance_dispute [OF ti this] show ?thesis using j by simp
  next
    case step_resolve
    from advance_resolve [OF ti this] show ?thesis using j by simp
  next
    case step_review
    then show ?thesis by (rule review_steps(1) [OF inv])
  next
    case step_edit
    then show ?thesis by (rule review_steps(2) [OF inv])
  next
    case step_delete
    then show ?thesis by (rule review_steps(3) [OF inv])
  next
    case step_moderate
    then show ?thesis by (rule review_steps(4) [OF inv])
  next
    case (step_price tid amount currency r u tu)
    then obtain ts where "core t = core (s\<lparr>tutors := ts\<rparr>)" "jobs t = jobs s" "next_id t = next_id s"
      by (auto simp: set_tutor_session_price_def run_simps split: option.splits if_splits)
    then show ?thesis using advance_tutors [OF ti] j by simp
  next
    case (step_remind now limit b)
    have "\<forall>j \<in> set (due_pick now limit s). j \<in> set (jobs s) \<and> rj_status j = JScheduled"
      using due_pick_props(2) [OF ji] by blast
    from enqueue_jobs_run [OF ji due_pick_props(1) [OF ji] this enqueue_due_pick [OF step_remind]]
      enqueue_jobs_core [OF enqueue_due_pick [OF step_remind]] show ?thesis
      using advance_refl [OF ti] by simp
  next
    case (step_relay disp batch limit now kinds w rep w')
    have "core t = core s \<and> next_id t = next_id s \<and> jobs t = jobs s"
      using step_relay relay_core by (simp add: relay_pending_def)
    then show ?thesis using advance_refl [OF ti] j by simp
  next
    case (step_tutors ts)
    then show ?thesis using advance_tutors [OF ti, of t ts] j by simp
  next
    case (step_publish sl)
    then show ?thesis using advance_publish [OF ti] j by simp
  qed
qed


section \<open>Whole histories\<close>

lemma run_advances: "market_run s t \<Longrightarrow> market_inv s \<Longrightarrow> market_inv t"
  by (induction rule: rtranclp_induct) (auto simp: market_inv_def advance_def dest: step_advances)

text \<open>The steps of a state that satisfies the invariants, and the two status graphs over them.\<close>

definition sound_step :: "db \<Rightarrow> db \<Rightarrow> bool" where
  "sound_step s t \<longleftrightarrow> market_inv s \<and> market_step s t"

lemma sound_run: "market_run s t \<Longrightarrow> market_inv s \<Longrightarrow> sound_step\<^sup>*\<^sup>* s t"
proof (induction rule: rtranclp_induct)
  case (step t u)
  then have "sound_step t u" using run_advances by (simp add: sound_step_def)
  with step show ?case by (meson rtranclp.rtrancl_into_rtrancl)
qed simp

lemma sound_kept: "sound_step s t \<Longrightarrow> kept s t"
  using step_advances by (auto simp: sound_step_def advance_def)

interpretation session_graph: status_graph session_status_of legal_transitions sound_step
proof unfold_locales
  fix s t k a assume step: "sound_step s t" and "session_status_of s k = Some a"
  then obtain r where r: "get_session_row s k = Some r" "ts_status r = a" by (auto simp: session_status_of_def)
  have "rows_kept ts_id session_kept (sessions s) (sessions t)" using sound_kept [OF step] by (simp add: kept_def)
  then obtain r' where "get_session_row t k = Some r'" "session_kept r r'" using r(1) by (auto simp: rows_kept_def)
  with r(2) show "\<exists>b. session_status_of t k = Some b \<and> (b = a \<or> b \<in> set (legal_transitions a))"
    by (auto simp: session_status_of_def session_kept_def)
qed

interpretation attendance_graph: status_graph attendance_state_of legal_states sound_step
  using sound_kept by unfold_locales (auto simp: kept_def attendance_moves_def)

text \<open>What a run keeps of a hold and of an order.\<close>

lemma run_kept:
  assumes "sound_step\<^sup>*\<^sup>* s t"
  shows "rows_kept h_id hold_kept (holds s) (holds t) \<and> rows_kept o_id order_kept (orders s) (orders t)"
  using assms
proof (induction rule: rtranclp_induct)
  case (step t u)
  have "rows_kept h_id hold_kept (holds t) (holds u)" "rows_kept o_id order_kept (orders t) (orders u)"
    using sound_kept [OF step.hyps(2)] by (simp_all add: kept_def)
  with step.IH show ?case
    by (auto intro: rows_kept_trans [of h_id hold_kept "holds s" "holds t" "holds u"] hold_kept_trans
        rows_kept_trans [of o_id order_kept "orders s" "orders t" "orders u"] order_kept_trans)
qed simp

section \<open>Properties\<close>

lemma sample_market_sound: "market_inv sample_market"
proof -
  have e: "holds sample_market = []" "orders sample_market = []" "refunds sample_market = []" "sessions sample_market = []"
      "attendance sample_market = []" "reviews sample_market = []" "moderation sample_market = []" "jobs sample_market = []"
      "pay_events sample_market = []" "slots sample_market = [sample_slot 1 (days 3), sample_slot 2 (days 5)]"
    by (simp_all add: sample_market_def empty_db_def)
  have "calendar_inv sample_market"
    by (auto simp: calendar_inv_def slot_state_def sold_def e sample_slot_def split: if_splits)
  then show ?thesis
    using sample_market_inv
    by (simp add: market_inv_def tables_inv_def e attendance_inv_def sessions_ok_def attendance_ok_def refund_inv_def
        reviews_inv_def ledger_inv_def jobs_inv_def attendance_state_of_def session_status_of_def get_attendance_def)
qed

lemma sample_captured_reached: "market_run sample_market sample_captured"
proof -
  obtain out where out: "sample_event_run ''paid'' sample_ordered = (Inr out, sample_captured)"
    by (rule sample_captured_run)
  have "market_step sample_market sample_held" by (rule step_hold [OF sample_held_run])
  moreover have "market_step sample_held sample_ordered" by (rule step_order [OF sample_ordered_run])
  moreover have "market_step sample_ordered sample_captured"
    by (rule step_event [OF out [unfolded sample_event_run_def]])
  ultimately show ?thesis
    by (intro converse_rtranclp_into_rtranclp [of market_step sample_market]
        converse_rtranclp_into_rtranclp [of market_step sample_held]) auto
qed

text \<open>
  Property C16. No slot is ever sold twice. In every state a history of the marketplace can reach, two
  uncancelled sessions are on different slots, the slot of an uncancelled session is marked booked
  and no active hold points at it, and conversely a slot that is marked booked has its session.
\<close>

theorem never_double_booked:
  assumes "market_run s t" and "market_inv s"
  shows "(\<forall>r \<in> set (sessions t). \<forall>q \<in> set (sessions t). ts_status r \<noteq> Cancelled \<and> ts_slot r = ts_slot q \<longrightarrow> r = q)
    \<and> (\<forall>r \<in> set (sessions t). ts_status r \<noteq> Cancelled \<longrightarrow>
         (\<exists>sl. get_slot_row t (ts_slot r) = Some sl \<and> sl_status sl = SBooked)
         \<and> (\<forall>h \<in> set (holds t). live_hold h \<longrightarrow> h_slot h \<noteq> ts_slot r))
    \<and> (\<forall>sl \<in> set (slots t). sl_status sl = SBooked \<longrightarrow>
         (\<exists>r \<in> set (sessions t). ts_slot r = sl_id sl \<and> ts_status r \<noteq> Cancelled))"
proof -
  have inv: "tables_inv t" using run_advances [OF assms] by (simp add: market_inv_def)
  note D = tables_invD [OF inv]
  have d: "distinct (map ts_slot (sessions t))" using D(7) by (simp add: sessions_ok_def)
  have one: "r = q" if "r \<in> set (sessions t)" "q \<in> set (sessions t)" "ts_slot r = ts_slot q" for r q
    using d that by (simp add: distinct_map inj_on_def)
  have booked: "\<exists>sl. get_slot_row t (ts_slot r) = Some sl \<and> sl_status sl = SBooked"
    if "r \<in> set (sessions t)" "ts_status r \<noteq> Cancelled" for r
    using spec [OF D(5) [unfolded calendar_inv_def], of "ts_slot r"] that by (auto simp: sold_def slot_state_def)
  have free: "h_slot h \<noteq> ts_slot r"
    if "r \<in> set (sessions t)" "ts_status r \<noteq> Cancelled" "h \<in> set (holds t)" "live_hold h" for r h
    using live_hold_slot [OF D(1) that(3,4)] booked [OF that(1,2)] by auto
  have "\<exists>r \<in> set (sessions t). ts_slot r = sl_id sl \<and> ts_status r \<noteq> Cancelled"
    if "sl \<in> set (slots t)" "sl_status sl = SBooked" for sl
  proof -
    have "get_slot_row t (sl_id sl) = Some sl"
      using that(1) find_row_Some_iff [OF booking_invD(3) [OF D(1)]] by simp
    then show ?thesis using spec [OF D(5) [unfolded calendar_inv_def], of "sl_id sl"] that(2)
      by (simp add: slot_state_def sold_def)
  qed
  with one booked free show ?thesis by blast
qed

theorem never_double_booked_witness:
  "\<exists>sl. get_slot_row sample_captured 1 = Some sl \<and> sl_status sl = SBooked"
proof -
  have "list_ex (\<lambda>r. ts_slot r = 1 \<and> ts_status r \<noteq> Cancelled) (sessions sample_captured)" by code_simp
  then obtain r where "r \<in> set (sessions sample_captured)" "ts_slot r = 1" "ts_status r \<noteq> Cancelled"
    by (auto simp: list_ex_iff)
  then show ?thesis using never_double_booked [OF sample_captured_reached sample_market_sound] by metis
qed

text \<open>
  Property C18. Money rests on what was agreed. Along every history a hold keeps its slot, student and price, an
  order keeps its hold, student and amount, a paid order stays paid; and in every state reached the
  order of a session is paid by a verified event, charges the price snapshot of a consumed hold of
  the session's student, backs no other session, and its live refunds stay within its amount.
\<close>

theorem money_never_rewritten:
  assumes "market_run s t" and "market_inv s"
  shows "(\<forall>i h. get_hold_row s i = Some h \<longrightarrow> (\<exists>h'. get_hold_row t i = Some h' \<and> h_slot h' = h_slot h
        \<and> h_student h' = h_student h \<and> h_price h' = h_price h \<and> h_currency h' = h_currency h))
    \<and> (\<forall>i q. get_order_row s i = Some q \<longrightarrow> (\<exists>q'. get_order_row t i = Some q' \<and> o_hold q' = o_hold q
        \<and> o_student q' = o_student q \<and> o_amount q' = o_amount q \<and> (o_status q = OPaid \<longrightarrow> o_status q' = OPaid)))
    \<and> (\<forall>r \<in> set (sessions t). \<exists>i q h. ts_order r = Some i \<and> get_order_row t i = Some q
        \<and> o_status q = OPaid \<and> has_verified_paid_event q t
        \<and> get_hold_row t (o_hold q) = Some h \<and> h_status h = HConsumed \<and> h_student h = ts_student r
        \<and> o_amount q = h_price h \<and> refunded_paise t i \<le> o_amount q
        \<and> (\<forall>r' \<in> set (sessions t). ts_order r' = Some i \<longrightarrow> r' = r))"
proof -
  have k: "rows_kept h_id hold_kept (holds s) (holds t)" "rows_kept o_id order_kept (orders s) (orders t)"
    using run_kept [OF sound_run [OF assms]] by simp_all
  have inv: "tables_inv t" using run_advances [OF assms] by (simp add: market_inv_def)
  note D = tables_invD [OF inv]
  have d: "distinct (map ts_order (sessions t))" using D(6) by (simp add: ledger_inv_def)
  have "\<exists>i q h. ts_order r = Some i \<and> get_order_row t i = Some q
        \<and> o_status q = OPaid \<and> has_verified_paid_event q t
        \<and> get_hold_row t (o_hold q) = Some h \<and> h_status h = HConsumed \<and> h_student h = ts_student r
        \<and> o_amount q = h_price h \<and> refunded_paise t i \<le> o_amount q
        \<and> (\<forall>r' \<in> set (sessions t). ts_order r' = Some i \<longrightarrow> r' = r)" if r: "r \<in> set (sessions t)" for r
  proof -
    obtain i q h where b: "ts_order r = Some i" "get_order_row t i = Some q" "o_status q = OPaid"
        "o_student q = ts_student r" "get_hold_row t (o_hold q) = Some h" "h_status h = HConsumed"
      using D(6) r by (auto simp: ledger_inv_def session_backed_def)
    have q: "q \<in> set (orders t)" "o_id q = i" using find_row_SomeD [OF b(2)] by simp_all
    then have "order_backed t q" using D(6) by (simp add: ledger_inv_def)
    then have "h_student h = o_student q" "h_price h = o_amount q" "has_verified_paid_event q t"
      using b(3,5) by (auto simp: order_backed_def)
    moreover have "refunded_paise t i \<le> o_amount q" using D(3) q by (auto simp: refund_inv_def)
    moreover have "r' = r" if "r' \<in> set (sessions t)" "ts_order r' = Some i" for r'
      using d that r b(1) by (simp add: distinct_map inj_on_def)
    ultimately show ?thesis using b by auto
  qed
  moreover have "\<exists>h'. get_hold_row t i = Some h' \<and> h_slot h' = h_slot h
        \<and> h_student h' = h_student h \<and> h_price h' = h_price h \<and> h_currency h' = h_currency h"
    if "get_hold_row s i = Some h" for i h
    using k(1) that unfolding rows_kept_def hold_kept_def by blast
  moreover have "\<exists>q'. get_order_row t i = Some q' \<and> o_hold q' = o_hold q
        \<and> o_student q' = o_student q \<and> o_amount q' = o_amount q \<and> (o_status q = OPaid \<longrightarrow> o_status q' = OPaid)"
    if "get_order_row s i = Some q" for i q
    using k(2) that unfolding rows_kept_def order_kept_def by blast
  ultimately show ?thesis by blast
qed

theorem money_never_rewritten_witness:
  "\<exists>q'. get_order_row sample_captured 11 = Some q' \<and> o_amount q' = 180000"
proof -
  have "market_step sample_held sample_ordered" by (rule step_order [OF sample_ordered_run])
  moreover have "market_step sample_market sample_held" by (rule step_hold [OF sample_held_run])
  ultimately have "market_run sample_market sample_ordered" by (meson rtranclp.simps)
  then have inv: "market_inv sample_ordered" by (rule run_advances [OF _ sample_market_sound])
  obtain out where out: "sample_event_run ''paid'' sample_ordered = (Inr out, sample_captured)"
    by (rule sample_captured_run)
  have run: "market_run sample_ordered sample_captured"
    by (rule r_into_rtranclp) (rule step_event [OF out [unfolded sample_event_run_def]])
  have "get_order_row sample_ordered 11 = Some sample_order" by code_simp
  moreover have "o_amount sample_order = 180000" by code_simp
  ultimately show ?thesis using money_never_rewritten [OF run inv] by metis
qed


definition sample_called_off :: db where
  "sample_called_off = snd (cancel default_settings sample_captured 13 (Some 100) Tutor None False None PyNone None
     (Some sample_gateway) (days 4) sample_captured)"








end
