(* ===== verification/Seats.thy ===== *)
theory Seats
  imports Market
begin

text \<open>
  What the calendar of the marketplace promises, without its tables: every slot is a seat that is
  free, reserved for a student until an instant, sold to a student or withdrawn. \<open>seats\<close> reads the
  seats off the slots, holds and sessions, \<open>seat_step\<close> is the specification, and every transaction of
  the marketplace is shown to be one of its steps.
\<close>

section \<open>The specification\<close>

datatype seat = Unlisted | Free | Reserved uid instant | Sold uid | Withdrawn

text \<open>The reservations that are over at an instant, of one seat or of all, become free seats.\<close>

definition lapse :: "instant \<Rightarrow> uid option \<Rightarrow> (uid \<Rightarrow> seat) \<Rightarrow> uid \<Rightarrow> seat" where
  "lapse now only f i = (case f i of
     Reserved u d \<Rightarrow> if d \<le> now \<and> (case only of None \<Rightarrow> True | Some k \<Rightarrow> i = k) then Free else Reserved u d
   | x \<Rightarrow> x)"

inductive seat_step :: "(uid \<Rightarrow> seat) \<Rightarrow> (uid \<Rightarrow> seat) \<Rightarrow> bool" where
  idle: "seat_step f f"
| publish: "f i = Unlisted \<Longrightarrow> seat_step f (f(i := Free))"
| lapse: "seat_step f (lapse now None f)"
| reserve: "lapse now (Some i) f i = Free \<Longrightarrow> now < d \<Longrightarrow> seat_step f ((lapse now (Some i) f)(i := Reserved u d))"
| give_back: "f i = Reserved u d \<Longrightarrow> seat_step f (f(i := Free))"
| pay: "f i = Reserved u d \<Longrightarrow> now < d \<Longrightarrow> seat_step f (f(i := Sold u))"
| move: "f j = Sold u \<Longrightarrow> lapse now (Some i) f i = Free \<Longrightarrow> i \<noteq> j
    \<Longrightarrow> seat_step f ((lapse now (Some i) f)(j := Free, i := Sold u))"
| withdraw: "f i = Sold u \<Longrightarrow> seat_step f (f(i := Withdrawn))"

inductive_cases seat_stepE: "seat_step f g"

text \<open>
  What the specification means for one seat: a sold seat changes hands only over a free seat, a
  reserved seat is sold to the student who reserved it, and a withdrawn seat is gone.
\<close>

lemma lapse_sel [simp]:
  "f i = Sold u \<Longrightarrow> lapse now k f i = Sold u" "f i = Withdrawn \<Longrightarrow> lapse now k f i = Withdrawn"
  "f i = Free \<Longrightarrow> lapse now k f i = Free" "f i = Unlisted \<Longrightarrow> lapse now k f i = Unlisted"
  by (simp_all add: lapse_def)

lemma lapse_other: "i \<noteq> k \<Longrightarrow> lapse now (Some k) f i = f i"
  by (simp add: lapse_def split: seat.split)

lemma sold_seat_step: "seat_step f g \<Longrightarrow> f i = Sold u \<Longrightarrow> g i \<in> {Sold u, Free, Withdrawn}"
  by (erule seat_stepE) (auto simp: lapse_def split: if_splits)

lemma withdrawn_seat_step: "seat_step f g \<Longrightarrow> f i = Withdrawn \<Longrightarrow> g i = Withdrawn"
  by (erule seat_stepE) (auto simp: lapse_def split: if_splits)

section \<open>The seats of a database\<close>

definition seats :: "db \<Rightarrow> uid \<Rightarrow> seat" where
  "seats s i = (case get_slot_row s i of
     None \<Rightarrow> Unlisted
   | Some sl \<Rightarrow> (case sl_status sl of
       SAvailable \<Rightarrow> Free
     | SHeld \<Rightarrow> (case find (\<lambda>h. live_hold h \<and> h_slot h = i) (holds s) of
         Some h \<Rightarrow> Reserved (h_student h) (h_expires_at h) | None \<Rightarrow> Free)
     | SBooked \<Rightarrow> (case find (\<lambda>r. ts_slot r = i \<and> ts_status r \<noteq> Cancelled) (sessions s) of
         Some r \<Rightarrow> Sold (ts_student r) | None \<Rightarrow> Free)
     | _ \<Rightarrow> Withdrawn))"

lemma find_the:
  assumes "x \<in> set xs" and "P x" and "\<And>y. y \<in> set xs \<Longrightarrow> P y \<Longrightarrow> y = x"
  shows "find P xs = Some x"
proof (cases "find P xs")
  case None
  then show ?thesis using assms(1,2) by (simp add: find_None_iff)
next
  case (Some y)
  then have "y \<in> set xs" "P y" by (auto simp: find_Some_iff)
  with assms(3) Some show ?thesis by simp
qed

lemma seat_held:
  assumes inv: "tables_inv s" and h: "h \<in> set (holds s)" "live_hold h"
  shows "seats s (h_slot h) = Reserved (h_student h) (h_expires_at h)"
proof -
  have b: "booking_inv s" by (rule tables_invD [OF inv])
  obtain sl where "get_slot_row s (h_slot h) = Some sl" "sl_status sl = SHeld" using live_hold_slot [OF b h] by blast
  moreover have "find (\<lambda>g. live_hold g \<and> h_slot g = h_slot h) (holds s) = Some h"
    by (rule find_the) (use h one_live_hold [OF b] in auto)
  ultimately show ?thesis by (simp add: seats_def)
qed

lemma seat_sold:
  assumes inv: "tables_inv s" and r: "r \<in> set (sessions s)" "ts_status r \<noteq> Cancelled"
  shows "seats s (ts_slot r) = Sold (ts_student r)"
proof -
  have "sold s (ts_slot r)" using r by (auto simp: sold_def)
  then obtain sl where "get_slot_row s (ts_slot r) = Some sl" "sl_status sl = SBooked"
    using tables_invD(5) [OF inv] by (auto simp: calendar_inv_def slot_state_def)
  moreover have "distinct (map ts_slot (sessions s))" using tables_invD(7) [OF inv] by (simp add: sessions_ok_def)
  then have "find (\<lambda>q. ts_slot q = ts_slot r \<and> ts_status q \<noteq> Cancelled) (sessions s) = Some r"
    by (intro find_the) (use r in \<open>auto simp: distinct_map inj_on_def\<close>)
  ultimately show ?thesis by (simp add: seats_def)
qed

lemma seat_plain:
  "slot_state s i = Some SAvailable \<Longrightarrow> seats s i = Free" "slot_state s i = None \<Longrightarrow> seats s i = Unlisted"
  "slot_state s i = Some SCancelled \<Longrightarrow> seats s i = Withdrawn" "slot_state s i = Some SExpired \<Longrightarrow> seats s i = Withdrawn"
  by (auto simp: seats_def slot_state_def)

lemma seat_idle: "slot_state s i \<notin> {Some SHeld, Some SBooked} \<Longrightarrow> seats s i \<in> {Free, Unlisted, Withdrawn}"
  by (auto simp: seats_def slot_state_def split: option.splits slot_status.splits)

lemma seat_cases:
  assumes inv: "tables_inv s"
  obtains (held) h where "h \<in> set (holds s)" and "live_hold h" and "h_slot h = i" and "slot_state s i = Some SHeld"
      and "seats s i = Reserved (h_student h) (h_expires_at h)"
  | (sold) r where "r \<in> set (sessions s)" and "ts_status r \<noteq> Cancelled" and "ts_slot r = i"
      and "slot_state s i = Some SBooked" and "seats s i = Sold (ts_student r)"
  | (plain) "slot_state s i \<notin> {Some SHeld, Some SBooked}"
proof (cases "slot_state s i = Some SHeld \<or> slot_state s i = Some SBooked")
  case True
  then show ?thesis
  proof
    assume st: "slot_state s i = Some SHeld"
    then obtain sl where sl: "sl \<in> set (slots s)" "sl_id sl = i" "sl_status sl = SHeld"
      by (auto simp: slot_state_def dest: find_row_SomeD)
    then obtain h where "h \<in> set (holds s)" "live_hold h" "h_slot h = i"
      using held_iff [OF tables_invD(1) [OF inv] sl(1)] by auto
    with st show ?thesis using held seat_held [OF inv] by blast
  next
    assume st: "slot_state s i = Some SBooked"
    then obtain r where "r \<in> set (sessions s)" "ts_slot r = i" "ts_status r \<noteq> Cancelled"
      using tables_invD(5) [OF inv] by (auto simp: calendar_inv_def sold_def)
    with st show ?thesis using sold seat_sold [OF inv] by blast
  qed
next
  case False
  then show ?thesis using plain by simp
qed

text \<open>A seat that keeps its slot's status keeps its occupant, if the occupant's row does.\<close>

lemma seat_same:
  assumes inv: "tables_inv s" "tables_inv t" and st: "slot_state t i = slot_state s i"
    and hs: "\<And>h. h \<in> set (holds s) \<Longrightarrow> live_hold h \<Longrightarrow> h_slot h = i \<Longrightarrow> h \<in> set (holds t)"
    and rs: "\<And>r. r \<in> set (sessions s) \<Longrightarrow> ts_status r \<noteq> Cancelled \<Longrightarrow> ts_slot r = i \<Longrightarrow>
      \<exists>q \<in> set (sessions t). ts_slot q = i \<and> ts_status q \<noteq> Cancelled \<and> ts_student q = ts_student r"
  shows "seats t i = seats s i"
  using inv(1)
proof (cases rule: seat_cases [where i = i])
  case (held h)
  then show ?thesis using hs seat_held [OF inv(2), of h] by simp
next
  case (sold r)
  then obtain q where "q \<in> set (sessions t)" "ts_slot q = i" "ts_status q \<noteq> Cancelled" "ts_student q = ts_student r"
    using rs by blast
  with sold show ?thesis using seat_sold [OF inv(2), of q] by simp
next
  case plain
  then show ?thesis
    using st seat_plain [of s i] seat_plain [of t i]
    by (cases "slot_state s i"; cases "the (slot_state s i)") auto
qed

lemma seats_cong:
  assumes "slots t = slots s" and "holds t = holds s" and "sessions t = sessions s"
  shows "seats t = seats s"
  unfolding fun_eq_iff seats_def assms by (rule allI) (rule refl)

lemma seats_core: "core t = core s \<Longrightarrow> seats t = seats s"
  by (rule seats_cong) (fact coreD)+

section \<open>The writes\<close>

lemma slot_row_id: "get_slot_row s i = Some a \<Longrightarrow> sl_id a = i"
  by (auto dest: find_row_SomeD)

lemma advance_inv: "advance s t \<Longrightarrow> tables_inv t"
  by (simp add: advance_def)

lemma seats_swept:
  assumes inv: "tables_inv s"
  shows "seats (swept now k s) = lapse now k (seats s)"
proof
  fix i
  let ?t = "swept now k s"
  have ti: "tables_inv ?t" by (rule advance_inv [OF advance_swept [OF inv]])
  have hs: "holds ?t = update_where (dead now k) (close_hold_row HExpired now) (holds s)"
    and sl: "slots ?t = update_where (\<lambda>sl. sl_id sl \<in> h_slot ` {h \<in> set (holds s). dead now k h} \<and> sl_status sl = SHeld)
                (set_slot_row SAvailable now) (slots s)" by (simp_all add: swept_def)
  show "seats ?t i = lapse now k (seats s) i"
  proof (cases "\<exists>h \<in> set (holds s). dead now k h \<and> h_slot h = i")
    case True
    then obtain h where h: "h \<in> set (holds s)" "dead now k h" "h_slot h = i" by blast
    then have l: "live_hold h" "h_expires_at h \<le> now" "case k of None \<Rightarrow> True | Some j \<Rightarrow> i = j"
      by (auto simp: dead_def is_expired_def split: option.splits)
    have "seats s i = Reserved (h_student h) (h_expires_at h)" using seat_held [OF inv h(1) l(1)] h(3) by simp
    then have "lapse now k (seats s) i = Free" using l(2,3) by (simp add: lapse_def)
    moreover obtain sl where "get_slot_row s i = Some sl" "sl_status sl = SHeld" "sl_id sl = i"
      using live_hold_slot [OF tables_invD(1) [OF inv] h(1) l(1)] h(3) by blast
    then have "slot_state ?t i = Some SAvailable"
      using slot_state_update [OF sl, of i] h(1,2) h(3) [symmetric] by simp
    ultimately show ?thesis using seat_plain(1) by simp
  next
    case False
    have "slot_state ?t i = slot_state s i"
    proof (cases "get_slot_row s i")
      case None
      then show ?thesis using slot_state_update [OF sl, of i] by (simp add: slot_state_def)
    next
      case (Some a)
      have "sl_id a \<notin> h_slot ` {h \<in> set (holds s). dead now k h}" using False by (auto simp: slot_row_id [OF Some])
      then show ?thesis using slot_state_update [OF sl, of i] Some by (simp add: slot_state_def)
    qed
    then have "seats ?t i = seats s i"
    proof (rule seat_same [OF inv ti])
      show "h \<in> set (holds ?t)" if "h \<in> set (holds s)" "h_slot h = i" for h
        using False that unfolding hs set_update_where by blast
      show "\<exists>q \<in> set (sessions ?t). ts_slot q = i \<and> ts_status q \<noteq> Cancelled \<and> ts_student q = ts_student r"
        if "r \<in> set (sessions s)" "ts_status r \<noteq> Cancelled" "ts_slot r = i" for r
        using that by (intro bexI [of _ r]) (simp_all add: swept_def)
    qed
    moreover have "lapse now k (seats s) i = seats s i"
      using inv
    proof (cases rule: seat_cases [where i = i])
      case (held h)
      then show ?thesis using False by (auto simp: lapse_def dead_def is_expired_def split: option.split)
    next
      case plain
      then have "seats s i \<in> {Free, Unlisted, Withdrawn}" by (rule seat_idle)
      then show ?thesis by auto
    qed simp
    ultimately show ?thesis by simp
  qed
qed

text \<open>One seat is written, the others keep slot, hold and session.\<close>

lemma seats_write:
  assumes inv: "tables_inv s" "tables_inv t" and i: "seats t i = x"
    and st: "\<And>j. j \<noteq> i \<Longrightarrow> slot_state t j = slot_state s j"
    and hs: "\<And>h. h \<in> set (holds s) \<Longrightarrow> h_slot h \<noteq> i \<Longrightarrow> h \<in> set (holds t)"
    and rs: "\<And>r. r \<in> set (sessions s) \<Longrightarrow> ts_slot r \<noteq> i \<Longrightarrow> r \<in> set (sessions t)"
  shows "seats t = (seats s)(i := x)"
proof
  fix j
  show "seats t j = ((seats s)(i := x)) j"
    using i st hs rs by (cases "j = i") (auto intro!: seat_same [OF inv])
qed

lemma slot_state_write:
  assumes "slots t = update_where (\<lambda>sl. sl_id sl = i \<and> q sl) (set_slot_row st now) (slots s)"
  shows "j \<noteq> i \<Longrightarrow> slot_state t j = slot_state s j"
    and "get_slot_row s i = Some sl \<Longrightarrow> q sl \<Longrightarrow> slot_state t i = Some st"
  using slot_state_update [OF assms, of j] slot_state_update [OF assms, of i]
  by (cases "get_slot_row s j"; auto simp: slot_state_def dest: find_row_SomeD)+

lemma seats_placed:
  assumes inv: "tables_inv s" "tables_inv (placed h now s)" and h: "live_hold h"
  shows "seats (placed h now s) = (seats s)(h_slot h := Reserved (h_student h) (h_expires_at h))"
proof (rule seats_write [OF inv])
  show "seats (placed h now s) (h_slot h) = Reserved (h_student h) (h_expires_at h)"
    by (rule seat_held [OF inv(2) _ h]) (simp add: placed_def)
  show "slot_state (placed h now s) j = slot_state s j" if "j \<noteq> h_slot h" for j
    by (rule slot_state_write(1) [OF _ that]) (simp add: placed_def)
qed (simp_all add: placed_def)

lemma kept_holds:
  "h \<in> set hs \<Longrightarrow> h_id h \<noteq> k \<Longrightarrow> h \<in> set (update_where (\<lambda>g. h_id g = k \<and> h_status g = HActive) f hs)"
  by (auto simp: set_update_where)

lemma hold_elsewhere:
  assumes "tables_inv s" and "h \<in> set (holds s)" and "g \<in> set (holds s)" and "h_slot g \<noteq> h_slot h"
  shows "h_id g \<noteq> h_id h"
  using booking_invD(1) [OF tables_invD(1) [OF assms(1)]] assms(2-4) by (metis distinct_map inj_onD)

lemma seats_released:
  assumes inv: "tables_inv s" and h: "h \<in> set (holds s)" "live_hold h"
  shows "seats (released h r u now s) = (seats s)(h_slot h := Free)"
proof -
  let ?t = "released h r u now s"
  have ti: "tables_inv ?t" by (rule advance_inv [OF advance_released [OF inv h]])
  have sl: "slots ?t = update_where (\<lambda>sl. sl_id sl = h_slot h \<and> sl_status sl = SHeld) (set_slot_row SAvailable now) (slots s)"
    by (simp add: released_def)
  obtain sl where "get_slot_row s (h_slot h) = Some sl" "sl_status sl = SHeld"
    using live_hold_slot [OF tables_invD(1) [OF inv] h] by blast
  then have "seats ?t (h_slot h) = Free" by (intro seat_plain(1) slot_state_write(2) [OF sl])
  then show ?thesis
    by (rule seats_write [OF inv ti _ slot_state_write(1) [OF sl]])
      (use hold_elsewhere [OF inv h(1)] in \<open>simp_all add: released_def kept_holds\<close>)
qed

lemma seats_booked:
  assumes inv: "tables_inv s" "tables_inv (booked r h now s)" and h: "h \<in> set (holds s)"
    and r: "ts_slot r = h_slot h" "ts_student r = h_student h" "ts_status r = Confirmed"
  shows "seats (booked r h now s) = (seats s)(h_slot h := Sold (h_student h))"
proof (rule seats_write [OF inv])
  show "seats (booked r h now s) (h_slot h) = Sold (h_student h)"
    using seat_sold [OF inv(2), of r] r by (simp add: booked_def)
  show "slot_state (booked r h now s) j = slot_state s j" if "j \<noteq> h_slot h" for j
    by (rule slot_state_write(1) [OF _ that]) (simp add: booked_def)
qed (use hold_elsewhere [OF inv(1) h] in \<open>simp_all add: booked_def kept_holds\<close>)


text \<open>A session that changes its status, other than to cancelled, keeps its seat.\<close>

lemma seats_followed:
  assumes inv: "tables_inv s" "tables_inv t" and same: "slots t = slots s" "holds t = holds s"
    and sess: "sessions t = update_where p (moved v n) (sessions s)" and v: "sv_slot v = None" "sv_status v \<noteq> Cancelled"
  shows "seats t = seats s"
proof
  fix i
  show "seats t i = seats s i"
  proof (rule seat_same [OF inv slot_state_cong [OF same(1)]])
    show "h \<in> set (holds t)" if "h \<in> set (holds s)" for h using that by (simp add: same)
    fix r assume r: "r \<in> set (sessions s)" "ts_status r \<noteq> Cancelled" "ts_slot r = i"
    show "\<exists>q \<in> set (sessions t). ts_slot q = i \<and> ts_status q \<noteq> Cancelled \<and> ts_student q = ts_student r"
    proof (cases "p r")
      case True
      then have "moved v n r \<in> set (sessions t)" using r(1) by (simp add: sess set_update_where)
      then show ?thesis by (rule rev_bexI) (use r v in simp)
    next
      case False
      then have "r \<in> set (sessions t)" using r(1) by (simp add: sess set_update_where)
      then show ?thesis by (rule rev_bexI) (use r in simp)
    qed
  qed
qed

text \<open>The seat of a session that is neither cancelled nor over.\<close>

lemma session_seat:
  assumes inv: "tables_inv s" and row: "get_session_row s sid = Some q" "ts_status q \<noteq> Cancelled"
  shows "seats s (ts_slot q) = Sold (ts_student q)" and "slot_state s (ts_slot q) = Some SBooked"
    and "r \<in> set (sessions s) \<Longrightarrow> ts_slot r \<noteq> ts_slot q \<Longrightarrow> ts_id r \<noteq> sid"
proof -
  have q: "q \<in> set (sessions s)" "ts_id q = sid" using find_row_SomeD [OF row(1)] by simp_all
  show "seats s (ts_slot q) = Sold (ts_student q)" by (rule seat_sold [OF inv q(1) row(2)])
  have "sold s (ts_slot q)" using q(1) row(2) by (auto simp: sold_def)
  then show "slot_state s (ts_slot q) = Some SBooked" using tables_invD(5) [OF inv] by (simp add: calendar_inv_def)
  have "distinct (map ts_id (sessions s))" using tables_invD(7) [OF inv] by (simp add: sessions_ok_def)
  then show "r \<in> set (sessions s) \<Longrightarrow> ts_slot r \<noteq> ts_slot q \<Longrightarrow> ts_id r \<noteq> sid"
    using q by (auto simp: distinct_map inj_on_def)
qed

lemma seats_retired:
  assumes inv: "tables_inv s" "tables_inv t" and row: "get_session_row s (ts_id sess) = Some sess" "ts_status sess \<noteq> Cancelled"
    and same: "slots t = slots (retired sess n c now s)" "holds t = holds (retired sess n c now s)"
      "sessions t = sessions (retired sess n c now s)"
  shows "seats t = (seats s)(ts_slot sess := Withdrawn)"
proof -
  let ?u = "retired sess n c now s"
  have sl: "slots ?u = update_where (\<lambda>sl. sl_id sl = ts_slot sess \<and> True) (set_slot_row SCancelled now) (slots s)"
    by (simp add: retired_def)
  note st = slot_state_write [OF sl]
  note cong = slot_state_cong [OF same(1)]
  obtain x where "get_slot_row s (ts_slot sess) = Some x"
    using session_seat(2) [OF inv(1) row] by (auto simp: slot_state_def)
  then have "seats t (ts_slot sess) = Withdrawn" by (intro seat_plain(3)) (simp add: cong st(2))
  then show ?thesis
  proof (rule seats_write [OF inv])
    show "slot_state t j = slot_state s j" if "j \<noteq> ts_slot sess" for j using st(1) [OF that] cong by simp
    show "h \<in> set (holds t)" if "h \<in> set (holds s)" for h using that same(2) by (simp add: retired_def)
    show "r \<in> set (sessions t)" if "r \<in> set (sessions s)" "ts_slot r \<noteq> ts_slot sess" for r
      using that session_seat(3) [OF inv(1) row that] same(3) by (simp add: retired_def set_update_where)
  qed
qed

lemma seats_swapped:
  assumes inv: "tables_inv s" "tables_inv t" and row: "get_session_row s sid = Some sess" "ts_status sess \<noteq> Cancelled"
    and new: "sl_id sl = new_id" "new_id \<noteq> ts_slot sess"
    and free: "get_slot_row (swept now (Some new_id) s) new_id = Some x" "sl_status x = SAvailable"
    and core: "core t = core ((swapped sess new_id now s)\<lparr>sessions := sessions t\<rparr>)"
    and sess: "sessions t = update_where (\<lambda>q. ts_id q = sid) (moved v n) (sessions s)"
    and v: "sv_slot v = Some sl" "sv_status v \<noteq> Cancelled"
  shows "seats t = (lapse now (Some new_id) (seats s))(ts_slot sess := Free, new_id := Sold (ts_student sess))"
    and "lapse now (Some new_id) (seats s) new_id = Free"
proof -
  let ?w = "swept now (Some new_id) s"
  have wi: "tables_inv ?w" by (rule advance_inv [OF advance_swept [OF inv(1)]])
  have wrow: "get_session_row ?w sid = Some sess" using row(1) by (simp add: swept_def)
  have ws: "seats ?w = lapse now (Some new_id) (seats s)" by (rule seats_swept [OF inv(1)])
  show free': "lapse now (Some new_id) (seats s) new_id = Free"
    unfolding ws [symmetric] using free by (intro seat_plain(1)) (simp add: slot_state_def)
  have slot: "slot_state t i = (if i = new_id then Some SBooked else if i = ts_slot sess then Some SAvailable else slot_state ?w i)" for i
  proof -
    have "slot_state t i = slot_state (swapped sess new_id now s) i"
      by (rule slot_state_cong) (use coreD(2) [OF core] in simp)
    then show ?thesis
      using slot_row_id [where s = ?w and i = i] free session_seat(2) [OF wi wrow row(2)] new(2)
      by (cases "get_slot_row ?w i") (auto simp: slot_state_def swapped_def find_row_update)
  qed
  show "seats t = (lapse now (Some new_id) (seats s))(ts_slot sess := Free, new_id := Sold (ts_student sess))"
  proof
    fix i
    consider "i = new_id" | "i = ts_slot sess" "i \<noteq> new_id" | "i \<noteq> new_id" "i \<noteq> ts_slot sess" by blast
    then show "seats t i = ((lapse now (Some new_id) (seats s))(ts_slot sess := Free, new_id := Sold (ts_student sess))) i"
    proof cases
      case 1
      have "moved v n sess \<in> set (sessions t)"
        using find_row_SomeD [OF row(1)] by (auto simp: sess set_update_where)
      from seat_sold [OF inv(2) this] show ?thesis using 1 new v by simp
    next
      case 2
      then show ?thesis using seat_plain(1) [of t i] slot new(2) by simp
    next
      case 3
      have "seats t i = seats ?w i"
      proof (rule seat_same [OF wi inv(2)])
        show "slot_state t i = slot_state ?w i" using slot 3 by simp
        show "h \<in> set (holds t)" if "h \<in> set (holds ?w)" for h using that coreD(3) [OF core] by (simp add: swapped_def)
        fix r assume r: "r \<in> set (sessions ?w)" "ts_status r \<noteq> Cancelled" "ts_slot r = i"
        have "ts_id r \<noteq> sid" using session_seat(3) [OF wi wrow row(2) r(1)] r(3) 3 by simp
        then have "r \<in> set (sessions t)" using r(1) by (simp add: sess set_update_where swept_def)
        then show "\<exists>q \<in> set (sessions t). ts_slot q = i \<and> ts_status q \<noteq> Cancelled \<and> ts_student q = ts_student r"
          by (rule rev_bexI) (use r in simp)
      qed
      then show ?thesis using 3 ws by simp
    qed
  qed
qed


section \<open>Every transaction is a step of the specification\<close>

lemma hold_seat_step:
  assumes inv: "tables_inv s" and run: "create_hold cfg t0 slot_id u k now ttl s = (Inr h, t)"
  shows "seat_step (seats s) (seats t)"
proof -
  have b: "booking_inv s" by (rule tables_invD [OF inv])
  let ?w = "swept now (Some slot_id) s"
  have "t = s \<or> (\<exists>price d. place_hold t0 slot_id u (strip k) now d price ?w = (Inr h, t))"
    using create_hold_ok [OF run booking_invD(1) [OF b]] by blast
  then show ?thesis
  proof (elim disjE exE)
    assume "t = s"
    then show ?thesis by (simp add: idle)
  next
    fix price d
    assume p: "place_hold t0 slot_id u (strip k) now d price ?w = (Inr h, t)"
    note ok = place_hold_ok [OF p]
    have w: "tables_inv ?w" by (rule advance_inv [OF advance_swept [OF inv]])
    have t: "tables_inv (placed h now ?w)"
      using advance_inv [OF advance_create_hold [OF inv run]] ok(2) by simp
    have h: "live_hold h" "h_slot h = slot_id" "now < h_expires_at h"
      using ok(1,3) by (simp_all add: new_hold_def live_hold_def hold_check_def)
    have "slot_state ?w slot_id = Some SAvailable"
    proof -
      obtain y where y: "y \<in> set (slots ?w)" "sl_id y = slot_id" "sl_status y = SAvailable" using ok(5) by blast
      then have "get_slot_row ?w slot_id = Some y"
        using find_row_Some_iff [OF booking_invD(3) [OF tables_invD(1) [OF w]], of slot_id y] by blast
      then show ?thesis using y by (simp add: slot_state_def)
    qed
    then have "lapse now (Some slot_id) (seats s) slot_id = Free" using seat_plain(1) seats_swept [OF inv] by metis
    from reserve [where f = "seats s" and i = slot_id, OF this h(3)] show ?thesis
      using seats_placed [OF w t h(1)] h(2) by (simp add: ok(2) seats_swept [OF inv])
  qed
qed

lemma release_seat_step:
  assumes inv: "tables_inv s" and h: "h \<in> set (holds s)" "live_hold h" and core: "core t = core (released h r u now s)"
  shows "seat_step (seats s) (seats t)"
  using give_back [where f = "seats s" and i = "h_slot h", OF seat_held [OF inv h]] by (simp add: seats_core [OF core] seats_released [OF inv h])

lemma booked_seat_step:
  assumes inv: "tables_inv s" and h: "h \<in> set (holds s)" "live_hold h" "now < h_expires_at h"
    and r: "ts_slot r = h_slot h" "ts_student r = h_student h" "ts_status r = Confirmed"
    and t: "advance s (booked r h now s)" "core t = core (booked r h now s)"
  shows "seat_step (seats s) (seats t)"
  using pay [where f = "seats s" and i = "h_slot h", OF seat_held [OF inv h(1,2)] h(3)]
  by (simp add: seats_core [OF t(2)] seats_booked [OF inv advance_inv [OF t(1)] h(1) r])

lemma event_seat_step:
  assumes inv: "market_inv s" and run: "handle_event cfg t0 sg raw prov u now s = (Inr out, t)"
  shows "seat_step (seats s) (seats t)"
proof (rule event_parts [OF inv run])
  fix v :: db
  assume v: "advance s v" "sessions v = sessions s" "holds v = holds s" "slots v = slots s"
    and eff: "core t = core v \<and> next_id v \<le> next_id t
      \<or> (\<exists>hold \<in> set (holds v). live_hold hold \<and> advance v (released hold System None now v)
           \<and> core t = core (released hold System None now v) \<and> next_id v \<le> next_id t)
      \<or> (\<exists>hold \<in> set (holds v). \<exists>r. live_hold hold \<and> now < h_expires_at hold \<and> ts_slot r = h_slot hold
           \<and> ts_student r = h_student hold \<and> ts_status r = Confirmed \<and> advance v (booked r hold now v)
           \<and> core t = core (booked r hold now v) \<and> next_id v < next_id t)"
  have sv: "seats v = seats s" by (rule seats_cong [OF v(4,3,2)])
  have vi: "tables_inv v" by (rule advance_inv [OF v(1)])
  show ?thesis
    unfolding sv [symmetric] using eff
  proof (elim disjE bexE exE conjE)
    assume "core t = core v"
    from seats_core [OF this] show "seat_step (seats v) (seats t)" by (simp only: idle)
  next
    fix hold assume "hold \<in> set (holds v)" "live_hold hold" "core t = core (released hold System None now v)"
    then show "seat_step (seats v) (seats t)" by (rule release_seat_step [OF vi])
  next
    fix hold r assume "hold \<in> set (holds v)" "live_hold hold" "now < h_expires_at hold" "ts_slot r = h_slot hold"
      "ts_student r = h_student hold" "ts_status r = Confirmed" "advance v (booked r hold now v)"
      "core t = core (booked r hold now v)"
    then show "seat_step (seats v) (seats t)" by (rule booked_seat_step [OF vi])
  qed
qed

lemma session_seat_step:
  assumes inv: "market_inv s" and run: "create_from_paid_hold cfg t0 hold q now s = (Inr c, t)"
    and rows: "get_hold_row s (h_id hold) = Some hold" "q \<in> set (orders s)"
  shows "seat_step (seats s) (seats t)"
proof (cases "sc_replayed c")
  case True
  then have "t = s" using run by (auto simp: create_from_paid_hold_def run_simps split: option.splits)
  then show ?thesis by (simp add: idle)
next
  case False
  have ti: "tables_inv s" and ji: "jobs_inv s" using inv by (simp_all add: market_inv_def)
  obtain sl r where ok: "get_slot_row s (h_slot hold) = Some sl" "r = new_session (next_id s) sl hold q now" "session_check r"
      "o_hold q = h_id hold" "o_student q = h_student hold" "o_status q = OPaid" "live_hold hold" "now < h_expires_at hold"
      "h_slot hold \<notin> ts_slot ` set (sessions s)" "core t = core (booked r hold now s)"
    using create_session_ok [OF run False ji] by (elim exE conjE) (rule that, assumption+)
  have "advance s (booked r hold now s)"
    by (rule advance_booked [OF ti rows(2) ok(6,5) _ ok(7,1,9,2,3)]) (simp add: ok(4) rows(1))
  moreover have "hold \<in> set (holds s)" using find_row_SomeD [OF rows(1)] by simp
  moreover have "ts_slot r = h_slot hold" "ts_student r = h_student hold" "ts_status r = Confirmed"
    using find_row_SomeD [OF ok(1)] by (simp_all add: ok(2,5))
  ultimately show ?thesis using booked_seat_step [OF ti _ ok(7,8)] ok(10) by blast
qed

lemma reschedule_seat_step:
  assumes inv: "market_inv s" and run: "reschedule cfg t0 sid new_id u r ver ex admin why now s = (Inr m, t)"
  shows "seat_step (seats s) (seats t)"
proof -
  have ti: "tables_inv s" and ji: "jobs_inv s" using inv by (simp_all add: market_inv_def)
  note D = tables_invD [OF ti]
  obtain sess sl inside n x where ok: "reschedule_gates cfg sid new_id u r ex admin now s = Inr (sess, sl, inside)"
      "get_slot_row (swept now (Some new_id) s) new_id = Some x" "sl_status x = SAvailable"
      "core t = core ((swapped sess new_id now s)\<lparr>sessions := sessions t\<rparr>)"
      "sessions t = update_where (\<lambda>q. ts_id q = sid)
        (moved \<lparr>sv_status = Rescheduled, sv_now = now, sv_slot = Some sl\<rparr> n) (sessions s)"
    using reschedule_ok [OF run D(1,7) ji] by (elim exE conjE) (rule that, assumption+)
  have g: "get_session_row s sid = Some sess" "ts_status sess \<in> set live_statuses" "new_id \<noteq> ts_slot sess" "sl_id sl = new_id"
    using reschedule_gates_ok [OF ok(1)] get_session_ok by blast+
  have live: "ts_status sess \<noteq> Cancelled" using live_status [OF g(2)] by simp
  have tt: "tables_inv t" using advance_inv advance_reschedule [OF inv run] by blast
  note swap = seats_swapped [OF ti tt g(1) live g(4,3) ok(2-5)]
  show ?thesis
    using move [where f = "seats s" and i = new_id, OF session_seat(1) [OF ti g(1) live] swap(2) g(3)] swap(1) by simp
qed

lemma cancel_seat_step:
  assumes inv: "market_inv s" and run: "cancel cfg t0 sid u r ver ex admin amount why prov now s = (Inr m, t)"
  shows "seat_step (seats s) (seats t)"
proof -
  have ti: "tables_inv s" and ji: "jobs_inv s" using inv by (simp_all add: market_inv_def)
  note D = tables_invD [OF ti]
  obtain sess ord a n c v where ok: "cancel_assess cfg sid u r ex admin amount now s = Inr (sess, ord, a)"
      "core v = core (retired sess n c now s)"
      "if refund_due a
       then \<exists>q why i w. ord = Some q \<and> ra_reason a = Some why
          \<and> refund t0 (o_id q) (PyInt (ra_amount a)) why r
               (case admin of Some x \<Rightarrow> Some x | None \<Rightarrow> u) prov now True v = (Inr i, w)
          \<and> core t = core w \<and> sm_refund m = Some (rf_id (ri_refund i))
          \<and> (\<exists>x. outbox t = outbox w @ [x] \<and> ob_kind x = Booking_cancelled \<and> ob_aggregate x = sid
               \<and> ob_id x = next_id w) \<and> next_id t = Suc (next_id w)
       else core t = core v \<and> sm_refund m = None
          \<and> (\<exists>x. outbox t = outbox v @ [x] \<and> ob_kind x = Booking_cancelled \<and> ob_aggregate x = sid
               \<and> ob_id x = next_id v) \<and> next_id t = Suc (next_id v)"
    using cancel_ok [OF run D(7) ji] by (elim exE conjE) (rule that, assumption+)
  have g: "get_session_row s (ts_id sess) = Some sess" "ts_status sess \<in> set live_statuses"
    using cancel_assess_ok [OF ok(1)] get_session_ok by blast+
  have live: "ts_status sess \<noteq> Cancelled" using live_status [OF g(2)] by simp
  have tt: "tables_inv t" using advance_inv advance_cancel [OF inv run] by blast
  have same: "slots t = slots v \<and> holds t = holds v \<and> sessions t = sessions v"
  proof (cases "refund_due a")
    case True
    then obtain q :: order and i :: refund_issued and w why where "refund t0 (o_id q) (PyInt (ra_amount a)) why r
          (case admin of Some x \<Rightarrow> Some x | None \<Rightarrow> u) prov now True v = (Inr i, w)" "core t = core w" using ok(3) by auto
    then obtain ord' where "w = refunded (ri_refund i) ord' (ri_pending_retry i) r
        (case admin of Some x \<Rightarrow> Some x | None \<Rightarrow> u) now v" "core t = core w" using refund_ok by blast
    then show ?thesis using coreD(2,3,7) [of t w] by (simp add: refunded_def)
  next
    case False
    then show ?thesis using ok(3) coreD(2,3,7) [of t v] by simp
  qed
  have "seats t = (seats s)(ts_slot sess := Withdrawn)"
    by (rule seats_retired [OF ti tt g(1) live]) (use same coreD(2,3,7) [OF ok(2)] in simp_all)
  then show ?thesis
    using withdraw [where f = "seats s" and i = "ts_slot sess", OF session_seat(1) [OF ti g(1) live]] by simp
qed


text \<open>The transactions that leave the calendar alone.\<close>

lemma attendance_seats:
  assumes inv: "tables_inv s"
  shows "record_attendance t0 sid u r now authority s = (Inr out, t) \<Longrightarrow> seats t = seats s"
    and "confirm_attendance sid v ver now s = (Inr out, t) \<Longrightarrow> seats t = seats s"
    and "dispute_attendance sid v ver why now s = (Inr out, t) \<Longrightarrow> seats t = seats s"
    and "resolve_attendance sid admin res r ver now s = (Inr out, t) \<Longrightarrow> seats t = seats s"
proof -
  have moved: "seats t = seats s"
    if t: "tables_inv t" and core: "core t = core (followed sess st b now (decide_att row w s))" and st: "b \<Longrightarrow> st \<noteq> Cancelled"
    for sess st b row w
  proof -
    have same: "slots t = slots s" "holds t = holds s" using coreD(2,3) [OF core] by (simp_all add: decide_att_def)
    show ?thesis
    proof (cases b)
      case True
      have "sessions t = update_where (\<lambda>r. ts_id r = ts_id sess)
          (moved \<lparr>sv_status = st, sv_now = now, sv_slot = None\<rparr> (ts_version sess)) (sessions s)"
        using coreD(7) [OF core] True by (simp add: followed_def decide_att_def move_session_def)
      from seats_followed [OF inv t same this] show ?thesis using st [OF True] by simp
    next
      case False
      then have "sessions t = sessions s" using coreD(7) [OF core] by (simp add: followed_def decide_att_def)
      then show ?thesis by (rule seats_cong [OF same])
    qed
  qed
  show "seats t = seats s" if run: "record_attendance t0 sid u r now authority s = (Inr out, t)"
  proof -
    obtain sess :: tsession and row where core: "core t = core (move_session (ts_id sess) Completed now (ts_version sess) (s\<lparr>attendance := attendance s @ [row]\<rparr>))"
      by (rule record_attendance_ok [OF run tables_invD(7) [OF inv]]) (rule that, assumption+)
    have "tables_inv t" using advance_inv advance_record(1) [OF inv run] by blast
    then show ?thesis
      by (rule seats_followed [OF inv, where v = "\<lparr>sv_status = Completed, sv_now = now, sv_slot = None\<rparr>"])
        (use coreD(2,3,7) [OF core] in \<open>simp_all add: move_session_def\<close>)
  qed
  show "seats t = seats s" if run: "confirm_attendance sid v ver now s = (Inr out, t)"
  proof -
    obtain row where core: "core t = core (decide_att row (Set_confirmed now) s)"
      by (rule confirm_attendance_ok [OF run tables_invD(8) [OF inv]]) (rule that, assumption+)
    then show ?thesis by (intro seats_cong) (use coreD(2,3,7) [OF core] in \<open>simp_all add: decide_att_def\<close>)
  qed
  show "seats t = seats s" if run: "dispute_attendance sid v ver why now s = (Inr out, t)"
  proof -
    obtain sess :: tsession and row where core: "core t = core (followed sess Disputed (ts_status sess \<noteq> Disputed) now (decide_att row (Set_disputed now) s))"
      by (rule dispute_attendance_ok [OF run tables_invD(8,7) [OF inv]]) (rule that, assumption+)
    show ?thesis by (rule moved [OF _ core]) (use advance_inv advance_dispute(1) [OF inv run] in simp_all)
  qed
  show "seats t = seats s" if run: "resolve_attendance sid admin res r ver now s = (Inr out, t)"
  proof -
    obtain sess :: tsession and row where core: "core t = core (followed sess Completed (ts_status sess = Disputed) now (decide_att row (Set_resolved res now) s))"
      by (rule resolve_attendance_ok [OF run tables_invD(8,7) [OF inv]]) (rule that, assumption+)
    show ?thesis by (rule moved [OF _ core]) (use advance_inv advance_resolve(1) [OF inv run] in simp_all)
  qed
qed

lemma review_seats:
  assumes inv: "reviews_inv s"
  shows "create_review t0 sid v rating body now s = (Inr rm, t) \<Longrightarrow> seats t = seats s"
    and "edit_review rid v rating' new_body now s = (Inr rm, t) \<Longrightarrow> seats t = seats s"
    and "delete_review rid v now s = (Inr rm, t) \<Longrightarrow> seats t = seats s"
    and "moderate_review rid u decision r why now s = (Inr rm, t) \<Longrightarrow> seats t = seats s"
proof -
  have rated: "seats t = seats s" if core: "core t = core (rated_tutors i now (s\<lparr>reviews := rs, moderation := ms\<rparr>))" for i rs ms
    by (rule seats_cong) (use coreD(2,3,7) [OF core] in simp_all)
  show "seats t = seats s" if run: "create_review t0 sid v rating body now s = (Inr rm, t)"
    by (rule create_review_ok [OF run inv]) (rule rated, assumption)
  show "seats t = seats s" if run: "edit_review rid v rating' new_body now s = (Inr rm, t)"
  proof -
    obtain rw :: review and w :: db where "w = s\<lparr>reviews := reviews w, moderation := moderation w\<rparr>"
        "core t = core (rated_tutors (rv_tutor rw) now w)"
      by (rule edit_review_ok [OF run inv]) (rule that, assumption+)
    then show ?thesis using rated by metis
  qed
  show "seats t = seats s" if run: "delete_review rid v now s = (Inr rm, t)"
  proof -
    obtain rw :: review and w :: db where w: "w = s\<lparr>reviews := update_where (\<lambda>r. rv_id r = rid) (\<lambda>r. r\<lparr>rv_deleted_at := Some now, rv_published := False\<rparr>) (reviews s)\<rparr>"
        "core t = core (rated_tutors (rv_tutor rw) now w)"
      by (rule delete_review_ok [OF run inv]) (rule that, assumption+)
    show ?thesis by (rule seats_cong) (use coreD(2,3,7) [OF w(2)] in \<open>simp_all add: w(1)\<close>)
  qed
  show "seats t = seats s" if run: "moderate_review rid u decision r why now s = (Inr rm, t)"
  proof -
    obtain rw :: review and w :: db where "w = s\<lparr>reviews := reviews w, moderation := moderation w\<rparr>"
        "core t = core (rated_tutors (rv_tutor rw) now w)"
      by (rule moderate_review_ok [OF run inv]) (rule that, assumption+)
    then show ?thesis using rated by metis
  qed
qed


lemma market_seat_step:
  assumes "market_step s t" and inv: "market_inv s"
  shows "seat_step (seats s) (seats t)"
proof -
  have ti: "tables_inv s" and ji: "jobs_inv s" using inv by (simp_all add: market_inv_def)
  note ri = tables_invD(4) [OF ti]
  have same: "seat_step (seats s) (seats t)" if "seats t = seats s" by (simp add: that idle)
  note core = same [OF seats_core]
  show ?thesis
    using assms(1)
  proof cases
    case step_hold
    then show ?thesis by (rule hold_seat_step [OF ti])
  next
    case (step_release hid r u now h)
    show ?thesis
    proof (cases "t = s")
      case True
      then show ?thesis by (simp add: idle)
    next
      case False
      then obtain h' where h': "get_hold_row s hid = Some h'" "live_hold h'" "t = released h' r u now s"
        using step_release unfolding release_hold_run by (auto split: option.splits if_splits)
      show ?thesis
        by (rule release_seat_step [OF ti _ h'(2)]) (use find_row_SomeD [OF h'(1)] in simp, simp only: h'(3))
    qed
  next
    case (step_expire now n)
    then have t: "t = snd (expire_holds now s)" by simp
    show ?thesis
    proof (cases "filter (dead now None) (holds s) = []")
      case True
      then show ?thesis by (simp add: t expire_holds_run [OF tables_invD(1) [OF ti]] idle)
    next
      case False
      have "core t = core (swept now None s)" using False by (simp add: t expire_holds_run [OF tables_invD(1) [OF ti]])
      from seats_core [OF this] show ?thesis unfolding seats_swept [OF ti] by (simp only: lapse)
    qed
  next
    case (step_order t0 hid u key amount currency prov now c)
    then have "slots t = slots s \<and> holds t = holds s \<and> sessions t = sessions s"
      using create_order_ok [OF step_order] by (auto dest!: open_order_ok simp: ordered_def)
    then show ?thesis by (intro same seats_cong) simp_all
  next
    case step_event
    then show ?thesis by (rule event_seat_step [OF inv])
  next
    case step_session
    then show ?thesis by (intro session_seat_step [OF inv])
  next
    case (step_refund t0 oid amount why r u prov now pend i)
    then have "slots t = slots s \<and> holds t = holds s \<and> sessions t = sessions s"
      using refund_ok [OF step_refund] by (auto simp: refunded_def)
    then show ?thesis by (intro same seats_cong) simp_all
  next
    case step_reschedule
    then show ?thesis by (rule reschedule_seat_step [OF inv])
  next
    case step_cancel
    then show ?thesis by (rule cancel_seat_step [OF inv])
  next
    case step_record
    then show ?thesis by (rule same [OF attendance_seats(1) [OF ti]])
  next
    case step_confirm
    then show ?thesis by (rule same [OF attendance_seats(2) [OF ti]])
  next
    case step_dispute
    then show ?thesis by (rule same [OF attendance_seats(3) [OF ti]])
  next
    case step_resolve
    then show ?thesis by (rule same [OF attendance_seats(4) [OF ti]])
  next
    case step_review
    then show ?thesis by (rule same [OF review_seats(1) [OF ri]])
  next
    case step_edit
    then show ?thesis by (rule same [OF review_seats(2) [OF ri]])
  next
    case step_delete
    then show ?thesis by (rule same [OF review_seats(3) [OF ri]])
  next
    case step_moderate
    then show ?thesis by (rule same [OF review_seats(4) [OF ri]])
  next
    case (step_price tid amount currency r u tu)
    then obtain ts where "core t = core (s\<lparr>tutors := ts\<rparr>)"
      by (auto simp: set_tutor_session_price_def run_simps split: option.splits if_splits)
    from coreD(2,3,7) [OF this] show ?thesis by (intro same seats_cong) simp_all
  next
    case (step_remind now limit b)
    show ?thesis by (rule core) (use enqueue_jobs_core [OF enqueue_due_pick [OF step_remind]] in simp)
  next
    case (step_relay disp batch limit now kinds w rep w')
    have "core t = core s \<and> next_id t = next_id s \<and> jobs t = jobs s"
      using step_relay relay_core by (simp add: relay_pending_def)
    then show ?thesis by (intro core) simp
  next
    case step_tutors
    then show ?thesis by (intro same seats_cong) simp_all
  next
    case (step_publish sl)
    have "tables_inv t" using advance_inv [OF advance_publish [OF ti step_publish(2,3)]] by (simp only: step_publish(1))
    moreover have none: "get_slot_row s (sl_id sl) = None" using step_publish(2) by (simp add: find_row_None_iff)
    ultimately have "seats t = (seats s)(sl_id sl := Free)"
      by (intro seats_write [OF ti] seat_plain(1))
        (use step_publish(3) in \<open>simp_all add: step_publish(1) slot_state_def find_row_append split: option.split\<close>)
    moreover have "seats s (sl_id sl) = Unlisted" by (rule seat_plain(2)) (simp add: slot_state_def none)
    ultimately show ?thesis using publish [where f = "seats s" and i = "sl_id sl"] by simp
  qed
qed

section \<open>Property\<close>



end
