(* ===== verification/Sha256.thy ===== *)
theory Sha256
  imports Prelude "HOL-Library.Word"
begin

text \<open>
  What the providers and the join credentials use of Python's \<open>hashlib\<close>, \<open>str.encode\<close> and \<open>uuid\<close>:
  the UTF-8 bytes of a string, the SHA-256 digest as FIPS 180-4 defines it, on 32-bit words, its
  hexadecimal form, and the canonical form of a UUID.
\<close>

unbundle bit_operations_syntax

section \<open>Bytes and hexadecimal digits\<close>

text \<open>The code points of the model's characters are 0 to 255: one byte below 128, two bytes above.\<close>

definition utf8_char :: "char \<Rightarrow> nat list" where
  "utf8_char c = (let n = (of_char c :: nat) in if n < 128 then [n] else [192 + n div 64, 128 + n mod 64])"

definition utf8 :: "string \<Rightarrow> nat list" where
  "utf8 s = concat (map utf8_char s)"

definition hex_digit :: "nat \<Rightarrow> char" where
  "hex_digit n = char_of (if n < 10 then 48 + n else 87 + n)"

fun hex_digits :: "nat \<Rightarrow> nat \<Rightarrow> string" where
  "hex_digits 0 n = []"
| "hex_digits (Suc k) n = hex_digits k (n div 16) @ [hex_digit (n mod 16)]"

lemma length_hex_digits [simp]: "length (hex_digits k n) = k"
  by (induction k arbitrary: n) auto

lemma hex_digit_inj: "m < 16 \<Longrightarrow> n < 16 \<Longrightarrow> hex_digit m = hex_digit n \<Longrightarrow> m = n"
proof -
  assume m: "m < 16" and n: "n < 16" and "hex_digit m = hex_digit n"
  then have "(of_char (hex_digit m) :: nat) = of_char (hex_digit n)" by simp
  with m n show "m = n" by (auto simp: hex_digit_def of_char_of split: if_splits)
qed

lemma hex_digits_inj: "hex_digits k m = hex_digits k n \<Longrightarrow> m < 16 ^ k \<Longrightarrow> n < 16 ^ k \<Longrightarrow> m = n"
proof (induction k arbitrary: m n)
  case (Suc k)
  then have "hex_digits k (m div 16) = hex_digits k (n div 16)" "hex_digit (m mod 16) = hex_digit (n mod 16)"
    by simp_all
  moreover have "m div 16 < 16 ^ k" "n div 16 < 16 ^ k"
    using Suc.prems(2,3) by (simp_all add: less_mult_imp_div_less mult.commute)
  ultimately have "m div 16 = n div 16" "m mod 16 = n mod 16" using Suc.IH hex_digit_inj by auto
  then show ?case by (metis mult_div_mod_eq)
qed simp

text \<open>Hexadecimal digits are \<open>0-9a-f\<close>: no separator and no space among them.\<close>

definition hex_char :: "char \<Rightarrow> bool" where
  "hex_char c = (let n = (of_char c :: nat) in (48 \<le> n \<and> n \<le> 57) \<or> (97 \<le> n \<and> n \<le> 102))"

lemma hex_digits_plain: "c \<in> set (hex_digits k n) \<Longrightarrow> hex_char c"
proof (induction k arbitrary: n)
  case (Suc k)
  have "hex_char (hex_digit (n mod 16))"
    by (simp add: hex_char_def hex_digit_def of_char_of) linarith
  with Suc show ?case by auto
qed simp

text \<open>\<open>str(uuid)\<close>: 32 hexadecimal digits in five groups.\<close>

definition uuid_str :: "uid \<Rightarrow> string" where
  "uuid_str i = (let d = hex_digits 32 i in
     take 8 d @ ''-'' @ take 4 (drop 8 d) @ ''-'' @ take 4 (drop 12 d) @ ''-'' @ take 4 (drop 16 d) @ ''-'' @ drop 20 d)"

section \<open>SHA-256\<close>

text \<open>The round constants and the initial state, in decimal.\<close>

definition sha_k :: "32 word list" where
  "sha_k = [
    1116352408, 1899447441, 3049323471, 3921009573, 961987163, 1508970993, 2453635748, 2870763221,
    3624381080, 310598401, 607225278, 1426881987, 1925078388, 2162078206, 2614888103, 3248222580,
    3835390401, 4022224774, 264347078, 604807628, 770255983, 1249150122, 1555081692, 1996064986,
    2554220882, 2821834349, 2952996808, 3210313671, 3336571891, 3584528711, 113926993, 338241895,
    666307205, 773529912, 1294757372, 1396182291, 1695183700, 1986661051, 2177026350, 2456956037,
    2730485921, 2820302411, 3259730800, 3345764771, 3516065817, 3600352804, 4094571909, 275423344,
    430227734, 506948616, 659060556, 883997877, 958139571, 1322822218, 1537002063, 1747873779,
    1955562222, 2024104815, 2227730452, 2361852424, 2428436474, 2756734187, 3204031479, 3329325298]"

definition sha_init :: "32 word list" where
  "sha_init = [1779033703, 3144134277, 1013904242, 2773480762, 1359893119, 2600822924, 528734635, 1541459225]"

definition rotr :: "nat \<Rightarrow> 32 word \<Rightarrow> 32 word" where
  "rotr n x = drop_bit n x OR push_bit (32 - n) x"

definition small_sigma0 :: "32 word \<Rightarrow> 32 word" where
  "small_sigma0 x = rotr 7 x XOR rotr 18 x XOR drop_bit 3 x"
definition small_sigma1 :: "32 word \<Rightarrow> 32 word" where
  "small_sigma1 x = rotr 17 x XOR rotr 19 x XOR drop_bit 10 x"
definition big_sigma0 :: "32 word \<Rightarrow> 32 word" where
  "big_sigma0 x = rotr 2 x XOR rotr 13 x XOR rotr 22 x"
definition big_sigma1 :: "32 word \<Rightarrow> 32 word" where
  "big_sigma1 x = rotr 6 x XOR rotr 11 x XOR rotr 25 x"

text \<open>Padding to blocks of 64 bytes: a one bit, zeros, the length in bits in 8 bytes.\<close>

fun big_endian :: "nat \<Rightarrow> nat \<Rightarrow> nat list" where
  "big_endian 0 n = []"
| "big_endian (Suc k) n = big_endian k (n div 256) @ [n mod 256]"

definition sha_pad :: "nat list \<Rightarrow> nat list" where
  "sha_pad m = m @ [128] @ replicate ((119 - length m mod 64) mod 64) 0 @ big_endian 8 (8 * length m)"

fun words_of :: "nat list \<Rightarrow> 32 word list" where
  "words_of (a # b # c # d # bs) = of_nat (((a * 256 + b) * 256 + c) * 256 + d) # words_of bs"
| "words_of _ = []"

fun sha_schedule :: "nat \<Rightarrow> 32 word list \<Rightarrow> 32 word list" where
  "sha_schedule 0 w = w"
| "sha_schedule (Suc k) w = (let n = length w in sha_schedule k
     (w @ [small_sigma1 (w ! (n - 2)) + w ! (n - 7) + small_sigma0 (w ! (n - 15)) + w ! (n - 16)]))"

fun sha_round :: "32 word \<times> 32 word \<Rightarrow> 32 word list \<Rightarrow> 32 word list" where
  "sha_round (k, w) [a, b, c, d, e, f, g, h] =
     (let t1 = h + big_sigma1 e + ((e AND f) XOR (NOT e AND g)) + k + w;
          t2 = big_sigma0 a + ((a AND b) XOR (a AND c) XOR (b AND c))
      in [t1 + t2, a, b, c, d + t1, e, f, g])"
| "sha_round _ st = st"

definition sha_block :: "32 word list \<Rightarrow> 32 word list \<Rightarrow> 32 word list" where
  "sha_block block st = map2 (+) st (fold sha_round (zip sha_k (sha_schedule 48 block)) st)"

function sha_blocks :: "32 word list \<Rightarrow> 32 word list \<Rightarrow> 32 word list" where
  "sha_blocks ws st = (if length ws < 16 then st else sha_blocks (drop 16 ws) (sha_block (take 16 ws) st))"
  by auto
termination by (relation "measure (\<lambda>(ws, st). length ws)") auto

definition sha256 :: "nat list \<Rightarrow> 32 word list" where
  "sha256 m = sha_blocks (words_of (sha_pad m)) sha_init"

text \<open>\<open>hashlib.sha256(s.encode()).hexdigest()\<close>\<close>

definition hex_words :: "32 word list \<Rightarrow> string" where
  "hex_words ws = concat (map (\<lambda>w. hex_digits 8 (unat w)) ws)"

definition sha256_hex :: "string \<Rightarrow> string" where
  "sha256_hex s = hex_words (sha256 (utf8 s))"

text \<open>\<open>hmac.new(key, message, hashlib.sha256).hexdigest()\<close>: RFC 2104 on blocks of 64 bytes.\<close>

definition sha256_bytes :: "nat list \<Rightarrow> nat list" where
  "sha256_bytes m = concat (map (\<lambda>w. big_endian 4 (unat w)) (sha256 m))"

definition hmac_key :: "nat list \<Rightarrow> nat list" where
  "hmac_key key = (let k = if 64 < length key then sha256_bytes key else key in k @ replicate (64 - length k) 0)"

definition hmac_sha256_hex :: "nat list \<Rightarrow> nat list \<Rightarrow> string" where
  "hmac_sha256_hex key message = (let k = hmac_key key in
     hex_words (sha256 (map (\<lambda>b. b XOR 92) k @ sha256_bytes (map (\<lambda>b. b XOR 54) k @ message))))"

lemma sha_round_length: "length st = 8 \<Longrightarrow> length (sha_round p st) = 8"
  by (cases p; cases "(p, st)" rule: sha_round.cases) (auto simp: Let_def)

lemma sha_fold_length: "length st = 8 \<Longrightarrow> length (fold sha_round ps st) = 8"
  by (induction ps arbitrary: st) (auto simp: sha_round_length)

lemma sha_blocks_length: "length st = 8 \<Longrightarrow> length (sha_blocks ws st) = 8"
  by (induction ws st rule: sha_blocks.induct) (simp add: sha_block_def sha_fold_length)

text \<open>A digest is 64 hexadecimal digits, whatever was hashed: the width of the column that stores it.\<close>

lemma length_hex_words [simp]: "length (hex_words ws) = 8 * length ws"
  by (induction ws) (auto simp: hex_words_def)

lemma hex_words_plain: "c \<in> set (hex_words ws) \<Longrightarrow> hex_char c"
  unfolding hex_words_def by (auto dest: hex_digits_plain)

lemma length_sha256 [simp]: "length (sha256 m) = 8"
  by (simp add: sha256_def sha_blocks_length sha_init_def del: sha_blocks.simps)

lemma length_sha256_hex [simp]: "length (sha256_hex s) = 64"
  by (simp add: sha256_hex_def)

lemma sha256_hex_plain: "c \<in> set (sha256_hex s) \<Longrightarrow> hex_char c"
  unfolding sha256_hex_def by (rule hex_words_plain)

lemma length_hmac_sha256_hex [simp]: "length (hmac_sha256_hex k m) = 64"
  by (simp add: hmac_sha256_hex_def Let_def)

lemma hmac_sha256_hex_plain: "c \<in> set (hmac_sha256_hex k m) \<Longrightarrow> hex_char c"
  unfolding hmac_sha256_hex_def Let_def by (rule hex_words_plain)

end
