(* ===== verification/VideoProvider.thy ===== *)
theory VideoProvider
  imports Outbox Sha256 "HOL-Library.List_Lexorder" "HOL-Library.Char_ord"
begin

text \<open>
  The video provider seam (\<open>services/providers/video_provider.py\<close>): permission sets, the checks
  ahead of a credential, the header a delivery presents its signature in, and the credentials of
  the deterministic adapter. The random part of a join token (\<open>secrets.token_urlsafe\<close>) is an
  argument. \<open>video_gateway\<close> states what the domain service relies on in any adapter.
\<close>

section \<open>Permissions\<close>

datatype video_error = VideoProviderError (verr_code: string) (verr_retryable: bool)

definition permission_atoms :: "string list" where
  "permission_atoms = [''subscribe'', ''publish'', ''publish_data'', ''manage'']"

fun role_permissions :: "role \<Rightarrow> string option" where
  "role_permissions Student = Some ''publish,subscribe''"
| "role_permissions Tutor = Some ''manage,publish,subscribe''"
| "role_permissions (Other_role r) = (if r = ''observer'' then Some ''subscribe'' else None)"
| "role_permissions _ = None"

text \<open>\<open>s.split(c)\<close> and \<open>c.join(parts)\<close>.\<close>

fun split_on :: "'a \<Rightarrow> 'a list \<Rightarrow> 'a list list" where
  "split_on c [] = [[]]"
| "split_on c (x # xs) = (if x = c then [] # split_on c xs
     else (case split_on c xs of [] \<Rightarrow> [[x]] | p # ps \<Rightarrow> (x # p) # ps))"

fun join_with :: "'a \<Rightarrow> 'a list list \<Rightarrow> 'a list" where
  "join_with c [] = []"
| "join_with c [p] = p"
| "join_with c (p # ps) = p @ c # join_with c ps"

definition normalise_permissions :: "string \<Rightarrow> video_error + string" where
  "normalise_permissions permissions =
     (let atoms = filter (\<lambda>p. p \<noteq> []) (map strip (split_on (CHR '','') permissions)) in
      if atoms = [] then Inl (VideoProviderError ''PERMISSIONS_REQUIRED'' False)
      else if list_ex (\<lambda>p. p \<notin> set permission_atoms) atoms then Inl (VideoProviderError ''PERMISSIONS_INVALID'' False)
      else let canonical = join_with (CHR '','') (sort (remdups atoms)) in
        if 64 < length canonical then Inl (VideoProviderError ''PERMISSIONS_INVALID'' False)
        else Inr canonical)"

section \<open>Credentials\<close>

record video_credential =
  vc_raw :: string
  vc_hash :: string
  vc_room :: string
  vc_expires :: instant
  vc_participant :: string
  vc_permissions :: string

definition hash_token :: "string \<Rightarrow> string" where
  "hash_token raw = sha256_hex raw"

fun assert_ttl :: "pyval \<Rightarrow> video_error + int" where
  "assert_ttl (PyInt n) =
     (if n \<le> 0 then Inl (VideoProviderError ''TTL_INVALID'' False)
      else if 24 * 3600 < n then Inl (VideoProviderError ''TTL_TOO_LONG'' False) else Inr n)"
| "assert_ttl _ = Inl (VideoProviderError ''TTL_INVALID'' False)"

definition assert_participant :: "string \<Rightarrow> video_error + string" where
  "assert_participant participant_ref =
     (let ref = strip participant_ref in
      if ref = [] then Inl (VideoProviderError ''PARTICIPANT_REQUIRED'' False)
      else if 64 < length ref then Inl (VideoProviderError ''PARTICIPANT_INVALID'' False)
      else if CHR ''@'' \<in> set ref \<or> list_ex is_space ref then Inl (VideoProviderError ''PARTICIPANT_INVALID'' False)
      else Inr ref)"

text \<open>The deterministic adapter remembers the rooms it has named.\<close>

definition ensure_room :: "uid \<Rightarrow> string list \<Rightarrow> string \<times> string list" where
  "ensure_room session_id rooms =
     (let room = ''det_room_'' @ take 24 (sha256_hex (uuid_str session_id))
      in (room, if room \<in> set rooms then rooms else rooms @ [room]))"

definition issue_credential ::
    "string \<Rightarrow> string list \<Rightarrow> uid \<Rightarrow> string \<Rightarrow> string \<Rightarrow> int \<Rightarrow> instant \<Rightarrow> (video_error + video_credential) \<times> string list" where
  "issue_credential token rooms session_id participant_ref permissions ttl now =
     (case assert_ttl (PyInt ttl) of Inl e \<Rightarrow> (Inl e, rooms) | Inr n \<Rightarrow>
      case assert_participant participant_ref of Inl e \<Rightarrow> (Inl e, rooms) | Inr ref \<Rightarrow>
      case normalise_permissions permissions of Inl e \<Rightarrow> (Inl e, rooms) | Inr perms \<Rightarrow>
        let (room, rooms') = ensure_room session_id rooms; raw = ''join_'' @ token
        in (Inr \<lparr>vc_raw = raw, vc_hash = hash_token raw, vc_room = room, vc_expires = now + seconds n,
                 vc_participant = ref, vc_permissions = perms\<rparr>, rooms'))"

section \<open>Events\<close>

record video_event =
  ve_event_id :: string
  ve_type :: string
  ve_room :: string
  ve_participant :: "string option"
  ve_verified :: bool

definition video_event_types :: "string list" where
  "video_event_types = [''room_started'', ''room_finished'', ''participant_joined'', ''participant_left'']"

text \<open>
  \<open>_header_value\<close> on a plain dict, an association list: the name as it is spelled, then in lower
  case, each if its value is not empty, then the first key that agrees in lower case.
\<close>

definition header_value :: "(string \<times> string) list \<Rightarrow> string \<Rightarrow> string" where
  "header_value headers name =
     (let present = (\<lambda>k. case map_of headers k of Some v \<Rightarrow> if v = [] then None else Some v | None \<Rightarrow> None)
      in case present name of Some v \<Rightarrow> v | None \<Rightarrow>
         (case present (lower name) of Some v \<Rightarrow> v | None \<Rightarrow>
           (case find (\<lambda>(k, v). lower k = lower name) headers of Some (k, v) \<Rightarrow> v | None \<Rightarrow> [])))"

definition presented_signature :: "string \<Rightarrow> string option \<Rightarrow> (string \<times> string) list \<Rightarrow> string" where
  "presented_signature header_name signature headers =
     (case signature of Some x \<Rightarrow> if strip x \<noteq> [] then x else header_value headers header_name
      | None \<Rightarrow> header_value headers header_name)"

section \<open>The interface the domain uses\<close>

record video_provider =
  v_issue :: "uid \<Rightarrow> string \<Rightarrow> string \<Rightarrow> int \<Rightarrow> instant \<Rightarrow> video_error + video_credential"
  v_verify :: "string option \<Rightarrow> string \<Rightarrow> (string \<times> string) list \<Rightarrow> video_error + video_event"

text \<open>
  A credential is bound to the participant it was asked for, carries the hash of its token and
  lives as long as was asked, at most a day.
\<close>

locale video_gateway =
  fixes issue :: "uid \<Rightarrow> string \<Rightarrow> string \<Rightarrow> int \<Rightarrow> instant \<Rightarrow> video_error + video_credential"
  assumes issue_participant: "strip ref = ref \<Longrightarrow> issue sid ref perms ttl now = Inr c \<Longrightarrow> vc_participant c = ref"
    and issue_hash: "issue sid ref perms ttl now = Inr c \<Longrightarrow> vc_hash c = hash_token (vc_raw c)"
    and issue_expiry: "issue sid ref perms ttl now = Inr c \<Longrightarrow> vc_expires c = now + seconds ttl"
    and issue_short: "issue sid ref perms ttl now = Inr c \<Longrightarrow> 0 < ttl \<and> ttl \<le> 86400"
begin

lemma issue_live: "issue sid ref perms ttl now = Inr c \<Longrightarrow> now < vc_expires c \<and> vc_expires c \<le> now + days 1"
  using issue_expiry [of sid ref perms ttl now c] issue_short [of sid ref perms ttl now c]
  by (simp add: seconds_def days_def)

end

section \<open>Lemmas\<close>

lemma assert_participant_Inr:
  "assert_participant p = Inr ref \<Longrightarrow> ref = strip p \<and> ref \<noteq> [] \<and> length ref \<le> 64 \<and> CHR ''@'' \<notin> set ref
     \<and> list_all (\<lambda>c. \<not> is_space c) ref"
  by (auto simp: assert_participant_def Let_def list_all_iff list_ex_iff split: if_splits)

lemma assert_ttl_Inr: "assert_ttl v = Inr n \<longleftrightarrow> v = PyInt n \<and> 0 < n \<and> n \<le> 86400"
  by (cases v) auto

interpretation deterministic: video_gateway "\<lambda>sid ref perms ttl now. fst (issue_credential token rooms sid ref perms ttl now)"
proof unfold_locales
  fix sid ref perms ttl now c
  assume run: "fst (issue_credential token rooms sid ref perms ttl now) = Inr c"
  then obtain n r where n: "assert_ttl (PyInt ttl) = Inr n" and r: "assert_participant ref = Inr r"
    and c: "vc_participant c = r" "vc_hash c = hash_token (vc_raw c)" "vc_expires c = now + seconds n"
    by (auto simp: issue_credential_def Let_def split: sum.splits prod.splits)
  note n' = n [unfolded assert_ttl_Inr]
  then show "vc_hash c = hash_token (vc_raw c)" "vc_expires c = now + seconds ttl" "0 < ttl \<and> ttl \<le> 86400"
    using c by auto
  show "vc_participant c = ref" if "strip ref = ref" using assert_participant_Inr [OF r] c(1) that by simp
qed

lemma split_on_nonempty [simp]: "split_on c xs \<noteq> []"
  by (induction xs) (auto split: list.splits)

lemma split_on_plain: "c \<notin> set p \<Longrightarrow> split_on c p = [p]"
  by (induction p) auto

lemma split_on_append: "c \<notin> set p \<Longrightarrow> split_on c (p @ c # xs) = p # split_on c xs"
  by (induction p) auto

text \<open>Splitting undoes joining.\<close>

lemma split_on_join: "ps \<noteq> [] \<Longrightarrow> \<forall>p \<in> set ps. c \<notin> set p \<Longrightarrow> split_on c (join_with c ps) = ps"
  by (induction c ps rule: join_with.induct) (auto simp: split_on_plain split_on_append)

lemma atom_plain: "p \<in> set permission_atoms \<Longrightarrow> CHR '','' \<notin> set p \<and> strip p = p \<and> p \<noteq> []"
proof -
  have "\<forall>p \<in> set permission_atoms. CHR '','' \<notin> set p \<and> strip p = p \<and> p \<noteq> []" by code_simp
  then show "p \<in> set permission_atoms \<Longrightarrow> CHR '','' \<notin> set p \<and> strip p = p \<and> p \<noteq> []" by blast
qed

lemma length_join_with: "length (join_with c ps) \<le> sum_list (map (\<lambda>p. length p + 1) ps)"
  by (induction c ps rule: join_with.induct) auto

text \<open>A set of atoms is never too long for its column, however often and in whatever order it is written.\<close>

lemma canonical_fits:
  assumes "set atoms \<subseteq> set permission_atoms"
  shows "length (join_with c (sort (remdups atoms))) \<le> 64"
proof -
  let ?ps = "sort (remdups atoms)" and ?n = "\<lambda>p :: string. length p + 1"
  have "sum_list (map ?n ?ps) = sum ?n (set atoms)"
    by (subst sum_list_distinct_conv_sum_set) simp_all
  also have "\<dots> \<le> sum ?n (set permission_atoms)" by (rule sum_mono2) (use assms in auto)
  also have "\<dots> = sum_list (map ?n permission_atoms)"
    by (subst sum_list_distinct_conv_sum_set) (simp_all add: permission_atoms_def)
  also have "\<dots> = 38" by (simp add: permission_atoms_def)
  finally show ?thesis using length_join_with [of c ?ps] by linarith
qed

lemma normalise_Inr:
  assumes "normalise_permissions p = Inr q"
  obtains atoms where "atoms = filter (\<lambda>p. p \<noteq> []) (map strip (split_on (CHR '','') p))" and "atoms \<noteq> []"
    and "set atoms \<subseteq> set permission_atoms" and "q = join_with (CHR '','') (sort (remdups atoms))"
  using assms that by (auto simp: normalise_permissions_def Let_def list_ex_iff split: if_splits)

definition named_atoms :: "string \<Rightarrow> string set" where
  "named_atoms p = {a \<in> strip ` set (split_on (CHR '','') p). a \<noteq> []}"

lemma named_atoms_filter: "set (filter (\<lambda>p. p \<noteq> []) (map strip (split_on (CHR '','') p))) = named_atoms p"
  by (auto simp: named_atoms_def)

lemma normalise_iff:
  "normalise_permissions p = Inr q \<longleftrightarrow> named_atoms p \<noteq> {} \<and> named_atoms p \<subseteq> set permission_atoms
     \<and> q = join_with (CHR '','') (sorted_list_of_set (named_atoms p))"
proof -
  define atoms where "atoms = filter (\<lambda>p. p \<noteq> []) (map strip (split_on (CHR '','') p))"
  have s: "set atoms = named_atoms p" unfolding atoms_def by (rule named_atoms_filter)
  have l: "sort (remdups atoms) = sorted_list_of_set (named_atoms p)"
    unfolding s [symmetric] by (rule sorted_list_of_set_sort_remdups [symmetric])
  have u: "list_ex (\<lambda>p. p \<notin> set permission_atoms) atoms \<longleftrightarrow> \<not> named_atoms p \<subseteq> set permission_atoms"
    by (auto simp: list_ex_iff s [symmetric])
  have e: "atoms = [] \<longleftrightarrow> named_atoms p = {}" by (simp add: s [symmetric])
  have "length (join_with (CHR '','') (sort (remdups atoms))) \<le> 64" if "named_atoms p \<subseteq> set permission_atoms"
    by (rule canonical_fits) (simp add: s that)
  then show ?thesis
    unfolding normalise_permissions_def atoms_def [symmetric] Let_def u l e by auto
qed

lemma named_atoms_finite [simp]: "finite (named_atoms p)"
  unfolding named_atoms_filter [symmetric] by simp

lemma split_canonical:
  assumes "normalise_permissions p = Inr q"
  shows "split_on (CHR '','') q = sorted_list_of_set (named_atoms p)" and "named_atoms q = named_atoms p"
proof -
  note q = assms [unfolded normalise_iff]
  let ?ps = "sorted_list_of_set (named_atoms p)"
  have plain: "\<forall>a \<in> named_atoms p. CHR '','' \<notin> set a \<and> strip a = a \<and> a \<noteq> []" using q atom_plain by blast
  show split: "split_on (CHR '','') q = ?ps"
    using q plain by (simp add: split_on_join)
  show "named_atoms q = named_atoms p"
    using plain by (force simp: named_atoms_def [of q] split)
qed

text \<open>
  Permission sets have one spelling: normalising succeeds exactly when at least one atom is named and
  every one is known (the length check never fires), its result is the sorted list of the atoms, fits
  its column and normalises to itself, and two spellings have the same result exactly when they name
  the same set.
\<close>

theorem permissions_canonical:
  "((\<exists>q. normalise_permissions p = Inr q) = (named_atoms p \<noteq> {} \<and> named_atoms p \<subseteq> set permission_atoms))
   \<and> (case normalise_permissions p of Inl e \<Rightarrow> verr_retryable e = False
      | Inr q \<Rightarrow> split_on (CHR '','') q = sorted_list_of_set (named_atoms p) \<and> length q \<le> 64
          \<and> normalise_permissions q = Inr q
          \<and> (\<forall>p'. (normalise_permissions p' = Inr q) = (named_atoms p' = named_atoms p)))"
proof (cases "normalise_permissions p")
  case (Inl e)
  then have "verr_retryable e = False"
    by (auto simp: normalise_permissions_def Let_def split: if_splits)
  with Inl show ?thesis using normalise_iff [of p] by auto
next
  case (Inr q)
  note q = Inr [unfolded normalise_iff]
  have "length q \<le> 64"
    using Inr by (auto simp: normalise_permissions_def Let_def split: if_splits)
  moreover have "normalise_permissions p' = Inr q \<longleftrightarrow> named_atoms p' = named_atoms p" for p'
  proof
    assume "normalise_permissions p' = Inr q"
    then show "named_atoms p' = named_atoms p" using split_canonical(2) [OF Inr] split_canonical(2) by metis
  qed (use q in \<open>simp add: normalise_iff\<close>)
  moreover have "normalise_permissions q = Inr q"
    using q split_canonical(2) [OF Inr] by (simp add: normalise_iff)
  ultimately have "split_on (CHR '','') q = sorted_list_of_set (named_atoms p) \<and> length q \<le> 64
      \<and> normalise_permissions q = Inr q \<and> (\<forall>p'. (normalise_permissions p' = Inr q) = (named_atoms p' = named_atoms p))"
    using split_canonical(1) [OF Inr] by simp
  moreover have "named_atoms p \<noteq> {} \<and> named_atoms p \<subseteq> set permission_atoms" using q by blast
  ultimately show ?thesis unfolding Inr by simp
qed

end
