(* ===== verification/JoinCredentials.thy ===== *)
theory JoinCredentials
  imports SessionProperties VideoProvider
begin

text \<open>
  Join credentials and the video room callback (\<open>services/tutoring/join_credentials.py\<close>): issuing a
  grant to a paid participant, revoking, validating a presented token and applying a room event.
  Only the hash of a token reaches a row. The adapter is an argument (\<open>video_provider\<close>).
\<close>

section \<open>Configuration and references\<close>

record video_settings =
  video_calls_enabled :: bool
  join_credential_ttl_seconds :: int

definition default_video_settings :: video_settings where
  "default_video_settings = \<lparr>video_calls_enabled = False, join_credential_ttl_seconds = 300\<rparr>"

definition participant_roles :: "role list" where
  "participant_roles = [Student, Tutor]"

datatype revocation_scope = Of_participant | Of_session

definition revoke_on_event :: "(string \<times> revocation_scope) list" where
  "revoke_on_event = [(''participant_left'', Of_participant), (''room_finished'', Of_session)]"

definition max_event_id :: nat where "max_event_id = 120"

definition resolve_video :: "video_provider option \<Rightarrow> exn + video_provider" where
  "resolve_video prov = (case prov of None \<Rightarrow> Inl (TutoringError (ProviderUnavailable False)) | Some p \<Rightarrow> Inr p)"

definition assert_video_calls_enabled :: "video_settings \<Rightarrow> exn + unit" where
  "assert_video_calls_enabled cfg =
     (if \<not> video_calls_enabled cfg then Inl (TutoringError VideoCallsDisabled) else Inr ())"

definition participant_ref :: "uid \<Rightarrow> uid \<Rightarrow> string" where
  "participant_ref session_id user_id =
     take 32 (sha256_hex (''tutoring-participant:'' @ uuid_str session_id @ '':'' @ uuid_str user_id))"

definition ttl_seconds :: "video_settings \<Rightarrow> exn + int" where
  "ttl_seconds cfg = (if join_credential_ttl_seconds cfg \<le> 0 then Inl (TutoringError ValidationError)
     else Inr (join_credential_ttl_seconds cfg))"

section \<open>Grants\<close>

definition grant_check :: "grant \<Rightarrow> bool" where
  "grant_check g \<longleftrightarrow> vg_issued_at g < vg_expires_at g"

definition grant_key :: "grant \<Rightarrow> uid \<times> string \<times> instant" where
  "grant_key g = (vg_session g, vg_participant g, vg_issued_at g)"

definition insert_grant :: "grant \<Rightarrow> db \<Rightarrow> db option" where
  "insert_grant g s =
     (if grant_check g \<and> grant_key g \<notin> grant_key ` set (grants s)
      then Some (s\<lparr>grants := grants s @ [g]\<rparr>) else None)"

definition of_participant :: "uid \<Rightarrow> string option \<Rightarrow> grant \<Rightarrow> bool" where
  "of_participant sid ref g \<longleftrightarrow> vg_session g = sid \<and> (case ref of None \<Rightarrow> True | Some r \<Rightarrow> vg_participant g = r)"

definition live_grants :: "db \<Rightarrow> uid \<Rightarrow> string option \<Rightarrow> instant \<Rightarrow> grant list" where
  "live_grants s sid ref now =
     sort_key (\<lambda>g. (- vg_issued_at g, vg_id g))
       (filter (\<lambda>g. of_participant sid ref g \<and> vg_revoked_at g = None \<and> now < vg_expires_at g) (grants s))"

definition revoke :: "uid \<Rightarrow> string option \<Rightarrow> instant \<Rightarrow> db \<Rightarrow> nat \<times> db" where
  "revoke sid ref now s =
     (let p = (\<lambda>g. of_participant sid ref g \<and> vg_revoked_at g = None);
          n = count_where p (grants s);
          s1 = s\<lparr>grants := update_where p (\<lambda>g. g\<lparr>vg_revoked_at := Some now\<rparr>) (grants s)\<rparr>
      in (n, if n = 0 then s1 else record_audit_event Au_credential_revoked (Some sid) None System s1))"

definition paid_order_of :: "tsession \<Rightarrow> db \<Rightarrow> exn + order" where
  "paid_order_of sess s =
     (case (case ts_order sess of None \<Rightarrow> None | Some i \<Rightarrow> get_order_row s i) of
        None \<Rightarrow> Inl (TutoringError PaymentUnverified)
      | Some ord \<Rightarrow> if o_status ord \<noteq> OPaid then Inl (TutoringError PaymentUnverified) else Inr ord)"

section \<open>Issue\<close>

record grant_issued =
  gi_grant :: grant
  gi_raw_token :: string
  gi_ttl :: int
  gi_superseded :: nat

text \<open>The checks ahead of the first write.\<close>

definition issue_gates ::
    "video_settings \<Rightarrow> uid \<Rightarrow> uid \<Rightarrow> role \<Rightarrow> video_provider option \<Rightarrow> int option \<Rightarrow> db
       \<Rightarrow> exn + tsession \<times> video_provider \<times> string \<times> int" where
  "issue_gates cfg sid actor_user actor_role prov ttl s =
     (case assert_video_calls_enabled cfg of Inl e \<Rightarrow> Inl e | Inr _ \<Rightarrow>
      if actor_role \<notin> set participant_roles then Inl (TutoringError Forbidden)
      else case get_session sid (Some actor_user) actor_role s of Inl e \<Rightarrow> Inl e | Inr sess \<Rightarrow>
      if ts_status sess \<notin> set live_statuses then Inl (TutoringError SessionStateInvalid)
      else case paid_order_of sess s of Inl e \<Rightarrow> Inl e | Inr _ \<Rightarrow>
      case resolve_video prov of Inl e \<Rightarrow> Inl e | Inr p \<Rightarrow>
      case (case ttl of None \<Rightarrow> ttl_seconds cfg | Some n \<Rightarrow> Inr n) of Inl e \<Rightarrow> Inl e | Inr n \<Rightarrow>
      case role_permissions actor_role of None \<Rightarrow> Inl (TutoringError Forbidden) | Some perms \<Rightarrow>
        Inr (sess, p, perms, n))"

text \<open>
  The instant a grant is filed under: \<open>now\<close>, or one microsecond after the newest grant of the
  participant if that is not earlier.
\<close>

definition issue_instant :: "uid \<Rightarrow> string \<Rightarrow> instant \<Rightarrow> db \<Rightarrow> instant" where
  "issue_instant sid ref now s =
     (case map vg_issued_at (filter (of_participant sid (Some ref)) (grants s)) of
        [] \<Rightarrow> now
      | x # xs \<Rightarrow> let newest = foldr max xs x in if now \<le> newest then newest + 1 else now)"

definition issue ::
    "video_settings \<Rightarrow> db \<Rightarrow> uid \<Rightarrow> uid \<Rightarrow> role \<Rightarrow> video_provider option \<Rightarrow> int option \<Rightarrow> instant \<Rightarrow> db
       \<Rightarrow> grant_issued run" where
  "issue cfg t0 sid actor_user actor_role prov ttl now s =
     bindE (liftE (issue_gates cfg sid actor_user actor_role prov ttl s) s) (\<lambda>(sess, p, perms, n) s.
       let ref = participant_ref (ts_id sess) actor_user;
           (superseded, s1) = revoke (ts_id sess) (Some ref) now s
       in case v_issue p (ts_id sess) ref perms n now of
            Inl e \<Rightarrow> raise (ProviderUnavailable (verr_retryable e)) s1
          | Inr c \<Rightarrow>
              let issued_at = issue_instant (ts_id sess) (vc_participant c) now s1 in
              if vc_expires c \<le> issued_at then raise (ProviderUnavailable False) s1
              else let g = \<lparr>vg_id = next_id s1, vg_session = ts_id sess, vg_participant = vc_participant c,
                            vg_room = vc_room c, vg_permissions = vc_permissions c, vg_token_hash = vc_hash c,
                            vg_issued_at = issued_at, vg_expires_at = vc_expires c, vg_revoked_at = None\<rparr>
                   in case insert_grant g (bump s1) of
                        None \<Rightarrow> raise (ProviderUnavailable True) t0
                      | Some s2 \<Rightarrow> ok \<lparr>gi_grant = g, gi_raw_token = vc_raw c, gi_ttl = n, gi_superseded = superseded\<rparr>
                          (record_audit_event Au_credential_issued (Some (vg_id g)) (Some actor_user) actor_role s2))"

section \<open>Validate\<close>

definition validate :: "string \<Rightarrow> instant \<Rightarrow> db \<Rightarrow> exn + grant" where
  "validate raw_token now s =
     (let token = strip raw_token in
      if token = [] then Inl (TutoringError NotFound)
      else case find (\<lambda>g. vg_token_hash g = hash_token token) (grants s) of
        None \<Rightarrow> Inl (TutoringError NotFound)
      | Some g \<Rightarrow>
          if vg_revoked_at g \<noteq> None then Inl (TutoringError GrantRevoked)
          else if vg_expires_at g \<le> now then Inl (TutoringError GrantExpired)
          else Inr g)"

section \<open>Room events\<close>

record video_outcome =
  vo_session :: tsession
  vo_type :: string
  vo_event_id :: string
  vo_room :: string
  vo_revoked :: nat
  vo_participant :: "string option"

definition event_reason :: "string \<Rightarrow> string \<Rightarrow> string" where
  "event_reason event_type provider_event_id = ''video:'' @ event_type @ '':'' @ provider_event_id"

definition verified_event ::
    "video_provider \<Rightarrow> string option \<Rightarrow> string \<Rightarrow> (string \<times> string) list \<Rightarrow> exn + video_event \<times> string \<times> string" where
  "verified_event p signature raw_body headers =
     (case v_verify p signature raw_body headers of
        Inl e \<Rightarrow> Inl (TutoringError (if verr_retryable e then ProviderUnavailable True else VideoUnverified))
      | Inr d \<Rightarrow>
          let event_id = strip (ve_event_id d); room = strip (ve_room d) in
          if \<not> ve_verified d then Inl (TutoringError VideoUnverified)
          else if event_id = [] \<or> max_event_id < length event_id then Inl (TutoringError VideoUnverified)
          else if room = [] then Inl (TutoringError VideoUnverified)
          else Inr (d, event_id, room))"

text \<open>The session a room stands for: the one the first grant for that room was issued for.\<close>

definition session_of_room :: "string \<Rightarrow> db \<Rightarrow> exn + tsession" where
  "session_of_room room s =
     (case sort_key (\<lambda>g. (vg_issued_at g, vg_id g)) (filter (\<lambda>g. vg_room g = room) (grants s)) of
        [] \<Rightarrow> Inl (TutoringError NotFound)
      | g # _ \<Rightarrow> (case get_session_row s (vg_session g) of
            None \<Rightarrow> Inl (TutoringError NotFound)
          | Some sess \<Rightarrow> if ts_deleted_at sess \<noteq> None then Inl (TutoringError NotFound) else Inr sess))"

definition may_join :: "uid \<Rightarrow> string option \<Rightarrow> instant \<Rightarrow> db \<Rightarrow> exn + unit" where
  "may_join sid participant now s =
     (case participant of None \<Rightarrow> Inl (TutoringError VideoUnverified) | Some ref \<Rightarrow>
      case sort_key (\<lambda>g. (- vg_issued_at g, vg_id g)) (filter (of_participant sid (Some ref)) (grants s)) of
        [] \<Rightarrow> Inl (TutoringError NotFound)
      | g # _ \<Rightarrow>
          if vg_revoked_at g \<noteq> None then Inl (TutoringError GrantRevoked)
          else if vg_expires_at g \<le> now then Inl (TutoringError GrantExpired)
          else Inr ())"

definition stripped_ref :: "string option \<Rightarrow> string option" where
  "stripped_ref participant = (case participant of None \<Rightarrow> None | Some r \<Rightarrow> if strip r = [] then None else Some (strip r))"

definition handle_room_event ::
    "string option \<Rightarrow> string \<Rightarrow> (string \<times> string) list \<Rightarrow> video_provider option \<Rightarrow> instant \<Rightarrow> db \<Rightarrow> video_outcome run" where
  "handle_room_event signature raw_body headers prov now s =
     bindE (liftE (resolve_video prov) s) (\<lambda>p s.
     bindE (liftE (verified_event p signature raw_body headers) s) (\<lambda>(d, event_id, room) s.
     bindE (liftE (session_of_room room s) s) (\<lambda>sess s.
       let reason = event_reason (ve_type d) event_id; ref = stripped_ref (ve_participant d) in
       if list_ex (\<lambda>h. hi_session h = ts_id sess \<and> hi_reason h = Some reason) (history s) then raise DuplicateEvent s
       else bindE (liftE (if ve_type d = ''participant_joined'' then may_join (ts_id sess) ref now s else Inr ()) s) (\<lambda>_ s.
         let (revoked, s1) =
               (case map_of revoke_on_event (ve_type d) of
                  Some Of_participant \<Rightarrow> if ref \<noteq> None then revoke (ts_id sess) ref now s else (0, s)
                | Some Of_session \<Rightarrow> revoke (ts_id sess) None now s
                | None \<Rightarrow> (0, s));
             s2 = append_history (ts_id sess) (Some (ts_status sess)) (ts_status sess) System now (Some reason) s1
         in ok \<lparr>vo_session = sess, vo_type = ve_type d, vo_event_id = event_id, vo_room = room,
                vo_revoked = revoked, vo_participant = ref\<rparr>
              (record_audit_event Au_video_event_applied (Some (ts_id sess)) None System s2)))))"


section \<open>Lemmas\<close>

lemma resolve_video_Inr: "resolve_video prov = Inr p \<longleftrightarrow> prov = Some p"
  by (auto simp: resolve_video_def split: option.split)

lemma revoke_grants:
  "grants (snd (revoke sid ref now s))
     = update_where (\<lambda>g. of_participant sid ref g \<and> vg_revoked_at g = None) (\<lambda>g. g\<lparr>vg_revoked_at := Some now\<rparr>) (grants s)"
  by (simp add: revoke_def Let_def record_audit_event_def)

lemma revoke_frame:
  obtains gs as where "snd (revoke sid ref now s) = s\<lparr>grants := gs, audits := as\<rparr>"
  using that [of "audits (snd (revoke sid ref now s))" "grants (snd (revoke sid ref now s))"]
  by (simp add: revoke_def Let_def record_audit_event_def)

lemma revoke_count: "fst (revoke sid ref now s) = count_where (\<lambda>g. of_participant sid ref g \<and> vg_revoked_at g = None) (grants s)"
  by (simp add: revoke_def Let_def)

text \<open>Revoking twice revokes nothing more, and after it no grant in its scope is live at any time.\<close>

lemma revoke_all:
  assumes "g \<in> set (grants (snd (revoke sid ref now s)))" and "of_participant sid ref g"
  shows "vg_revoked_at g \<noteq> None"
  using assms(1) unfolding revoke_grants set_update_where
proof (elim UnE imageE)
  show "vg_revoked_at g \<noteq> None" if "g = x\<lparr>vg_revoked_at := Some now\<rparr>" for x by (simp add: that)
qed (use assms(2) in simp)

lemma revoke_none_left: "filter (\<lambda>g. of_participant sid ref g \<and> vg_revoked_at g = None \<and> now' < vg_expires_at g)
      (grants (snd (revoke sid ref now s))) = []"
proof (rule ccontr)
  assume "\<not> ?thesis"
  then obtain g where "g \<in> set (grants (snd (revoke sid ref now s)))" "of_participant sid ref g" "vg_revoked_at g = None"
    unfolding filter_empty_conv by blast
  with revoke_all [OF this(1,2)] show False by simp
qed

lemma revoke_none_live: "live_grants (snd (revoke sid ref now s)) sid ref now' = []"
  by (simp add: live_grants_def revoke_none_left)

lemma participant_ref_strip [simp]: "strip (participant_ref sid u) = participant_ref sid u"
proof -
  have plain: "\<not> is_space c" if "c \<in> set (participant_ref sid u)" for c
  proof -
    have "hex_char c"
      using that sha256_hex_plain unfolding participant_ref_def by (blast dest: in_set_takeD)
    then show ?thesis by (auto simp: hex_char_def is_space_def Let_def)
  qed
  have trim: "lstrip xs = xs" if "\<forall>c \<in> set xs. \<not> is_space c" for xs
    using that by (cases xs) (auto simp: lstrip_def)
  have "lstrip (rev (participant_ref sid u)) = rev (participant_ref sid u)" by (rule trim) (use plain in simp)
  moreover have "lstrip (participant_ref sid u) = participant_ref sid u" by (rule trim) (use plain in blast)
  ultimately show ?thesis by (simp add: strip_def)
qed

lemma issue_gates_ok:
  assumes "issue_gates cfg sid u r prov ttl s = Inr (sess, p, perms, n)"
  shows "video_calls_enabled cfg \<and> r \<in> {Student, Tutor} \<and> get_session sid (Some u) r s = Inr sess
    \<and> ts_id sess = sid \<and> ts_status sess \<in> set live_statuses
    \<and> (\<exists>i q. ts_order sess = Some i \<and> get_order_row s i = Some q \<and> o_status q = OPaid)
    \<and> prov = Some p \<and> role_permissions r = Some perms
    \<and> n = (case ttl of None \<Rightarrow> join_credential_ttl_seconds cfg | Some k \<Rightarrow> k)"
proof -
  have "get_session sid (Some u) r s = Inr sess"
    using assms by (auto simp: issue_gates_def split: sum.splits option.splits if_splits)
  then have "ts_id sess = sid" using get_session_ok by blast
  then show ?thesis
    using assms
    by (auto simp: issue_gates_def assert_video_calls_enabled_def participant_roles_def paid_order_of_def resolve_video_Inr
        ttl_seconds_def split: sum.splits option.splits if_splits)
qed

lemma issue_ok:
  assumes "issue cfg t0 sid u r prov ttl now s = (Inr out, t)"
  obtains sess p perms n c s1 g where "issue_gates cfg sid u r prov ttl s = Inr (sess, p, perms, n)"
    and "s1 = snd (revoke sid (Some (participant_ref sid u)) now s)"
    and "v_issue p sid (participant_ref sid u) perms n now = Inr c"
    and "issue_instant sid (vc_participant c) now s1 < vc_expires c"
    and "g = \<lparr>vg_id = next_id s, vg_session = sid, vg_participant = vc_participant c,
              vg_room = vc_room c, vg_permissions = vc_permissions c, vg_token_hash = vc_hash c,
              vg_issued_at = issue_instant sid (vc_participant c) now s1, vg_expires_at = vc_expires c,
              vg_revoked_at = None\<rparr>"
    and "gi_grant out = g" and "gi_raw_token out = vc_raw c"
    and "gi_superseded out = fst (revoke sid (Some (participant_ref sid u)) now s)"
    and "grants t = grants s1 @ [g]"
    and "t = s\<lparr>grants := grants t, audits := audits t, next_id := Suc (next_id s)\<rparr>"
proof -
  obtain sess p perms n where g: "issue_gates cfg sid u r prov ttl s = Inr (sess, p, perms, n)"
    using assms by (auto simp: issue_def run_simps)
  have sid: "ts_id sess = sid" using issue_gates_ok [OF g] by simp
  obtain k s1 where rv: "revoke sid (Some (participant_ref sid u)) now s = (k, s1)" by (cases "revoke sid (Some (participant_ref sid u)) now s")
  obtain gs as where s1: "s1 = s\<lparr>grants := gs, audits := as\<rparr>"
    using revoke_frame [of sid "Some (participant_ref sid u)" now s] rv by (metis snd_conv)
  have nid: "next_id s1 = next_id s" by (simp add: s1)
  obtain c where c: "v_issue p sid (participant_ref sid u) perms n now = Inr c"
      "issue_instant sid (vc_participant c) now s1 < vc_expires c"
    using assms by (auto simp: issue_def g sid rv Let_def split: sum.splits if_splits)
  define row where "row = \<lparr>vg_id = next_id s1, vg_session = sid, vg_participant = vc_participant c,
              vg_room = vc_room c, vg_permissions = vc_permissions c, vg_token_hash = vc_hash c,
              vg_issued_at = issue_instant sid (vc_participant c) now s1, vg_expires_at = vc_expires c,
              vg_revoked_at = None\<rparr>"
  have "insert_grant row (bump s1) \<noteq> None"
    using assms c by (auto simp: issue_def g sid rv Let_def row_def split: option.splits)
  then have ins: "insert_grant row (bump s1) = Some (bump s1\<lparr>grants := grants s1 @ [row]\<rparr>)"
    by (auto simp: insert_grant_def bump_def split: if_splits)
  have t: "t = record_audit_event Au_credential_issued (Some (vg_id row)) (Some u) r (bump s1\<lparr>grants := grants s1 @ [row]\<rparr>)"
    and out: "out = \<lparr>gi_grant = row, gi_raw_token = vc_raw c, gi_ttl = n, gi_superseded = k\<rparr>"
    using assms c ins by (auto simp: issue_def g sid rv Let_def row_def [symmetric])
  show ?thesis
  proof (rule that [OF g _ c])
    show "s1 = snd (revoke sid (Some (participant_ref sid u)) now s)" by (simp add: rv)
    show "t = s\<lparr>grants := grants t, audits := audits t, next_id := Suc (next_id s)\<rparr>"
      unfolding t by (simp add: s1 record_audit_event_def bump_def)
  qed (simp_all add: out t row_def nid rv record_audit_event_def)
qed

text \<open>Nothing but the clock of a later grant stands in the way of an issue whose gates are open.\<close>

lemma foldr_max_ge: "x \<in> set xs \<or> x = y \<Longrightarrow> (x :: int) \<le> foldr max xs y"
  by (induction xs) (auto simp: max_def)

lemma foldr_max_in: "foldr max xs y \<in> insert (y :: int) (set xs)"
  by (induction xs) (auto simp: max_def)

lemma issue_instant_newest:
  assumes "g \<in> set (grants s)" and "of_participant sid (Some ref) g"
  shows "vg_issued_at g < issue_instant sid ref now s"
proof -
  let ?xs = "map vg_issued_at (filter (of_participant sid (Some ref)) (grants s))"
  have "vg_issued_at g \<in> set ?xs" using assms by simp
  then obtain x xs where xs: "?xs = x # xs" and "vg_issued_at g = x \<or> vg_issued_at g \<in> set xs"
    by (cases ?xs) auto
  then have "vg_issued_at g \<le> foldr max xs x" using foldr_max_ge by blast
  then show ?thesis by (simp add: issue_instant_def xs Let_def)
qed

lemma issue_instant_bound:
  assumes "now < d" and "\<And>g. g \<in> set (grants s) \<Longrightarrow> of_participant sid (Some ref) g \<Longrightarrow> vg_issued_at g + 1 < d"
  shows "issue_instant sid ref now s < d"
proof (cases "map vg_issued_at (filter (of_participant sid (Some ref)) (grants s))")
  case Nil
  then show ?thesis using assms(1) by (simp add: issue_instant_def)
next
  case (Cons x xs)
  have "y + 1 < d" if "y \<in> insert x (set xs)" for y
  proof -
    have "y \<in> set (map vg_issued_at (filter (of_participant sid (Some ref)) (grants s)))" using that Cons by simp
    then show ?thesis using assms(2) by auto
  qed
  then have "foldr max xs x + 1 < d" using foldr_max_in [of xs x] by blast
  then show ?thesis using assms(1) by (simp add: issue_instant_def Cons Let_def)
qed

lemma revoke_issued:
  assumes "g \<in> set (grants (snd (revoke sid ref now s)))"
  shows "\<exists>g' \<in> set (grants s). vg_issued_at g' = vg_issued_at g \<and> vg_session g' = vg_session g
    \<and> vg_participant g' = vg_participant g"
  using assms unfolding revoke_grants set_update_where
proof (elim UnE imageE)
  fix x assume "g = x\<lparr>vg_revoked_at := Some now\<rparr>" and "x \<in> {r \<in> set (grants s). of_participant sid ref r \<and> vg_revoked_at r = None}"
  then show ?thesis by (intro bexI [of _ x]) simp_all
next
  assume "g \<in> {r \<in> set (grants s). \<not> (of_participant sid ref r \<and> vg_revoked_at r = None)}"
  then show ?thesis by (intro bexI [of _ g]) simp_all
qed

lemma revoke_hash:
  "x \<in> set (grants (snd (revoke sid ref now s))) \<Longrightarrow> \<exists>y \<in> set (grants s). vg_token_hash y = vg_token_hash x"
  unfolding revoke_grants set_update_where
proof (elim UnE imageE)
  fix y assume "x = y\<lparr>vg_revoked_at := Some now\<rparr>" and "y \<in> {r \<in> set (grants s). of_participant sid ref r \<and> vg_revoked_at r = None}"
  then show ?thesis by (intro bexI [of _ y]) simp_all
next
  assume "x \<in> {r \<in> set (grants s). \<not> (of_participant sid ref r \<and> vg_revoked_at r = None)}"
  then show ?thesis by (intro bexI [of _ x]) simp_all
qed

lemma find_update_hash:
  "find (\<lambda>g. vg_token_hash g = h) (update_where p (\<lambda>g. g\<lparr>vg_revoked_at := w\<rparr>) gs)
     = map_option (\<lambda>g. if p g then g\<lparr>vg_revoked_at := w\<rparr> else g) (find (\<lambda>g. vg_token_hash g = h) gs)"
  by (induction gs) simp_all

lemma find_append: "find P (xs @ ys) = (case find P xs of None \<Rightarrow> find P ys | Some x \<Rightarrow> Some x)"
  by (induction xs) simp_all

lemma issue_runs:
  assumes gates: "issue_gates cfg sid u r prov ttl s = Inr (sess, p, perms, n)"
    and c: "v_issue p sid (participant_ref sid u) perms n now = Inr c"
      "vc_participant c = participant_ref sid u" "now < vc_expires c"
    and fresh: "\<And>g. g \<in> set (grants s) \<Longrightarrow> of_participant sid (Some (participant_ref sid u)) g \<Longrightarrow> vg_issued_at g + 1 < vc_expires c"
  shows "\<exists>out t. issue cfg t0 sid u r prov ttl now s = (Inr out, t) \<and> gi_ttl out = n \<and> gi_raw_token out = vc_raw c
    \<and> vg_expires_at (gi_grant out) = vc_expires c"
proof -
  have sid: "ts_id sess = sid" using issue_gates_ok [OF gates] by simp
  let ?ref = "participant_ref sid u"
  obtain k s1 where rv: "revoke sid (Some ?ref) now s = (k, s1)" by (cases "revoke sid (Some ?ref) now s")
  let ?at = "issue_instant sid ?ref now s1"
  have old: "vg_issued_at g + 1 < vc_expires c" if "g \<in> set (grants s1)" "of_participant sid (Some ?ref) g" for g
  proof -
    have "\<exists>x \<in> set (grants s). vg_issued_at x = vg_issued_at g \<and> vg_session x = vg_session g
        \<and> vg_participant x = vg_participant g"
      using revoke_issued [of g sid "Some ?ref" now s] that(1) rv by simp
    then show ?thesis
    proof (elim bexE conjE)
      fix x :: grant
      assume "x \<in> set (grants s)" "vg_issued_at x = vg_issued_at g" "vg_session x = vg_session g"
        "vg_participant x = vg_participant g"
      then show ?thesis using fresh [of x] that(2) by (simp add: of_participant_def)
    qed
  qed
  have at: "?at < vc_expires c" by (rule issue_instant_bound [OF c(3) old])
  define row where "row = \<lparr>vg_id = next_id s1, vg_session = sid, vg_participant = ?ref, vg_room = vc_room c,
    vg_permissions = vc_permissions c, vg_token_hash = vc_hash c, vg_issued_at = ?at, vg_expires_at = vc_expires c,
    vg_revoked_at = None\<rparr>"
  have "grant_key row \<notin> grant_key ` set (grants s1)"
  proof
    assume "grant_key row \<in> grant_key ` set (grants s1)"
    then obtain g where g: "g \<in> set (grants s1)" "grant_key g = grant_key row" by (metis imageE)
    then have "of_participant sid (Some ?ref) g" by (simp add: grant_key_def row_def of_participant_def)
    from issue_instant_newest [OF g(1) this, of now] g(2) show False by (simp add: grant_key_def row_def)
  qed
  then have "insert_grant row (bump s1) = Some (bump s1\<lparr>grants := grants s1 @ [row]\<rparr>)"
    using at by (simp add: insert_grant_def grant_check_def row_def bump_def)
  then show ?thesis
    using at by (simp add: issue_def gates sid rv c Let_def row_def [symmetric]) (simp add: row_def)
qed

text \<open>Room events.\<close>

lemma verified_event_ok:
  assumes "verified_event p sg raw headers = Inr (d, eid, room)"
  shows "v_verify p sg raw headers = Inr d \<and> ve_verified d \<and> eid \<noteq> [] \<and> length eid \<le> 120"
  using assms by (auto simp: verified_event_def Let_def max_event_id_def split: sum.splits if_splits)

lemma event_reason_kept:
  assumes "ty \<in> set video_event_types" and "length eid \<le> 120"
  shows "take 200 (event_reason ty eid) = event_reason ty eid" and "event_reason ty eid \<noteq> []"
proof -
  have "length ty \<le> 18" using assms(1) by (auto simp: video_event_types_def)
  then show "take 200 (event_reason ty eid) = event_reason ty eid" using assms(2) by (simp add: event_reason_def)
qed (simp add: event_reason_def)

lemma insort_key_map: "insort_key k (f x) (map f xs) = map f (insort_key (k \<circ> f) x xs)"
  by (induction xs) simp_all

lemma sort_key_map: "sort_key k (map f xs) = map f (sort_key (k \<circ> f) xs)"
  by (induction xs) (simp_all add: insort_key_map comp_def)

text \<open>A revocation does not change what session a room belongs to.\<close>

lemma session_of_room_kept:
  assumes "sessions t = sessions s" and "grants t = update_where p (\<lambda>g. g\<lparr>vg_revoked_at := w\<rparr>) (grants s)"
  shows "session_of_room room t = session_of_room room s"
proof -
  let ?f = "\<lambda>g. if p g then g\<lparr>vg_revoked_at := w\<rparr> else g" and ?k = "\<lambda>g. (vg_issued_at g, vg_id g)"
  have "filter (\<lambda>g. vg_room g = room) (map ?f gs) = map ?f (filter (\<lambda>g. vg_room g = room) gs)" for gs
    by (induction gs) simp_all
  moreover have "?k \<circ> ?f = ?k" by (rule ext) simp
  ultimately have "sort_key ?k (filter (\<lambda>g. vg_room g = room) (grants t))
      = map ?f (sort_key ?k (filter (\<lambda>g. vg_room g = room) (grants s)))"
    by (simp add: assms(2) update_where_def sort_key_map)
  then show ?thesis by (simp add: session_of_room_def assms(1) split: list.split)
qed

lemma may_join_live:
  assumes "may_join sid participant now s = Inr ()"
  shows "\<exists>ref. participant = Some ref \<and> live_grants s sid (Some ref) now \<noteq> []"
proof -
  obtain ref where ref: "participant = Some ref" using assms by (auto simp: may_join_def split: option.splits)
  let ?xs = "sort_key (\<lambda>g. (- vg_issued_at g, vg_id g)) (filter (of_participant sid (Some ref)) (grants s))"
  obtain g gs where g: "?xs = g # gs" "vg_revoked_at g = None" "now < vg_expires_at g"
    using assms by (auto simp: may_join_def ref split: list.splits if_splits)
  then have "g \<in> set ?xs" by simp
  then have "g \<in> set (live_grants s sid (Some ref) now)" using g(2,3) by (simp add: live_grants_def)
  then show ?thesis using ref by (metis empty_iff empty_set)
qed

lemma assert_participant_ref: "assert_participant (participant_ref sid u) = Inr (participant_ref sid u)"
proof -
  have "length (participant_ref sid u) = 32" by (simp add: participant_ref_def length_sha256_hex)
  moreover have "CHR ''@'' \<notin> set (participant_ref sid u) \<and> \<not> list_ex is_space (participant_ref sid u)"
  proof -
    have "hex_char c" if "c \<in> set (participant_ref sid u)" for c
      using that sha256_hex_plain unfolding participant_ref_def by (blast dest: in_set_takeD)
    then show ?thesis by (fastforce simp: hex_char_def is_space_def Let_def list_ex_iff)
  qed
  ultimately show ?thesis by (auto simp: assert_participant_def Let_def)
qed

section \<open>Properties\<close>

definition sample_room_event :: video_event where
  "sample_room_event = \<lparr>ve_event_id = ''evt-1'', ve_type = ''participant_left'', ve_room = ''room'',
     ve_participant = Some ''ref'', ve_verified = True\<rparr>"

definition dead_video :: "video_event \<Rightarrow> video_provider" where
  "dead_video d = \<lparr>v_issue = (\<lambda>sid ref perms ttl now. Inl (VideoProviderError ''PROVIDER_UNREACHABLE'' True)),
     v_verify = (\<lambda>sg raw headers. if presented_signature ''X-Video-Signature'' sg headers = ''good'' then Inr d
        else Inl (VideoProviderError ''SIGNATURE_INVALID'' False))\<rparr>"

definition sample_video :: "video_event \<Rightarrow> video_provider" where
  "sample_video d = (dead_video d)\<lparr>v_issue := (\<lambda>sid ref perms ttl now. fst (issue_credential ''raw'' [] sid ref perms ttl now))\<rparr>"

lemma sample_video_gateway: "video_gateway (v_issue (sample_video d))"
  unfolding sample_video_def by (simp add: deterministic.video_gateway_axioms)

definition video_on :: video_settings where
  "video_on = default_video_settings\<lparr>video_calls_enabled := True\<rparr>"

lemma sample_gates:
  "\<exists>sess. issue_gates video_on 14 200 Student (Some p) None sample_booked = Inr (sess, p, ''publish,subscribe'', 300)"
proof -
  have "get_session 14 (Some 200) Student sample_booked = Inr sample_confirmed" by code_simp
  moreover have "ts_status sample_confirmed \<in> set live_statuses" by code_simp
  moreover have "paid_order_of sample_confirmed sample_booked = Inr SessionProperties.paid_order" by code_simp
  ultimately show ?thesis
    by (simp add: issue_gates_def video_on_def default_video_settings_def assert_video_calls_enabled_def
        participant_roles_def resolve_video_def ttl_seconds_def)
qed

lemma sample_credential:
  "\<exists>c. v_issue (sample_video d) 14 (participant_ref 14 200) ''publish,subscribe'' 300 4000 = Inr c
     \<and> vc_participant c = participant_ref 14 200 \<and> vc_expires c = 4000 + seconds 300 \<and> vc_raw c = ''join_raw''"
proof -
  have "normalise_permissions ''publish,subscribe'' = Inr ''publish,subscribe''" by code_simp
  moreover obtain room rooms where "ensure_room 14 [] = (room, rooms)" by fastforce
  ultimately show ?thesis by (simp add: sample_video_def dead_video_def issue_credential_def assert_participant_ref Let_def)
qed

lemma sample_issued:
  "\<exists>out t. issue video_on sample_booked 14 200 Student (Some (sample_video d)) None 4000 sample_booked = (Inr out, t)
     \<and> gi_ttl out = 300 \<and> gi_raw_token out = ''join_raw'' \<and> vg_expires_at (gi_grant out) = 4000 + seconds 300"
proof -
  obtain sess where g: "issue_gates video_on 14 200 Student (Some (sample_video d)) None sample_booked
      = Inr (sess, sample_video d, ''publish,subscribe'', 300)" using sample_gates by blast
  obtain c where c: "v_issue (sample_video d) 14 (participant_ref 14 200) ''publish,subscribe'' 300 4000 = Inr c"
      "vc_participant c = participant_ref 14 200" "vc_expires c = 4000 + seconds 300" "vc_raw c = ''join_raw''"
    using sample_credential by blast
  have "grants sample_booked = []" by code_simp
  then show ?thesis
    using issue_runs [OF g c(1,2)] c(3,4) by (simp add: seconds_def)
qed

text \<open>
  Property C27. A join credential is issued to a student or the tutor of the session itself, while the session
  is live and its order paid and the feature is on. It supersedes: the participant's only live grant
  is the new one, every earlier one is revoked, what is stored of the token is its hash, and no
  table but the grants is written.
\<close>

theorem issue_supersedes:
  assumes run: "issue cfg t0 sid u r (Some p) ttl now s = (Inr out, t)" and gw: "video_gateway (v_issue p)"
  shows "video_calls_enabled cfg \<and> r \<in> {Student, Tutor}
    \<and> (\<exists>sess i q. get_session sid (Some u) r s = Inr sess \<and> ts_status sess \<in> {Pending_provider, Confirmed, Rescheduled}
         \<and> ts_order sess = Some i \<and> get_order_row s i = Some q \<and> o_status q = OPaid)
    \<and> live_grants t sid (Some (participant_ref sid u)) now = [gi_grant out]
    \<and> vg_token_hash (gi_grant out) = hash_token (gi_raw_token out)
    \<and> vg_expires_at (gi_grant out) \<le> now + days 1
    \<and> (\<forall>g \<in> set (grants s). of_participant sid (Some (participant_ref sid u)) g \<longrightarrow>
         (\<exists>g' \<in> set (grants t). vg_id g' = vg_id g \<and> vg_revoked_at g' \<noteq> None))
    \<and> (\<forall>g \<in> set (grants s). \<not> of_participant sid (Some (participant_ref sid u)) g \<longrightarrow> g \<in> set (grants t))
    \<and> t = s\<lparr>grants := grants t, audits := audits t, next_id := Suc (next_id s)\<rparr>"
proof -
  let ?ref = "participant_ref sid u"
  obtain sess q perms n c s1 g where ok: "issue_gates cfg sid u r (Some p) ttl s = Inr (sess, q, perms, n)"
      "s1 = snd (revoke sid (Some ?ref) now s)" "v_issue q sid ?ref perms n now = Inr c"
      "g = \<lparr>vg_id = next_id s, vg_session = sid, vg_participant = vc_participant c,
              vg_room = vc_room c, vg_permissions = vc_permissions c, vg_token_hash = vc_hash c,
              vg_issued_at = issue_instant sid (vc_participant c) now s1, vg_expires_at = vc_expires c,
              vg_revoked_at = None\<rparr>"
      "gi_grant out = g" "gi_raw_token out = vc_raw c" "grants t = grants s1 @ [g]"
      "t = s\<lparr>grants := grants t, audits := audits t, next_id := Suc (next_id s)\<rparr>"
    by (rule issue_ok [OF run]) (rule that, assumption+)
  note gates = issue_gates_ok [OF ok(1)]
  have q: "q = p" using gates by simp
  have c: "vc_participant c = ?ref" "vc_hash c = hash_token (vc_raw c)" "now < vc_expires c" "vc_expires c \<le> now + days 1"
    using video_gateway.issue_participant [OF gw participant_ref_strip ok(3) [unfolded q]]
      video_gateway.issue_hash [OF gw ok(3) [unfolded q]] video_gateway.issue_live [OF gw ok(3) [unfolded q]] by simp_all
  have "live_grants t sid (Some ?ref) now = [g]"
  proof -
    note revoke_none_left [of sid "Some ?ref" now now s, folded ok(2)]
    then show ?thesis using c by (simp add: live_grants_def ok(7)) (simp add: ok(4) of_participant_def c)
  qed
  moreover have "\<exists>g' \<in> set (grants t). vg_id g' = vg_id x \<and> vg_revoked_at g' \<noteq> None"
    if x: "x \<in> set (grants s)" "of_participant sid (Some ?ref) x" for x
  proof (cases "vg_revoked_at x = None")
    case True
    then have "x\<lparr>vg_revoked_at := Some now\<rparr> \<in> set (grants t)"
      using x by (auto simp: ok(2,7) revoke_grants set_update_where)
    then show ?thesis by (intro bexI) simp_all
  next
    case False
    then have "x \<in> set (grants t)" using x by (auto simp: ok(2,7) revoke_grants set_update_where)
    then show ?thesis using False by blast
  qed
  moreover have "x \<in> set (grants t)" if "x \<in> set (grants s)" "\<not> of_participant sid (Some ?ref) x" for x
    using that by (auto simp: ok(2,7) revoke_grants set_update_where)
  moreover have "ts_status sess \<in> {Pending_provider, Confirmed, Rescheduled}"
    using gates by (auto simp: live_statuses_def)
  ultimately show ?thesis using gates c ok(5,6,8) by (auto simp: ok(4))
qed


theorem issue_supersedes_witness:
  "\<exists>out t. issue video_on sample_booked 14 200 Student (Some (sample_video sample_room_event)) None 4000 sample_booked = (Inr out, t)
     \<and> live_grants t 14 (Some (participant_ref 14 200)) 4000 = [gi_grant out]"
  using sample_issued [of sample_room_event] issue_supersedes [OF _ sample_video_gateway] by blast


text \<open>
  Property C29. A join credential can be had whenever it should be: if the gates are open, the provider answers and
  no earlier grant of the participant is dated at or past the end of the new one, the issue succeeds.
  However often a participant reconnects, also within one microsecond, the key of the grants never
  refuses the new row.
\<close>

theorem issue_available:
  assumes gates: "issue_gates cfg sid u r (Some p) ttl s = Inr (sess, p, perms, n)"
    and gw: "video_gateway (v_issue p)" and c: "v_issue p sid (participant_ref sid u) perms n now = Inr c"
    and clock: "\<forall>g \<in> set (grants s). of_participant sid (Some (participant_ref sid u)) g \<longrightarrow> vg_issued_at g + 1 < now + seconds n"
  shows "\<exists>out t. issue cfg t0 sid u r (Some p) ttl now s = (Inr out, t) \<and> gi_raw_token out = vc_raw c
    \<and> now \<le> vg_issued_at (gi_grant out) \<and> vg_expires_at (gi_grant out) = now + seconds n
    \<and> gi_superseded out = length (filter (\<lambda>g. of_participant sid (Some (participant_ref sid u)) g \<and> vg_revoked_at g = None) (grants s))"
proof -
  let ?ref = "participant_ref sid u"
  have b: "vc_participant c = ?ref" "now < vc_expires c" "vc_expires c = now + seconds n"
    using video_gateway.issue_participant [OF gw participant_ref_strip c] video_gateway.issue_live [OF gw c]
      video_gateway.issue_expiry [OF gw c] by simp_all
  have "\<And>g. g \<in> set (grants s) \<Longrightarrow> of_participant sid (Some ?ref) g \<Longrightarrow> vg_issued_at g + 1 < vc_expires c"
    using clock by (simp add: b(3))
  from issue_runs [OF gates c b(1,2) this] obtain out t where run: "issue cfg t0 sid u r (Some p) ttl now s = (Inr out, t)"
      "gi_raw_token out = vc_raw c" by blast
  obtain sess' p' perms' n' c' s1 where ok: "issue_gates cfg sid u r (Some p) ttl s = Inr (sess', p', perms', n')"
      "s1 = snd (revoke sid (Some ?ref) now s)" "v_issue p' sid ?ref perms' n' now = Inr c'"
      "gi_grant out = \<lparr>vg_id = next_id s, vg_session = sid, vg_participant = vc_participant c',
              vg_room = vc_room c', vg_permissions = vc_permissions c', vg_token_hash = vc_hash c',
              vg_issued_at = issue_instant sid (vc_participant c') now s1, vg_expires_at = vc_expires c',
              vg_revoked_at = None\<rparr>"
      "gi_superseded out = fst (revoke sid (Some ?ref) now s)"
    by (rule issue_ok [OF run(1)]) (rule that, assumption+, simp, assumption)
  have "c' = c" using ok(1,3) gates c by simp
  moreover have "now \<le> issue_instant i ref now s1" for i ref by (simp add: issue_instant_def Let_def split: list.split)
  ultimately show ?thesis
    using run ok(4,5) b(3) by (intro exI [of _ out] exI [of _ t]) (simp add: revoke_count count_where_def)
qed

text \<open>
  Property C26. Join tokens round-trip through their hash: the raw token just issued validates to its grant until the
  grant expires and to \<open>GrantExpired\<close> from then on, once the participant's grants are revoked it
  answers \<open>GrantRevoked\<close> whatever the time, and a token no row was issued for is \<open>NotFound\<close>. Surrounding
  white space does not matter.
\<close>

theorem token_round_trip:
  assumes run: "issue cfg t0 sid u r (Some p) ttl now s = (Inr out, t)" and gw: "video_gateway (v_issue p)"
    and raw: "strip raw = strip (gi_raw_token out)" "strip (gi_raw_token out) = gi_raw_token out" "gi_raw_token out \<noteq> []"
    and fresh: "\<forall>g \<in> set (grants s). vg_token_hash g \<noteq> hash_token (gi_raw_token out)"
  shows "validate raw now' t
      = (if vg_expires_at (gi_grant out) \<le> now' then Inl (TutoringError GrantExpired) else Inr (gi_grant out))
    \<and> validate raw now' (snd (revoke sid (Some (participant_ref sid u)) now'' t)) = Inl (TutoringError GrantRevoked)
    \<and> (hash_token (strip other) \<notin> vg_token_hash ` set (grants t) \<longrightarrow> validate other now' t = Inl (TutoringError NotFound))"
proof -
  let ?ref = "participant_ref sid u" and ?h = "hash_token (gi_raw_token out)"
  obtain sess q perms n c s1 g where gates: "issue_gates cfg sid u r (Some p) ttl s = Inr (sess, q, perms, n)"
    and ok: "s1 = snd (revoke sid (Some ?ref) now s)" "v_issue q sid ?ref perms n now = Inr c"
      "g = \<lparr>vg_id = next_id s, vg_session = sid, vg_participant = vc_participant c,
              vg_room = vc_room c, vg_permissions = vc_permissions c, vg_token_hash = vc_hash c,
              vg_issued_at = issue_instant sid (vc_participant c) now s1, vg_expires_at = vc_expires c,
              vg_revoked_at = None\<rparr>"
      "gi_grant out = g" "gi_raw_token out = vc_raw c" "grants t = grants s1 @ [g]"
    by (rule issue_ok [OF run]) (rule that, assumption+)
  have q: "q = p" using issue_gates_ok [OF gates] by simp
  have c: "vc_participant c = ?ref" "vc_hash c = ?h"
    using video_gateway.issue_participant [OF gw participant_ref_strip ok(2) [unfolded q]]
      video_gateway.issue_hash [OF gw ok(2) [unfolded q]] ok(5) by simp_all
  have tok: "strip raw = gi_raw_token out" using raw by simp
  have old: "find (\<lambda>g. vg_token_hash g = ?h) (grants s1) = None"
    unfolding find_None_iff ok(1) using revoke_hash fresh by metis
  then have found: "find (\<lambda>g. vg_token_hash g = ?h) (grants t) = Some g"
    by (simp add: ok(6) find_append, simp add: ok(3) c)
  have mine: "of_participant sid (Some ?ref) g" "vg_revoked_at g = None" by (simp_all add: ok(3) of_participant_def c)
  have "validate raw now' t = (if vg_expires_at g \<le> now' then Inl (TutoringError GrantExpired) else Inr g)"
    using found raw(3) mine(2) by (simp add: validate_def tok)
  moreover have "validate raw now' (snd (revoke sid (Some ?ref) now'' t)) = Inl (TutoringError GrantRevoked)"
  proof -
    have "find (\<lambda>g. vg_token_hash g = ?h) (grants (snd (revoke sid (Some ?ref) now'' t))) = Some (g\<lparr>vg_revoked_at := Some now''\<rparr>)"
      using found mine unfolding revoke_grants by (simp add: find_update_hash)
    then show ?thesis using raw(3) by (simp add: validate_def tok)
  qed
  moreover have "validate other now' t = Inl (TutoringError NotFound)" if "hash_token (strip other) \<notin> vg_token_hash ` set (grants t)"
  proof -
    have "find (\<lambda>g. vg_token_hash g = hash_token (strip other)) (grants t) = None"
      unfolding find_None_iff using that by force
    then show ?thesis by (simp add: validate_def Let_def)
  qed
  ultimately show ?thesis using ok(4) by simp
qed


theorem issue_available_witness:
  "\<exists>out t. issue video_on sample_booked 14 200 Student (Some (sample_video sample_room_event)) None 4000 sample_booked = (Inr out, t)
     \<and> vg_expires_at (gi_grant out) = 4000 + seconds 300"
proof -
  obtain sess where g: "issue_gates video_on 14 200 Student (Some (sample_video sample_room_event)) None sample_booked
      = Inr (sess, sample_video sample_room_event, ''publish,subscribe'', 300)" using sample_gates by blast
  obtain c where c: "v_issue (sample_video sample_room_event) 14 (participant_ref 14 200) ''publish,subscribe'' 300 4000 = Inr c"
    using sample_credential by blast
  have "grants sample_booked = []" by code_simp
  then have "\<forall>g \<in> set (grants sample_booked). of_participant 14 (Some (participant_ref 14 200)) g
      \<longrightarrow> vg_issued_at g + 1 < 4000 + seconds 300" by simp
  from issue_available [OF g sample_video_gateway c this, of sample_booked] show ?thesis by blast
qed

theorem token_round_trip_witness:
  "\<exists>out t. issue video_on sample_booked 14 200 Student (Some (sample_video sample_room_event)) None 4000 sample_booked = (Inr out, t)
     \<and> validate '' join_raw '' 5000 t = Inr (gi_grant out)"
proof -
  obtain out t where run: "issue video_on sample_booked 14 200 Student (Some (sample_video sample_room_event)) None 4000 sample_booked = (Inr out, t)"
      "gi_raw_token out = ''join_raw''" "vg_expires_at (gi_grant out) = 4000 + seconds 300" using sample_issued by blast
  have "strip '' join_raw '' = ''join_raw''" "strip ''join_raw'' = ''join_raw''" "grants sample_booked = []" by code_simp+
  then have "validate '' join_raw '' 5000 t
      = (if vg_expires_at (gi_grant out) \<le> 5000 then Inl (TutoringError GrantExpired) else Inr (gi_grant out))"
    using token_round_trip [OF run(1) sample_video_gateway, of "'' join_raw ''" 5000 5000 "''other''"] run(2) by simp
  then have "validate '' join_raw '' 5000 t = Inr (gi_grant out)" by (simp add: run(3) seconds_def)
  then show ?thesis using run(1) by blast
qed

text \<open>
  Property C30. A provider that cannot mint a credential leaves the caller with a typed refusal, but inside the
  transaction the participant's grants are already revoked: until the caller rolls back, no grant of
  the participant is live, and nothing else has changed.
\<close>

theorem issue_failure_revokes:
  assumes gates: "issue_gates cfg sid u r (Some p) ttl s = Inr (sess, p, perms, n)"
    and fail: "v_issue p sid (participant_ref sid u) perms n now = Inl e"
  shows "\<exists>t. issue cfg t0 sid u r (Some p) ttl now s = (Inl (TutoringError (ProviderUnavailable (verr_retryable e))), t)
    \<and> live_grants t sid (Some (participant_ref sid u)) now = []
    \<and> t = s\<lparr>grants := grants t, audits := audits t\<rparr>
    \<and> (t = s \<longleftrightarrow> (\<forall>g \<in> set (grants s). of_participant sid (Some (participant_ref sid u)) g \<longrightarrow> vg_revoked_at g \<noteq> None))"
proof -
  let ?ref = "participant_ref sid u" and ?p = "\<lambda>g. of_participant sid (Some (participant_ref sid u)) g \<and> vg_revoked_at g = None"
  have sid: "ts_id sess = sid" using issue_gates_ok [OF gates] by simp
  obtain k t where rv: "revoke sid (Some ?ref) now s = (k, t)" by (cases "revoke sid (Some ?ref) now s")
  have run: "issue cfg t0 sid u r (Some p) ttl now s = (Inl (TutoringError (ProviderUnavailable (verr_retryable e))), t)"
    using fail by (simp add: issue_def gates sid rv)
  obtain gs as where t: "t = s\<lparr>grants := gs, audits := as\<rparr>"
    using revoke_frame [of sid "Some ?ref" now s] rv by (metis snd_conv)
  have "t = s \<longleftrightarrow> k = 0"
  proof (cases "k = 0")
    case True
    have "grants t = update_where ?p (\<lambda>g. g\<lparr>vg_revoked_at := Some now\<rparr>) (grants s)"
      using revoke_grants [of sid "Some ?ref" now s] by (simp add: rv)
    moreover have "\<forall>g \<in> set (grants s). \<not> ?p g"
      using True revoke_count [of sid "Some ?ref" now s] by (auto simp: rv count_where_def filter_empty_conv)
    ultimately have "grants t = grants s" by (simp add: update_where_none)
    then show ?thesis using True rv by (auto simp: revoke_def Let_def)
  next
    case False
    then have "audits t \<noteq> audits s" using rv by (auto simp: revoke_def Let_def record_audit_event_def)
    then show ?thesis using False by auto
  qed
  also have "k = 0 \<longleftrightarrow> (\<forall>g \<in> set (grants s). of_participant sid (Some ?ref) g \<longrightarrow> vg_revoked_at g \<noteq> None)"
    using revoke_count [of sid "Some ?ref" now s] by (auto simp: rv count_where_def filter_empty_conv)
  finally show ?thesis
    using run t revoke_none_live [of sid "Some ?ref" now s now] by (intro exI [of _ t]) (simp add: rv)
qed


theorem issue_failure_revokes_witness:
  "\<exists>t. issue video_on sample_booked 14 200 Student (Some (dead_video sample_room_event)) None 4000 sample_booked
       = (Inl (TutoringError (ProviderUnavailable True)), t) \<and> t = sample_booked"
proof -
  obtain sess where g: "issue_gates video_on 14 200 Student (Some (dead_video sample_room_event)) None sample_booked
      = Inr (sess, dead_video sample_room_event, ''publish,subscribe'', 300)" using sample_gates by blast
  have "v_issue (dead_video sample_room_event) 14 (participant_ref 14 200) ''publish,subscribe'' 300 4000
      = Inl (VideoProviderError ''PROVIDER_UNREACHABLE'' True)" by (simp add: dead_video_def)
  from issue_failure_revokes [OF g this, of sample_booked] have "\<exists>t. issue video_on sample_booked 14 200 Student
       (Some (dead_video sample_room_event)) None 4000 sample_booked = (Inl (TutoringError (ProviderUnavailable True)), t)
     \<and> (t = sample_booked \<longleftrightarrow> (\<forall>g \<in> set (grants sample_booked). of_participant 14 (Some (participant_ref 14 200)) g
           \<longrightarrow> vg_revoked_at g \<noteq> None))" by auto
  moreover have "grants sample_booked = []" by code_simp
  ultimately show ?thesis by auto
qed

text \<open>
  Property C28. A room event is believed only when its signature verifies, and it is applied once: it writes one
  entry to the trail of its session, which keeps its status, and touches no table but the trail and
  the grants; the same delivery, presented again at any time, is refused with \<open>DuplicateEvent\<close> and
  changes nothing. A join needs a live grant, and after \<open>room_finished\<close> no grant of the session is live.
\<close>

theorem room_event_once:
  assumes run: "handle_room_event sg raw headers prov now s = (Inr out, t)" and known: "vo_type out \<in> set video_event_types"
  shows "(\<exists>p d. prov = Some p \<and> v_verify p sg raw headers = Inr d \<and> ve_verified d \<and> ve_type d = vo_type out)
    \<and> t = s\<lparr>grants := grants t, history := history t, audits := audits t\<rparr>
    \<and> (\<exists>h. history t = history s @ [h] \<and> hi_session h = ts_id (vo_session out)
         \<and> hi_from h = Some (ts_status (vo_session out)) \<and> hi_to h = ts_status (vo_session out))
    \<and> handle_room_event sg raw headers prov now' t = (Inl (TutoringError DuplicateEvent), t)
    \<and> (vo_type out = ''participant_joined'' \<longrightarrow> (\<exists>ref. vo_participant out = Some ref
         \<and> live_grants s (ts_id (vo_session out)) (Some ref) now \<noteq> []))
    \<and> (vo_type out = ''room_finished'' \<longrightarrow> live_grants t (ts_id (vo_session out)) None now' = [])"
proof -
  obtain p where p: "prov = Some p" using run by (auto simp: handle_room_event_def resolve_video_def run_simps split: option.splits)
  obtain d eid room where v: "verified_event p sg raw headers = Inr (d, eid, room)"
    using run by (auto simp: handle_room_event_def resolve_video_def p run_simps)
  obtain sess where sess: "session_of_room room s = Inr sess"
    using run by (auto simp: handle_room_event_def resolve_video_def p v run_simps)
  let ?reason = "event_reason (ve_type d) eid" and ?ref = "stripped_ref (ve_participant d)" and ?sid = "ts_id sess"
  have new: "\<not> list_ex (\<lambda>h. hi_session h = ?sid \<and> hi_reason h = Some ?reason) (history s)"
    using run by (auto simp: handle_room_event_def resolve_video_def p v sess Let_def run_simps split: if_splits)
  have join: "ve_type d = ''participant_joined'' \<Longrightarrow> may_join ?sid ?ref now s = Inr ()"
    using run new by (auto simp: handle_room_event_def resolve_video_def p v sess Let_def run_simps)
  define rs where "rs = (case map_of revoke_on_event (ve_type d) of
      Some Of_participant \<Rightarrow> if ?ref \<noteq> None then revoke ?sid ?ref now s else (0, s)
    | Some Of_session \<Rightarrow> revoke ?sid None now s | None \<Rightarrow> (0, s))"
  obtain k s1 where rs': "rs = (k, s1)" by (cases rs)
  have out: "out = \<lparr>vo_session = sess, vo_type = ve_type d, vo_event_id = eid, vo_room = room, vo_revoked = k, vo_participant = ?ref\<rparr>"
    and t: "t = record_audit_event Au_video_event_applied (Some ?sid) None System
      (append_history ?sid (Some (ts_status sess)) (ts_status sess) System now (Some ?reason) s1)"
    using run new join rs' unfolding rs_def
    by (auto simp: handle_room_event_def resolve_video_def p v sess Let_def run_simps split: if_splits)
  obtain gs as P where s1: "s1 = s\<lparr>grants := gs, audits := as\<rparr>" "gs = update_where P (\<lambda>g. g\<lparr>vg_revoked_at := Some now\<rparr>) (grants s)"
  proof -
    have "s1 = s \<or> (\<exists>r. s1 = snd (revoke ?sid r now s))"
    proof -
      have "snd rs = s \<or> (\<exists>r. snd rs = snd (revoke ?sid r now s))"
        unfolding rs_def by (auto split: option.split revocation_scope.split)
      then show ?thesis by (simp add: rs')
    qed
    then show ?thesis
    proof (elim disjE exE)
      assume "s1 = s"
      then show ?thesis by (intro that [of "audits s" "grants s" "\<lambda>_. False"]) (simp_all add: update_where_none)
    next
      fix r assume r: "s1 = snd (revoke ?sid r now s)"
      obtain gs as where "s1 = s\<lparr>grants := gs, audits := as\<rparr>" using revoke_frame [of ?sid r now s] r by metis
      then show ?thesis using revoke_grants [of ?sid r now s] by (intro that) (simp_all add: r [symmetric])
    qed
  qed
  have ve: "v_verify p sg raw headers = Inr d" "ve_verified d" "length eid \<le> 120" using verified_event_ok [OF v] by simp_all
  have "ve_type d \<in> set video_event_types" using known by (simp add: out)
  note reason = event_reason_kept [OF this ve(3)]
  define h where "h = \<lparr>hi_session = ?sid, hi_from = Some (ts_status sess), hi_to = ts_status sess, hi_at = now,
    hi_actor = System, hi_reason = Some ?reason\<rparr>"
  have ht: "history t = history s @ [h]" and gt: "grants t = gs" and st: "sessions t = sessions s"
    by (simp_all add: t append_history_def record_audit_event_def s1(1) h_def reason)
  have "session_of_room room t = Inr sess" using session_of_room_kept [OF st, of P] gt s1(2) sess by simp
  then have "handle_room_event sg raw headers prov now' t = (Inl (TutoringError DuplicateEvent), t)"
    by (simp add: handle_room_event_def resolve_video_def p v Let_def ht h_def)
  moreover have "live_grants t ?sid None now' = []" if "ve_type d = ''room_finished''"
  proof -
    have "s1 = snd (revoke ?sid None now s)" using rs' that by (simp add: rs_def revoke_on_event_def)
    then have "live_grants s1 ?sid None now' = []" by (simp add: revoke_none_live)
    then show ?thesis by (simp add: live_grants_def gt s1(1))
  qed
  moreover have "t = s\<lparr>grants := grants t, history := history t, audits := audits t\<rparr>"
    by (simp add: t append_history_def record_audit_event_def s1(1))
  moreover have "hi_session h = ?sid \<and> hi_from h = Some (ts_status sess) \<and> hi_to h = ts_status sess" by (simp add: h_def)
  ultimately show ?thesis using p ve ht may_join_live [OF join] by (auto simp: out)
qed


definition sample_in_room :: db where
  "sample_in_room = sample_booked\<lparr>grants := [\<lparr>vg_id = 90, vg_session = 14, vg_participant = ''ref'', vg_room = ''room'',
     vg_permissions = ''subscribe'', vg_token_hash = ''hash'', vg_issued_at = 4000, vg_expires_at = 9000,
     vg_revoked_at = None\<rparr>]\<rparr>"

abbreviation sample_left :: video_provider where
  "sample_left \<equiv> dead_video sample_room_event"

theorem room_event_once_witness:
  "\<exists>out t. handle_room_event None ''{}'' [(''x-video-signature'', ''good'')] (Some sample_left) 5000 sample_in_room = (Inr out, t)
     \<and> vo_revoked out = 1
     \<and> handle_room_event None ''{}'' [(''x-video-signature'', ''good'')] (Some sample_left) 6000 t
         = (Inl (TutoringError DuplicateEvent), t)"
proof -
  let ?r = "handle_room_event None ''{}'' [(''x-video-signature'', ''good'')] (Some sample_left) 5000 sample_in_room"
  have "case fst ?r of Inr out \<Rightarrow> vo_type out \<in> set video_event_types \<and> vo_revoked out = 1 | Inl e \<Rightarrow> False" by code_simp
  then obtain out t where "?r = (Inr out, t)" "vo_type out \<in> set video_event_types" "vo_revoked out = 1"
    by (cases ?r; cases "fst ?r") auto
  with room_event_once [OF this(1,2), of 6000] show ?thesis by blast
qed

end
