(* ===== verification/OtpSchema.thy ===== *)
theory OtpSchema
  imports Sha256
begin

text \<open>
  One-time passwords: the tables of \<open>models/registration.py\<close> the OTP services write, the OTP part of
  \<open>core/config.py\<close>, the keyed hashes of \<open>core/crypto.py\<close> and the failures of the services. The state is
  its own record, \<open>otp_db\<close>. A refusal returns the state that is left when its caller rolls the
  transaction back: what the transaction began with, or what the service itself committed before it raised.
\<close>

section \<open>Configuration\<close>

record rate_limits =
  rl_window :: int
  rl_identity :: int
  rl_ip :: int
  rl_global :: int

record otp_settings =
  challenge_ttl :: int
  resend_cooldown :: int
  lockout :: int
  max_attempts :: int
  attempt_window :: int
  resend_window :: int
  max_resends_per_window :: int
  issue_limits :: rate_limits
  resend_limits :: rate_limits
  verify_limits :: rate_limits
  outbox_lease :: int
  outbox_max_attempts :: int
  outbox_retry_base :: int
  outbox_retry_max :: int
  bucket_retention :: int
  flow_ttl :: int
  recovery_proof_ttl :: int

definition default_otp_settings :: otp_settings where
  "default_otp_settings = \<lparr>challenge_ttl = 5 * 60, resend_cooldown = 30, lockout = 15 * 60, max_attempts = 3,
     attempt_window = 15 * 60, resend_window = 15 * 60, max_resends_per_window = 3,
     issue_limits = \<lparr>rl_window = 10 * 60, rl_identity = 5, rl_ip = 20, rl_global = 200\<rparr>,
     resend_limits = \<lparr>rl_window = 15 * 60, rl_identity = 3, rl_ip = 10, rl_global = 100\<rparr>,
     verify_limits = \<lparr>rl_window = 15 * 60, rl_identity = 10, rl_ip = 30, rl_global = 300\<rparr>,
     outbox_lease = 30, outbox_max_attempts = 5, outbox_retry_base = 10, outbox_retry_max = 5 * 60,
     bucket_retention = 7 * 24 * 60 * 60, flow_ttl = 10 * 60, recovery_proof_ttl = 5 * 60\<rparr>"

text \<open>What \<open>validate_otp_configuration\<close> demands of these settings at start-up.\<close>

definition between :: "int \<Rightarrow> int \<Rightarrow> bool" where
  "between n hi \<longleftrightarrow> 0 < n \<and> n \<le> hi"

definition limits_valid :: "rate_limits \<Rightarrow> bool" where
  "limits_valid l \<longleftrightarrow> between (rl_window l) (24 * 60 * 60) \<and> between (rl_identity l) 100 \<and> between (rl_ip l) 1000
     \<and> between (rl_global l) 100000 \<and> rl_identity l \<le> rl_ip l \<and> rl_ip l \<le> rl_global l"

definition otp_settings_valid :: "otp_settings \<Rightarrow> bool" where
  "otp_settings_valid c \<longleftrightarrow>
     between (challenge_ttl c) (30 * 60) \<and> between (resend_cooldown c) (10 * 60) \<and> between (lockout c) (24 * 60 * 60)
     \<and> between (max_attempts c) 10 \<and> between (attempt_window c) (24 * 60 * 60) \<and> between (resend_window c) (24 * 60 * 60)
     \<and> between (max_resends_per_window c) 10
     \<and> limits_valid (issue_limits c) \<and> limits_valid (resend_limits c) \<and> limits_valid (verify_limits c)
     \<and> between (outbox_lease c) (5 * 60) \<and> between (outbox_max_attempts c) 10
     \<and> between (outbox_retry_base c) (15 * 60) \<and> between (outbox_retry_max c) (60 * 60)
     \<and> between (bucket_retention c) (90 * 24 * 60 * 60) \<and> between (flow_ttl c) (60 * 60)
     \<and> between (recovery_proof_ttl c) (30 * 60)
     \<and> outbox_retry_base c \<le> outbox_retry_max c \<and> resend_cooldown c < challenge_ttl c
     \<and> outbox_lease c < challenge_ttl c \<and> challenge_ttl c \<le> flow_ttl c \<and> recovery_proof_ttl c \<le> flow_ttl c
     \<and> resend_cooldown c \<le> resend_window c \<and> lockout c \<le> attempt_window c \<and> outbox_retry_max c \<le> flow_ttl c
     \<and> rl_window (issue_limits c) \<le> bucket_retention c \<and> rl_window (resend_limits c) \<le> bucket_retention c
     \<and> rl_window (verify_limits c) \<le> bucket_retention c"

section \<open>Keyed hashes and encryption\<close>

text \<open>
  The lookup secret, and Fernet encryption of the \<open>cryptography\<close> package, which is not part of the
  program: \<open>ck_encrypt\<close> and \<open>ck_decrypt\<close> are arguments.
\<close>

record crypto =
  ck_lookup :: "nat list"
  ck_version :: string
  ck_encrypt :: "string \<Rightarrow> string"
  ck_decrypt :: "string \<Rightarrow> string"

definition keyed_hash :: "crypto \<Rightarrow> string \<Rightarrow> string" where
  "keyed_hash k v = hmac_sha256_hex (ck_lookup k) (utf8 (strip v))"

definition otp_verifier :: "crypto \<Rightarrow> string \<Rightarrow> string \<Rightarrow> string" where
  "otp_verifier k otp salt = hmac_sha256_hex (ck_lookup k) (utf8 (salt @ '':'' @ otp))"

section \<open>Rows\<close>

datatype purpose = Signup | Recovery | Login

fun purpose_code :: "purpose \<Rightarrow> string" where
  "purpose_code Signup = ''signup''" | "purpose_code Recovery = ''recovery''" | "purpose_code Login = ''login''"

datatype registration_status = R_otp_pending | R_otp_verified | R_active | R_suspended | R_deleted
datatype dob_state = Dob_verified | Dob_quarantined | Dob_erased
datatype ledger_state = L_pending | L_succeeded | L_failed | L_neutralized | L_retired | L_erased
datatype delivery_state = D_pending | D_active | D_consumed | D_superseded | D_void
datatype flow_state = F_pending | F_code_sent | F_verified | F_locked | F_expired | F_consumed | F_failed
datatype queue_status = Q_pending | Q_claimed | Q_sent | Q_failed | Q_void
datatype rate_scope = Scope_identity | Scope_ip | Scope_global
datatype rate_action = Act_issue | Act_resend | Act_verify

record registration =
  rg_id :: uid
  rg_mobile_hash :: string
  rg_mobile_ct :: string
  rg_dob_state :: dob_state
  rg_status :: registration_status
  rg_idempotency_key :: "string option"
  rg_deleted_at :: "instant option"

record ledger =
  lg_id :: uid
  lg_key_hash :: string
  lg_fingerprint :: "string option"
  lg_fingerprint_version :: "string option"
  lg_state :: ledger_state
  lg_outcome :: "string option"
  lg_registration :: "uid option"
  lg_outbox :: "uid option"

record authority =
  oa_id :: uid
  oa_subject :: string
  oa_registration :: "uid option"
  oa_purpose :: purpose
  oa_failed :: int
  oa_max :: int
  oa_locked_until :: "instant option"
  oa_window_at :: "instant option"
  oa_issued_at :: "instant option"
  oa_cooldown :: "instant option"
  oa_resend_at :: "instant option"
  oa_resends :: int
  oa_max_resends :: int
  oa_active_expires :: "instant option"
  oa_generation :: int

record challenge =
  ch_id :: uid
  ch_registration :: uid
  ch_authority :: uid
  ch_purpose :: purpose
  ch_verifier :: string
  ch_salt :: string
  ch_attempts :: int
  ch_max :: int
  ch_expires :: instant
  ch_consumed :: "instant option"
  ch_locked :: "instant option"
  ch_state :: delivery_state

text \<open>
  The \<open>metadata_json\<close> of a flow is empty, the channel marker of an e-mail flow, or what a cancelled
  signup leaves behind: the fingerprint of its request and the version of that fingerprint.
\<close>

datatype flow_meta = Meta_none | Meta_email | Meta_cancelled string string

record flow =
  fl_id :: uid
  fl_token_hash :: string
  fl_authority :: uid
  fl_subject :: string
  fl_purpose :: purpose
  fl_registration :: "uid option"
  fl_record :: "uid option"
  fl_challenge :: "uid option"
  fl_destination :: "string option"
  fl_key_version :: "string option"
  fl_state :: flow_state
  fl_expires :: instant
  fl_consumed :: "instant option"
  fl_meta :: flow_meta

record delivery =
  dl_id :: uid
  dl_challenge :: uid
  dl_destination :: "string option"
  dl_code :: "string option"
  dl_purpose :: purpose
  dl_status :: queue_status
  dl_attempts :: int
  dl_max :: int
  dl_error :: "string option"
  dl_delivered :: "instant option"
  dl_provider_key :: string
  dl_claim :: "string option"
  dl_claimed_at :: "instant option"
  dl_lease :: "instant option"
  dl_next :: "instant option"
  dl_receipt :: "string option"
  dl_legacy :: bool

record bucket =
  bk_scope :: rate_scope
  bk_subject :: string
  bk_action :: rate_action
  bk_started :: instant
  bk_window :: int
  bk_count :: int
  bk_max :: int
  bk_updated :: instant

record otp_db =
  registrations :: "registration list"
  ledgers :: "ledger list"
  authorities :: "authority list"
  challenges :: "challenge list"
  flows :: "flow list"
  deliveries :: "delivery list"
  buckets :: "bucket list"
  otp_next :: uid

definition empty_otp_db :: otp_db where
  "empty_otp_db = \<lparr>registrations = [], ledgers = [], authorities = [], challenges = [], flows = [], deliveries = [],
     buckets = [], otp_next = 1\<rparr>"

section \<open>Constraints\<close>

definition hex64 :: "string \<Rightarrow> bool" where
  "hex64 s \<longleftrightarrow> length s = 64 \<and> list_all hex_char s"

definition authority_check :: "authority \<Rightarrow> bool" where
  "authority_check a \<longleftrightarrow> hex64 (oa_subject a) \<and> 0 \<le> oa_failed a \<and> 0 < oa_max a \<and> oa_max a \<le> 10
     \<and> oa_failed a \<le> oa_max a \<and> 0 \<le> oa_resends a \<and> 0 < oa_max_resends a \<and> oa_max_resends a \<le> 10
     \<and> oa_resends a \<le> oa_max_resends a \<and> 0 \<le> oa_generation a"

definition challenge_check :: "challenge \<Rightarrow> bool" where
  "challenge_check c \<longleftrightarrow> (ch_state c = D_active \<longleftrightarrow> ch_consumed c = None)
     \<and> 0 \<le> ch_attempts c \<and> 0 < ch_max c \<and> ch_attempts c \<le> ch_max c"

definition live_flow_states :: "flow_state list" where
  "live_flow_states = [F_pending, F_code_sent, F_verified, F_locked]"

definition flow_check :: "flow \<Rightarrow> bool" where
  "flow_check f \<longleftrightarrow> hex64 (fl_token_hash f) \<and> hex64 (fl_subject f)
     \<and> (fl_registration f \<noteq> None \<or> fl_challenge f = None)
     \<and> (fl_state f \<in> set live_flow_states \<longleftrightarrow> fl_consumed f = None)
     \<and> (fl_state f = F_verified \<longrightarrow> fl_registration f \<noteq> None \<and> fl_challenge f \<noteq> None)
     \<and> (if fl_state f \<in> {F_pending, F_code_sent, F_locked} then fl_destination f \<noteq> None \<and> fl_key_version f \<noteq> None
        else fl_destination f = None \<and> fl_key_version f = None)"

definition delivery_check :: "delivery \<Rightarrow> bool" where
  "delivery_check d \<longleftrightarrow> 0 \<le> dl_attempts d \<and> 0 < dl_max d \<and> dl_max d \<le> 10 \<and> dl_attempts d \<le> dl_max d
     \<and> hex64 (dl_provider_key d)
     \<and> (if dl_status d = Q_claimed
        then (case (dl_claim d, dl_claimed_at d, dl_lease d) of (Some c, Some x, Some l) \<Rightarrow> x < l \<and> hex64 c | _ \<Rightarrow> False)
        else dl_claim d = None \<and> dl_claimed_at d = None \<and> dl_lease d = None)
     \<and> (if dl_status d \<in> {Q_pending, Q_claimed, Q_failed} then dl_code d \<noteq> None \<and> dl_destination d \<noteq> None
        else dl_code d = None \<and> (dl_destination d \<noteq> None \<longleftrightarrow> dl_legacy d))
     \<and> (dl_legacy d \<longrightarrow> dl_status d \<in> {Q_sent, Q_void})
     \<and> (dl_status d = Q_failed \<longleftrightarrow> dl_next d \<noteq> None)
     \<and> (dl_receipt d \<noteq> None \<longrightarrow> dl_status d = Q_sent)"

definition bucket_check :: "bucket \<Rightarrow> bool" where
  "bucket_check b \<longleftrightarrow> hex64 (bk_subject b) \<and> 0 < bk_window b \<and> bk_window b \<le> 86400 \<and> 0 \<le> bk_count b
     \<and> 0 < bk_max b \<and> bk_max b \<le> 100000 \<and> bk_count b \<le> bk_max b"

section \<open>Failures\<close>

datatype otp_exn =
    OtpError (otp_status: int) (otp_code: string) (attempts_left: "int option") (retry_after: "int option")
  | RuntimeError
  | ValueError
  | Otp_integrity
  | RateLimitExceeded int
  | OtpSendError
  | OtpFlowUnavailable string

type_synonym 'a orun = "(otp_exn + 'a) \<times> otp_db"

section \<open>Statements\<close>

abbreviation get_authority :: "otp_db \<Rightarrow> uid \<Rightarrow> authority option" where
  "get_authority s i \<equiv> find_row oa_id i (authorities s)"

abbreviation get_registration :: "otp_db \<Rightarrow> uid \<Rightarrow> registration option" where
  "get_registration s i \<equiv> find_row rg_id i (registrations s)"

abbreviation get_challenge :: "otp_db \<Rightarrow> uid \<Rightarrow> challenge option" where
  "get_challenge s i \<equiv> find_row ch_id i (challenges s)"

text \<open>A change to one row, through its identity.\<close>

definition upd_authority :: "uid \<Rightarrow> (authority \<Rightarrow> authority) \<Rightarrow> otp_db \<Rightarrow> otp_db" where
  "upd_authority i f s = s\<lparr>authorities := update_where (\<lambda>r. oa_id r = i) f (authorities s)\<rparr>"

definition upd_challenge :: "uid \<Rightarrow> (challenge \<Rightarrow> challenge) \<Rightarrow> otp_db \<Rightarrow> otp_db" where
  "upd_challenge i f s = s\<lparr>challenges := update_where (\<lambda>r. ch_id r = i) f (challenges s)\<rparr>"

definition upd_flow :: "uid \<Rightarrow> (flow \<Rightarrow> flow) \<Rightarrow> otp_db \<Rightarrow> otp_db" where
  "upd_flow i f s = s\<lparr>flows := update_where (\<lambda>r. fl_id r = i) f (flows s)\<rparr>"

definition upd_delivery :: "uid \<Rightarrow> (delivery \<Rightarrow> delivery) \<Rightarrow> otp_db \<Rightarrow> otp_db" where
  "upd_delivery i f s = s\<lparr>deliveries := update_where (\<lambda>r. dl_id r = i) f (deliveries s)\<rparr>"

definition upd_registration :: "uid \<Rightarrow> (registration \<Rightarrow> registration) \<Rightarrow> otp_db \<Rightarrow> otp_db" where
  "upd_registration i f s = s\<lparr>registrations := update_where (\<lambda>r. rg_id r = i) f (registrations s)\<rparr>"

definition upd_ledger :: "uid \<Rightarrow> (ledger \<Rightarrow> ledger) \<Rightarrow> otp_db \<Rightarrow> otp_db" where
  "upd_ledger i f s = s\<lparr>ledgers := update_where (\<lambda>r. lg_id r = i) f (ledgers s)\<rparr>"

text \<open>The unique indexes of the challenges, by the name the database reports.\<close>

definition insert_challenge :: "challenge \<Rightarrow> otp_db \<Rightarrow> string option + otp_db" where
  "insert_challenge c s =
     (let others = challenges s in
      if \<not> challenge_check c then Inl None
      else if ch_consumed c = None \<and> list_ex (\<lambda>r. ch_registration r = ch_registration c \<and> ch_purpose r = ch_purpose c \<and> ch_consumed r = None) others
        then Inl (Some ''uq_otp_challenges_one_active_per_registration_purpose'')
      else if ch_state c = D_active \<and> list_ex (\<lambda>r. ch_authority r = ch_authority c \<and> ch_state r = D_active) others
        then Inl (Some ''uq_otp_challenges_one_active_per_authority'')
      else if ch_state c = D_pending \<and> list_ex (\<lambda>r. ch_authority r = ch_authority c \<and> ch_state r = D_pending) others
        then Inl (Some ''uq_otp_challenges_one_pending_delivery_per_authority'')
      else Inr (s\<lparr>challenges := others @ [c]\<rparr>))"

definition insert_delivery :: "delivery \<Rightarrow> otp_db \<Rightarrow> otp_db option" where
  "insert_delivery d s =
     (if delivery_check d \<and> dl_challenge d \<notin> dl_challenge ` set (deliveries s)
         \<and> dl_provider_key d \<notin> dl_provider_key ` set (deliveries s)
      then Some (s\<lparr>deliveries := deliveries s @ [d]\<rparr>) else None)"

definition insert_flow :: "flow \<Rightarrow> otp_db \<Rightarrow> otp_db option" where
  "insert_flow f s =
     (if flow_check f \<and> fl_token_hash f \<notin> fl_token_hash ` set (flows s)
         \<and> (fl_record f \<noteq> None \<longrightarrow> fl_record f \<notin> fl_record ` set (flows s))
         \<and> (fl_state f \<in> set live_flow_states
             \<longrightarrow> \<not> list_ex (\<lambda>r. fl_authority r = fl_authority f \<and> fl_state r \<in> set live_flow_states) (flows s))
      then Some (s\<lparr>flows := flows s @ [f]\<rparr>) else None)"

definition otp_bump :: "otp_db \<Rightarrow> otp_db" where
  "otp_bump s = s\<lparr>otp_next := Suc (otp_next s)\<rparr>"

text \<open>\<open>math.ceil((a - b).total_seconds())\<close>, exact on the spans the code forms.\<close>

definition ceil_seconds :: "int \<Rightarrow> int" where
  "ceil_seconds d = - ((- d) div 10 ^ 6)"

lemma ceil_seconds_bounds: "d \<le> seconds (ceil_seconds d)" "seconds (ceil_seconds d) < d + 10 ^ 6"
proof -
  have "(- d) = (- d) div 10 ^ 6 * 10 ^ 6 + (- d) mod 10 ^ 6" by simp
  moreover have "0 \<le> (- d) mod 10 ^ 6" "(- d) mod 10 ^ 6 < 10 ^ 6" by simp_all
  ultimately show "d \<le> seconds (ceil_seconds d)" "seconds (ceil_seconds d) < d + 10 ^ 6"
    unfolding ceil_seconds_def seconds_def by linarith+
qed

lemma ceil_seconds_pos: "0 < d \<Longrightarrow> 0 < ceil_seconds d"
  using ceil_seconds_bounds(1) [of d] by (simp add: seconds_def)

lemma ceil_seconds_whole [simp]: "ceil_seconds (seconds n) = n"
  by (simp add: ceil_seconds_def seconds_def)

lemma default_settings_valid: "otp_settings_valid default_otp_settings"
  by code_simp

section \<open>Reading after a write\<close>

lemma upd_sel [simp]:
  "registrations (upd_authority i fa s) = registrations s" "ledgers (upd_authority i fa s) = ledgers s" "challenges (upd_authority i fa s) = challenges s" "flows (upd_authority i fa s) = flows s" "deliveries (upd_authority i fa s) = deliveries s" "buckets (upd_authority i fa s) = buckets s" "otp_next (upd_authority i fa s) = otp_next s"
  "registrations (upd_challenge i fc s) = registrations s" "ledgers (upd_challenge i fc s) = ledgers s" "authorities (upd_challenge i fc s) = authorities s" "flows (upd_challenge i fc s) = flows s" "deliveries (upd_challenge i fc s) = deliveries s" "buckets (upd_challenge i fc s) = buckets s" "otp_next (upd_challenge i fc s) = otp_next s"
  "registrations (upd_flow i ff s) = registrations s" "ledgers (upd_flow i ff s) = ledgers s" "authorities (upd_flow i ff s) = authorities s" "challenges (upd_flow i ff s) = challenges s" "deliveries (upd_flow i ff s) = deliveries s" "buckets (upd_flow i ff s) = buckets s" "otp_next (upd_flow i ff s) = otp_next s"
  "registrations (upd_delivery i fd s) = registrations s" "ledgers (upd_delivery i fd s) = ledgers s" "authorities (upd_delivery i fd s) = authorities s" "challenges (upd_delivery i fd s) = challenges s" "flows (upd_delivery i fd s) = flows s" "buckets (upd_delivery i fd s) = buckets s" "otp_next (upd_delivery i fd s) = otp_next s"
  "ledgers (upd_registration i fr s) = ledgers s" "authorities (upd_registration i fr s) = authorities s" "challenges (upd_registration i fr s) = challenges s" "flows (upd_registration i fr s) = flows s" "deliveries (upd_registration i fr s) = deliveries s" "buckets (upd_registration i fr s) = buckets s" "otp_next (upd_registration i fr s) = otp_next s"
  "registrations (upd_ledger i fl s) = registrations s" "authorities (upd_ledger i fl s) = authorities s" "challenges (upd_ledger i fl s) = challenges s" "flows (upd_ledger i fl s) = flows s" "deliveries (upd_ledger i fl s) = deliveries s" "buckets (upd_ledger i fl s) = buckets s" "otp_next (upd_ledger i fl s) = otp_next s"
  by (simp_all add: upd_authority_def upd_challenge_def upd_flow_def upd_delivery_def upd_registration_def upd_ledger_def)

lemma find_row_upd:
  "(\<And>r. key r = i \<Longrightarrow> key (f r) = i) \<Longrightarrow>
    find_row key j (update_where (\<lambda>r. key r = i) f t) = (if j = i then map_option f (find_row key j t) else find_row key j t)"
  by (induction t) (auto simp: find_row_def)

lemma get_upd_authority:
  "(\<And>a. oa_id a = i \<Longrightarrow> oa_id (f a) = i) \<Longrightarrow>
    get_authority (upd_authority i f s) j = (if j = i then map_option f (get_authority s j) else get_authority s j)"
  by (simp add: upd_authority_def find_row_upd)

lemma get_upd_challenge:
  "(\<And>c. ch_id c = i \<Longrightarrow> ch_id (f c) = i) \<Longrightarrow>
    get_challenge (upd_challenge i f s) j = (if j = i then map_option f (get_challenge s j) else get_challenge s j)"
  by (simp add: upd_challenge_def find_row_upd)

lemma get_upd_registration:
  "(\<And>g. rg_id g = i \<Longrightarrow> rg_id (f g) = i) \<Longrightarrow>
    get_registration (upd_registration i f s) j = (if j = i then map_option f (get_registration s j) else get_registration s j)"
  by (simp add: upd_registration_def find_row_upd)

lemmas upd_defs = upd_authority_def upd_challenge_def upd_flow_def upd_delivery_def upd_registration_def upd_ledger_def

end
