(* ===== verification/OtpAuthority.thy ===== *)
theory OtpAuthority
  imports OtpSchema
begin

text \<open>
  \<open>services/otp_authority.py\<close>: the one authority row of a subject and a purpose, which keeps the
  failed attempts, the lockout and the resend window across challenges, and the three fixed-window
  abuse budgets. Windows and lockouts share one contract, the locale \<open>window_counter\<close>.
\<close>

section \<open>Counters that reopen\<close>

text \<open>
  \<open>admits now c d\<close>: a request at \<open>now\<close> is admitted and takes the counter \<open>c\<close> to \<open>d\<close>; \<open>idles\<close>:
  something else happens to it, which may at most clear an expired window.
\<close>

locale window_counter =
  fixes opened :: "'c \<Rightarrow> instant option"
    and used :: "'c \<Rightarrow> int"
    and valid :: "'c \<Rightarrow> bool"
    and admits :: "instant \<Rightarrow> 'c \<Rightarrow> 'c \<Rightarrow> bool"
    and idles :: "instant \<Rightarrow> 'c \<Rightarrow> 'c \<Rightarrow> bool"
    and limit :: int
    and span :: int
  assumes admits_valid: "valid c \<Longrightarrow> admits now c d \<Longrightarrow> valid d"
    and idles_valid: "valid c \<Longrightarrow> idles now c d \<Longrightarrow> valid d"
    and used_range: "valid c \<Longrightarrow> 0 \<le> used c \<and> used c \<le> limit"
    and unopened: "valid c \<Longrightarrow> opened c = None \<Longrightarrow> used c = 0"
    and admits_counts: "valid c \<Longrightarrow> admits now c d \<Longrightarrow>
      (opened d = opened c \<and> opened c \<noteq> None \<and> used d = used c + 1)
      \<or> (opened d = Some now \<and> used d = 1 \<and> (\<forall>w. opened c = Some w \<longrightarrow> w + span \<le> now))"
    and idles_counts: "valid c \<Longrightarrow> idles now c d \<Longrightarrow>
      (opened d = opened c \<and> used d = used c)
      \<or> (opened d = None \<and> used d = 0 \<and> (\<forall>w. opened c = Some w \<longrightarrow> w + span \<le> now))"
begin

text \<open>A run of the counter, with the number of requests it admits.\<close>

inductive counts :: "(instant \<times> bool) list \<Rightarrow> 'c \<Rightarrow> 'c \<Rightarrow> bool" where
  counts_nil: "counts [] c c"
| counts_admit: "admits now c d \<Longrightarrow> counts r d e \<Longrightarrow> counts ((now, True) # r) c e"
| counts_idle: "idles now c d \<Longrightarrow> counts r d e \<Longrightarrow> counts ((now, False) # r) c e"

definition admitted :: "(instant \<times> bool) list \<Rightarrow> int" where
  "admitted r = int (length (filter snd r))"

lemma admitted_simps [simp]:
  "admitted [] = 0" "admitted ((now, True) # r) = 1 + admitted r" "admitted ((now, False) # r) = admitted r"
  by (simp_all add: admitted_def)

definition room :: "instant \<Rightarrow> 'c \<Rightarrow> int" where
  "room t c = (case opened c of Some w \<Rightarrow> if w < t then 2 * limit - used c else limit - used c | None \<Rightarrow> limit)"

lemma room_shrinks:
  assumes "valid c" and "t \<le> now" and "now < t + span"
  shows "admits now c d \<Longrightarrow> room t d + 1 \<le> room t c"
    and "idles now c d \<Longrightarrow> room t d \<le> room t c"
proof -
  note v = used_range [OF assms(1)] unopened [OF assms(1)]
  show "room t d + 1 \<le> room t c" if a: "admits now c d"
    using admits_counts [OF assms(1) a] v used_range [OF admits_valid [OF assms(1) a]] assms(2,3)
    by (auto simp: room_def split: option.splits if_splits)
  show "room t d \<le> room t c" if i: "idles now c d"
    using idles_counts [OF assms(1) i] v used_range [OF idles_valid [OF assms(1) i]] assms(2,3)
    by (auto simp: room_def split: option.splits if_splits)
qed

text \<open>Whatever the requests and whatever happens between them, a span holds at most twice the limit.\<close>

lemma admitted_le_room:
  "counts r c e \<Longrightarrow> valid c \<Longrightarrow> (\<And>now b. (now, b) \<in> set r \<Longrightarrow> t \<le> now \<and> now < t + span) \<Longrightarrow> admitted r \<le> room t c"
proof (induction rule: counts.induct)
  case (counts_nil c)
  then show ?case using used_range [of c] by (auto simp: room_def split: option.splits)
next
  case (counts_admit now c d r e)
  have "admitted r \<le> room t d" using counts_admit by (meson admits_valid list.set_intros(2))
  with room_shrinks(1) [OF counts_admit.prems(1), of t now d] counts_admit show ?case by fastforce
next
  case (counts_idle now c d r e)
  have "admitted r \<le> room t d" using counts_idle by (meson idles_valid list.set_intros(2))
  with room_shrinks(2) [OF counts_idle.prems(1), of t now d] counts_idle show ?case by fastforce
qed

lemma counts_valid: "counts r c e \<Longrightarrow> valid c \<Longrightarrow> valid e"
  by (induction rule: counts.induct) (blast intro: admits_valid idles_valid)+

end

text \<open>A counter that locks when it is full and reopens only after a whole span: one request less.\<close>

locale locking_counter = window_counter +
  fixes full_until :: "'a \<Rightarrow> instant"
  assumes reopens: "valid c \<Longrightarrow> used c = limit \<Longrightarrow> admits now c d \<or> (idles now c d \<and> opened d \<noteq> opened c) \<Longrightarrow> full_until c \<le> now"
    and fills: "valid c \<Longrightarrow> admits now c d \<Longrightarrow> used d = limit \<Longrightarrow> now + span \<le> full_until d"
    and stays_full: "valid c \<Longrightarrow> idles now c d \<Longrightarrow> opened d = opened c \<Longrightarrow> full_until d = full_until c"
    and positive: "valid c \<Longrightarrow> 0 < limit"
begin

definition locked_room :: "instant \<Rightarrow> 'a \<Rightarrow> int" where
  "locked_room t c = (case opened c of None \<Rightarrow> limit
     | Some w \<Rightarrow> if t \<le> w then limit - used c
         else if used c = limit then if t + span \<le> full_until c then 0 else limit
         else 2 * limit - 1 - used c)"

lemma locked_room_shrinks:
  assumes "valid c" and "t \<le> now" and "now < t + span"
  shows "admits now c d \<Longrightarrow> locked_room t d + 1 \<le> locked_room t c"
    and "idles now c d \<Longrightarrow> locked_room t d \<le> locked_room t c"
proof -
  note v = used_range [OF assms(1)] unopened [OF assms(1)] positive [OF assms(1)]
  note l = locked_room_def option.case
  show "locked_room t d + 1 \<le> locked_room t c" if a: "admits now c d"
  proof -
    note d = used_range [OF admits_valid [OF assms(1) a]]
    have r: "used c = limit \<Longrightarrow> full_until c \<le> now" using reopens [OF assms(1), of now d] a by blast
    have f: "used d = limit \<Longrightarrow> now + span \<le> full_until d" using fills [OF assms(1) a] .
    show ?thesis
    proof (cases "opened d = opened c \<and> opened c \<noteq> None \<and> used d = used c + 1")
      case True
      then obtain w where "opened c = Some w" "opened d = Some w" "used d = used c + 1" by auto
      then show ?thesis using v d f assms(2) by (simp add: l) linarith
    next
      case False
      with admits_counts [OF assms(1) a] have "opened d = Some now" "used d = 1" by blast+
      then show ?thesis using v d f r assms(2,3) False admits_counts [OF assms(1) a]
        by (cases "opened c") (simp_all add: l, linarith?)
    qed
  qed
  show "locked_room t d \<le> locked_room t c" if i: "idles now c d"
  proof (cases "opened d = opened c \<and> used d = used c")
    case True
    then show ?thesis using stays_full [OF assms(1) i] by (cases "opened c") (simp_all add: l)
  next
    case False
    with idles_counts [OF assms(1) i] have n: "opened d = None" "used d = 0"
        "\<And>w. opened c = Some w \<Longrightarrow> w + span \<le> now" by blast+
    have r: "opened c \<noteq> None \<Longrightarrow> used c = limit \<Longrightarrow> full_until c \<le> now"
      using reopens [OF assms(1), of now d] i n(1) by auto
    show ?thesis using n r v assms(2,3) by (cases "opened c") (fastforce simp: l)+
  qed
qed

lemma admitted_le_locked_room:
  "counts r c e \<Longrightarrow> valid c \<Longrightarrow> (\<And>now b. (now, b) \<in> set r \<Longrightarrow> t \<le> now \<and> now < t + span) \<Longrightarrow> admitted r \<le> locked_room t c"
proof (induction rule: counts.induct)
  case (counts_nil c)
  then show ?case using used_range [of c] positive [of c] by (auto simp: locked_room_def split: option.splits)
next
  case (counts_admit now c d r e)
  have "admitted r \<le> locked_room t d" using counts_admit by (meson admits_valid list.set_intros(2))
  with locked_room_shrinks(1) [OF counts_admit.prems(1), of t now d] counts_admit show ?case by fastforce
next
  case (counts_idle now c d r e)
  have "admitted r \<le> locked_room t d" using counts_idle by (meson idles_valid list.set_intros(2))
  with locked_room_shrinks(2) [OF counts_idle.prems(1), of t now d] counts_idle show ?case by fastforce
qed

lemma locked_room_bound: "valid c \<Longrightarrow> locked_room t c \<le> 2 * limit - 1"
  using used_range [of c] positive [of c] by (auto simp: locked_room_def split: option.splits)

end

section \<open>The authority row\<close>

text \<open>Its identity is the keyed hash of the subject, hashed once more under its own domain.\<close>

definition authority_subject_from_mobile_hash :: "string \<Rightarrow> otp_exn + string" where
  "authority_subject_from_mobile_hash h =
     (if hex64 h then Inr (sha256_hex (''nyayone:otp-authority:v1:'' @ h)) else Inl ValueError)"

definition authority_subject_for_mobile :: "crypto \<Rightarrow> string \<Rightarrow> otp_exn + string" where
  "authority_subject_for_mobile k mobile = authority_subject_from_mobile_hash (keyed_hash k mobile)"

definition find_authority :: "string \<Rightarrow> purpose \<Rightarrow> otp_db \<Rightarrow> authority option" where
  "find_authority subject p s = find (\<lambda>a. oa_subject a = subject \<and> oa_purpose a = p) (authorities s)"

definition refresh_lock_window :: "otp_settings \<Rightarrow> instant \<Rightarrow> authority \<Rightarrow> authority" where
  "refresh_lock_window c now a = (case oa_locked_until a of
       Some u \<Rightarrow> if u \<le> now
         then a\<lparr>oa_failed := 0, oa_locked_until := None, oa_window_at := None, oa_max := max_attempts c\<rparr> else a
     | None \<Rightarrow> a)"

text \<open>The seconds left, and the row as the call leaves it.\<close>

definition locked_for_seconds :: "otp_settings \<Rightarrow> instant \<Rightarrow> authority \<Rightarrow> int \<times> authority" where
  "locked_for_seconds c now a = (let b = refresh_lock_window c now a in
     (case oa_locked_until b of None \<Rightarrow> 0 | Some u \<Rightarrow> max 0 (ceil_seconds (u - now)), b))"

definition new_authority :: "otp_settings \<Rightarrow> uid \<Rightarrow> string \<Rightarrow> purpose \<Rightarrow> uid option \<Rightarrow> authority" where
  "new_authority c i subject p g = \<lparr>oa_id = i, oa_subject = subject, oa_registration = g, oa_purpose = p, oa_failed = 0,
     oa_max = max_attempts c, oa_locked_until = None, oa_window_at = None, oa_issued_at = None, oa_cooldown = None,
     oa_resend_at = None, oa_resends = 0, oa_max_resends = max_resends_per_window c, oa_active_expires = None,
     oa_generation = 0\<rparr>"

text \<open>The unique index on the registration and the purpose.\<close>

definition registration_taken :: "uid option \<Rightarrow> purpose \<Rightarrow> otp_db \<Rightarrow> bool" where
  "registration_taken g p s \<longleftrightarrow> g \<noteq> None \<and> list_ex (\<lambda>a. oa_registration a = g \<and> oa_purpose a = p) (authorities s)"

definition establish_authority :: "otp_settings \<Rightarrow> string \<Rightarrow> purpose \<Rightarrow> uid option \<Rightarrow> otp_db \<Rightarrow> otp_exn + otp_db" where
  "establish_authority c subject p g s =
     (if find_authority subject p s \<noteq> None then Inr s
      else if registration_taken g p s then Inl Otp_integrity
      else Inr (otp_bump (s\<lparr>authorities := authorities s @ [new_authority c (otp_next s) subject p g]\<rparr>)))"

definition lock_or_create_authority ::
  "otp_settings \<Rightarrow> string \<Rightarrow> purpose \<Rightarrow> uid option \<Rightarrow> instant \<Rightarrow> otp_db \<Rightarrow> otp_exn + authority \<times> otp_db" where
  "lock_or_create_authority c subject p g now s =
     (case authority_subject_from_mobile_hash subject of Inl e \<Rightarrow> Inl e | Inr _ \<Rightarrow>
      case establish_authority c subject p g s of Inl e \<Rightarrow> Inl e | Inr s1 \<Rightarrow>
      case find_authority subject p s1 of None \<Rightarrow> Inl RuntimeError | Some a \<Rightarrow>
        if oa_registration a = None \<and> g \<noteq> None \<and> registration_taken g p s1 then Inl Otp_integrity
        else if g \<noteq> None \<and> oa_registration a \<noteq> None \<and> oa_registration a \<noteq> g then Inl RuntimeError
        else let b = refresh_lock_window c now
                   (if oa_registration a = None \<and> g \<noteq> None then a\<lparr>oa_registration := g\<rparr> else a)
             in Inr (b, upd_authority (oa_id b) (\<lambda>_. b) s1))"

definition lock_or_create_registration_authority ::
  "otp_settings \<Rightarrow> registration \<Rightarrow> purpose \<Rightarrow> instant \<Rightarrow> otp_db \<Rightarrow> otp_exn + authority \<times> otp_db" where
  "lock_or_create_registration_authority c g p now s =
     (case authority_subject_from_mobile_hash (rg_mobile_hash g) of Inl e \<Rightarrow> Inl e
      | Inr subject \<Rightarrow> lock_or_create_authority c subject p (Some (rg_id g)) now s)"

section \<open>Abuse budgets\<close>

record budget =
  bu_scope :: rate_scope
  bu_subject :: string
  bu_window :: int
  bu_max :: int

text \<open>
  \<open>ipaddress.ip_address(v).compressed\<close> is an argument, \<open>None\<close> where it raises. An empty address
  counts as absent.
\<close>

definition network_subject :: "crypto \<Rightarrow> (string \<Rightarrow> string option) \<Rightarrow> string option \<Rightarrow> string" where
  "network_subject k compress ip =
     (let v = strip (case ip of None \<Rightarrow> ''unavailable'' | Some x \<Rightarrow> if x = [] then ''unavailable'' else x);
          w = (case compress v of Some z \<Rightarrow> z | None \<Rightarrow> ''unavailable'')
      in keyed_hash k (''nyayone:otp-rate-ip:v1:'' @ w))"

fun limits_of :: "otp_settings \<Rightarrow> rate_action \<Rightarrow> rate_limits" where
  "limits_of c Act_issue = issue_limits c"
| "limits_of c Act_resend = resend_limits c"
| "limits_of c Act_verify = verify_limits c"

text \<open>The three budgets in the order of the sort: the scopes \<open>global\<close>, \<open>identity\<close>, \<open>ip\<close> are distinct.\<close>

definition budgets_of :: "otp_settings \<Rightarrow> crypto \<Rightarrow> (string \<Rightarrow> string option) \<Rightarrow> string \<Rightarrow> string option \<Rightarrow> rate_action
    \<Rightarrow> purpose \<Rightarrow> budget list" where
  "budgets_of c k compress subject ip act p = (let l = limits_of c act in
     [\<lparr>bu_scope = Scope_global, bu_subject = keyed_hash k ''nyayone:otp-rate-global:v1'', bu_window = rl_window l,
         bu_max = rl_global l\<rparr>,
      \<lparr>bu_scope = Scope_identity,
         bu_subject = keyed_hash k (''nyayone:otp-rate-identity:v1:'' @ purpose_code p @ '':'' @ subject),
         bu_window = rl_window l, bu_max = rl_identity l\<rparr>,
      \<lparr>bu_scope = Scope_ip, bu_subject = network_subject k compress ip, bu_window = rl_window l, bu_max = rl_ip l\<rparr>])"

definition spends :: "rate_action \<Rightarrow> budget \<Rightarrow> bucket \<Rightarrow> bool" where
  "spends act u b \<longleftrightarrow> bk_scope b = bu_scope u \<and> bk_subject b = bu_subject u \<and> bk_action b = act"

definition new_bucket :: "rate_action \<Rightarrow> instant \<Rightarrow> budget \<Rightarrow> bucket" where
  "new_bucket act now u = \<lparr>bk_scope = bu_scope u, bk_subject = bu_subject u, bk_action = act, bk_started = now,
     bk_window = bu_window u, bk_count = 0, bk_max = bu_max u, bk_updated = now\<rparr>"

definition ensure_bucket :: "rate_action \<Rightarrow> instant \<Rightarrow> budget \<Rightarrow> bucket list \<Rightarrow> bucket list" where
  "ensure_bucket act now u bs = (if list_ex (spends act u) bs then bs else bs @ [new_bucket act now u])"

definition window_end :: "bucket \<Rightarrow> instant" where
  "window_end b = bk_started b + seconds (bk_window b)"

definition reopen_bucket :: "instant \<Rightarrow> budget \<Rightarrow> bucket \<Rightarrow> bucket" where
  "reopen_bucket now u b = (if window_end b \<le> now
     then b\<lparr>bk_started := now, bk_window := bu_window u, bk_count := 0, bk_max := bu_max u\<rparr> else b)"

definition bucket_retry :: "instant \<Rightarrow> bucket \<Rightarrow> int" where
  "bucket_retry now b = (if bk_max b \<le> bk_count b then max 1 (ceil_seconds (window_end b - now)) else 0)"

definition spend :: "instant \<Rightarrow> bucket \<Rightarrow> bucket" where
  "spend now b = b\<lparr>bk_count := bk_count b + 1, bk_updated := now\<rparr>"

text \<open>All three budgets are consumed, or none: an exhausted one rolls the transaction back.\<close>

definition consume_rate_budgets :: "otp_settings \<Rightarrow> crypto \<Rightarrow> (string \<Rightarrow> string option) \<Rightarrow> string \<Rightarrow> string option
    \<Rightarrow> rate_action \<Rightarrow> purpose \<Rightarrow> instant \<Rightarrow> otp_db \<Rightarrow> unit orun" where
  "consume_rate_budgets c k compress subject ip act p now s =
     (case authority_subject_from_mobile_hash subject of Inl e \<Rightarrow> (Inl e, s) | Inr _ \<Rightarrow>
      let us = budgets_of c k compress subject ip act p;
          bs = fold (ensure_bucket act now) us (buckets s);
          rows = filter (\<lambda>b. list_ex (\<lambda>u. spends act u b) us) bs
      in if length rows \<noteq> 3 then (Inl RuntimeError, s)
         else let bs' = fold (\<lambda>u. update_where (spends act u) (reopen_bucket now u)) us bs;
                  rows' = filter (\<lambda>b. list_ex (\<lambda>u. spends act u b) us) bs';
                  retry = fold max (map (bucket_retry now) rows') 0
              in if retry \<noteq> 0 then (Inl (RateLimitExceeded retry), s)
                 else (Inr (), s\<lparr>buckets := update_where (\<lambda>b. list_ex (\<lambda>u. spends act u b) us) (spend now) bs'\<rparr>))"

definition purge_expired_rate_buckets :: "otp_settings \<Rightarrow> instant \<Rightarrow> otp_db \<Rightarrow> int \<times> otp_db" where
  "purge_expired_rate_buckets c now s = (let cutoff = now - seconds (bucket_retention c) in
     (int (length (filter (\<lambda>b. bk_updated b < cutoff) (buckets s))),
      s\<lparr>buckets := filter (\<lambda>b. \<not> bk_updated b < cutoff) (buckets s)\<rparr>))"

section \<open>What the budgets bound\<close>

definition bucket_of :: "rate_action \<Rightarrow> budget \<Rightarrow> otp_db \<Rightarrow> bucket option" where
  "bucket_of act u s = find (spends act u) (buckets s)"

definition bu_key :: "budget \<Rightarrow> rate_scope \<times> string" where
  "bu_key u = (bu_scope u, bu_subject u)"

lemma spends_spends: "spends a u b \<Longrightarrow> spends a' v b \<longleftrightarrow> a = a' \<and> bu_key u = bu_key v"
  by (auto simp: spends_def bu_key_def)

lemma find_update_where_same:
  assumes "\<And>b. spends a u (f b) = spends a u b" and "\<And>b. spends a u b \<Longrightarrow> p b = q"
  shows "find (spends a u) (update_where p f bs) = map_option (\<lambda>b. if q then f b else b) (find (spends a u) bs)"
  by (induction bs) (auto simp: assms)

lemma spends_reopen [simp]: "spends a u (reopen_bucket now v b) = spends a u b"
  by (simp add: spends_def reopen_bucket_def)

lemma spends_spend [simp]: "spends a u (spend now b) = spends a u b"
  by (simp add: spends_def spend_def)

lemma spends_new [simp]: "spends a u (new_bucket act now v) \<longleftrightarrow> act = a \<and> bu_key v = bu_key u"
  by (auto simp: spends_def new_bucket_def bu_key_def)

lemma find_ensure:
  "find (spends a v) (ensure_bucket act now u bs) = (case find (spends a v) bs of Some b \<Rightarrow> Some b
     | None \<Rightarrow> if act = a \<and> bu_key u = bu_key v then Some (new_bucket act now u) else None)"
proof -
  have "find p (xs @ [x]) = (case find p xs of Some b \<Rightarrow> Some b | None \<Rightarrow> if p x then Some x else None)" for p :: "bucket \<Rightarrow> bool" and xs x
    by (induction xs) auto
  moreover have "list_ex (spends act u) bs \<Longrightarrow> act = a \<Longrightarrow> bu_key u = bu_key v \<Longrightarrow> find (spends a v) bs \<noteq> None"
    by (auto simp: list_ex_iff find_None_iff bu_key_def spends_def)
  ultimately show ?thesis by (auto simp: ensure_bucket_def split: option.splits)
qed

lemma find_ensure_all:
  "bu_key u \<notin> bu_key ` set us \<or> act \<noteq> a \<Longrightarrow> find (spends a u) (fold (ensure_bucket act now) us bs) = find (spends a u) bs"
  by (induction us arbitrary: bs) (auto simp: find_ensure split: option.splits)

lemma find_reopen_other:
  assumes "bu_key v \<noteq> bu_key u \<or> act \<noteq> a"
  shows "find (spends a u) (update_where (spends act v) (reopen_bucket now v) bs) = find (spends a u) bs"
  using assms find_update_where_same [of a u "reopen_bucket now v" "spends act v" False bs]
  by (auto simp: spends_spends option.map_ident)

lemma find_reopen_all:
  "bu_key u \<notin> bu_key ` set us \<or> act \<noteq> a \<Longrightarrow>
     find (spends a u) (fold (\<lambda>v. update_where (spends act v) (reopen_bucket now v)) us bs) = find (spends a u) bs"
  by (induction us arbitrary: bs) (auto simp: find_reopen_other)

lemma find_ensure_in:
  "u \<in> set us \<Longrightarrow> distinct (map bu_key us) \<Longrightarrow>
     find (spends act u) (fold (ensure_bucket act now) us bs)
       = Some (case find (spends act u) bs of Some b \<Rightarrow> b | None \<Rightarrow> new_bucket act now u)"
proof (induction us arbitrary: bs)
  case (Cons v us)
  show ?case
  proof (cases "v = u")
    case True
    with Cons.prems show ?thesis by (auto simp: find_ensure_all find_ensure split: option.splits)
  next
    case False
    with Cons.prems have "bu_key v \<noteq> bu_key u" by auto
    with Cons False show ?thesis by (auto simp: find_ensure split: option.splits)
  qed
qed simp

lemma find_reopen_in:
  "u \<in> set us \<Longrightarrow> distinct (map bu_key us) \<Longrightarrow>
     find (spends act u) (fold (\<lambda>v. update_where (spends act v) (reopen_bucket now v)) us bs)
       = map_option (reopen_bucket now u) (find (spends act u) bs)"
proof (induction us arbitrary: bs)
  case (Cons v us)
  show ?case
  proof (cases "v = u")
    case True
    with Cons.prems show ?thesis
      by (auto simp: find_reopen_all find_update_where_same [of act u "reopen_bucket now u" "spends act u" True])
  next
    case False
    with Cons.prems have "bu_key v \<noteq> bu_key u" by auto
    with Cons False show ?thesis by (simp add: find_reopen_other)
  qed
qed simp

lemma fold_max_zero: "fold max xs (0::int) = 0 \<Longrightarrow> x \<in> set xs \<Longrightarrow> x \<le> 0"
proof -
  have "(y::int) \<le> fold max xs y" for xs y
    by (induction xs arbitrary: y) (auto intro: order_trans [OF max.cobounded2])
  then have "x \<in> set xs \<Longrightarrow> x \<le> fold max xs y" for x y :: int and xs
  proof (induction xs arbitrary: y)
    case (Cons z xs)
    with \<open>\<And>xs y. y \<le> fold max xs y\<close> show ?case
      by (auto intro: order_trans [OF max.cobounded1])
  qed simp
  then show "fold max xs (0::int) = 0 \<Longrightarrow> x \<in> set xs \<Longrightarrow> x \<le> 0" by metis
qed

lemma budgets_distinct: "distinct (map bu_key (budgets_of c k f subject ip act p))"
  by (simp add: budgets_of_def Let_def bu_key_def)

text \<open>What an accepted request does to each bucket, and a refused one.\<close>

lemma consume_cases:
  assumes "consume_rate_budgets c k f subject ip act p now s = (r, s')"
  defines "us \<equiv> budgets_of c k f subject ip act p"
  shows "r \<noteq> Inr () \<Longrightarrow> s' = s"
    and "r = Inr () \<Longrightarrow> u \<in> set us \<Longrightarrow>
      (let b = reopen_bucket now u (case bucket_of act u s of Some b \<Rightarrow> b | None \<Rightarrow> new_bucket act now u)
       in bk_count b < bk_max b \<and> bucket_of act u s' = Some (spend now b))"
    and "r = Inr () \<Longrightarrow> bu_key u \<notin> bu_key ` set us \<or> act \<noteq> a \<Longrightarrow> bucket_of a u s' = bucket_of a u s"
proof -
  let ?e = "fold (ensure_bucket act now) us (buckets s)"
  let ?o = "fold (\<lambda>u. update_where (spends act u) (reopen_bucket now u)) us ?e"
  let ?m = "\<lambda>b. list_ex (\<lambda>u. spends act u b) us"
  show "r \<noteq> Inr () \<Longrightarrow> s' = s"
    using assms(1) by (auto simp: consume_rate_budgets_def Let_def split: sum.splits if_splits)
  have ok: "fold max (map (bucket_retry now) (filter ?m ?o)) 0 = 0"
      "s' = s\<lparr>buckets := update_where ?m (spend now) ?o\<rparr>" if "r = Inr ()"
    using assms(1) that unfolding us_def
    by (auto simp: consume_rate_budgets_def Let_def split: sum.splits if_splits)
  show "let b = reopen_bucket now u (case bucket_of act u s of Some b \<Rightarrow> b | None \<Rightarrow> new_bucket act now u)
       in bk_count b < bk_max b \<and> bucket_of act u s' = Some (spend now b)" if r: "r = Inr ()" and u: "u \<in> set us"
  proof -
    define b where "b = reopen_bucket now u (case bucket_of act u s of Some b \<Rightarrow> b | None \<Rightarrow> new_bucket act now u)"
    have f: "find (spends act u) ?o = Some b"
      using find_reopen_in [OF u, of act now ?e] find_ensure_in [OF u, of act now "buckets s"] budgets_distinct
      by (simp add: us_def b_def bucket_of_def)
    then have b: "b \<in> set ?o" "spends act u b" by (auto simp: find_Some_iff)
    with u have "?m b" by (auto simp: list_ex_iff)
    with b have "bucket_retry now b \<le> 0" using fold_max_zero [OF ok(1) [OF r], of "bucket_retry now b"] by auto
    then have "bk_count b < bk_max b" by (auto simp: bucket_retry_def split: if_splits)
    moreover have "bucket_of act u s' = Some (spend now b)"
      using find_update_where_same [of act u "spend now" ?m True ?o] f u ok(2) [OF r]
      by (auto simp: bucket_of_def list_ex_iff)
    ultimately show ?thesis by (simp add: b_def)
  qed
  show "bucket_of a u s' = bucket_of a u s" if r: "r = Inr ()" and n: "bu_key u \<notin> bu_key ` set us \<or> act \<noteq> a"
  proof -
    have "find (spends a u) (update_where ?m (spend now) ?o) = find (spends a u) ?o"
      using find_update_where_same [of a u "spend now" ?m False ?o] n
      by (auto simp: list_ex_iff spends_spends option.map_ident image_iff)
    then show ?thesis using find_reopen_all [OF n] find_ensure_all [OF n] ok(2) [OF r] by (simp add: bucket_of_def)
  qed
qed

definition bucket_valid :: "budget \<Rightarrow> bucket option \<Rightarrow> bool" where
  "bucket_valid u x = (0 \<le> bu_max u \<and> (case x of None \<Rightarrow> True | Some b \<Rightarrow> bk_max b = bu_max u \<and> bk_window b = bu_window u
     \<and> 0 \<le> bk_count b \<and> bk_count b \<le> bk_max b \<and> bk_started b \<le> bk_updated b))"

definition bucket_admits :: "rate_action \<Rightarrow> budget \<Rightarrow> instant \<Rightarrow> bucket option \<Rightarrow> bucket option \<Rightarrow> bool" where
  "bucket_admits act u now x y =
     (let b = reopen_bucket now u (case x of Some b \<Rightarrow> b | None \<Rightarrow> new_bucket act now u)
      in bk_count b < bk_max b \<and> y = Some (spend now b) \<and> (case x of None \<Rightarrow> True | Some b \<Rightarrow> bk_updated b \<le> now))"

definition bucket_idles :: "instant \<Rightarrow> bucket option \<Rightarrow> bucket option \<Rightarrow> bool" where
  "bucket_idles now x y =
     (y = x \<or> y = None \<and> (case x of None \<Rightarrow> False | Some b \<Rightarrow> bk_updated b + seconds (bk_window b) \<le> now))"

definition bucket_used :: "bucket option \<Rightarrow> int" where
  "bucket_used x = (case x of None \<Rightarrow> 0 | Some b \<Rightarrow> bk_count b)"

interpretation rate: window_counter "map_option bk_started" bucket_used "bucket_valid u" "bucket_admits act u"
    bucket_idles "bu_max u" "seconds (bu_window u)" for act u
proof
  note d = bucket_valid_def bucket_admits_def bucket_idles_def bucket_used_def
  show "bucket_valid u y" if "bucket_valid u x" "bucket_admits act u now x y" for x now y
    using that by (auto simp: d Let_def reopen_bucket_def new_bucket_def spend_def split: option.splits if_splits)
  show "bucket_valid u y" if "bucket_valid u x" "bucket_idles now x y" for x now y
    using that by (auto simp: d split: option.splits)
  show "0 \<le> bucket_used x \<and> bucket_used x \<le> bu_max u" if "bucket_valid u x" for x
    using that by (auto simp: d split: option.splits)
  show "bucket_used x = 0" if "map_option bk_started x = None" for x
    using that by (simp add: d)
  show "(map_option bk_started y = map_option bk_started x \<and> map_option bk_started x \<noteq> None \<and> bucket_used y = bucket_used x + 1)
      \<or> (map_option bk_started y = Some now \<and> bucket_used y = 1 \<and> (\<forall>w. map_option bk_started x = Some w \<longrightarrow> w + seconds (bu_window u) \<le> now))"
    if "bucket_valid u x" "bucket_admits act u now x y" for x now y
    using that by (cases x) (auto simp: d Let_def reopen_bucket_def new_bucket_def spend_def window_end_def split: if_splits)
  show "(map_option bk_started y = map_option bk_started x \<and> bucket_used y = bucket_used x)
      \<or> (map_option bk_started y = None \<and> bucket_used y = 0 \<and> (\<forall>w. map_option bk_started x = Some w \<longrightarrow> w + seconds (bu_window u) \<le> now))"
    if "bucket_valid u x" "bucket_idles now x y" for x now y
    using that by (auto simp: d split: option.splits)
qed

text \<open>Requests and purges in the order they commit.\<close>

datatype rate_call = Request string "string option" rate_action purpose instant | Purge instant

fun rate_time :: "rate_call \<Rightarrow> instant" where
  "rate_time (Request subject ip act p now) = now" | "rate_time (Purge now) = now"

fun rate_step :: "otp_settings \<Rightarrow> crypto \<Rightarrow> (string \<Rightarrow> string option) \<Rightarrow> rate_call \<Rightarrow> otp_db \<Rightarrow> bool \<times> otp_db" where
  "rate_step c k f (Request subject ip act p now) s =
     (let (r, s') = consume_rate_budgets c k f subject ip act p now s in (r = Inr (), s'))"
| "rate_step c k f (Purge now) s = (False, snd (purge_expired_rate_buckets c now s))"

fun charges :: "otp_settings \<Rightarrow> crypto \<Rightarrow> (string \<Rightarrow> string option) \<Rightarrow> rate_action \<Rightarrow> budget \<Rightarrow> rate_call \<Rightarrow> bool" where
  "charges c k f a u (Request subject ip act p now) \<longleftrightarrow> act = a \<and> u \<in> set (budgets_of c k f subject ip act p)"
| "charges c k f a u (Purge now) \<longleftrightarrow> False"

fun rate_run :: "otp_settings \<Rightarrow> crypto \<Rightarrow> (string \<Rightarrow> string option) \<Rightarrow> rate_call list \<Rightarrow> otp_db \<Rightarrow> (rate_call \<times> bool) list" where
  "rate_run c k f [] s = []"
| "rate_run c k f (x # xs) s = (let (ok, s') = rate_step c k f x s in (x, ok) # rate_run c k f xs s')"

text \<open>The buckets a database of these settings holds, none of them written after \<open>now\<close>.\<close>

definition bucket_ok :: "otp_settings \<Rightarrow> instant \<Rightarrow> bucket \<Rightarrow> bool" where
  "bucket_ok c now b = (let l = limits_of c (bk_action b) in
     bk_window b = rl_window l
     \<and> bk_max b = (case bk_scope b of Scope_identity \<Rightarrow> rl_identity l | Scope_ip \<Rightarrow> rl_ip l | Scope_global \<Rightarrow> rl_global l)
     \<and> 0 \<le> bk_count b \<and> bk_count b \<le> bk_max b \<and> bk_started b \<le> bk_updated b \<and> bk_updated b \<le> now)"

definition bucket_key :: "bucket \<Rightarrow> rate_scope \<times> string \<times> rate_action" where
  "bucket_key b = (bk_scope b, bk_subject b, bk_action b)"

definition buckets_ok :: "otp_settings \<Rightarrow> instant \<Rightarrow> otp_db \<Rightarrow> bool" where
  "buckets_ok c now s \<longleftrightarrow> list_all (bucket_ok c now) (buckets s)
     \<and> distinct (map bucket_key (buckets s))"

lemma budgets_limits:
  "u \<in> set (budgets_of c k f subject ip act p) \<Longrightarrow> bu_window u = rl_window (limits_of c act)
     \<and> bu_max u = (case bu_scope u of Scope_identity \<Rightarrow> rl_identity (limits_of c act)
         | Scope_ip \<Rightarrow> rl_ip (limits_of c act) | Scope_global \<Rightarrow> rl_global (limits_of c act))"
  by (auto simp: budgets_of_def Let_def)

lemma limits_valid_of: "otp_settings_valid c \<Longrightarrow> limits_valid (limits_of c act) \<and> rl_window (limits_of c act) \<le> bucket_retention c"
  by (cases act) (auto simp: otp_settings_valid_def)

lemma budget_max_pos: "otp_settings_valid c \<Longrightarrow> u \<in> set (budgets_of c k f subject ip act p) \<Longrightarrow> 0 < bu_max u"
  using limits_valid_of [of c act] by (auto simp: budgets_of_def Let_def limits_valid_def between_def)

lemma bucket_of_valid:
  assumes "otp_settings_valid c" and "buckets_ok c now s" and u: "u \<in> set (budgets_of c k f subject ip act p)"
  shows "bucket_valid u (bucket_of act u s)"
    and "bucket_of act u s = Some b \<Longrightarrow> bk_updated b \<le> now"
proof -
  have b: "bucket_ok c now b \<and> spends act u b" if "bucket_of act u s = Some b" for b
    using that assms(2) by (auto simp: bucket_of_def find_Some_iff buckets_ok_def list_all_iff)
  show "bucket_valid u (bucket_of act u s)"
    using b budget_max_pos [OF assms(1) u] budgets_limits [OF u]
    by (cases "bucket_of act u s") (auto simp: bucket_valid_def bucket_ok_def Let_def spends_def)
  show "bucket_of act u s = Some b \<Longrightarrow> bk_updated b \<le> now" using b by (auto simp: bucket_ok_def Let_def)
qed

lemma bucket_ok_later: "bucket_ok c t b \<Longrightarrow> t \<le> now \<Longrightarrow> bucket_ok c now b"
  by (auto simp: bucket_ok_def Let_def)

lemma fold_ensure_all:
  assumes "\<And>u. u \<in> set us \<Longrightarrow> P (new_bucket act now u)" and "list_all P bs"
  shows "list_all P (fold (ensure_bucket act now) us bs)"
  using assms by (induction us arbitrary: bs) (auto simp: ensure_bucket_def)

lemma fold_reopen_all:
  assumes "\<And>u b. u \<in> set us \<Longrightarrow> P b \<Longrightarrow> spends act u b \<Longrightarrow> P (reopen_bucket now u b)" and "list_all P bs"
  shows "list_all P (fold (\<lambda>u. update_where (spends act u) (reopen_bucket now u)) us bs)"
  using assms
proof (induction us arbitrary: bs)
  case (Cons u us)
  then have "list_all P (update_where (spends act u) (reopen_bucket now u) bs)"
    by (auto simp: list_all_iff set_update_where)
  with Cons show ?case by simp
qed simp

lemma bucket_key_simps [simp]:
  "bucket_key (reopen_bucket now u b) = bucket_key b" "bucket_key (spend now b) = bucket_key b"
  "bucket_key (new_bucket act now u) = (bu_scope u, bu_subject u, act)"
  by (simp_all add: bucket_key_def reopen_bucket_def spend_def new_bucket_def)

lemma ensure_keys:
  "distinct (map bucket_key bs) \<Longrightarrow> distinct (map bucket_key (ensure_bucket act now u bs))"
  by (simp add: ensure_bucket_def) (auto simp: list_ex_iff bucket_key_def spends_def)

lemma fold_keys:
  "distinct (map bucket_key bs) \<Longrightarrow> distinct (map bucket_key (fold (ensure_bucket act now) us bs))"
  "map bucket_key (fold (\<lambda>u. update_where (spends act u) (reopen_bucket now u)) us bs) = map bucket_key bs"
  "map bucket_key (update_where q (spend now) bs) = map bucket_key bs"
proof -
  show "distinct (map bucket_key bs) \<Longrightarrow> distinct (map bucket_key (fold (ensure_bucket act now) us bs))"
    by (induction us arbitrary: bs) (simp_all add: ensure_keys)
  show "map bucket_key (fold (\<lambda>u. update_where (spends act u) (reopen_bucket now u)) us bs) = map bucket_key bs"
    by (induction us arbitrary: bs) (simp_all add: map_update_where)
qed (simp add: map_update_where)

lemma consume_ok:
  assumes c: "otp_settings_valid c" and s: "buckets_ok c t s" and t: "t \<le> now"
    and r: "consume_rate_budgets c k f subject ip act p now s = (r, s')"
  shows "buckets_ok c now s'"
proof (cases "r = Inr ()")
  case False
  with consume_cases(1) [OF r] s t show ?thesis by (auto simp: buckets_ok_def list_all_iff intro: bucket_ok_later)
next
  case True
  let ?us = "budgets_of c k f subject ip act p"
  let ?e = "fold (ensure_bucket act now) ?us (buckets s)"
  let ?o = "fold (\<lambda>u. update_where (spends act u) (reopen_bucket now u)) ?us ?e"
  let ?m = "\<lambda>b. list_ex (\<lambda>u. spends act u b) ?us"
  define P where "P b \<longleftrightarrow> bucket_ok c now (spend now b\<lparr>bk_count := bk_count b\<rparr>) \<and> (\<not> ?m b \<longrightarrow> bucket_ok c now b)" for b
  have m: "?m b" if "u \<in> set ?us" "spends act u b" for u b using that by (auto simp: list_ex_iff)
  have new: "P (new_bucket act now u)" if "u \<in> set ?us" for u
    using budgets_limits [OF that] budget_max_pos [OF c that]
    by (cases "bu_scope u") (simp_all add: P_def bucket_ok_def new_bucket_def spend_def Let_def)
  have re: "P (reopen_bucket now u b)" if "u \<in> set ?us" "P b" "spends act u b" for u b
    using budgets_limits [OF that(1)] budget_max_pos [OF c that(1)] that(2,3) m [OF that(1), of "reopen_bucket now u b"]
    by (cases "bu_scope u") (auto simp: P_def bucket_ok_def reopen_bucket_def spend_def Let_def spends_def)
  have "list_all P (buckets s)"
    using s t by (auto simp: buckets_ok_def list_all_iff P_def bucket_ok_def spend_def Let_def)
  then have o: "list_all P ?o" by (intro fold_reopen_all fold_ensure_all new re)
  have ok: "fold max (map (bucket_retry now) (filter ?m ?o)) 0 = 0" "s' = s\<lparr>buckets := update_where ?m (spend now) ?o\<rparr>"
    using r True by (auto simp: consume_rate_budgets_def Let_def split: sum.splits if_splits)
  have "bucket_ok c now (spend now b)" if "b \<in> set ?o" "?m b" for b
  proof -
    have "bucket_retry now b \<le> 0" using fold_max_zero [OF ok(1), of "bucket_retry now b"] that by auto
    with o that show ?thesis by (auto simp: P_def bucket_ok_def spend_def Let_def bucket_retry_def list_all_iff split: if_splits)
  qed
  moreover have "distinct (map bucket_key (buckets s'))"
    using s by (simp add: ok(2) fold_keys buckets_ok_def)
  ultimately show ?thesis using o by (auto simp: ok(2) buckets_ok_def list_all_iff set_update_where P_def)
qed

lemma purge_ok: "buckets_ok c t s \<Longrightarrow> t \<le> now \<Longrightarrow> buckets_ok c now (snd (purge_expired_rate_buckets c now' s))"
  by (auto simp: purge_expired_rate_buckets_def Let_def buckets_ok_def list_all_iff distinct_map_filter intro: bucket_ok_later)

lemma find_filter: "find p bs = Some b \<Longrightarrow> q b \<Longrightarrow> find p (filter q bs) = Some b"
  by (induction bs) (auto split: if_splits)

lemma rate_step_bucket:
  assumes c: "otp_settings_valid c" and s: "buckets_ok c t s" and t: "t \<le> rate_time x" and u: "u \<in> set (budgets_of c k f sub ip act p)"
    and x: "rate_step c k f x s = (ok, s')"
  shows "if ok \<and> charges c k f act u x then bucket_admits act u (rate_time x) (bucket_of act u s) (bucket_of act u s')
    else bucket_idles (rate_time x) (bucket_of act u s) (bucket_of act u s')"
proof (cases x)
  case (Request subject ip' act' p' now)
  let ?us = "budgets_of c k f subject ip' act' p'"
  obtain r where r: "consume_rate_budgets c k f subject ip' act' p' now s = (r, s')" "ok \<longleftrightarrow> r = Inr ()"
    using x Request by (auto split: prod.splits)
  note k = consume_cases [OF r(1)]
  show ?thesis
  proof (cases "r = Inr ()")
    case False
    with k(1) r(2) show ?thesis by (simp add: bucket_idles_def)
  next
    case True
    show ?thesis
    proof (cases "act' = act \<and> u \<in> set ?us")
      case chg: True
      have "\<And>b. bucket_of act u s = Some b \<Longrightarrow> bk_updated b \<le> now"
        using bucket_of_valid(2) [OF c s u] t Request by force
      moreover have "u \<in> set ?us" and a: "act' = act" using chg by blast+
      note k(2) [OF True this(1)]
      ultimately show ?thesis using chg [unfolded a] r(2) True Request unfolding a
        by (cases "bucket_of act u s") (simp_all add: bucket_admits_def Let_def)
    next
      case chg: False
      have "bu_key u \<notin> bu_key ` set ?us \<or> act' \<noteq> act"
      proof (rule ccontr)
        assume "\<not> ?thesis"
        then obtain v where v: "v \<in> set ?us" "bu_key v = bu_key u" "act' = act" by auto
        then have "v = u" using budgets_limits [OF v(1) [unfolded v(3)]] budgets_limits [OF u]
          by (intro budget.equality) (simp_all add: bu_key_def)
        with chg v show False by simp
      qed
      from k(3) [OF True this] chg Request show ?thesis by (auto simp: bucket_idles_def)
    qed
  qed
next
  case (Purge now)
  then have s': "buckets s' = filter (\<lambda>b. \<not> bk_updated b < now - seconds (bucket_retention c)) (buckets s)" and n: "\<not> ok"
    using x by (auto simp: purge_expired_rate_buckets_def Let_def)
  show ?thesis
  proof (cases "bucket_of act u s")
    case None
    then have "bucket_of act u s' = None" using s' by (auto simp: bucket_of_def find_None_iff)
    with None n show ?thesis by (simp add: bucket_idles_def)
  next
    case (Some b)
    then have b: "b \<in> set (buckets s)" "spends act u b" by (auto simp: bucket_of_def find_Some_iff)
    show ?thesis
    proof (cases "bk_updated b < now - seconds (bucket_retention c)")
      case False
      with Some show ?thesis using s' n find_filter [of "spends act u" "buckets s" b "\<lambda>b. \<not> bk_updated b < now - seconds (bucket_retention c)"]
        by (simp add: bucket_of_def bucket_idles_def)
    next
      case True
      have "\<not> spends act u b'" if "b' \<in> set (buckets s')" for b'
        using that b s True unfolding s' buckets_ok_def distinct_map by (auto simp: inj_on_def spends_def bucket_key_def)
      then have "bucket_of act u s' = None" by (auto simp: bucket_of_def find_None_iff)
      moreover have "bk_window b \<le> bucket_retention c"
        using s b limits_valid_of [OF c, of "bk_action b"] by (auto simp: buckets_ok_def list_all_iff bucket_ok_def Let_def)
      ultimately show ?thesis using True n Some Purge by (simp add: bucket_idles_def seconds_def)
    qed
  qed
qed

lemma rate_step_ok:
  "otp_settings_valid c \<Longrightarrow> buckets_ok c t s \<Longrightarrow> t \<le> rate_time x \<Longrightarrow> rate_step c k f x s = (ok, s') \<Longrightarrow> buckets_ok c (rate_time x) s'"
  by (cases x) (auto split: prod.splits intro: consume_ok dest: purge_ok)

lemma rate_run_counts:
  assumes "otp_settings_valid c" and u: "u \<in> set (budgets_of c k f sub ip act p)"
  shows "buckets_ok c t s \<Longrightarrow> sorted_wrt (\<le>) (t # map rate_time xs) \<Longrightarrow>
    \<exists>e. rate.counts act u (map (\<lambda>(x, ok). (rate_time x, ok \<and> charges c k f act u x)) (rate_run c k f xs s)) (bucket_of act u s) e"
proof (induction xs arbitrary: s t)
  case Nil
  show ?case by (auto intro: rate.counts.intros)
next
  case (Cons x xs)
  obtain ok s' where x: "rate_step c k f x s = (ok, s')" by fastforce
  have t: "t \<le> rate_time x" using Cons.prems(2) by simp
  from rate_step_ok [OF assms(1) Cons.prems(1) t x]
  obtain e where e: "rate.counts act u (map (\<lambda>(x, ok). (rate_time x, ok \<and> charges c k f act u x)) (rate_run c k f xs s')) (bucket_of act u s') e"
    using Cons.IH Cons.prems(2) by fastforce
  show ?case
  proof (cases "ok \<and> charges c k f act u x")
    case True
    with rate_step_bucket [OF assms(1) Cons.prems(1) t u x] rate.counts_admit [OF _ e, of "rate_time x"] x show ?thesis by auto
  next
    case False
    with rate_step_bucket [OF assms(1) Cons.prems(1) t u x] have "bucket_idles (rate_time x) (bucket_of act u s) (bucket_of act u s')" by simp
    from rate.counts_idle [OF this e] False x show ?thesis by auto
  qed
qed

lemma map_fst_rate_run: "map fst (rate_run c k f xs s) = xs"
  by (induction xs arbitrary: s) (auto split: prod.splits)

text \<open>Property C23.
  Rate budgets: however requests, addresses and purges interleave, one budget (of an identity, an address
  or the whole service) accepts at most twice its limit in any span as long as its window; a fixed window
  can be spent just before and just after it reopens.\<close>

theorem rate_budget_bounded:
  assumes "otp_settings_valid c" and "buckets_ok c t s"
    and "u \<in> set (budgets_of c k f subject ip act p)"
    and "sorted_wrt (\<le>) (t # map rate_time xs)"
    and "list_all (\<lambda>x. rate_time x < t + seconds (bu_window u)) xs"
  shows "int (length (filter (\<lambda>(x, ok). ok \<and> charges c k f act u x) (rate_run c k f xs s))) \<le> 2 * bu_max u"
proof -
  let ?r = "map (\<lambda>(x, ok). (rate_time x, ok \<and> charges c k f act u x)) (rate_run c k f xs s)"
  from rate_run_counts [OF assms(1,3,2,4)] obtain e where e: "rate.counts act u ?r (bucket_of act u s) e" by blast
  have v: "bucket_valid u (bucket_of act u s)" using bucket_of_valid(1) [OF assms(1,2,3)] .
  have "t \<le> now \<and> now < t + seconds (bu_window u)" if "(now, b) \<in> set ?r" for now b
  proof -
    from that obtain x ok where x: "(x, ok) \<in> set (rate_run c k f xs s)" and n: "now = rate_time x" by auto
    from x have "x \<in> set (map fst (rate_run c k f xs s))" by force
    then have "x \<in> set xs" unfolding map_fst_rate_run .
    with n assms(4,5) show ?thesis by (auto simp: list_all_iff)
  qed
  then have "rate.admitted ?r \<le> rate.room u t (bucket_of act u s)" by (rule rate.admitted_le_room [OF e v])
  also have "\<dots> \<le> 2 * bu_max u" using v by (auto simp: rate.room_def bucket_valid_def bucket_used_def split: option.splits)
  finally show ?thesis by (simp add: rate.admitted_def filter_map comp_def case_prod_unfold)
qed

theorem rate_budget_bounded_witness:
  "int (length (filter (\<lambda>(x, ok). ok \<and> charges default_otp_settings
        \<lparr>ck_lookup = [], ck_version = ''v1'', ck_encrypt = (\<lambda>x. x), ck_decrypt = (\<lambda>x. x)\<rparr> (\<lambda>_. None) Act_issue
        (budgets_of default_otp_settings \<lparr>ck_lookup = [], ck_version = ''v1'', ck_encrypt = (\<lambda>x. x), ck_decrypt = (\<lambda>x. x)\<rparr>
           (\<lambda>_. None) (replicate 64 (CHR ''a'')) None Act_issue Signup ! 1) x)
      (rate_run default_otp_settings \<lparr>ck_lookup = [], ck_version = ''v1'', ck_encrypt = (\<lambda>x. x), ck_decrypt = (\<lambda>x. x)\<rparr> (\<lambda>_. None)
         [Request (replicate 64 (CHR ''a'')) None Act_issue Signup 0, Purge (seconds 60)] empty_otp_db))) \<le> 2 * 5"
proof -
  define k where "k = \<lparr>ck_lookup = [], ck_version = ''v1'', ck_encrypt = (\<lambda>x. x), ck_decrypt = (\<lambda>x. x)\<rparr>"
  define u where "u = budgets_of default_otp_settings k (\<lambda>_. None) (replicate 64 (CHR ''a'')) None Act_issue Signup ! 1"
  have u: "u \<in> set (budgets_of default_otp_settings k (\<lambda>_. None) (replicate 64 (CHR ''a'')) None Act_issue Signup)"
    "bu_max u = 5" "bu_window u = 10 * 60"
    by (simp_all add: u_def budgets_of_def default_otp_settings_def Let_def)
  have "buckets_ok default_otp_settings 0 empty_otp_db" by (simp add: buckets_ok_def empty_otp_db_def)
  from rate_budget_bounded [OF default_settings_valid this u(1),
      of "[Request (replicate 64 (CHR ''a'')) None Act_issue Signup 0, Purge (seconds 60)]"]
  show ?thesis unfolding k_def [symmetric] u_def [symmetric] by (simp add: u(2,3) seconds_def)
qed

end
