(* ===== verification/OtpOutbox.thy ===== *)
theory OtpOutbox
  imports OtpAuthority
begin

text \<open>
  \<open>services/otp_outbox.py\<close>: the delivery of a one-time password, staged with its challenge, claimed
  under a lease, handed to the provider, and settled by the holder of the claim only. A candidate
  becomes the verifier when the provider accepted it. Every step is one transaction of its own.
\<close>

section \<open>Staging\<close>

definition provider_idempotency_key :: "uid \<Rightarrow> string" where
  "provider_idempotency_key i = hmac_sha256_hex (utf8 ''nyayone:otp-provider-idempotency:v1'') (utf8 (uuid_str i))"

definition claim_hash :: "crypto \<Rightarrow> string \<Rightarrow> string" where
  "claim_hash k token = keyed_hash k (''otp-outbox-claim:v1:'' @ token)"

definition receipt_hash :: "crypto \<Rightarrow> string \<Rightarrow> string" where
  "receipt_hash k receipt = keyed_hash k (''otp-provider-receipt:v1:'' @ receipt)"

definition staged_delivery :: "otp_settings \<Rightarrow> crypto \<Rightarrow> uid \<Rightarrow> uid \<Rightarrow> string \<Rightarrow> string \<Rightarrow> purpose \<Rightarrow> delivery" where
  "staged_delivery c k i ch destination_ct code p = \<lparr>dl_id = i, dl_challenge = ch, dl_destination = Some destination_ct,
     dl_code = Some (ck_encrypt k code), dl_purpose = p, dl_status = Q_pending, dl_attempts = 0, dl_max = outbox_max_attempts c,
     dl_error = None, dl_delivered = None, dl_provider_key = provider_idempotency_key i, dl_claim = None, dl_claimed_at = None,
     dl_lease = None, dl_next = None, dl_receipt = None, dl_legacy = False\<rparr>"

definition otp_enqueue ::
  "otp_settings \<Rightarrow> crypto \<Rightarrow> uid \<Rightarrow> string \<Rightarrow> string \<Rightarrow> purpose \<Rightarrow> otp_db \<Rightarrow> otp_exn + uid \<times> otp_db" where
  "otp_enqueue c k ch destination_ct code p s =
     (case insert_delivery (staged_delivery c k (otp_next s) ch destination_ct code p) s of
        None \<Rightarrow> Inl Otp_integrity | Some t \<Rightarrow> Inr (otp_next s, otp_bump t))"

section \<open>The delivery graph\<close>

text \<open>\<open>ORDER BY id\<close> fixes the order of the locks only: the flows are listed as the table has them.\<close>

record delivery_graph =
  dg_authority :: authority
  dg_flows :: "flow list"
  dg_challenge :: challenge
  dg_row :: delivery

definition locked_graph :: "otp_db \<Rightarrow> uid \<Rightarrow> delivery_graph option" where
  "locked_graph s i =
     (case find_row dl_id i (deliveries s) of None \<Rightarrow> None | Some d \<Rightarrow>
      case get_challenge s (dl_challenge d) of None \<Rightarrow> None | Some ch \<Rightarrow>
      case get_authority s (ch_authority ch) of None \<Rightarrow> None | Some a \<Rightarrow>
        if Some (ch_registration ch) \<noteq> oa_registration a \<or> ch_purpose ch \<noteq> oa_purpose a \<or> dl_purpose d \<noteq> oa_purpose a then None
        else Some \<lparr>dg_authority = a, dg_flows = filter (\<lambda>f. fl_authority f = oa_id a) (flows s), dg_challenge = ch, dg_row = d\<rparr>)"

definition delivery_flow_states :: "flow_state list" where
  "delivery_flow_states = [F_pending, F_code_sent, F_locked]"

text \<open>The one live flow that may receive a code, or the reason there is none.\<close>

definition authorized_delivery_flow :: "delivery_graph \<Rightarrow> instant \<Rightarrow> string + flow" where
  "authorized_delivery_flow g now =
     (let a = dg_authority g; ch = dg_challenge g in
      case filter (\<lambda>f. fl_state f \<in> set live_flow_states) (dg_flows g) of
        [] \<Rightarrow> Inl (if list_ex (\<lambda>f. fl_state f = F_expired) (dg_flows g) then ''otp_flow_expired'' else ''otp_flow_missing'')
      | [f] \<Rightarrow>
          if fl_authority f \<noteq> oa_id a \<or> fl_subject f \<noteq> oa_subject a \<or> fl_registration f \<noteq> oa_registration a
             \<or> fl_registration f \<noteq> Some (ch_registration ch) \<or> fl_purpose f \<noteq> oa_purpose a \<or> fl_purpose f \<noteq> ch_purpose ch
          then Inl ''otp_flow_ambiguous''
          else if fl_state f \<notin> set delivery_flow_states then Inl ''otp_flow_unavailable''
          else if fl_expires f \<le> now then Inl ''otp_flow_expired''
          else Inr f
      | _ \<Rightarrow> Inl ''otp_flow_ambiguous'')"

definition flow_unavailable_reasons :: "string list" where
  "flow_unavailable_reasons = [''otp_flow_ambiguous'', ''otp_flow_expired'', ''otp_flow_missing'', ''otp_flow_unavailable'']"

section \<open>Voiding\<close>

definition relayable :: "delivery \<Rightarrow> bool" where
  "relayable d \<longleftrightarrow> dl_status d \<in> {Q_pending, Q_claimed, Q_failed}"

definition clear_claim :: "delivery \<Rightarrow> delivery" where
  "clear_claim d = d\<lparr>dl_claim := None, dl_claimed_at := None, dl_lease := None\<rparr>"

definition erase_payload :: "delivery \<Rightarrow> delivery" where
  "erase_payload d = d\<lparr>dl_code := None, dl_destination := None, dl_legacy := False\<rparr>"

definition void_row :: "string \<Rightarrow> delivery \<Rightarrow> delivery" where
  "void_row reason d = erase_payload (clear_claim (d\<lparr>dl_status := Q_void, dl_error := Some reason, dl_next := None\<rparr>))"

definition void_challenge :: "instant \<Rightarrow> challenge \<Rightarrow> challenge" where
  "void_challenge now ch = (if ch_state ch \<in> {D_active, D_pending}
     then ch\<lparr>ch_state := D_void, ch_consumed := Some (case ch_consumed ch of Some x \<Rightarrow> x | None \<Rightarrow> now)\<rparr> else ch)"

definition clear_active :: "authority \<Rightarrow> authority" where
  "clear_active a = a\<lparr>oa_active_expires := None\<rparr>"

definition void_delivery :: "instant \<Rightarrow> string \<Rightarrow> uid \<Rightarrow> uid \<Rightarrow> uid \<Rightarrow> otp_db \<Rightarrow> otp_db" where
  "void_delivery now reason a ch i s =
     (let s1 = upd_challenge ch (void_challenge now) (upd_delivery i (void_row reason) s) in
      if (case get_challenge s ch of Some x \<Rightarrow> ch_state x = D_active | None \<Rightarrow> False) then upd_authority a clear_active s1 else s1)"

definition expire_flow :: "instant \<Rightarrow> flow \<Rightarrow> flow" where
  "expire_flow now f = f\<lparr>fl_state := F_expired, fl_consumed := Some now, fl_destination := None, fl_key_version := None\<rparr>"

definition expire_current_flows :: "uid \<Rightarrow> instant \<Rightarrow> otp_db \<Rightarrow> otp_db" where
  "expire_current_flows a now s =
     s\<lparr>flows := update_where (\<lambda>f. fl_authority f = a \<and> fl_state f \<in> set delivery_flow_states) (expire_flow now) (flows s)\<rparr>"

text \<open>Every verifier and every relayable delivery of the authority, challenge by challenge.\<close>

definition fence_challenge :: "uid \<Rightarrow> instant \<Rightarrow> string \<Rightarrow> uid \<Rightarrow> otp_db \<Rightarrow> otp_db" where
  "fence_challenge a now reason ch s =
     (let rows = map dl_id (filter (\<lambda>d. dl_challenge d = ch \<and> relayable d) (deliveries s));
          s1 = fold (void_delivery now reason a ch) rows s
      in upd_authority a clear_active (upd_challenge ch (void_challenge now) s1))"

definition live_challenges :: "uid \<Rightarrow> otp_db \<Rightarrow> uid list" where
  "live_challenges a s = map ch_id (filter (\<lambda>ch. ch_authority ch = a \<and> ch_state ch \<in> {D_active, D_pending}) (challenges s))"

definition fence_expired_flow_deliveries :: "uid \<Rightarrow> instant \<Rightarrow> string \<Rightarrow> otp_db \<Rightarrow> otp_db" where
  "fence_expired_flow_deliveries a now reason s = fold (fence_challenge a now reason) (live_challenges a s) s"

definition fence_unavailable_delivery :: "delivery_graph \<Rightarrow> instant \<Rightarrow> string \<Rightarrow> otp_db \<Rightarrow> otp_db" where
  "fence_unavailable_delivery g now reason s =
     (let a = oa_id (dg_authority g);
          s1 = fence_expired_flow_deliveries a now ''otp_flow_expired'' (expire_current_flows a now s)
      in if relayable (dg_row g) then void_delivery now reason a (ch_id (dg_challenge g)) (dl_id (dg_row g)) s1 else s1)"

definition active_of :: "uid \<Rightarrow> otp_db \<Rightarrow> challenge option" where
  "active_of a s = find (\<lambda>ch. ch_authority ch = a \<and> ch_state ch = D_active) (challenges s)"

definition reopen_flow :: "flow \<Rightarrow> flow" where
  "reopen_flow f = f\<lparr>fl_state := F_pending, fl_challenge := None, fl_consumed := None\<rparr>"

definition reconcile_voided_candidate :: "authority \<Rightarrow> otp_db \<Rightarrow> otp_db" where
  "reconcile_voided_candidate a s = s\<lparr>flows := update_where
     (\<lambda>f. fl_authority f = oa_id a \<and> fl_registration f = oa_registration a \<and> oa_registration a \<noteq> None
        \<and> fl_state f \<in> set delivery_flow_states)
     (case active_of (oa_id a) s of None \<Rightarrow> reopen_flow
      | Some prior \<Rightarrow> (\<lambda>f. f\<lparr>fl_challenge := Some (ch_id prior), fl_state := F_code_sent\<rparr>)) (flows s)\<rparr>"

text \<open>A candidate that is voided hands its flow back to the verifier before it.\<close>

definition void_candidate :: "delivery_graph \<Rightarrow> instant \<Rightarrow> string \<Rightarrow> otp_db \<Rightarrow> otp_db" where
  "void_candidate g now reason s =
     (let s1 = void_delivery now reason (oa_id (dg_authority g)) (ch_id (dg_challenge g)) (dl_id (dg_row g)) s in
      if ch_state (dg_challenge g) = D_pending then reconcile_voided_candidate (dg_authority g) s1 else s1)"

section \<open>Claiming\<close>

record delivery_claim =
  dc_outbox :: uid
  dc_challenge :: uid
  dc_token_hash :: string
  dc_provider_key :: string
  dc_destination :: string
  dc_code :: string

datatype claim_result = Already_sent | Not_claimed | Flow_lost string | Claimed delivery_claim

definition payload_missing :: "delivery \<Rightarrow> bool" where
  "payload_missing d \<longleftrightarrow> dl_code d \<in> {None, Some []} \<or> dl_destination d \<in> {None, Some []} \<or> length (dl_provider_key d) \<noteq> 64"

definition take_claim :: "otp_settings \<Rightarrow> string \<Rightarrow> instant \<Rightarrow> delivery \<Rightarrow> delivery" where
  "take_claim c token_hash now d = d\<lparr>dl_status := Q_claimed, dl_claim := Some token_hash, dl_claimed_at := Some now,
     dl_lease := Some (now + seconds (outbox_lease c)), dl_next := None, dl_attempts := dl_attempts d + 1\<rparr>"

definition after :: "instant option \<Rightarrow> instant \<Rightarrow> bool" where
  "after x now = (case x of Some t \<Rightarrow> now < t | None \<Rightarrow> False)"

definition otp_claim :: "otp_settings \<Rightarrow> crypto \<Rightarrow> string \<Rightarrow> instant \<Rightarrow> uid \<Rightarrow> otp_db \<Rightarrow> claim_result \<times> otp_db" where
  "otp_claim c k token now i s =
     (case locked_graph s i of None \<Rightarrow> (Not_claimed, s) | Some g \<Rightarrow>
      let d = dg_row g; ch = dg_challenge g in
      if dl_status d = Q_sent then (Already_sent, s)
      else if dl_status d = Q_void then
        (case dl_error d of Some r \<Rightarrow> if r \<in> set flow_unavailable_reasons then Flow_lost r else Not_claimed
           | None \<Rightarrow> Not_claimed, s)
      else case authorized_delivery_flow g now of
        Inl reason \<Rightarrow> (Flow_lost reason, fence_unavailable_delivery g now reason s)
      | Inr _ \<Rightarrow>
        if dl_status d = Q_claimed \<and> after (dl_lease d) now then (Not_claimed, s)
        else if dl_status d = Q_failed \<and> after (dl_next d) now then (Not_claimed, s)
        else if dl_max d \<le> dl_attempts d then (Not_claimed, void_candidate g now ''provider_attempts_exhausted'' s)
        else if ch_state ch \<notin> {D_active, D_pending} \<or> ch_expires ch \<le> now then
          (Not_claimed, void_candidate g now (if ch_expires ch \<le> now then ''challenge_expired'' else ''challenge_inactive'') s)
        else if payload_missing d then (Not_claimed, void_candidate g now ''delivery_payload_invalid'' s)
        else let h = claim_hash k token in
          (Claimed \<lparr>dc_outbox = dl_id d, dc_challenge = ch_id ch, dc_token_hash = h, dc_provider_key = dl_provider_key d,
             dc_destination = ck_decrypt k (the (dl_destination d)), dc_code = ck_decrypt k (the (dl_code d))\<rparr>,
           upd_delivery i (take_claim c h now) s))"

section \<open>The provider\<close>

text \<open>What \<open>send_idempotent\<close> does: raise the send error, or return a receipt or \<open>None\<close>.\<close>

datatype provider_answer = Send_failed | Receipt "string option"

type_synonym otp_sender = "string \<Rightarrow> string \<Rightarrow> string \<Rightarrow> provider_answer"

definition receipt_valid :: "string option \<Rightarrow> bool" where
  "receipt_valid r = (case r of None \<Rightarrow> True
     | Some x \<Rightarrow> x \<noteq> [] \<and> length x \<le> 512 \<and> list_all (\<lambda>ch. 32 \<le> (of_char ch :: nat)) x)"

definition provider_send :: "otp_sender \<Rightarrow> delivery_claim \<Rightarrow> otp_exn + string option" where
  "provider_send sender dc = (case sender (dc_destination dc) (dc_code dc) (dc_provider_key dc) of
       Send_failed \<Rightarrow> Inl OtpSendError
     | Receipt r \<Rightarrow> if receipt_valid r then Inr r else Inl OtpSendError)"

section \<open>Settling\<close>

definition supersede :: "instant \<Rightarrow> challenge \<Rightarrow> challenge" where
  "supersede now ch = ch\<lparr>ch_state := D_superseded, ch_consumed := Some now\<rparr>"

definition activate :: "otp_settings \<Rightarrow> authority \<Rightarrow> instant \<Rightarrow> instant \<Rightarrow> challenge \<Rightarrow> challenge" where
  "activate c a deadline now ch = ch\<lparr>ch_state := D_active, ch_consumed := None,
     ch_expires := min (now + seconds (challenge_ttl c)) deadline, ch_attempts := oa_failed a, ch_max := oa_max a,
     ch_locked := oa_locked_until a\<rparr>"

definition activate_candidate :: "otp_settings \<Rightarrow> authority \<Rightarrow> challenge \<Rightarrow> flow \<Rightarrow> instant \<Rightarrow> otp_db \<Rightarrow> otp_db" where
  "activate_candidate c a ch f now s =
     (if ch_state ch \<noteq> D_pending then s
      else let s1 = (case find (\<lambda>x. ch_authority x = oa_id a \<and> ch_state x = D_active \<and> ch_id x \<noteq> ch_id ch) (challenges s) of
                       None \<Rightarrow> s | Some prior \<Rightarrow> upd_challenge (ch_id prior) (supersede now) s);
               e = min (now + seconds (challenge_ttl c)) (fl_expires f)
           in upd_authority (oa_id a) (\<lambda>x. x\<lparr>oa_active_expires := Some e\<rparr>)
                (upd_challenge (ch_id ch) (activate c a (fl_expires f) now) s1))"

text \<open>Only the holder of the claim settles it.\<close>

definition holds_claim :: "delivery_claim \<Rightarrow> delivery \<Rightarrow> bool" where
  "holds_claim dc d \<longleftrightarrow> dl_status d = Q_claimed \<and> dl_claim d = Some (dc_token_hash dc)"

definition mark_sent :: "crypto \<Rightarrow> string option \<Rightarrow> instant \<Rightarrow> delivery \<Rightarrow> delivery" where
  "mark_sent k receipt now d = erase_payload (clear_claim (d\<lparr>dl_status := Q_sent, dl_error := None,
     dl_delivered := Some now, dl_next := None,
     dl_receipt := (case receipt of Some r \<Rightarrow> if r = [] then None else Some (receipt_hash k r) | None \<Rightarrow> None)\<rparr>))"

definition finalize_success ::
  "otp_settings \<Rightarrow> crypto \<Rightarrow> delivery_claim \<Rightarrow> string option \<Rightarrow> instant \<Rightarrow> otp_db \<Rightarrow> (string + bool) \<times> otp_db" where
  "finalize_success c k dc receipt now s =
     (case locked_graph s (dc_outbox dc) of None \<Rightarrow> (Inr False, s) | Some g \<Rightarrow>
      if \<not> holds_claim dc (dg_row g) then (Inr False, s)
      else case authorized_delivery_flow g now of
        Inl reason \<Rightarrow> (Inl reason, fence_unavailable_delivery g now reason s)
      | Inr f \<Rightarrow> (Inr True,
          upd_flow (fl_id f) (\<lambda>f. f\<lparr>fl_challenge := Some (ch_id (dg_challenge g)), fl_state := F_code_sent\<rparr>)
            (upd_delivery (dc_outbox dc) (mark_sent k receipt now)
              (activate_candidate c (dg_authority g) (dg_challenge g) f now s))))"

definition retry_delay :: "otp_settings \<Rightarrow> int \<Rightarrow> int" where
  "retry_delay c attempts = min (outbox_retry_max c)
     (outbox_retry_base c * 2 ^ nat (min (max 0 (attempts - 1)) (outbox_max_attempts c - 1)))"

definition mark_failed :: "otp_settings \<Rightarrow> instant \<Rightarrow> delivery \<Rightarrow> delivery" where
  "mark_failed c now d = (clear_claim d)\<lparr>dl_status := Q_failed, dl_error := Some ''provider_send_failed'',
     dl_next := Some (now + seconds (retry_delay c (dl_attempts d)))\<rparr>"

definition finalize_failure :: "otp_settings \<Rightarrow> delivery_claim \<Rightarrow> instant \<Rightarrow> otp_db \<Rightarrow> string option \<times> otp_db" where
  "finalize_failure c dc now s =
     (case locked_graph s (dc_outbox dc) of None \<Rightarrow> (None, s) | Some g \<Rightarrow>
      if \<not> holds_claim dc (dg_row g) then (None, s)
      else case authorized_delivery_flow g now of
        Inl reason \<Rightarrow> (Some reason, fence_unavailable_delivery g now reason s)
      | Inr _ \<Rightarrow> (None,
          if dl_max (dg_row g) \<le> dl_attempts (dg_row g) then void_candidate g now ''provider_attempts_exhausted'' s
          else upd_delivery (dc_outbox dc) (mark_failed c now) s))"

text \<open>
  One delivery: the claim commits, the provider is called, other transactions may commit meanwhile
  (\<open>others\<close>), and the outcome is settled at a later instant. \<open>loud\<close> is \<open>raise_on_failure\<close>.
\<close>

definition otp_run_delivery :: "otp_settings \<Rightarrow> crypto \<Rightarrow> string \<Rightarrow> otp_sender \<Rightarrow> (otp_db \<Rightarrow> otp_db) \<Rightarrow> bool \<Rightarrow> instant
    \<Rightarrow> instant \<Rightarrow> uid \<Rightarrow> otp_db \<Rightarrow> bool orun" where
  "otp_run_delivery c k token sender others loud now later i s =
     (case otp_claim c k token now i s of
        (Already_sent, t) \<Rightarrow> (Inr False, t)
      | (Not_claimed, t) \<Rightarrow> (if loud then Inl OtpSendError else Inr False, t)
      | (Flow_lost reason, t) \<Rightarrow> (if loud then Inl (OtpFlowUnavailable reason) else Inr False, t)
      | (Claimed dc, t) \<Rightarrow> (case provider_send sender dc of
          Inl e \<Rightarrow> (case finalize_failure c dc later (others t) of
              (Some reason, u) \<Rightarrow> (if loud then Inl (OtpFlowUnavailable reason) else Inr False, u)
            | (None, u) \<Rightarrow> (if loud then Inl e else Inr False, u))
        | Inr receipt \<Rightarrow> (case finalize_success c k dc receipt later (others t) of
              (Inl reason, u) \<Rightarrow> (if loud then Inl (OtpFlowUnavailable reason) else Inr False, u)
            | (Inr b, u) \<Rightarrow> (Inr b, u))))"

end
