(* ===== verification/OtpService.thy ===== *)
theory OtpService
  imports OtpOutbox
begin

text \<open>
  \<open>services/otp_service.py\<close>, with the two functions of \<open>registration_service.py\<close> that lock and retire
  the idempotency ledger of a registration: issuing a challenge, verifying a code, resending, and the
  same authority applied to a decoy. The generated code and salt are arguments.
\<close>

section \<open>Registrations and their ledger\<close>

definition registration_is_authorizable :: "registration option \<Rightarrow> bool" where
  "registration_is_authorizable g = (case g of None \<Rightarrow> False
     | Some x \<Rightarrow> rg_deleted_at x = None \<and> rg_status x \<noteq> R_deleted \<and> rg_dob_state x = Dob_verified)"

definition registration_accepts_otp_purpose :: "registration option \<Rightarrow> purpose \<Rightarrow> bool" where
  "registration_accepts_otp_purpose g p \<longleftrightarrow> registration_is_authorizable g
     \<and> (p \<noteq> Signup \<or> map_option rg_status g = Some R_otp_pending)"

definition lock_registration_with_idempotency :: "otp_db \<Rightarrow> uid \<Rightarrow> registration option \<times> ledger option" where
  "lock_registration_with_idempotency s g =
     (get_registration s g, find (\<lambda>l. lg_registration l = Some g) (ledgers s))"

definition registration_idempotency_key_hash :: "crypto \<Rightarrow> string \<Rightarrow> string" where
  "registration_idempotency_key_hash k key = keyed_hash k (''registration-idempotency-key:v1:'' @ key)"

definition replay_expired :: string where "replay_expired = ''registration_replay_expired''"

definition terminal_ledger :: "ledger \<Rightarrow> bool" where
  "terminal_ledger l \<longleftrightarrow> lg_registration l = None \<and> lg_outbox l = None \<and> lg_fingerprint l = None
     \<and> lg_fingerprint_version l = None \<and> lg_outcome l = Some replay_expired"

definition drop_key :: "registration \<Rightarrow> registration" where
  "drop_key g = (if rg_idempotency_key g \<in> {None, Some []} then g else g\<lparr>rg_idempotency_key := None\<rparr>)"

definition tombstone :: "ledger_state \<Rightarrow> ledger \<Rightarrow> ledger" where
  "tombstone st l = l\<lparr>lg_state := st, lg_outcome := Some replay_expired, lg_fingerprint := None,
     lg_fingerprint_version := None, lg_registration := None, lg_outbox := None\<rparr>"

text \<open>The ledger the lifecycle acts on: the locked one, the one linked, the one under the row's own key.\<close>

definition ledger_to_retire ::
  "crypto \<Rightarrow> registration \<Rightarrow> ledger_state \<Rightarrow> ledger option \<Rightarrow> otp_db \<Rightarrow> ledger option \<times> otp_db" where
  "ledger_to_retire k g st locked s =
     (case (case locked of Some l \<Rightarrow> Some l | None \<Rightarrow> find (\<lambda>l. lg_registration l = Some (rg_id g)) (ledgers s)) of
        Some l \<Rightarrow> (Some l, s)
      | None \<Rightarrow> (case rg_idempotency_key g of
            None \<Rightarrow> (None, s)
          | Some key \<Rightarrow> if key = [] then (None, s) else
              (let h = registration_idempotency_key_hash k key in
               case find (\<lambda>l. lg_key_hash l = h) (ledgers s) of
                 Some l \<Rightarrow> (Some l, s)
               | None \<Rightarrow>
                   (let l = \<lparr>lg_id = otp_next s, lg_key_hash = h, lg_fingerprint = None, lg_fingerprint_version = None,
                          lg_state = st, lg_outcome = Some replay_expired, lg_registration = None, lg_outbox = None\<rparr>
                    in (Some l, otp_bump (s\<lparr>ledgers := ledgers s @ [l]\<rparr>))))))"

definition terminalize_registration_idempotency ::
  "crypto \<Rightarrow> registration \<Rightarrow> ledger_state \<Rightarrow> ledger option \<Rightarrow> otp_db \<Rightarrow> otp_exn + otp_db" where
  "terminalize_registration_idempotency k g st locked s =
     (if st \<notin> {L_retired, L_erased} then Inl ValueError
      else case ledger_to_retire k g st locked s of
        (None, s1) \<Rightarrow> Inr s1
      | (Some l, s1) \<Rightarrow>
          if lg_state l \<in> {L_retired, L_erased} then
            (if \<not> terminal_ledger l then Inl RuntimeError else Inr (upd_registration (rg_id g) drop_key s1))
          else if lg_registration l \<noteq> Some (rg_id g) then Inl RuntimeError
          else Inr (upd_ledger (lg_id l) (tombstone st) (upd_registration (rg_id g) drop_key s1)))"

section \<open>Looking a challenge up\<close>

definition active_challenge :: "uid \<Rightarrow> uid option \<Rightarrow> otp_db \<Rightarrow> challenge option" where
  "active_challenge a i s = find (\<lambda>ch. ch_authority ch = a \<and> ch_state ch = D_active \<and> ch_consumed ch = None
     \<and> (case i of None \<Rightarrow> True | Some j \<Rightarrow> ch_id ch = j)) (challenges s)"

definition pending_challenge :: "uid \<Rightarrow> otp_db \<Rightarrow> challenge option" where
  "pending_challenge a s = find (\<lambda>ch. ch_authority ch = a \<and> ch_state ch = D_pending) (challenges s)"

definition pending_intent :: "authority \<Rightarrow> otp_db \<Rightarrow> otp_exn + (challenge \<times> uid) option" where
  "pending_intent a s = (case pending_challenge (oa_id a) s of None \<Rightarrow> Inr None | Some ch \<Rightarrow>
     case find (\<lambda>d. dl_challenge d = ch_id ch) (deliveries s) of None \<Rightarrow> Inl RuntimeError | Some d \<Rightarrow>
       if dl_purpose d \<noteq> oa_purpose a \<or> \<not> relayable d \<or> dl_code d = None \<or> dl_destination d = None then Inl RuntimeError
       else Inr (Some (ch, dl_id d)))"

text \<open>A pending ledger must name a delivery of this registration, this authority and the signup purpose.\<close>

definition validate_signup_ledger_delivery :: "registration \<Rightarrow> authority \<Rightarrow> ledger option \<Rightarrow> otp_db \<Rightarrow> bool" where
  "validate_signup_ledger_delivery g a record s = (case record of None \<Rightarrow> True | Some l \<Rightarrow>
     if lg_state l \<noteq> L_pending then True else
     case lg_outbox l of None \<Rightarrow> False | Some o_id \<Rightarrow>
     case find_row dl_id o_id (deliveries s) of None \<Rightarrow> False | Some d \<Rightarrow>
     case get_challenge s (dl_challenge d) of None \<Rightarrow> False | Some ch \<Rightarrow>
       ch_registration ch = rg_id g \<and> ch_authority ch = oa_id a \<and> dl_purpose d = Signup \<and> ch_purpose ch = Signup)"

text \<open>The refusal of a locked authority, or the row as the check leaves it.\<close>

definition raise_if_locked :: "otp_settings \<Rightarrow> instant \<Rightarrow> authority \<Rightarrow> otp_exn + authority" where
  "raise_if_locked c now a = (case locked_for_seconds c now a of (n, b) \<Rightarrow>
     if n \<noteq> 0 then Inl (OtpError 423 ''locked'' (Some 0) (Some n)) else Inr b)"

definition no_active_challenge :: otp_exn where
  "no_active_challenge = OtpError 404 ''no_active_challenge'' None None"

text \<open>
  What every entry point does first: lock the ledger and the registration, refuse one that may not use
  the purpose, lock or create the authority.
\<close>

definition enter :: "otp_settings \<Rightarrow> uid \<Rightarrow> purpose \<Rightarrow> instant \<Rightarrow> otp_db
    \<Rightarrow> otp_exn + (registration \<times> ledger option \<times> authority) \<times> otp_db" where
  "enter c g p now s =
     (case lock_registration_with_idempotency s g of (reg, record) \<Rightarrow>
      if \<not> registration_accepts_otp_purpose reg p then Inl no_active_challenge
      else case lock_or_create_registration_authority c (the reg) p now s of
        Inl e \<Rightarrow> Inl e | Inr (a, t) \<Rightarrow> Inr ((the reg, record, a), t))"

section \<open>Issuing\<close>

definition candidate_of ::
  "otp_settings \<Rightarrow> crypto \<Rightarrow> uid \<Rightarrow> uid \<Rightarrow> authority \<Rightarrow> purpose \<Rightarrow> string \<Rightarrow> string \<Rightarrow> instant \<Rightarrow> challenge" where
  "candidate_of c k i g a p code salt now = \<lparr>ch_id = i, ch_registration = g, ch_authority = oa_id a, ch_purpose = p,
     ch_verifier = otp_verifier k code salt, ch_salt = salt, ch_attempts = oa_failed a, ch_max = oa_max a,
     ch_expires = now + seconds (challenge_ttl c), ch_consumed = Some now, ch_locked = oa_locked_until a, ch_state = D_pending\<rparr>"

definition note_issue :: "otp_settings \<Rightarrow> instant \<Rightarrow> authority \<Rightarrow> authority" where
  "note_issue c now a = a\<lparr>oa_issued_at := Some now, oa_cooldown := Some (now + seconds (resend_cooldown c)),
     oa_generation := oa_generation a + 1\<rparr>"

definition issue_conflicts :: "string list" where
  "issue_conflicts = [''uq_otp_challenges_one_active_per_registration_purpose'',
     ''uq_otp_challenges_one_pending_delivery_per_authority'']"

definition link_ledger :: "purpose \<Rightarrow> uid \<Rightarrow> ledger option \<Rightarrow> uid \<Rightarrow> otp_db \<Rightarrow> otp_exn + otp_db" where
  "link_ledger p g record i s = (case record of None \<Rightarrow> Inr s | Some l \<Rightarrow>
     if p = Signup \<and> lg_state l = L_pending then
       (if lg_registration l \<noteq> Some g then Inl RuntimeError
        else if list_ex (\<lambda>r. lg_outbox r = Some i \<and> lg_id r \<noteq> lg_id l) (ledgers s) then Inl Otp_integrity
        else Inr (upd_ledger (lg_id l) (\<lambda>r. r\<lparr>lg_outbox := Some i\<rparr>) s))
     else Inr s)"

text \<open>
  The body of \<open>issue_challenge\<close> on a working state: the candidate and its delivery, or the pending one
  there already is.
\<close>

definition issue_body :: "otp_settings \<Rightarrow> crypto \<Rightarrow> string \<Rightarrow> string \<Rightarrow> uid \<Rightarrow> instant \<Rightarrow> purpose \<Rightarrow> string \<Rightarrow> otp_db
    \<Rightarrow> otp_exn + (challenge \<times> uid) \<times> otp_db" where
  "issue_body c k code salt g now p destination_ct s =
     (case enter c g p now s of Inl e \<Rightarrow> Inl e | Inr ((reg, record, a), t) \<Rightarrow>
      case raise_if_locked c now a of Inl e \<Rightarrow> Inl e | Inr _ \<Rightarrow>
      if p = Signup \<and> \<not> validate_signup_ledger_delivery reg a record t then Inl RuntimeError
      else case pending_intent a t of Inl e \<Rightarrow> Inl e | Inr (Some x) \<Rightarrow> Inr (x, t) | Inr None \<Rightarrow>
      let ch = candidate_of c k (otp_next t) g a p code salt now in
      case insert_challenge ch t of
        Inl name \<Rightarrow> Inl (case name of Some n \<Rightarrow> if n \<in> set issue_conflicts then OtpError 409 ''otp_issue_conflict'' None None
                        else Otp_integrity | None \<Rightarrow> Otp_integrity)
      | Inr t1 \<Rightarrow>
      case otp_enqueue c k (ch_id ch) destination_ct code p (otp_bump t1) of Inl e \<Rightarrow> Inl e | Inr (i, t2) \<Rightarrow>
      case link_ledger p g record i (upd_authority (oa_id a) (note_issue c now) t2) of Inl e \<Rightarrow> Inl e | Inr t3 \<Rightarrow>
        Inr ((ch, i), t3))"

definition issue_challenge :: "otp_settings \<Rightarrow> crypto \<Rightarrow> string \<Rightarrow> string \<Rightarrow> uid \<Rightarrow> instant \<Rightarrow> purpose \<Rightarrow> string \<Rightarrow> otp_db
    \<Rightarrow> (challenge \<times> uid) orun" where
  "issue_challenge c k code salt g now p destination_ct s =
     (case issue_body c k code salt g now p destination_ct s of Inl e \<Rightarrow> (Inl e, s) | Inr (x, t) \<Rightarrow> (Inr x, t))"

section \<open>Verifying\<close>

definition open_attempt_window :: "otp_settings \<Rightarrow> instant \<Rightarrow> authority \<Rightarrow> authority" where
  "open_attempt_window c now a =
     (if (case oa_window_at a of None \<Rightarrow> True | Some w \<Rightarrow> w + seconds (attempt_window c) \<le> now)
      then a\<lparr>oa_failed := 0, oa_window_at := Some now, oa_max := max_attempts c\<rparr> else a)"

definition count_attempt :: "otp_settings \<Rightarrow> instant \<Rightarrow> authority \<Rightarrow> authority" where
  "count_attempt c now a = (let b = open_attempt_window c now a in b\<lparr>oa_failed := oa_failed b + 1\<rparr>)"

definition lock_if_full :: "otp_settings \<Rightarrow> instant \<Rightarrow> authority \<Rightarrow> authority" where
  "lock_if_full c now a = (if oa_max a \<le> oa_failed a then a\<lparr>oa_locked_until := Some (now + seconds (lockout c))\<rparr> else a)"

definition mirror_attempt :: "authority \<Rightarrow> challenge \<Rightarrow> challenge" where
  "mirror_attempt a ch = ch\<lparr>ch_attempts := oa_failed a, ch_max := oa_max a,
     ch_locked := (if oa_max a \<le> oa_failed a then oa_locked_until a else None)\<rparr>"

text \<open>
  \<open>record_failed_attempt\<close> commits before it raises: it returns the state that is kept. A decoy has no
  challenge.
\<close>

definition record_failed_attempt :: "otp_settings \<Rightarrow> authority \<Rightarrow> instant \<Rightarrow> uid option \<Rightarrow> otp_db \<Rightarrow> unit orun" where
  "record_failed_attempt c a now ch s =
     (case raise_if_locked c now a of Inl e \<Rightarrow> (Inl e, s) | Inr a1 \<Rightarrow>
      let b = lock_if_full c now (count_attempt c now a1);
          s1 = upd_authority (oa_id a) (\<lambda>_. b) s;
          s2 = (case ch of None \<Rightarrow> s1 | Some i \<Rightarrow> upd_challenge i (mirror_attempt b) s1)
      in (Inl (if oa_max b \<le> oa_failed b then OtpError 423 ''locked'' (Some 0) (Some (lockout c))
               else OtpError 401 ''incorrect_otp'' (Some (oa_max b - oa_failed b)) None), s2))"

definition clear_attempts :: "authority \<Rightarrow> authority" where
  "clear_attempts a = a\<lparr>oa_failed := 0, oa_locked_until := None, oa_window_at := None, oa_active_expires := None\<rparr>"

definition consume_challenge :: "authority \<Rightarrow> instant \<Rightarrow> challenge \<Rightarrow> challenge" where
  "consume_challenge a now ch = ch\<lparr>ch_state := D_consumed, ch_consumed := Some now, ch_attempts := oa_failed a, ch_locked := None\<rparr>"

definition void_relayable_payloads :: "uid \<Rightarrow> otp_db \<Rightarrow> otp_db" where
  "void_relayable_payloads ch s = s\<lparr>deliveries := update_where (\<lambda>d. dl_challenge d = ch \<and> relayable d)
     (\<lambda>d. void_row ''challenge_consumed'' (d\<lparr>dl_delivered := None\<rparr>)) (deliveries s)\<rparr>"

definition verify_registration :: "crypto \<Rightarrow> registration \<Rightarrow> ledger option \<Rightarrow> purpose \<Rightarrow> otp_db \<Rightarrow> otp_exn + otp_db" where
  "verify_registration k reg record p s =
     (if rg_status reg = R_otp_pending \<and> p = Signup
      then terminalize_registration_idempotency k reg L_retired record
             (upd_registration (rg_id reg) (\<lambda>g. g\<lparr>rg_status := R_otp_verified\<rparr>) s)
      else Inr s)"

text \<open>\<open>session.commit()\<close> or \<open>session.flush()\<close> on success: the caller's transaction holds the same state.\<close>

definition verify :: "otp_settings \<Rightarrow> crypto \<Rightarrow> uid \<Rightarrow> string \<Rightarrow> instant \<Rightarrow> purpose \<Rightarrow> uid option \<Rightarrow> otp_db \<Rightarrow> challenge orun" where
  "verify c k g code now p challenge_id s =
     (case enter c g p now s of Inl e \<Rightarrow> (Inl e, s) | Inr ((reg, record, a), t) \<Rightarrow>
      case raise_if_locked c now a of Inl e \<Rightarrow> (Inl e, s) | Inr _ \<Rightarrow>
      case active_challenge (oa_id a) challenge_id t of None \<Rightarrow> (Inl no_active_challenge, s) | Some ch \<Rightarrow>
      if ch_expires ch \<le> now then
        (Inl (OtpError 410 ''expired'' None None),
         upd_authority (oa_id a) clear_active (upd_challenge (ch_id ch) (void_challenge now) t))
      else if otp_verifier k code (ch_salt ch) = ch_verifier ch then
        (case verify_registration k reg record p
                (void_relayable_payloads (ch_id ch)
                  (upd_authority (oa_id a) clear_attempts (upd_challenge (ch_id ch) (consume_challenge a now) t))) of
           Inl e \<Rightarrow> (Inl e, s) | Inr u \<Rightarrow> (Inr (consume_challenge a now ch), u))
      else (case record_failed_attempt c a now (Some (ch_id ch)) t of
          (Inl e, u) \<Rightarrow> (Inl e, u) | (Inr _, u) \<Rightarrow> (Inl RuntimeError, u)))"

section \<open>Resending\<close>

definition within_cooldown :: "otp_settings \<Rightarrow> uid \<Rightarrow> instant \<Rightarrow> purpose \<Rightarrow> otp_db \<Rightarrow> bool orun" where
  "within_cooldown c g now p s =
     (case get_registration s g of None \<Rightarrow> (Inr False, s) | Some reg \<Rightarrow>
      if \<not> registration_is_authorizable (Some reg) then (Inr False, s)
      else case lock_or_create_registration_authority c reg p now s of
        Inl e \<Rightarrow> (Inl e, s) | Inr (a, t) \<Rightarrow> (Inr (after (oa_cooldown a) now), t))"

definition open_resend_window :: "otp_settings \<Rightarrow> instant \<Rightarrow> authority \<Rightarrow> authority" where
  "open_resend_window c now a =
     (if (case oa_resend_at a of None \<Rightarrow> True | Some w \<Rightarrow> w + seconds (resend_window c) \<le> now)
      then a\<lparr>oa_resend_at := Some now, oa_resends := 0, oa_max_resends := max_resends_per_window c\<rparr> else a)"

definition consume_resend_window :: "otp_settings \<Rightarrow> instant \<Rightarrow> authority \<Rightarrow> otp_exn + authority" where
  "consume_resend_window c now a =
     (let b = open_resend_window c now a in
      if oa_max_resends b \<le> oa_resends b then
        Inl (OtpError 429 ''resend_rate_limited'' None
          (Some (max 1 (ceil_seconds (the (oa_resend_at b) + seconds (resend_window c) - now)))))
      else Inr (b\<lparr>oa_resends := oa_resends b + 1\<rparr>))"

definition flow_lost :: otp_exn where
  "flow_lost = OtpError 401 ''otp_flow_unavailable'' None None"

text \<open>The deadline of the one live flow of the authority that may receive a code.\<close>

definition locked_resend_flow_deadline :: "authority \<Rightarrow> registration \<Rightarrow> instant \<Rightarrow> otp_db \<Rightarrow> otp_exn + instant" where
  "locked_resend_flow_deadline a g now s =
     (case filter (\<lambda>f. fl_authority f = oa_id a \<and> fl_state f \<in> set live_flow_states) (flows s) of
        [f] \<Rightarrow>
          if fl_subject f \<noteq> oa_subject a \<or> fl_registration f \<noteq> oa_registration a \<or> fl_registration f \<noteq> Some (rg_id g)
             \<or> fl_purpose f \<noteq> oa_purpose a \<or> fl_state f \<notin> set delivery_flow_states \<or> fl_expires f \<le> now
          then Inl flow_lost else Inr (fl_expires f)
      | _ \<Rightarrow> Inl flow_lost)"

definition check_cooldown :: "instant \<Rightarrow> authority \<Rightarrow> otp_exn option" where
  "check_cooldown now a = (case oa_cooldown a of
       Some t \<Rightarrow> if now < t then Some (OtpError 429 ''resend_cooldown'' None (Some (max 1 (ceil_seconds (t - now))))) else None
     | None \<Rightarrow> None)"

definition note_decoy_issue :: "otp_settings \<Rightarrow> instant \<Rightarrow> authority \<Rightarrow> otp_exn + authority" where
  "note_decoy_issue c now a = (case raise_if_locked c now a of Inl e \<Rightarrow> Inl e | Inr b \<Rightarrow> Inr (note_issue c now b))"

definition resend_decoy :: "otp_settings \<Rightarrow> instant \<Rightarrow> authority \<Rightarrow> otp_exn + authority" where
  "resend_decoy c now a =
     (case raise_if_locked c now a of Inl e \<Rightarrow> Inl e | Inr a1 \<Rightarrow>
      case check_cooldown now a1 of Some e \<Rightarrow> Inl e | None \<Rightarrow>
      case consume_resend_window c now a1 of Inl e \<Rightarrow> Inl e | Inr a2 \<Rightarrow> note_decoy_issue c now a2)"

definition set_expiry :: "otp_settings \<Rightarrow> instant \<Rightarrow> instant \<Rightarrow> challenge \<Rightarrow> challenge" where
  "set_expiry c now deadline ch = ch\<lparr>ch_expires := min (now + seconds (challenge_ttl c)) deadline\<rparr>"

definition resend :: "otp_settings \<Rightarrow> crypto \<Rightarrow> string \<Rightarrow> string \<Rightarrow> uid \<Rightarrow> instant \<Rightarrow> purpose \<Rightarrow> string \<Rightarrow> otp_db
    \<Rightarrow> (challenge \<times> uid) orun" where
  "resend c k code salt g now p destination_ct s =
     (case enter c g p now s of Inl e \<Rightarrow> (Inl e, s) | Inr ((reg, record, a), t) \<Rightarrow>
      if p = Signup \<and> \<not> validate_signup_ledger_delivery reg a record t then (Inl RuntimeError, s) else
      case raise_if_locked c now a of Inl e \<Rightarrow> (Inl e, s) | Inr a1 \<Rightarrow>
      case locked_resend_flow_deadline a1 reg now t of Inl e \<Rightarrow> (Inl e, s) | Inr deadline \<Rightarrow>
      case pending_intent a1 t of Inl e \<Rightarrow> (Inl e, s) | Inr pending \<Rightarrow>
      case check_cooldown now a1 of Some e \<Rightarrow> (Inl e, s) | None \<Rightarrow>
      case consume_resend_window c now a1 of Inl e \<Rightarrow> (Inl e, s) | Inr a2 \<Rightarrow>
      case pending of
        Some (ch, i) \<Rightarrow> (case note_decoy_issue c now a2 of Inl e \<Rightarrow> (Inl e, s) | Inr a3 \<Rightarrow>
          (Inr (set_expiry c now deadline ch, i),
           upd_challenge (ch_id ch) (set_expiry c now deadline) (upd_authority (oa_id a) (\<lambda>_. a3) t)))
      | None \<Rightarrow> (case issue_body c k code salt g now p destination_ct (upd_authority (oa_id a) (\<lambda>_. a2) t) of
          Inl e \<Rightarrow> (Inl e, s)
        | Inr ((ch, i), u) \<Rightarrow> (Inr (set_expiry c now deadline ch, i), upd_challenge (ch_id ch) (set_expiry c now deadline) u)))"

end
