(* ===== verification/OtpFlow.thy ===== *)
theory OtpFlow
  imports OtpService
begin

text \<open>
  \<open>services/otp_flow_service.py\<close>: the browser capability of an OTP flow. Only a keyed hash of the
  cookie token is stored; the token resolves to a flow and its authority when the whole graph agrees.
\<close>

section \<open>What the browser sees\<close>

record flow_view =
  fv_status :: string
  fv_purpose :: "purpose option"
  fv_destination :: "string option"
  fv_attempts_left :: "int option"
  fv_expires_in :: "int option"
  fv_resend_in :: "int option"
  fv_locked_for :: "int option"
  fv_resend_allowed :: bool

definition bare_view :: "string \<Rightarrow> purpose option \<Rightarrow> flow_view" where
  "bare_view st p = \<lparr>fv_status = st, fv_purpose = p, fv_destination = None, fv_attempts_left = None, fv_expires_in = None,
     fv_resend_in = None, fv_locked_for = None, fv_resend_allowed = False\<rparr>"

definition unavailable_state :: flow_view where "unavailable_state = bare_view ''unavailable'' None"
definition authenticated_state :: "purpose \<Rightarrow> flow_view" where "authenticated_state p = bare_view ''authenticated'' (Some p)"
definition verified_state :: flow_view where "verified_state = bare_view ''verified'' (Some Recovery)"

section \<open>Tokens and masks\<close>

definition flow_token_hash :: "crypto \<Rightarrow> string \<Rightarrow> string" where
  "flow_token_hash k raw = keyed_hash k (''nyayone:otp-flow-storage:v1:'' @ raw)"

definition deterministic_signup_token :: "crypto \<Rightarrow> string \<Rightarrow> string" where
  "deterministic_signup_token k key = keyed_hash k (''nyayone:otp-flow-bearer:v1:'' @ key)"

text \<open>
  The mask is filled with the bullet U+2022, which lies outside the model's characters; a middle dot
  stands for it. \<open>str.isdigit\<close> on the code points 0 to 255.
\<close>

definition fill_char :: char where "fill_char = char_of (183::nat)"

definition digit_char :: "char \<Rightarrow> bool" where
  "digit_char ch = (let n = (of_char ch :: nat) in (48 \<le> n \<and> n \<le> 57) \<or> n = 178 \<or> n = 179 \<or> n = 185)"

definition mask_login_email :: "string \<Rightarrow> string" where
  "mask_login_email v =
     (let domain = rev (takeWhile (\<lambda>ch. ch \<noteq> CHR ''@'') (rev v));
          rest = rev (drop 1 (dropWhile (\<lambda>ch. ch \<noteq> CHR ''@'') (rev v)))
      in take 1 rest @ replicate 5 fill_char @ ''@'' @ domain)"

definition mask_destination :: "string \<Rightarrow> string" where
  "mask_destination v = (if CHR ''@'' \<in> set v then mask_login_email v
     else let ds = filter digit_char v in replicate 6 fill_char @ drop (length ds - 4) ds)"

definition flow_of_token :: "crypto \<Rightarrow> otp_db \<Rightarrow> string option \<Rightarrow> flow option" where
  "flow_of_token k s raw = (case raw of None \<Rightarrow> None | Some t \<Rightarrow> if t = [] then None
     else find (\<lambda>f. fl_token_hash f = flow_token_hash k t) (flows s))"

definition flow_channel :: "flow option \<Rightarrow> string" where
  "flow_channel f = (case f of Some x \<Rightarrow> if fl_meta x = Meta_email then ''email'' else ''mobile'' | None \<Rightarrow> ''mobile'')"

definition channel_for_token :: "crypto \<Rightarrow> otp_db \<Rightarrow> string option \<Rightarrow> string" where
  "channel_for_token k s raw = flow_channel (flow_of_token k s raw)"

definition subject_for_token :: "crypto \<Rightarrow> otp_db \<Rightarrow> string option \<Rightarrow> otp_exn + string" where
  "subject_for_token k s raw = (case flow_of_token k s raw of Some f \<Rightarrow> Inr (fl_subject f)
     | None \<Rightarrow> authority_subject_from_mobile_hash (keyed_hash k (''nyayone:otp-flow-unknown-subject:v1:'' @
         (case raw of Some (x # xs) \<Rightarrow> x # xs | _ \<Rightarrow> ''missing''))))"

definition purpose_for_token :: "crypto \<Rightarrow> otp_db \<Rightarrow> string option \<Rightarrow> purpose" where
  "purpose_for_token k s raw = (case flow_of_token k s raw of Some f \<Rightarrow> fl_purpose f | None \<Rightarrow> Signup)"

section \<open>Opening a flow\<close>

definition close_flow :: "flow_state \<Rightarrow> instant \<Rightarrow> flow \<Rightarrow> flow" where
  "close_flow st now f = f\<lparr>fl_state := st, fl_consumed := Some now, fl_destination := None, fl_key_version := None\<rparr>"

definition consume_live_flows :: "uid \<Rightarrow> instant \<Rightarrow> otp_db \<Rightarrow> otp_db" where
  "consume_live_flows a now s = s\<lparr>flows := update_where (\<lambda>f. fl_authority f = a \<and> fl_state f \<in> set live_flow_states)
     (close_flow F_consumed now) (flows s)\<rparr>"

definition opened_flow :: "otp_settings \<Rightarrow> crypto \<Rightarrow> uid \<Rightarrow> string \<Rightarrow> authority \<Rightarrow> instant \<Rightarrow> string \<Rightarrow> uid option \<Rightarrow> uid option
    \<Rightarrow> uid option \<Rightarrow> flow" where
  "opened_flow c k i token a now destination ch g record = \<lparr>fl_id = i, fl_token_hash = flow_token_hash k token,
     fl_authority = oa_id a, fl_subject = oa_subject a, fl_purpose = oa_purpose a, fl_registration = g, fl_record = record,
     fl_challenge = ch, fl_destination = Some (ck_encrypt k (mask_destination destination)),
     fl_key_version = Some (ck_version k), fl_state = F_pending, fl_expires = now + seconds (flow_ttl c),
     fl_consumed = None, fl_meta = Meta_none\<rparr>"

text \<open>A token that is already stored resolves to its flow; a new one replaces the live flows of the authority.\<close>

definition create_flow :: "otp_settings \<Rightarrow> crypto \<Rightarrow> authority \<Rightarrow> instant \<Rightarrow> string \<Rightarrow> uid option \<Rightarrow> uid option \<Rightarrow> uid option
    \<Rightarrow> string option \<Rightarrow> string \<Rightarrow> otp_db \<Rightarrow> otp_exn + (string \<times> flow) \<times> otp_db" where
  "create_flow c k a now destination ch g record raw random_token s =
     (let token = (case raw of Some (x # xs) \<Rightarrow> x # xs | _ \<Rightarrow> random_token) in
      case find (\<lambda>f. fl_token_hash f = flow_token_hash k token) (flows s) of
        Some same \<Rightarrow> if fl_authority same \<noteq> oa_id a then Inl RuntimeError else Inr ((token, same), s)
      | None \<Rightarrow>
          let s1 = consume_live_flows (oa_id a) now s;
              f = opened_flow c k (otp_next s1) token a now destination ch g record
          in case insert_flow f s1 of None \<Rightarrow> Inl Otp_integrity | Some s2 \<Rightarrow> Inr ((token, f), otp_bump s2))"

section \<open>Resolving a token\<close>

definition terminal_erasure_won ::
  "ledger option \<Rightarrow> uid option \<Rightarrow> registration option \<Rightarrow> authority option \<Rightarrow> flow option \<Rightarrow> bool" where
  "terminal_erasure_won record record_id reg a f =
     (case record of None \<Rightarrow> False | Some l \<Rightarrow>
        Some (lg_id l) = record_id \<and> lg_state l \<in> {L_retired, L_erased} \<and> terminal_ledger l
        \<and> (case reg of None \<Rightarrow> True | Some g \<Rightarrow> rg_status g = R_deleted \<and> rg_deleted_at g \<noteq> None \<and> rg_dob_state g = Dob_erased)
        \<and> a = None \<and> f = None)"

definition record_disagrees :: "flow \<Rightarrow> ledger option \<Rightarrow> bool" where
  "record_disagrees f record = (case record of None \<Rightarrow> False | Some l \<Rightarrow>
     (fl_registration f = None \<and> (lg_state l \<noteq> L_neutralized \<or> lg_registration l \<noteq> None))
     \<or> (fl_registration f \<noteq> None \<and> lg_registration l \<notin> {fl_registration f, None} \<and> lg_state l \<notin> {L_retired, L_erased}))"

definition registration_ineligible :: "purpose \<Rightarrow> registration option \<Rightarrow> bool" where
  "registration_ineligible p reg = (case reg of None \<Rightarrow> False | Some g \<Rightarrow>
     rg_deleted_at g \<noteq> None \<or> rg_status g = R_deleted \<or> rg_dob_state g \<noteq> Dob_verified
     \<or> (p \<in> {Login, Recovery} \<and> rg_status g \<notin> {R_otp_verified, R_active})
     \<or> (p = Signup \<and> rg_status g \<noteq> R_otp_pending))"

text \<open>
  The discovery of the links reads \<open>s0\<close>; the locks are taken after it and read \<open>s\<close>, which may be
  later: a retention run may have erased the graph in between.
\<close>

definition locked_flow_graph :: "crypto \<Rightarrow> otp_db \<Rightarrow> otp_db \<Rightarrow> string option \<Rightarrow> otp_exn + (authority \<times> flow) option" where
  "locked_flow_graph k s0 s raw =
     (case flow_of_token k s0 raw of None \<Rightarrow> Inr None | Some f0 \<Rightarrow>
      let record = (case fl_record f0 of None \<Rightarrow> None | Some i \<Rightarrow> find_row lg_id i (ledgers s));
          reg = (case fl_registration f0 of None \<Rightarrow> None | Some i \<Rightarrow> get_registration s i);
          oa = get_authority s (fl_authority f0);
          fo = flow_of_token k s raw
      in if terminal_erasure_won record (fl_record f0) reg oa fo then Inr None
         else if (fl_record f0 \<noteq> None \<and> record = None) \<or> (fl_registration f0 \<noteq> None \<and> reg = None) then Inl RuntimeError
         else case (oa, fo) of
           (Some a, Some f) \<Rightarrow>
             if fl_authority f \<noteq> oa_id a \<or> fl_subject f \<noteq> oa_subject a \<or> fl_purpose f \<noteq> oa_purpose a
                \<or> (fl_registration f \<noteq> None \<and> fl_registration f \<noteq> oa_registration a)
                \<or> fl_record f \<noteq> fl_record f0 \<or> record_disagrees f record then Inl RuntimeError
             else if registration_ineligible (fl_purpose f) reg then Inr None
             else (case fl_challenge f of None \<Rightarrow> Inr (Some (a, f)) | Some i \<Rightarrow>
               case get_challenge s i of None \<Rightarrow> Inl RuntimeError | Some ch \<Rightarrow>
                 if ch_authority ch \<noteq> oa_id a \<or> Some (ch_registration ch) \<noteq> oa_registration a
                    \<or> fl_registration f \<noteq> Some (ch_registration ch) \<or> ch_purpose ch \<noteq> oa_purpose a
                 then Inl RuntimeError else Inr (Some (a, f)))
         | _ \<Rightarrow> Inl RuntimeError)"

definition resolve_flow :: "crypto \<Rightarrow> otp_db \<Rightarrow> string option \<Rightarrow> otp_exn + (authority \<times> flow) option" where
  "resolve_flow k s raw = locked_flow_graph k s s raw"

section \<open>Projection\<close>

definition seconds_until :: "instant option \<Rightarrow> instant \<Rightarrow> int" where
  "seconds_until x now = (case x of None \<Rightarrow> 0 | Some t \<Rightarrow> max 0 (ceil_seconds (t - now)))"

definition effective_failures :: "otp_settings \<Rightarrow> instant \<Rightarrow> authority \<Rightarrow> int \<Rightarrow> int" where
  "effective_failures c now a locked =
     (if locked = 0 \<and> (case oa_window_at a of None \<Rightarrow> False | Some w \<Rightarrow> w + seconds (attempt_window c) \<le> now) then 0
      else oa_failed a)"

definition resend_window_open :: "otp_settings \<Rightarrow> instant \<Rightarrow> authority \<Rightarrow> bool" where
  "resend_window_open c now a = (case oa_resend_at a of None \<Rightarrow> True
     | Some w \<Rightarrow> if now < w + seconds (resend_window c) then oa_resends a < oa_max_resends a else True)"

definition pending_view :: "otp_settings \<Rightarrow> crypto \<Rightarrow> authority \<Rightarrow> flow \<Rightarrow> instant \<Rightarrow> flow_view" where
  "pending_view c k a f now =
     (case locked_for_seconds c now a of (locked, b) \<Rightarrow>
      let public_expires = map_option (\<lambda>t. t + seconds (challenge_ttl c)) (oa_issued_at b);
          resend_in = seconds_until (oa_cooldown b) now;
          left = max 0 (oa_max b - effective_failures c now b locked)
      in \<lparr>fv_status = ''pending'', fv_purpose = Some (fl_purpose f),
           fv_destination = map_option (ck_decrypt k) (fl_destination f),
           fv_attempts_left = Some left,
           fv_expires_in = Some (min (seconds_until (Some (fl_expires f)) now) (seconds_until public_expires now)),
           fv_resend_in = Some resend_in, fv_locked_for = Some locked,
           fv_resend_allowed = (locked = 0 \<and> resend_in = 0 \<and> resend_window_open c now b \<and> 0 < left)\<rparr>)"

definition project :: "otp_settings \<Rightarrow> crypto \<Rightarrow> (authority \<times> flow) option \<Rightarrow> instant \<Rightarrow> flow_view" where
  "project c k g now = (case g of None \<Rightarrow> unavailable_state | Some (a, f) \<Rightarrow>
     if fl_expires f \<le> now \<or> fl_state f \<in> {F_expired, F_consumed, F_failed} then unavailable_state
     else if fl_state f = F_verified then verified_state
     else pending_view c k a f now)"

definition state_for_token :: "otp_settings \<Rightarrow> crypto \<Rightarrow> otp_db \<Rightarrow> string option \<Rightarrow> instant \<Rightarrow> otp_exn + flow_view" where
  "state_for_token c k s raw now = (case resolve_flow k s raw of Inl e \<Rightarrow> Inl e | Inr g \<Rightarrow> Inr (project c k g now))"

section \<open>Closing a flow\<close>

record cancellation_view =
  cv_state :: flow_view
  cv_restart_token :: "string option"
  cv_restart_max_age :: "int option"

definition nothing_cancelled :: cancellation_view where
  "nothing_cancelled = \<lparr>cv_state = unavailable_state, cv_restart_token = None, cv_restart_max_age = None\<rparr>"

definition cancellable :: "flow \<Rightarrow> instant \<Rightarrow> bool" where
  "cancellable f now \<longleftrightarrow> (fl_state f \<in> {F_pending, F_code_sent, F_locked} \<or> (fl_purpose f = Recovery \<and> fl_state f = F_verified))
     \<and> fl_consumed f = None \<and> now < fl_expires f"

definition fingerprint_versions :: "string list" where "fingerprint_versions = [''v1'', ''v2'']"

text \<open>The signup capability keeps the fingerprint of its request, and its ledger is retired.\<close>

definition retire_signup :: "crypto \<Rightarrow> flow \<Rightarrow> otp_db \<Rightarrow> otp_exn + otp_db" where
  "retire_signup k f s =
     (case (fl_registration f, fl_record f) of (Some g, Some r) \<Rightarrow>
        (case find_row lg_id r (ledgers s) of None \<Rightarrow> Inl RuntimeError | Some l \<Rightarrow>
         case (lg_fingerprint l, lg_fingerprint_version l) of (Some fp, Some v) \<Rightarrow>
           if lg_registration l \<noteq> Some g \<or> lg_state l \<notin> {L_pending, L_succeeded} \<or> v \<notin> set fingerprint_versions then Inl RuntimeError
           else (case get_registration s g of None \<Rightarrow> Inl RuntimeError | Some reg \<Rightarrow>
             if rg_status reg \<noteq> R_otp_pending \<or> rg_deleted_at reg \<noteq> None then Inl RuntimeError
             else terminalize_registration_idempotency k reg L_retired (Some l)
                    (upd_flow (fl_id f) (\<lambda>f. f\<lparr>fl_meta := Meta_cancelled fp v\<rparr>) s))
         | _ \<Rightarrow> Inl RuntimeError)
      | _ \<Rightarrow> Inr s)"

definition cancel_onboarding_flow :: "crypto \<Rightarrow> string option \<Rightarrow> instant \<Rightarrow> otp_db \<Rightarrow> cancellation_view orun" where
  "cancel_onboarding_flow k raw now s =
     (case resolve_flow k s raw of Inl e \<Rightarrow> (Inl e, s) | Inr None \<Rightarrow> (Inr nothing_cancelled, s) | Inr (Some (a, f)) \<Rightarrow>
      if \<not> cancellable f now then (Inr nothing_cancelled, s)
      else
        let s1 = fence_expired_flow_deliveries (oa_id a) now ''otp_flow_cancelled'' s;
            restarts = (fl_purpose f = Signup \<and> fl_registration f \<noteq> None \<and> fl_record f \<noteq> None)
        in case (if restarts then retire_signup k f s1 else Inr s1) of Inl e \<Rightarrow> (Inl e, s) | Inr s2 \<Rightarrow>
           (Inr \<lparr>cv_state = unavailable_state, cv_restart_token = (if restarts then raw else None),
                 cv_restart_max_age = (if restarts then Some (seconds_until (Some (fl_expires f)) now) else None)\<rparr>,
            upd_flow (fl_id f) (close_flow F_consumed now) s2))"

definition mark_authenticated :: "instant \<Rightarrow> flow \<Rightarrow> flow_view \<times> flow" where
  "mark_authenticated now f = (authenticated_state (fl_purpose f), close_flow F_consumed now f)"

definition mark_recovery_verified :: "otp_settings \<Rightarrow> instant \<Rightarrow> flow \<Rightarrow> flow_view \<times> flow" where
  "mark_recovery_verified c now f = (verified_state, f\<lparr>fl_state := F_verified, fl_destination := None, fl_key_version := None,
     fl_expires := now + seconds (recovery_proof_ttl c)\<rparr>)"

definition consume_recovery_proof :: "crypto \<Rightarrow> string option \<Rightarrow> uid \<Rightarrow> instant \<Rightarrow> otp_db \<Rightarrow> flow orun" where
  "consume_recovery_proof k raw g now s =
     (case resolve_flow k s raw of Inl e \<Rightarrow> (Inl e, s) | Inr None \<Rightarrow> (Inl ValueError, s) | Inr (Some (a, f)) \<Rightarrow>
      if fl_state f \<noteq> F_verified \<or> fl_purpose f \<noteq> Recovery \<or> fl_registration f \<noteq> Some g \<or> oa_registration a \<noteq> Some g
         \<or> fl_expires f \<le> now
      then (Inl ValueError, s)
      else (Inr (close_flow F_consumed now f), upd_flow (fl_id f) (close_flow F_consumed now) s))"

end
