(* ===== verification/OtpRecovery.thy ===== *)
theory OtpRecovery
  imports OtpFlow
begin

text \<open>
  Account recovery, the cookie-owned part of \<open>services/recovery_service.py\<close>: every mobile number gets
  a flow, a registered one with a challenge behind it, any other one as a decoy.
\<close>

text \<open>\<open>RecoveryError\<close> has one shape; the errors of the OTP service pass through \<open>start_flow\<close>.\<close>

datatype recovery_exn = Recovery_failed | Recovery_otp otp_exn

definition recovery_registration :: "crypto \<Rightarrow> string \<Rightarrow> otp_db \<Rightarrow> registration option" where
  "recovery_registration k mobile s =
     (case find (\<lambda>g. rg_mobile_hash g = keyed_hash k mobile \<and> registration_is_authorizable (Some g)) (registrations s) of
        None \<Rightarrow> None
      | Some g \<Rightarrow> (case fst (lock_registration_with_idempotency s (rg_id g)) of
            Some r \<Rightarrow> if registration_is_authorizable (Some r) \<and> rg_status r \<in> {R_otp_verified, R_active} then Some r else None
          | None \<Rightarrow> None))"

definition recovery_subject :: "crypto \<Rightarrow> string \<Rightarrow> registration option \<Rightarrow> otp_exn + string" where
  "recovery_subject k mobile reg = (case reg of
       Some _ \<Rightarrow> authority_subject_from_mobile_hash (keyed_hash k mobile)
     | None \<Rightarrow> authority_subject_from_mobile_hash (keyed_hash k (''nyayone:otp-recovery-decoy:v1:'' @ mobile)))"

text \<open>A repeated start spends the resend window, for a decoy as for an account.\<close>

definition spend_if_repeated :: "otp_settings \<Rightarrow> instant \<Rightarrow> authority \<Rightarrow> otp_exn + authority" where
  "spend_if_repeated c now a = (if oa_issued_at a \<noteq> None then consume_resend_window c now a else Inr a)"

definition start_issue :: "otp_settings \<Rightarrow> crypto \<Rightarrow> string \<Rightarrow> string \<Rightarrow> registration option \<Rightarrow> authority \<Rightarrow> instant \<Rightarrow> otp_db
    \<Rightarrow> otp_exn + (challenge \<times> uid) option \<times> otp_db" where
  "start_issue c k code salt reg a now s =
     (case spend_if_repeated c now a of Inl e \<Rightarrow> Inl e | Inr a1 \<Rightarrow>
      let s1 = upd_authority (oa_id a) (\<lambda>_. a1) s in
      case reg of
        Some g \<Rightarrow>
          (case issue_body c k code salt (rg_id g) now Recovery (ck_encrypt k (ck_decrypt k (rg_mobile_ct g))) s1 of
             Inl e \<Rightarrow> Inl e
           | Inr (x, s2) \<Rightarrow>
               (case get_authority s2 (oa_id a) of None \<Rightarrow> Inl RuntimeError | Some a2 \<Rightarrow>
                  if oa_generation a2 = oa_generation a1
                  then (case note_decoy_issue c now a2 of Inl e \<Rightarrow> Inl e
                        | Inr a3 \<Rightarrow> Inr (Some x, upd_authority (oa_id a) (\<lambda>_. a3) s2))
                  else Inr (Some x, s2)))
      | None \<Rightarrow> (case note_decoy_issue c now a1 of Inl e \<Rightarrow> Inl e
                 | Inr a2 \<Rightarrow> Inr (None, upd_authority (oa_id a) (\<lambda>_. a2) s1)))"

definition start_flow :: "otp_settings \<Rightarrow> crypto \<Rightarrow> string \<Rightarrow> string \<Rightarrow> string \<Rightarrow> string \<Rightarrow> instant \<Rightarrow> otp_db
    \<Rightarrow> (string \<times> flow \<times> uid option) orun" where
  "start_flow c k code salt random_token mobile now s =
     (let reg = recovery_registration k mobile s in
      case recovery_subject k mobile reg of Inl e \<Rightarrow> (Inl e, s) | Inr subject \<Rightarrow>
      case lock_or_create_authority c subject Recovery (map_option rg_id reg) now s of Inl e \<Rightarrow> (Inl e, s) | Inr (a, t) \<Rightarrow>
      let cooldown = after (oa_cooldown a) now;
          locked = 0 < fst (locked_for_seconds c now a);
          active = active_of (oa_id a) t
      in case (if cooldown \<or> locked then Inr (None, t) else start_issue c k code salt reg a now t) of
        Inl e \<Rightarrow> (Inl e, s)
      | Inr (issued, u) \<Rightarrow>
          (case get_authority u (oa_id a) of None \<Rightarrow> (Inl RuntimeError, s) | Some a' \<Rightarrow>
           case create_flow c k a' now mobile
                  (case active of Some ch \<Rightarrow> Some (ch_id ch) | None \<Rightarrow> map_option (ch_id \<circ> fst) issued)
                  (map_option rg_id reg) None None random_token u of
             Inl e \<Rightarrow> (Inl e, s)
           | Inr ((token, f), v) \<Rightarrow> (Inr (token, f, map_option snd issued), v)))"

text \<open>
  A miss of any kind spends an attempt: a wrong code in \<open>verify\<close> itself, a missing or expired verifier
  and a decoy here.
\<close>

definition charge_miss :: "otp_settings \<Rightarrow> authority \<Rightarrow> instant \<Rightarrow> otp_db \<Rightarrow> otp_db" where
  "charge_miss c a now s = snd (record_failed_attempt c a now None s)"

definition usable_flow :: "purpose \<Rightarrow> instant \<Rightarrow> flow \<Rightarrow> bool" where
  "usable_flow p now f \<longleftrightarrow> fl_purpose f = p \<and> fl_state f \<in> set delivery_flow_states \<and> now < fl_expires f"

definition counted_codes :: "string list" where "counted_codes = [''incorrect_otp'', ''locked'']"

definition recovery_verify_flow :: "otp_settings \<Rightarrow> crypto \<Rightarrow> string option \<Rightarrow> string \<Rightarrow> instant \<Rightarrow> otp_db
    \<Rightarrow> (recovery_exn + flow) \<times> otp_db" where
  "recovery_verify_flow c k raw code now s =
     (case resolve_flow k s raw of
        Inl e \<Rightarrow> (Inl (Recovery_otp e), s) | Inr None \<Rightarrow> (Inl Recovery_failed, s) | Inr (Some (a, f)) \<Rightarrow>
      if \<not> usable_flow Recovery now f then (Inl Recovery_failed, s)
      else case (fl_registration f, fl_challenge f) of
        (Some g, Some ch) \<Rightarrow>
          (case verify c k g code now Recovery (Some ch) s of
             (Inl (OtpError st ec left retry), t) \<Rightarrow>
               (Inl Recovery_failed,
                if ec \<in> set counted_codes then t
                else (case get_authority t (oa_id a) of Some a' \<Rightarrow> charge_miss c a' now t | None \<Rightarrow> t))
           | (Inl e, t) \<Rightarrow> (Inl (Recovery_otp e), t)
           | (Inr _, t) \<Rightarrow> (Inr (snd (mark_recovery_verified c now f)), upd_flow (fl_id f) (snd \<circ> mark_recovery_verified c now) t))
      | _ \<Rightarrow> (Inl Recovery_failed, charge_miss c a now s))"

definition recovery_complete_flow :: "crypto \<Rightarrow> string option \<Rightarrow> instant \<Rightarrow> otp_db \<Rightarrow> (recovery_exn + unit) \<times> otp_db" where
  "recovery_complete_flow k raw now s =
     (case resolve_flow k s raw of
        Inl e \<Rightarrow> (Inl (Recovery_otp e), s) | Inr None \<Rightarrow> (Inl Recovery_failed, s) | Inr (Some (a, f)) \<Rightarrow>
      case fl_registration f of None \<Rightarrow> (Inl Recovery_failed, s) | Some g \<Rightarrow>
      case consume_recovery_proof k raw g now s of
        (Inl ValueError, t) \<Rightarrow> (Inl Recovery_failed, t)
      | (Inl e, t) \<Rightarrow> (Inl (Recovery_otp e), t)
      | (Inr _, t) \<Rightarrow> (Inr (), t))"

end
