(* ===== verification/OtpLifecycle.thy ===== *)
theory OtpLifecycle
  imports OtpRecovery
begin

text \<open>
  The life of a challenge, abstracted from the services: staged, claimed, perhaps retried, accepted by
  the provider, then consumed, superseded or void. Every operation of the OTP services is a sequence of
  these steps; what holds of the steps holds of the services.
\<close>

section \<open>The abstract machine\<close>

text \<open>Of a challenge: its authority, its state, and the state of its delivery.\<close>

type_synonym life = "uid \<Rightarrow> (uid \<times> delivery_state \<times> queue_status) option"

definition queued :: "queue_status \<Rightarrow> bool" where
  "queued q \<longleftrightarrow> q \<in> {Q_pending, Q_claimed, Q_failed}"

definition accepted :: "uid \<Rightarrow> uid \<Rightarrow> life \<Rightarrow> life" where
  "accepted i a m = (\<lambda>j. if j = i then Some (a, D_active, Q_sent)
     else case m j of Some (b, st, q) \<Rightarrow> Some (b, if b = a \<and> st = D_active then D_superseded else st, q) | None \<Rightarrow> None)"

inductive life_step :: "life \<Rightarrow> life \<Rightarrow> bool" where
  stage: "m i = None \<Longrightarrow> (\<And>j q. m j \<noteq> Some (a, D_pending, q)) \<Longrightarrow> life_step m (m(i \<mapsto> (a, D_pending, Q_pending)))"
| claim: "m i = Some (a, D_pending, q) \<Longrightarrow> queued q \<Longrightarrow> life_step m (m(i \<mapsto> (a, D_pending, Q_claimed)))"
| retry: "m i = Some (a, D_pending, Q_claimed) \<Longrightarrow> life_step m (m(i \<mapsto> (a, D_pending, Q_failed)))"
| accept: "m i = Some (a, D_pending, Q_claimed) \<Longrightarrow> life_step m (accepted i a m)"
| consume: "m i = Some (a, D_active, q) \<Longrightarrow> life_step m (m(i \<mapsto> (a, D_consumed, q)))"
| expire: "m i = Some (a, D_active, q) \<Longrightarrow> life_step m (m(i \<mapsto> (a, D_void, q)))"
| withdraw: "m i = Some (a, D_pending, q) \<Longrightarrow> life_step m (m(i \<mapsto> (a, D_void, Q_void)))"

abbreviation life_steps :: "life \<Rightarrow> life \<Rightarrow> bool" where
  "life_steps \<equiv> life_step\<^sup>*\<^sup>*"

fun linked :: "delivery_state \<Rightarrow> queue_status \<Rightarrow> bool" where
  "linked D_pending q \<longleftrightarrow> queued q"
| "linked D_void q \<longleftrightarrow> q = Q_void \<or> q = Q_sent"
| "linked _ q \<longleftrightarrow> q = Q_sent"

definition life_inv :: "life \<Rightarrow> bool" where
  "life_inv m \<longleftrightarrow>
     (\<forall>i a st q. m i = Some (a, st, q) \<longrightarrow> linked st q)
     \<and> (\<forall>i j a st q q'. m i = Some (a, st, q) \<and> m j = Some (a, st, q') \<and> st \<in> {D_active, D_pending} \<longrightarrow> i = j)"

lemma life_invD:
  assumes "life_inv m"
  shows "m i = Some (a, st, q) \<Longrightarrow> linked st q"
    and "m i = Some (a, D_active, q) \<Longrightarrow> m j = Some (a, D_active, q') \<Longrightarrow> i = j"
    and "m i = Some (a, D_pending, q) \<Longrightarrow> m j = Some (a, D_pending, q') \<Longrightarrow> i = j"
  using assms unfolding life_inv_def by blast+

lemma life_step_inv: "life_step m m' \<Longrightarrow> life_inv m \<Longrightarrow> life_inv m'"
proof (induction rule: life_step.induct)
  case (accept m i a)
  have l: "linked st q" if "m j = Some (b, st, q)" for j b st q using life_invD(1) [OF accept.prems that] .
  note d = life_invD(2,3) [OF accept.prems]
  show ?case
    unfolding life_inv_def
  proof (intro conjI allI impI)
    show "linked st q" if "accepted i a m j = Some (b, st, q)" for j b st q
      using that l by (auto simp: accepted_def queued_def split: if_splits option.splits dest!: l)
    show "j = j'" if "accepted i a m j = Some (b, st, q) \<and> accepted i a m j' = Some (b, st, q') \<and> st \<in> {D_active, D_pending}"
      for j j' b st q q'
      using that d accept.hyps by (auto simp: accepted_def split: if_splits option.splits)
  qed
next
  case (consume m i a q)
  then show ?case using life_invD(1) [OF consume.prems consume.hyps] by (auto simp: life_inv_def)
next
  case (expire m i a q)
  then show ?case using life_invD(1) [OF expire.prems expire.hyps] by (auto simp: life_inv_def)
next
  case (withdraw m i a q)
  then show ?case by (auto simp: life_inv_def)
next
  case (retry m i a)
  then show ?case by (auto simp: life_inv_def queued_def)
next
  case (claim m i a q)
  then show ?case by (auto simp: life_inv_def queued_def)
next
  case (stage m i a)
  then show ?case by (auto simp: life_inv_def queued_def)
qed

lemma life_steps_inv: "life_steps m m' \<Longrightarrow> life_inv m \<Longrightarrow> life_inv m'"
  by (induction rule: rtranclp_induct) (auto intro: life_step_inv)

text \<open>A challenge that is consumed, superseded or void stays so, and a life never loses its authority.\<close>

definition ended :: "delivery_state \<Rightarrow> bool" where
  "ended st \<longleftrightarrow> st \<in> {D_consumed, D_superseded, D_void}"

lemma life_step_ended:
  "life_step m m' \<Longrightarrow> m i = Some (a, st, q) \<Longrightarrow> ended st \<Longrightarrow> \<exists>q'. m' i = Some (a, st, q')"
  by (induction rule: life_step.induct) (auto simp: ended_def accepted_def)

lemma life_steps_ended:
  "life_steps m m' \<Longrightarrow> m i = Some (a, st, q) \<Longrightarrow> ended st \<Longrightarrow> \<exists>q'. m' i = Some (a, st, q')"
  by (induction rule: rtranclp_induct) (auto dest: life_step_ended)

section \<open>The abstraction\<close>

definition life_of :: "otp_db \<Rightarrow> life" where
  "life_of s i = (case get_challenge s i of None \<Rightarrow> None | Some ch \<Rightarrow>
     map_option (\<lambda>d. (ch_authority ch, ch_state ch, dl_status d)) (find (\<lambda>d. dl_challenge d = i) (deliveries s)))"

text \<open>Identities are used once, and every challenge has its one delivery.\<close>

definition paired :: "otp_db \<Rightarrow> bool" where
  "paired s \<longleftrightarrow> map dl_challenge (deliveries s) = map ch_id (challenges s)
     \<and> distinct (map ch_id (challenges s)) \<and> distinct (map dl_id (deliveries s)) \<and> distinct (map oa_id (authorities s))
     \<and> (\<forall>ch \<in> set (challenges s). ch_id ch < otp_next s \<and> ch_authority ch < otp_next s) \<and> (\<forall>d \<in> set (deliveries s). dl_id d < otp_next s)
     \<and> (\<forall>a \<in> set (authorities s). oa_id a < otp_next s)"

lemma find_update_where:
  "(\<And>d. p (f d) = p d) \<Longrightarrow> find p (update_where q f ds) = map_option (\<lambda>d. if q d then f d else d) (find p ds)"
  by (induction ds) auto

lemma life_cong: "challenges s = challenges t \<Longrightarrow> deliveries s = deliveries t \<Longrightarrow> life_of s = life_of t"
  by (rule ext) (simp add: life_of_def split: option.split)

lemma life_upd_challenge:
  assumes "\<And>ch. ch_id (f ch) = ch_id ch" and "\<And>ch. ch_authority (f ch) = ch_authority ch" and "get_challenge s i = Some x"
  shows "life_of (upd_challenge i f s) = (life_of s)(i := map_option (\<lambda>(a, st, q). (a, ch_state (f x), q)) (life_of s i))"
  using assms by (intro ext) (auto simp: life_of_def get_upd_challenge option.map_comp comp_def split: option.split)

lemma paired_find:
  assumes "paired s" and "find_row dl_id i (deliveries s) = Some d"
  shows "find (\<lambda>x. dl_challenge x = dl_challenge d) (deliveries s) = Some d"
proof -
  have "distinct (map dl_challenge (deliveries s))" using assms(1) by (simp add: paired_def)
  from find_Some_unique [OF this, of d] find_row_SomeD [OF assms(2)] show ?thesis by simp
qed

lemma life_upd_delivery:
  assumes "paired s" and "\<And>d. dl_challenge (f d) = dl_challenge d" and d: "find_row dl_id i (deliveries s) = Some d"
  shows "life_of (upd_delivery i f s)
    = (life_of s)(dl_challenge d := map_option (\<lambda>(a, st, q). (a, st, dl_status (f d))) (life_of s (dl_challenge d)))"
proof (rule ext)
  fix j
  have i: "dl_id d = i" "d \<in> set (deliveries s)" using find_row_SomeD [OF d] by auto
  have u: "dl_id x \<noteq> i" if "find (\<lambda>x. dl_challenge x = j) (deliveries s) = Some x" "j \<noteq> dl_challenge d" for x
  proof -
    have x: "x \<in> set (deliveries s)" "dl_challenge x = j" using that(1) by (auto simp: find_Some_iff)
    have "inj_on dl_id (set (deliveries s))" using assms(1) by (simp add: paired_def distinct_map)
    with x i that(2) show ?thesis by (auto simp: inj_on_def)
  qed
  have f: "find (\<lambda>x. dl_challenge x = j) (update_where (\<lambda>r. dl_id r = i) f (deliveries s))
      = map_option (\<lambda>x. if dl_id x = i then f x else x) (find (\<lambda>x. dl_challenge x = j) (deliveries s))"
    using assms(2) by (intro find_update_where) auto
  show "life_of (upd_delivery i f s) j
    = ((life_of s)(dl_challenge d := map_option (\<lambda>(a, st, q). (a, st, dl_status (f d))) (life_of s (dl_challenge d)))) j"
    using paired_find [OF assms(1) d] i u f
    by (cases "j = dl_challenge d"; cases "find (\<lambda>x. dl_challenge x = j) (deliveries s)")
      (auto simp: life_of_def upd_delivery_def option.map_comp comp_def split: option.splits)
qed

lemma paired_map_challenge:
  "paired s \<Longrightarrow> (\<And>ch. ch_id (f ch) = ch_id ch) \<Longrightarrow> (\<And>ch. ch_authority (f ch) = ch_authority ch)
    \<Longrightarrow> paired (upd_challenge i f s)"
  by (simp add: paired_def upd_challenge_def map_update_where) (auto simp: set_update_where)

lemma paired_map_delivery:
  "paired s \<Longrightarrow> (\<And>d. dl_id (f d) = dl_id d) \<Longrightarrow> (\<And>d. dl_challenge (f d) = dl_challenge d) \<Longrightarrow> paired (upd_delivery i f s)"
  by (simp add: paired_def upd_delivery_def map_update_where) (auto simp: set_update_where)

lemma delivery_life:
  assumes "paired s" and "find_row dl_id i (deliveries s) = Some d"
  obtains ch where "get_challenge s (dl_challenge d) = Some ch"
    and "life_of s (dl_challenge d) = Some (ch_authority ch, ch_state ch, dl_status d)"
proof -
  have "dl_challenge d \<in> set (map ch_id (challenges s))"
    using assms find_row_SomeD [OF assms(2)] by (metis image_eqI list.set_map paired_def)
  then obtain ch where "get_challenge s (dl_challenge d) = Some ch"
    by (metis find_row_None_iff list.set_map not_Some_eq)
  with paired_find [OF assms] that show thesis by (simp add: life_of_def)
qed

lemma challenge_life:
  assumes "paired s" and "get_challenge s i = Some ch"
  obtains d where "find_row dl_id (dl_id d) (deliveries s) = Some d" and "dl_challenge d = i"
    and "find (\<lambda>d. dl_challenge d = i) (deliveries s) = Some d"
    and "life_of s i = Some (ch_authority ch, ch_state ch, dl_status d)"
proof -
  have "i \<in> set (map dl_challenge (deliveries s))"
    using assms find_row_SomeD [OF assms(2)] by (auto simp: paired_def)
  then have "find (\<lambda>d. dl_challenge d = i) (deliveries s) \<noteq> None" by (auto simp: find_None_iff)
  then obtain d where d: "find (\<lambda>d. dl_challenge d = i) (deliveries s) = Some d" by blast
  then have "d \<in> set (deliveries s)" "dl_challenge d = i" by (auto simp: find_Some_iff)
  moreover have "distinct (map dl_id (deliveries s))" using assms(1) by (simp add: paired_def)
  ultimately show thesis using that [OF _ _ d] d assms(2) by (simp add: life_of_def find_row_Some_iff)
qed

lemma filter_unique:
  "distinct (map key xs) \<Longrightarrow> filter (\<lambda>x. key x = k \<and> q x) xs
     = (case find (\<lambda>x. key x = k) xs of Some x \<Rightarrow> if q x then [x] else [] | None \<Rightarrow> [])"
proof (induction xs)
  case (Cons x xs)
  have "filter (\<lambda>x. key x = k \<and> q x) xs = []" if "key x = k"
    using Cons.prems that by (auto simp: filter_empty_conv image_iff)
  with Cons show ?case by auto
qed simp

section \<open>Simulation\<close>

text \<open>\<open>refines s t\<close>: the services took a well-formed \<open>s\<close> to \<open>t\<close> by steps of the life cycle.\<close>

definition refines :: "otp_db \<Rightarrow> otp_db \<Rightarrow> bool" where
  "refines s t \<longleftrightarrow> (paired s \<and> life_inv (life_of s) \<longrightarrow> paired t \<and> life_steps (life_of s) (life_of t))"

lemma refinesI:
  "(paired s \<Longrightarrow> life_inv (life_of s) \<Longrightarrow> paired t \<and> life_steps (life_of s) (life_of t)) \<Longrightarrow> refines s t"
  by (simp add: refines_def)

lemma refines_refl [simp]: "refines s s"
  by (simp add: refines_def)

lemma refines_trans [trans]: "refines s t \<Longrightarrow> refines t u \<Longrightarrow> refines s u"
  unfolding refines_def using life_steps_inv by (meson rtranclp_trans)

lemma refines_quiet:
  "challenges t = challenges s \<Longrightarrow> deliveries t = deliveries s \<Longrightarrow> map oa_id (authorities t) = map oa_id (authorities s)
     \<Longrightarrow> otp_next s \<le> otp_next t \<Longrightarrow> refines s t"
proof (rule refinesI)
  assume a: "challenges t = challenges s" "deliveries t = deliveries s" "map oa_id (authorities t) = map oa_id (authorities s)"
    "otp_next s \<le> otp_next t" and s: "paired s"
  have "oa_id ` set (authorities t) = oa_id ` set (authorities s)" using a(3) by (metis list.set_map)
  then have "\<forall>x \<in> set (authorities t). oa_id x < otp_next t"
    using s a(4) unfolding paired_def by (metis (no_types, lifting) image_iff less_le_trans)
  with a s have "paired t" unfolding paired_def by (auto intro: less_le_trans)
  with a show "paired t \<and> life_steps (life_of s) (life_of t)" using life_cong [of s t] by simp
qed

lemma refines_authority:
  assumes "\<And>a. oa_id a = i \<Longrightarrow> oa_id (f a) = i"
  shows "refines s (upd_authority i f s)"
proof (rule refines_quiet)
  have "map oa_id (update_where (\<lambda>r. oa_id r = i) f xs) = map oa_id xs" for xs
    by (induction xs) (simp_all add: assms)
  then show "map oa_id (authorities (upd_authority i f s)) = map oa_id (authorities s)" by (simp add: upd_authority_def)
qed simp_all

lemma refines_flow [simp]: "refines s (upd_flow i f s)"
  by (rule refines_quiet) simp_all

lemma refines_registration [simp]: "refines s (upd_registration i f s)"
  by (rule refines_quiet) simp_all

lemma refines_ledger [simp]: "refines s (upd_ledger i f s)"
  by (rule refines_quiet) simp_all

lemma refines_bump [simp]: "refines s (otp_bump s)"
  by (rule refines_quiet) (simp_all add: otp_bump_def)

lemma refines_challenge_same:
  assumes "\<And>ch. ch_id (f ch) = ch_id ch" "\<And>ch. ch_authority (f ch) = ch_authority ch" "\<And>ch. ch_state (f ch) = ch_state ch"
  shows "refines s (upd_challenge i f s)"
proof (rule refinesI)
  assume s: "paired s"
  have "life_of (upd_challenge i f s) = life_of s"
  proof (cases "get_challenge s i")
    case None
    then have "challenges (upd_challenge i f s) = challenges s"
      by (auto simp: upd_challenge_def find_row_None_iff intro!: update_where_none)
    then show ?thesis by (intro life_cong) simp_all
  next
    case (Some x)
    obtain d where "find_row dl_id (dl_id d) (deliveries s) = Some d" and "dl_challenge d = i"
      and "find (\<lambda>d. dl_challenge d = i) (deliveries s) = Some d"
      and l: "life_of s i = Some (ch_authority x, ch_state x, dl_status d)"
      by (rule challenge_life [OF s Some])
    have "life_of (upd_challenge i f s) = (life_of s)(i := life_of s i)"
      unfolding life_upd_challenge [of f i s x, OF assms(1,2) Some] by (simp only: l assms(3) option.map prod.case)
    then show ?thesis by (simp only: fun_upd_triv)
  qed
  with s show "paired (upd_challenge i f s) \<and> life_steps (life_of s) (life_of (upd_challenge i f s))"
    by (simp add: paired_map_challenge assms(1,2))
qed

lemma void_challenge_sel [simp]:
  "ch_id (void_challenge now ch) = ch_id ch" "ch_authority (void_challenge now ch) = ch_authority ch"
  "ch_state (void_challenge now ch) = (if ch_state ch \<in> {D_active, D_pending} then D_void else ch_state ch)"
  by (simp_all add: void_challenge_def)

lemma void_row_sel [simp]:
  "dl_id (void_row r d) = dl_id d" "dl_challenge (void_row r d) = dl_challenge d" "dl_status (void_row r d) = Q_void"
  by (simp_all add: void_row_def erase_payload_def clear_claim_def)

lemma clear_active_id [simp]: "oa_id (clear_active a) = oa_id a"
  by (simp add: clear_active_def)

lemma refines_void_delivery:
  assumes d: "find_row dl_id i (deliveries s) = Some d" and ch: "dl_challenge d = ch" and q: "queued (dl_status d) \<or> dl_status d = Q_void"
  shows "refines s (void_delivery now reason a ch i s)"
proof -
  let ?s1 = "upd_delivery i (void_row reason) s"
  let ?s2 = "upd_challenge ch (void_challenge now) ?s1"
  have "refines s ?s2"
  proof (rule refinesI)
    assume s: "paired s" and inv: "life_inv (life_of s)"
    obtain x where x: "get_challenge s ch = Some x" "life_of s ch = Some (ch_authority x, ch_state x, dl_status d)"
      by (rule delivery_life [OF s d, unfolded ch])
    have p1: "paired ?s1" using s by (rule paired_map_delivery) simp_all
    have l1: "life_of ?s1 = (life_of s)(ch \<mapsto> (ch_authority x, ch_state x, Q_void))"
      using life_upd_delivery [OF s _ d, of "void_row reason"] x(2) ch by simp
    have l2: "life_of ?s2 = (life_of s)(ch \<mapsto> (ch_authority x, ch_state (void_challenge now x), Q_void))"
      using life_upd_challenge [of "void_challenge now" ch ?s1 x] x(1) l1 by simp
    have "ch_state x = D_pending \<and> queued (dl_status d) \<or> ch_state x = D_void \<and> dl_status d = Q_void"
      using life_invD(1) [OF inv x(2)] q by (cases "ch_state x") (auto simp: queued_def)
    then have "life_steps (life_of s) (life_of ?s2)"
      using withdraw [of "life_of s" ch "ch_authority x" "dl_status d"] x(2) l2
      by (auto simp: fun_upd_idem intro: r_into_rtranclp)
    moreover have "paired ?s2" using p1 by (rule paired_map_challenge) simp_all
    ultimately show "paired ?s2 \<and> life_steps (life_of s) (life_of ?s2)" by blast
  qed
  then show ?thesis
    unfolding void_delivery_def Let_def by (auto intro: refines_trans [OF _ refines_authority])
qed

text \<open>Closing an active challenge, whatever its new state.\<close>

lemma refines_close_active:
  assumes x: "get_challenge s i = Some x" and st: "ch_state x = D_active"
    and f: "\<And>ch. ch_id (f ch) = ch_id ch" "\<And>ch. ch_authority (f ch) = ch_authority ch" "ch_state (f x) \<in> {D_consumed, D_void}"
  shows "refines s (upd_challenge i f s)"
proof (rule refinesI)
  assume s: "paired s"
  obtain d where "find_row dl_id (dl_id d) (deliveries s) = Some d" and "dl_challenge d = i"
    and "find (\<lambda>d. dl_challenge d = i) (deliveries s) = Some d"
    and l: "life_of s i = Some (ch_authority x, ch_state x, dl_status d)"
    by (rule challenge_life [OF s x])
  have m: "life_of (upd_challenge i f s) = (life_of s)(i \<mapsto> (ch_authority x, ch_state (f x), dl_status d))"
    unfolding life_upd_challenge [of f i s x, OF f(1,2) x] by (simp only: l option.map prod.case)
  have "life_step (life_of s) (life_of (upd_challenge i f s))"
    using f(3) consume [of "life_of s" i "ch_authority x" "dl_status d"] expire [of "life_of s" i "ch_authority x" "dl_status d"]
    unfolding m l st by auto
  then show "paired (upd_challenge i f s) \<and> life_steps (life_of s) (life_of (upd_challenge i f s))"
    using paired_map_challenge [OF s, of f i] f(1,2) by blast
qed

lemma relayable_queued: "relayable d \<longleftrightarrow> queued (dl_status d)"
  by (simp add: relayable_def queued_def)

lemma refines_fence_challenge: "refines s (fence_challenge a now reason ch s)"
proof (rule refinesI)
  assume s: "paired s" and inv: "life_inv (life_of s)"
  have dist: "distinct (map dl_challenge (deliveries s))" using s by (simp add: paired_def)
  define rows where "rows = map dl_id (filter (\<lambda>d. dl_challenge d = ch \<and> relayable d) (deliveries s))"
  define s1 where "s1 = fold (void_delivery now reason a ch) rows s"
  have f: "fence_challenge a now reason ch s = upd_authority a clear_active (upd_challenge ch (void_challenge now) s1)"
    by (simp add: fence_challenge_def rows_def s1_def Let_def)
  have s1: "refines s s1 \<and> (\<forall>x. get_challenge s1 ch = Some x \<longrightarrow> ch_state x \<noteq> D_pending)"
  proof (cases "get_challenge s ch")
    case None
    then have "ch \<notin> dl_challenge ` set (deliveries s)" using s by (metis find_row_None_iff list.set_map paired_def)
    then have "rows = []" by (auto simp: rows_def filter_empty_conv)
    with None show ?thesis by (simp add: s1_def)
  next
    case (Some x)
    obtain d where d: "find_row dl_id (dl_id d) (deliveries s) = Some d" "dl_challenge d = ch"
      "find (\<lambda>d. dl_challenge d = ch) (deliveries s) = Some d"
      and l: "life_of s ch = Some (ch_authority x, ch_state x, dl_status d)"
      by (rule challenge_life [OF s Some])
    have rows: "rows = (if relayable d then [dl_id d] else [])"
      using filter_unique [OF dist, of ch relayable] d(3) by (simp add: rows_def)
    have ok: "linked (ch_state x) (dl_status d)" using life_invD(1) [OF inv l] .
    show ?thesis
    proof (cases "relayable d")
      case True
      then have st: "ch_state x = D_pending" using ok by (cases "ch_state x") (auto simp: relayable_queued queued_def)
      have "refines s s1"
        using refines_void_delivery [OF d(1,2)] True by (simp add: s1_def rows relayable_queued)
      moreover have "get_challenge s1 ch = Some (void_challenge now x)"
        using Some True by (simp add: s1_def rows void_delivery_def Let_def get_upd_challenge)
      ultimately show ?thesis using st by simp
    next
      case False
      then show ?thesis using ok Some by (auto simp: s1_def rows relayable_queued)
    qed
  qed
  have r: "refines s1 (upd_challenge ch (void_challenge now) s1)"
  proof (cases "get_challenge s1 ch")
    case None
    then have "update_where (\<lambda>r. ch_id r = ch) (void_challenge now) (challenges s1) = challenges s1"
      by (intro update_where_none) (auto simp: find_row_None_iff)
    then show ?thesis by (simp add: upd_challenge_def)
  next
    case (Some x)
    show ?thesis
    proof (cases "ch_state x = D_active")
      case True
      then show ?thesis by (intro refines_close_active [OF Some]) simp_all
    next
      case False
      with s1 Some have "void_challenge now x = x" by (auto simp: void_challenge_def)
      moreover have "y = x" if "y \<in> set (challenges s1)" "ch_id y = ch" for y
      proof -
        have "paired s1" using s1 s inv by (simp add: refines_def)
        then have "inj_on ch_id (set (challenges s1))" by (simp add: paired_def distinct_map)
        then show ?thesis using that find_row_SomeD [OF Some] by (auto dest: inj_onD)
      qed
      ultimately have "update_where (\<lambda>r. ch_id r = ch) (void_challenge now) (challenges s1) = challenges s1"
        unfolding update_where_def by (intro map_idI) auto
      then show ?thesis by (simp add: upd_challenge_def)
    qed
  qed
  have "refines s (fence_challenge a now reason ch s)"
    unfolding f using s1 r by (blast intro: refines_trans refines_authority clear_active_id [THEN trans])
  with s inv show "paired (fence_challenge a now reason ch s) \<and> life_steps (life_of s) (life_of (fence_challenge a now reason ch s))"
    by (simp add: refines_def)
qed

lemma refines_fold: "(\<And>x s. refines s (f x s)) \<Longrightarrow> refines s (fold f xs s)"
  by (induction xs arbitrary: s) (auto intro: refines_trans)

lemma refines_fence: "refines s (fence_expired_flow_deliveries a now reason s)"
  unfolding fence_expired_flow_deliveries_def by (rule refines_fold) (rule refines_fence_challenge)

lemma refines_flows [simp]: "refines s (s\<lparr>flows := fs\<rparr>)"
  by (rule refines_quiet) simp_all

lemma refines_reconcile [simp]: "refines s (reconcile_voided_candidate a s)"
  by (simp add: reconcile_voided_candidate_def)

lemma refines_expire_flows [simp]: "refines s (expire_current_flows a now s)"
  by (simp add: expire_current_flows_def)

text \<open>A row that is not sent is not sent by any fence: it keeps its place or is void.\<close>

definition unsent :: "uid \<Rightarrow> uid \<Rightarrow> otp_db \<Rightarrow> bool" where
  "unsent i ch s \<longleftrightarrow> (\<exists>d. find_row dl_id i (deliveries s) = Some d \<and> dl_challenge d = ch \<and> dl_status d \<noteq> Q_sent)"

lemma unsent_void: "unsent i ch s \<Longrightarrow> unsent i ch (void_delivery now r a c j s)"
  by (auto simp: unsent_def void_delivery_def Let_def upd_delivery_def find_row_upd)

lemma unsent_fold: "(\<And>x s. unsent i ch s \<Longrightarrow> unsent i ch (f x s)) \<Longrightarrow> unsent i ch s \<Longrightarrow> unsent i ch (fold f xs s)"
  by (induction xs arbitrary: s) auto

lemma unsent_fence: "unsent i ch s \<Longrightarrow> unsent i ch (fence_expired_flow_deliveries a now r s)"
  unfolding fence_expired_flow_deliveries_def
proof (rule unsent_fold)
  show "unsent i ch (fence_challenge a now r x t)" if "unsent i ch t" for x t
    using unsent_fold [OF unsent_void that, where xs = "map dl_id (filter (\<lambda>d. dl_challenge d = x \<and> relayable d) (deliveries t))"]
    by (simp add: fence_challenge_def Let_def unsent_def)
qed

lemma refines_void_unsent: "unsent i ch s \<Longrightarrow> refines s (void_delivery now r a ch i s)"
  unfolding unsent_def
proof (elim exE conjE)
  fix d
  assume d: "find_row dl_id i (deliveries s) = Some d" "dl_challenge d = ch" "dl_status d \<noteq> Q_sent"
  then have "queued (dl_status d) \<or> dl_status d = Q_void" by (cases "dl_status d") (auto simp: queued_def)
  with refines_void_delivery [OF d(1,2)] show "refines s (void_delivery now r a ch i s)" by blast
qed

lemma locked_graphD:
  assumes "locked_graph s i = Some g"
  shows "find_row dl_id i (deliveries s) = Some (dg_row g)" "get_challenge s (dl_challenge (dg_row g)) = Some (dg_challenge g)"
    "get_authority s (ch_authority (dg_challenge g)) = Some (dg_authority g)" "dl_id (dg_row g) = i"
    "ch_id (dg_challenge g) = dl_challenge (dg_row g)" "oa_id (dg_authority g) = ch_authority (dg_challenge g)"
    "oa_registration (dg_authority g) = Some (ch_registration (dg_challenge g))"
    "ch_purpose (dg_challenge g) = oa_purpose (dg_authority g)" "dl_purpose (dg_row g) = oa_purpose (dg_authority g)"
    "dg_flows g = filter (\<lambda>f. fl_authority f = oa_id (dg_authority g)) (flows s)"
proof -
  from assms obtain d ch a where e: "find_row dl_id i (deliveries s) = Some d" "get_challenge s (dl_challenge d) = Some ch"
      "get_authority s (ch_authority ch) = Some a"
    and g: "g = \<lparr>dg_authority = a, dg_flows = filter (\<lambda>f. fl_authority f = oa_id a) (flows s), dg_challenge = ch, dg_row = d\<rparr>"
    and ok: "Some (ch_registration ch) = oa_registration a" "ch_purpose ch = oa_purpose a" "dl_purpose d = oa_purpose a"
    by (auto simp: locked_graph_def split: option.splits if_splits)
  note f = e [THEN find_row_SomeD]
  show "find_row dl_id i (deliveries s) = Some (dg_row g)" "get_challenge s (dl_challenge (dg_row g)) = Some (dg_challenge g)"
    "get_authority s (ch_authority (dg_challenge g)) = Some (dg_authority g)" "dl_id (dg_row g) = i"
    "ch_id (dg_challenge g) = dl_challenge (dg_row g)" "oa_id (dg_authority g) = ch_authority (dg_challenge g)"
    "oa_registration (dg_authority g) = Some (ch_registration (dg_challenge g))"
    "ch_purpose (dg_challenge g) = oa_purpose (dg_authority g)" "dl_purpose (dg_row g) = oa_purpose (dg_authority g)"
    "dg_flows g = filter (\<lambda>f. fl_authority f = oa_id (dg_authority g)) (flows s)"
    using e f ok by (simp_all add: g)
qed

lemma graph_unsent:
  assumes "locked_graph s i = Some g" and "relayable (dg_row g) \<or> dl_status (dg_row g) = Q_void"
  shows "unsent i (ch_id (dg_challenge g)) s"
  using locked_graphD(1,5) [OF assms(1)] assms(2) by (auto simp: unsent_def relayable_def)

lemma refines_fence_unavailable:
  assumes "locked_graph s i = Some g"
  shows "refines s (fence_unavailable_delivery g now reason s)"
proof -
  let ?a = "oa_id (dg_authority g)"
  let ?s1 = "fence_expired_flow_deliveries ?a now ''otp_flow_expired'' (expire_current_flows ?a now s)"
  have r: "refines s ?s1" by (rule refines_trans [OF refines_expire_flows refines_fence])
  show ?thesis
  proof (cases "relayable (dg_row g)")
    case True
    have "unsent i (ch_id (dg_challenge g)) (expire_current_flows ?a now s)"
      using graph_unsent [OF assms] True by (simp add: unsent_def expire_current_flows_def)
    then have "unsent i (ch_id (dg_challenge g)) ?s1" by (rule unsent_fence)
    with True show ?thesis using refines_trans [OF r refines_void_unsent] locked_graphD(4) [OF assms]
      by (simp add: fence_unavailable_delivery_def Let_def)
  qed (simp add: fence_unavailable_delivery_def Let_def r)
qed

lemma refines_void_candidate:
  assumes "locked_graph s i = Some g" and "relayable (dg_row g)"
  shows "refines s (void_candidate g now reason s)"
proof -
  have "refines s (void_delivery now reason (oa_id (dg_authority g)) (ch_id (dg_challenge g)) (dl_id (dg_row g)) s)"
    using refines_void_unsent [OF graph_unsent [OF assms(1)]] assms(2) locked_graphD(4) [OF assms(1)] by simp
  then show ?thesis by (auto simp: void_candidate_def Let_def intro: refines_trans [OF _ refines_reconcile])
qed

text \<open>A relayable delivery belongs to a pending candidate.\<close>

lemma graph_life:
  assumes "paired s" and "life_inv (life_of s)" and g: "locked_graph s i = Some g"
  shows "life_of s (ch_id (dg_challenge g)) = Some (oa_id (dg_authority g), ch_state (dg_challenge g), dl_status (dg_row g))"
    and "relayable (dg_row g) \<Longrightarrow> ch_state (dg_challenge g) = D_pending"
proof -
  note d = locked_graphD [OF g]
  obtain ch where ch: "get_challenge s (dl_challenge (dg_row g)) = Some ch"
      and l: "life_of s (dl_challenge (dg_row g)) = Some (ch_authority ch, ch_state ch, dl_status (dg_row g))"
    by (rule delivery_life [OF assms(1) d(1)])
  from ch d(2) have "ch = dg_challenge g" by simp
  with l d(5,6) show l: "life_of s (ch_id (dg_challenge g)) = Some (oa_id (dg_authority g), ch_state (dg_challenge g), dl_status (dg_row g))"
    by simp
  show "relayable (dg_row g) \<Longrightarrow> ch_state (dg_challenge g) = D_pending"
    using life_invD(1) [OF assms(2) l] by (cases "ch_state (dg_challenge g)") (auto simp: relayable_def)
qed

lemma refines_queue_step:
  assumes g: "locked_graph s i = Some g" and q: "relayable (dg_row g)"
    and f: "\<And>d. dl_id (f d) = dl_id d" "\<And>d. dl_challenge (f d) = dl_challenge d"
    and st: "dl_status (f (dg_row g)) = Q_claimed \<or> dl_status (f (dg_row g)) = Q_failed \<and> dl_status (dg_row g) = Q_claimed"
  shows "refines s (upd_delivery i f s)"
proof (rule refinesI)
  assume s: "paired s" and inv: "life_inv (life_of s)"
  note d = locked_graphD [OF g]
  have l: "life_of s (ch_id (dg_challenge g)) = Some (oa_id (dg_authority g), D_pending, dl_status (dg_row g))"
    using graph_life [OF s inv g] q by simp
  have m: "life_of (upd_delivery i f s) = (life_of s)(ch_id (dg_challenge g) \<mapsto> (oa_id (dg_authority g), D_pending, dl_status (f (dg_row g))))"
    using life_upd_delivery [OF s f(2) d(1)] l d(5) by simp
  have "life_step (life_of s) (life_of (upd_delivery i f s))"
    using st claim [where m = "life_of s" and i = "ch_id (dg_challenge g)", OF l] retry [of "life_of s" "ch_id (dg_challenge g)" "oa_id (dg_authority g)"] l q unfolding m relayable_queued by auto
  then show "paired (upd_delivery i f s) \<and> life_steps (life_of s) (life_of (upd_delivery i f s))"
    using paired_map_delivery [OF s f] by blast
qed

lemma take_claim_sel [simp]:
  "dl_id (take_claim c h now d) = dl_id d" "dl_challenge (take_claim c h now d) = dl_challenge d"
  "dl_status (take_claim c h now d) = Q_claimed"
  by (simp_all add: take_claim_def)

lemma mark_failed_sel [simp]:
  "dl_id (mark_failed c now d) = dl_id d" "dl_challenge (mark_failed c now d) = dl_challenge d"
  "dl_status (mark_failed c now d) = Q_failed"
  by (simp_all add: mark_failed_def clear_claim_def)

lemma mark_sent_sel [simp]:
  "dl_id (mark_sent k r now d) = dl_id d" "dl_challenge (mark_sent k r now d) = dl_challenge d"
  "dl_status (mark_sent k r now d) = Q_sent"
  by (simp_all add: mark_sent_def clear_claim_def erase_payload_def)

lemma refines_claim: "refines s (snd (otp_claim c k token now i s))"
proof (cases "locked_graph s i")
  case (Some g)
  have "relayable (dg_row g)" if "dl_status (dg_row g) \<noteq> Q_sent" "dl_status (dg_row g) \<noteq> Q_void"
    using that by (cases "dl_status (dg_row g)") (auto simp: relayable_def)
  with Some show ?thesis
    by (auto simp: otp_claim_def Let_def refines_fence_unavailable refines_void_candidate
        intro: refines_queue_step split: sum.split)
qed (simp add: otp_claim_def)

lemma holds_claim_relayable: "holds_claim dc d \<Longrightarrow> relayable d \<and> dl_status d = Q_claimed"
  by (simp add: holds_claim_def relayable_def)

lemma refines_failure: "refines s (snd (finalize_failure c dc now s))"
proof (cases "locked_graph s (dc_outbox dc)")
  case (Some g)
  then show ?thesis
    using holds_claim_relayable [of dc "dg_row g"]
    by (auto simp: finalize_failure_def refines_fence_unavailable refines_void_candidate
        intro: refines_queue_step split: sum.split)
qed (simp add: finalize_failure_def)

lemma activate_sel [simp]:
  "ch_id (activate c a e now ch) = ch_id ch" "ch_authority (activate c a e now ch) = ch_authority ch"
  "ch_state (activate c a e now ch) = D_active"
  by (simp_all add: activate_def)

lemma supersede_sel [simp]:
  "ch_id (supersede now ch) = ch_id ch" "ch_authority (supersede now ch) = ch_authority ch"
  "ch_state (supersede now ch) = D_superseded"
  by (simp_all add: supersede_def)

text \<open>Acceptance: the candidate becomes the verifier and the one before it is superseded.\<close>

lemma refines_accept:
  assumes g: "locked_graph s i = Some g" and q: "dl_status (dg_row g) = Q_claimed"
  shows "refines s (upd_delivery i (mark_sent k r now) (activate_candidate c (dg_authority g) (dg_challenge g) f now s))"
proof (rule refinesI)
  assume s: "paired s" and inv: "life_inv (life_of s)"
  note d = locked_graphD [OF g]
  let ?ch = "dg_challenge g"
  let ?i = "ch_id ?ch"
  let ?a = "oa_id (dg_authority g)"
  have p: "ch_state ?ch = D_pending" using graph_life(2) [OF s inv g] q by (simp add: relayable_def)
  have l: "life_of s ?i = Some (?a, D_pending, Q_claimed)" using graph_life(1) [OF s inv g] q p by simp
  define prior where "prior = find (\<lambda>x. ch_authority x = ?a \<and> ch_state x = D_active \<and> ch_id x \<noteq> ?i) (challenges s)"
  define s1 where "s1 = (case prior of None \<Rightarrow> s | Some x \<Rightarrow> upd_challenge (ch_id x) (supersede now) s)"
  let ?s2 = "upd_challenge ?i (activate c (dg_authority g) (fl_expires f) now) s1"
  let ?s3 = "activate_candidate c (dg_authority g) ?ch f now s"
  have s3: "challenges ?s3 = challenges ?s2" "deliveries ?s3 = deliveries ?s2" "?s3 = upd_authority ?a (\<lambda>x. x\<lparr>oa_active_expires := Some (min (now + seconds (challenge_ttl c)) (fl_expires f))\<rparr>) ?s2"
    using p by (simp_all add: activate_candidate_def Let_def s1_def prior_def)
  define m1 where "m1 = (\<lambda>j. if j = ?i then life_of s j else case life_of s j of
      Some (b, st, q) \<Rightarrow> Some (b, if b = ?a \<and> st = D_active then D_superseded else st, q) | None \<Rightarrow> None)"
  have dist: "distinct (map ch_id (challenges s))" using s by (simp add: paired_def)
  have live: "\<exists>x. get_challenge s j = Some x \<and> ch_authority x = b \<and> ch_state x = st" if "life_of s j = Some (b, st, q)" for j b st q
    using that by (auto simp: life_of_def split: option.splits)
  have s1: "paired s1 \<and> life_of s1 = m1 \<and> deliveries s1 = deliveries s \<and> get_challenge s1 ?i = Some ?ch"
  proof (cases prior)
    case None
    have "life_of s j \<noteq> Some (?a, D_active, q)" if "j \<noteq> ?i" for j q
    proof
      assume "life_of s j = Some (?a, D_active, q)"
      with live obtain x where "get_challenge s j = Some x" "ch_authority x = ?a" "ch_state x = D_active" by blast
      with None that find_row_SomeD [of ch_id j "challenges s" x] show False by (auto simp: prior_def find_None_iff)
    qed
    then have "life_of s = m1" by (auto simp: m1_def fun_eq_iff split: option.splits)
    with None s d(2,5) show ?thesis by (simp add: s1_def)
  next
    case (Some x)
    then have x: "x \<in> set (challenges s)" "ch_authority x = ?a" "ch_state x = D_active" "ch_id x \<noteq> ?i"
      by (auto simp: prior_def find_Some_iff)
    then have gx: "get_challenge s (ch_id x) = Some x" using dist by (simp add: find_row_Some_iff)
    obtain dx where "find_row dl_id (dl_id dx) (deliveries s) = Some dx" and "dl_challenge dx = ch_id x"
      and "find (\<lambda>d. dl_challenge d = ch_id x) (deliveries s) = Some dx"
      and lx: "life_of s (ch_id x) = Some (ch_authority x, ch_state x, dl_status dx)"
      by (rule challenge_life [OF s gx])
    have e: "life_of s1 = (life_of s)(ch_id x \<mapsto> (?a, D_superseded, dl_status dx))"
      using life_upd_challenge [of "supersede now" "ch_id x" s x, OF _ _ gx] lx x(2) Some by (simp add: s1_def)
    have u: "j = ch_id x" if "life_of s j = Some (?a, D_active, q)" for j q
      using life_invD(2) [OF inv that, of "ch_id x" "dl_status dx"] lx x(2,3) by simp
    have "life_of s1 j = m1 j" for j
    proof (cases "j = ch_id x")
      case True
      then show ?thesis using lx x(2,3,4) by (simp add: e m1_def)
    next
      case False
      then show ?thesis using u [of j] by (cases "life_of s j") (auto simp: e m1_def)
    qed
    then have "life_of s1 = m1" by (rule ext)
    with Some s d(2,5) x(4) show ?thesis by (simp add: s1_def paired_map_challenge get_upd_challenge)
  qed
  have l2: "life_of ?s2 = m1(?i \<mapsto> (?a, D_active, Q_claimed))"
    using life_upd_challenge [of "activate c (dg_authority g) (fl_expires f) now" ?i s1 ?ch] s1 l by (simp add: m1_def)
  have p2: "paired ?s2" using s1 by (intro paired_map_challenge) simp_all
  have p3: "paired ?s3" unfolding s3(3) using p2
    by (simp add: paired_def upd_authority_def map_update_where) (auto simp: set_update_where)
  have l3: "life_of ?s3 = m1(?i \<mapsto> (?a, D_active, Q_claimed))" by (rule trans [OF life_cong [OF s3(1,2)] l2])
  have d3: "find_row dl_id i (deliveries ?s3) = Some (dg_row g)" using s3(2) s1 d(1) by simp
  have "life_of (upd_delivery i (mark_sent k r now) ?s3) = m1(?i \<mapsto> (?a, D_active, Q_sent))"
    using life_upd_delivery [OF p3 _ d3, of "mark_sent k r now"] l3 d(5) by simp
  also have "\<dots> = accepted ?i ?a (life_of s)" by (auto simp: accepted_def m1_def fun_eq_iff)
  finally have "life_step (life_of s) (life_of (upd_delivery i (mark_sent k r now) ?s3))" using accept [where m = "life_of s" and i = ?i, OF l] by simp
  then show "paired (upd_delivery i (mark_sent k r now) ?s3) \<and> life_steps (life_of s) (life_of (upd_delivery i (mark_sent k r now) ?s3))"
    using paired_map_delivery [OF p3, of "mark_sent k r now" i] by auto
qed

lemma refines_success: "refines s (snd (finalize_success c k dc r now s))"
proof (cases "locked_graph s (dc_outbox dc)")
  case (Some g)
  then show ?thesis
    using holds_claim_relayable [of dc "dg_row g"]
    by (auto simp: finalize_success_def refines_fence_unavailable
        intro: refines_trans [OF refines_accept refines_flow] split: sum.split)
qed (simp add: finalize_success_def)

lemma refines_establish:
  assumes s1: "establish_authority c subject p g s = Inr s1"
  shows "refines s s1"
proof (cases "s1 = s")
  case False
  with s1 have e: "s1 = otp_bump (s\<lparr>authorities := authorities s @ [new_authority c (otp_next s) subject p g]\<rparr>)"
    by (auto simp: establish_authority_def split: if_splits)
  show ?thesis
  proof (rule refinesI)
    assume s: "paired s"
    then have "paired s1" by (auto simp: e paired_def otp_bump_def new_authority_def intro: less_SucI)
    moreover have "life_of s1 = life_of s" by (rule life_cong) (simp_all add: e otp_bump_def)
    ultimately show "paired s1 \<and> life_steps (life_of s) (life_of s1)" by simp
  qed
qed simp

lemma refines_lock_or_create:
  "lock_or_create_authority c subject p g now s = Inr (a, t) \<Longrightarrow> refines s t"
proof -
  assume "lock_or_create_authority c subject p g now s = Inr (a, t)"
  then obtain s1 where s1: "establish_authority c subject p g s = Inr s1" and t: "t = upd_authority (oa_id a) (\<lambda>_. a) s1"
    by (auto simp: lock_or_create_authority_def Let_def split: sum.splits option.splits if_splits)
  from refines_establish [OF s1] show "refines s t" unfolding t by (rule refines_trans) (rule refines_authority, simp)
qed

lemma refines_enter: "enter c g p now s = Inr (x, t) \<Longrightarrow> refines s t"
  by (auto simp: enter_def lock_or_create_registration_authority_def split: prod.splits sum.splits if_splits
      dest: refines_lock_or_create)

lemma refresh_id: "oa_id (refresh_lock_window c now a) = oa_id a"
  by (simp add: refresh_lock_window_def split: option.split)

lemma enter_authority:
  assumes "enter c g p now s = Inr ((reg, rc, a), t)" and "paired t"
  shows "oa_id a < otp_next t"
proof -
  from assms(1) obtain sub q where "lock_or_create_authority c sub p q now s = Inr (a, t)"
    by (auto simp: enter_def lock_or_create_registration_authority_def split: prod.splits sum.splits if_splits)
  then obtain s1 a0 where "find_authority sub p s1 = Some a0" "oa_id a = oa_id a0" "t = upd_authority (oa_id a) (\<lambda>_. a) s1"
    by (auto simp: lock_or_create_authority_def Let_def refresh_id split: sum.splits option.splits if_splits)
  then have "a \<in> set (authorities t)"
    by (auto simp: find_authority_def find_Some_iff upd_authority_def set_update_where image_iff dest!: nth_mem)
  with assms(2) show ?thesis by (auto simp: paired_def)
qed

lemma refines_stage:
  assumes c: "insert_challenge ch s = Inr s1" "ch_state ch = D_pending" "ch_id ch = otp_next s"
    and e: "otp_enqueue cfg k (ch_id ch) dest code p (otp_bump s1) = Inr (i, t)"
    and a: "paired s \<Longrightarrow> ch_authority ch < otp_next s"
  shows "refines s t"
proof (rule refinesI)
  assume s: "paired s"
  have s1: "s1 = s\<lparr>challenges := challenges s @ [ch]\<rparr>"
    and none: "\<not> list_ex (\<lambda>r. ch_authority r = ch_authority ch \<and> ch_state r = D_pending) (challenges s)"
    using c(1,2) by (auto simp: insert_challenge_def Let_def split: if_splits)
  define d where "d = staged_delivery cfg k (otp_next (otp_bump s1)) (ch_id ch) dest code p"
  have t: "t = otp_bump ((otp_bump s1)\<lparr>deliveries := deliveries s @ [d]\<rparr>)"
    using e by (auto simp: otp_enqueue_def insert_delivery_def d_def s1 otp_bump_def Let_def split: option.splits if_splits)
  have d: "dl_challenge d = ch_id ch" "dl_id d = Suc (otp_next s)" "dl_status d = Q_pending"
    by (simp_all add: d_def staged_delivery_def s1 otp_bump_def)
  have new: "ch_id ch \<notin> set (map ch_id (challenges s))" "ch_id ch \<notin> set (map dl_challenge (deliveries s))"
    using s c(3) by (auto simp: paired_def)
  have pt: "paired t"
    using s d new c(3) a [OF s] by (auto simp: paired_def t s1 otp_bump_def intro: less_SucI)
  have find_new: "find (\<lambda>x. dl_challenge x = j) (xs @ [d]) = (case find (\<lambda>x. dl_challenge x = j) xs of Some y \<Rightarrow> Some y | None \<Rightarrow> if j = ch_id ch then Some d else None)" for j xs
    using d(1) by (induction xs) auto
  have n: "find (\<lambda>x. dl_challenge x = ch_id ch) (deliveries s) = None" "get_challenge s (ch_id ch) = None"
    using new by (auto simp: find_None_iff find_row_None_iff image_iff)
  have "life_of t j = ((life_of s)(ch_id ch \<mapsto> (ch_authority ch, D_pending, Q_pending))) j" for j
  proof (cases "j = ch_id ch")
    case True
    then show ?thesis using n d c(2) by (simp add: life_of_def t s1 otp_bump_def find_row_append find_new)
  next
    case False
    then show ?thesis by (auto simp: life_of_def t s1 otp_bump_def find_row_append find_new split: option.splits)
  qed
  then have l: "life_of t = (life_of s)(ch_id ch \<mapsto> (ch_authority ch, D_pending, Q_pending))" by (rule ext)
  have "life_of s j \<noteq> Some (ch_authority ch, D_pending, q)" for j q
  proof
    assume "life_of s j = Some (ch_authority ch, D_pending, q)"
    then obtain x where "get_challenge s j = Some x" "ch_authority x = ch_authority ch" "ch_state x = D_pending"
      by (auto simp: life_of_def split: option.splits)
    with none find_row_SomeD [of ch_id j "challenges s" x] show False by (auto simp: list_ex_iff)
  qed
  moreover have "life_of s (ch_id ch) = None" using n by (simp add: life_of_def)
  ultimately have "life_step (life_of s) (life_of t)" unfolding l by (intro stage)
  with pt show "paired t \<and> life_steps (life_of s) (life_of t)" by blast
qed

lemma note_issue_id [simp]: "oa_id (note_issue c now a) = oa_id a"
  by (simp add: note_issue_def)

lemma refines_link: "link_ledger p g record i s = Inr t \<Longrightarrow> refines s t"
  by (auto simp: link_ledger_def split: option.splits if_splits)

lemma issue_body_cases:
  assumes "issue_body c k code salt g now p dest s = Inr (x, u)"
  obtains (kept) reg rc a where "enter c g p now s = Inr ((reg, rc, a), u)" "pending_intent a u = Inr (Some x)"
  | (fresh) reg rc a t ch t1 i t2 where "enter c g p now s = Inr ((reg, rc, a), t)" "pending_intent a t = Inr None"
      "ch = candidate_of c k (otp_next t) g a p code salt now" "insert_challenge ch t = Inr t1"
      "otp_enqueue c k (ch_id ch) dest code p (otp_bump t1) = Inr (i, t2)"
      "link_ledger p g rc i (upd_authority (oa_id a) (note_issue c now) t2) = Inr u" "x = (ch, i)"
proof -
  obtain reg rc a t where e: "enter c g p now s = Inr ((reg, rc, a), t)"
    using assms by (auto simp: issue_body_def split: sum.splits prod.splits)
  obtain y where y: "pending_intent a t = Inr y"
    using assms e by (auto simp: issue_body_def split: sum.splits prod.splits if_splits)
  show thesis
  proof (cases y)
    case (Some z)
    then show thesis using kept [of reg rc a] assms e y by (auto simp: issue_body_def split: sum.splits if_splits)
  next
    case None
    let ?ch = "candidate_of c k (otp_next t) g a p code salt now"
    obtain t1 where t1: "insert_challenge ?ch t = Inr t1"
      using assms e y None by (auto simp: issue_body_def Let_def split: sum.splits if_splits)
    obtain i t2 where t2: "otp_enqueue c k (ch_id ?ch) dest code p (otp_bump t1) = Inr (i, t2)"
      using assms e y None t1 by (auto simp: issue_body_def Let_def split: sum.splits if_splits)
    show thesis
      using fresh [OF e _ refl t1 t2] assms e y None t1 t2
      by (auto simp: issue_body_def Let_def split: sum.splits if_splits)
  qed
qed

lemma candidate_of_sel [simp]:
  "ch_id (candidate_of c k i g a p code salt now) = i" "ch_state (candidate_of c k i g a p code salt now) = D_pending"
  "ch_authority (candidate_of c k i g a p code salt now) = oa_id a"
  by (simp_all add: candidate_of_def)

lemma refines_issue_tail:
  assumes "issue_body c k code salt g now p dest s = Inr (x, u)" and "enter c g p now s = Inr ((reg, rc, a), t)"
  shows "refines t u"
  using assms(1)
proof (cases rule: issue_body_cases)
  case kept
  with assms(2) show ?thesis by simp
next
  case (fresh reg' rc' a' t' ch t1 i t2)
  with assms(2) have t: "t' = t" by simp
  have "refines t' t2" using fresh(3) enter_authority [OF fresh(1)]
    by (intro refines_stage [OF fresh(4) _ _ fresh(5)]) simp_all
  moreover have "refines t2 (upd_authority (oa_id a') (note_issue c now) t2)" by (rule refines_authority) simp
  ultimately show ?thesis using refines_link [OF fresh(6)] unfolding t by (blast intro: refines_trans)
qed

lemma refines_issue_body:
  assumes "issue_body c k code salt g now p dest s = Inr (x, u)"
  shows "refines s u"
  using assms
proof (cases rule: issue_body_cases)
  case kept
  then show ?thesis by (auto intro: refines_enter)
next
  case fresh
  show ?thesis by (rule refines_trans [OF refines_enter [OF fresh(1)] refines_issue_tail [OF assms fresh(1)]])
qed

lemma refines_issue: "refines s (snd (issue_challenge c k code salt g now p dest s))"
  by (auto simp: issue_challenge_def refines_issue_body split: sum.split)

lemma mirror_attempt_sel [simp]:
  "ch_id (mirror_attempt a ch) = ch_id ch" "ch_authority (mirror_attempt a ch) = ch_authority ch"
  "ch_state (mirror_attempt a ch) = ch_state ch"
  by (simp_all add: mirror_attempt_def)

lemma set_expiry_sel [simp]:
  "ch_id (set_expiry c now e ch) = ch_id ch" "ch_authority (set_expiry c now e ch) = ch_authority ch"
  "ch_state (set_expiry c now e ch) = ch_state ch"
  by (simp_all add: set_expiry_def)

lemma consume_challenge_sel [simp]:
  "ch_id (consume_challenge a now ch) = ch_id ch" "ch_authority (consume_challenge a now ch) = ch_authority ch"
  "ch_state (consume_challenge a now ch) = D_consumed"
  by (simp_all add: consume_challenge_def)

lemma attempt_id [simp]:
  "oa_id (refresh_lock_window c now a) = oa_id a" "oa_id (count_attempt c now a) = oa_id a" "oa_id (lock_if_full c now a) = oa_id a"
  "oa_id (clear_attempts a) = oa_id a" "oa_id (open_resend_window c now a) = oa_id a"
  by (auto simp: refresh_lock_window_def count_attempt_def open_attempt_window_def lock_if_full_def clear_attempts_def
      open_resend_window_def Let_def split: option.splits)

lemma raise_if_locked_Inr: "raise_if_locked c now a = Inr b \<Longrightarrow> b = refresh_lock_window c now a"
  by (auto simp: raise_if_locked_def locked_for_seconds_def Let_def split: if_splits)

lemma consume_resend_id: "consume_resend_window c now a = Inr b \<Longrightarrow> oa_id b = oa_id a"
  by (auto simp: consume_resend_window_def Let_def split: if_splits)

lemma note_decoy_id: "note_decoy_issue c now a = Inr b \<Longrightarrow> oa_id b = oa_id a"
  by (auto simp: note_decoy_issue_def split: sum.splits dest!: raise_if_locked_Inr)

lemma refines_record_failed: "refines s (snd (record_failed_attempt c a now ch s))"
proof (cases "raise_if_locked c now a")
  case (Inr b)
  let ?b = "lock_if_full c now (count_attempt c now b)"
  have "oa_id ?b = oa_id a" using raise_if_locked_Inr [OF Inr] by simp
  then have "refines s (upd_authority (oa_id a) (\<lambda>_. ?b) s)" by (intro refines_authority) simp
  moreover have "refines t (upd_challenge i (mirror_attempt ?b) t)" for i t by (rule refines_challenge_same) simp_all
  ultimately show ?thesis using Inr
    by (auto simp: record_failed_attempt_def Let_def intro: refines_trans split: option.split)
qed (simp add: record_failed_attempt_def)

lemma refines_ledgers [simp]: "refines s (otp_bump (s\<lparr>ledgers := ls\<rparr>))"
  by (rule refines_quiet) (simp_all add: otp_bump_def)

lemma refines_terminalize: "terminalize_registration_idempotency k g st locked s = Inr t \<Longrightarrow> refines s t"
proof -
  assume a: "terminalize_registration_idempotency k g st locked s = Inr t"
  obtain l s1 where l: "ledger_to_retire k g st locked s = (l, s1)" by fastforce
  have "refines s s1"
    using l by (auto simp: ledger_to_retire_def Let_def split: option.splits if_splits)
  moreover have "refines s1 t"
    using a l by (auto simp: terminalize_registration_idempotency_def split: option.splits if_splits
        intro: refines_trans [OF refines_registration refines_ledger])
  ultimately show "refines s t" by (rule refines_trans)
qed

lemma refines_verify_registration: "verify_registration k reg record p s = Inr t \<Longrightarrow> refines s t"
  by (auto simp: verify_registration_def split: if_splits intro: refines_trans [OF refines_registration refines_terminalize])

text \<open>The delivery of an active challenge is sent: there is nothing left to void.\<close>

lemma refines_void_payloads:
  assumes ch: "get_challenge s i = Some ch" and st: "ch_state ch \<in> {D_active, D_consumed}"
  shows "refines s (void_relayable_payloads i s)"
proof (rule refinesI)
  assume s: "paired s" and inv: "life_inv (life_of s)"
  obtain d where d: "find_row dl_id (dl_id d) (deliveries s) = Some d" "dl_challenge d = i"
    "find (\<lambda>d. dl_challenge d = i) (deliveries s) = Some d"
    and l: "life_of s i = Some (ch_authority ch, ch_state ch, dl_status d)"
    by (rule challenge_life [OF s ch])
  have "dl_status d = Q_sent" using life_invD(1) [OF inv l] st by auto
  then have "\<not> relayable d" by (simp add: relayable_def)
  moreover have "filter (\<lambda>x. dl_challenge x = i \<and> relayable x) (deliveries s) = (if relayable d then [d] else [])"
    using filter_unique [of dl_challenge "deliveries s" i relayable] s d(3) by (simp add: paired_def)
  ultimately have "\<forall>x \<in> set (deliveries s). \<not> (dl_challenge x = i \<and> relayable x)" by (simp add: filter_empty_conv)
  then have "void_relayable_payloads i s = s" by (simp add: void_relayable_payloads_def update_where_none)
  with s show "paired (void_relayable_payloads i s) \<and> life_steps (life_of s) (life_of (void_relayable_payloads i s))" by simp
qed

lemma active_challengeD:
  assumes "active_challenge a i s = Some ch" and "paired s"
  shows "get_challenge s (ch_id ch) = Some ch" "ch_authority ch = a" "ch_state ch = D_active"
  using assms by (auto simp: active_challenge_def find_Some_iff find_row_Some_iff paired_def)

lemma refines_verify: "refines s (snd (verify c k g code now p i s))"
proof (cases "enter c g p now s")
  case (Inr x)
  obtain reg rc a t where x: "x = ((reg, rc, a), t)" by (metis prod.exhaust)
  note r = refines_enter [OF Inr [unfolded x]]
  show ?thesis
  proof (cases "raise_if_locked c now a")
    case locked: (Inr b)
    show ?thesis
    proof (cases "active_challenge (oa_id a) i t")
      case (Some ch)
      show ?thesis
      proof (rule refinesI)
        assume s: "paired s" "life_inv (life_of s)"
        then have t: "paired t" using r by (simp add: refines_def)
        note ch = active_challengeD [OF Some t]
        have void: "refines t (upd_authority (oa_id a) clear_active (upd_challenge (ch_id ch) (void_challenge now) t))"
          by (rule refines_trans [OF refines_close_active [OF ch(1,3)] refines_authority]) (simp_all add: ch(3))
        let ?t1 = "upd_challenge (ch_id ch) (consume_challenge a now) t"
        let ?t2 = "upd_authority (oa_id a) clear_attempts ?t1"
        have "refines t ?t2"
          by (rule refines_trans [OF refines_close_active [OF ch(1,3)] refines_authority]) simp_all
        moreover have "refines ?t2 (void_relayable_payloads (ch_id ch) ?t2)"
          using ch(1) by (intro refines_void_payloads [where ch = "consume_challenge a now ch"]) (simp_all add: get_upd_challenge)
        ultimately have used: "refines t (void_relayable_payloads (ch_id ch) ?t2)" by (rule refines_trans)
        have "refines s (snd (verify c k g code now p i s))"
        proof (cases "ch_expires ch \<le> now")
          case True
          then show ?thesis using refines_trans [OF r void] Inr x locked Some by (simp add: verify_def)
        next
          case False
          show ?thesis
          proof (cases "otp_verifier k code (ch_salt ch) = ch_verifier ch")
            case True
            show ?thesis
            proof (cases "verify_registration k reg rc p (void_relayable_payloads (ch_id ch) ?t2)")
              case (Inr u)
              then show ?thesis
                using refines_trans [OF r refines_trans [OF used refines_verify_registration [OF Inr]]]
                  True False \<open>enter c g p now s = Inr x\<close> x locked Some by (simp add: verify_def)
            qed (use True False \<open>enter c g p now s = Inr x\<close> x locked Some in \<open>simp add: verify_def\<close>)
          next
            case wrong: False
            have "refines t (snd (record_failed_attempt c a now (Some (ch_id ch)) t))" by (rule refines_record_failed)
            note rr = refines_trans [OF r this]
            obtain y v where rf: "record_failed_attempt c a now (Some (ch_id ch)) t = (y, v)" by fastforce
            show ?thesis
              using rr wrong False Inr x locked Some rf by (cases y) (simp_all add: verify_def)
          qed
        qed
        with s show "paired (snd (verify c k g code now p i s)) \<and> life_steps (life_of s) (life_of (snd (verify c k g code now p i s)))"
          by (simp add: refines_def)
      qed
    qed (use Inr x locked in \<open>simp add: verify_def\<close>)
  qed (use Inr x in \<open>simp add: verify_def\<close>)
qed (simp add: verify_def)

lemma resend_cases:
  assumes u: "resend c k code salt g now p dest s = (Inr x, u)"
  obtains (retried) reg rc a t a1 a2 a3 dl ch where "enter c g p now s = Inr ((reg, rc, a), t)"
      "raise_if_locked c now a = Inr a1" "consume_resend_window c now a1 = Inr a2" "note_decoy_issue c now a2 = Inr a3"
      "u = upd_challenge (ch_id (ch :: challenge)) (set_expiry c now dl) (upd_authority (oa_id a) (\<lambda>_. a3) t)"
  | (fresh) reg rc a t a1 a2 dl ch i v where "enter c g p now s = Inr ((reg, rc, a), t)"
      "raise_if_locked c now a = Inr a1" "consume_resend_window c now a1 = Inr a2"
      "issue_body c k code salt g now p dest (upd_authority (oa_id a) (\<lambda>_. a2) t) = Inr ((ch, i), v)"
      "u = upd_challenge (ch_id ch) (set_expiry c now dl) v"
proof -
  obtain reg rc a t where e: "enter c g p now s = Inr ((reg, rc, a), t)"
    using u by (auto simp: resend_def split: sum.splits prod.splits)
  obtain a1 where a1: "raise_if_locked c now a = Inr a1"
    using u e by (auto simp: resend_def split: sum.splits if_splits)
  obtain dl where dl: "locked_resend_flow_deadline a1 reg now t = Inr dl"
    using u e a1 by (auto simp: resend_def split: sum.splits if_splits)
  obtain pd where pd: "pending_intent a1 t = Inr pd" "check_cooldown now a1 = None"
    using u e a1 dl by (auto simp: resend_def split: sum.splits option.splits if_splits)
  obtain a2 where a2: "consume_resend_window c now a1 = Inr a2"
    using u e a1 dl pd by (auto simp: resend_def split: sum.splits if_splits)
  show thesis
  proof (cases pd)
    case (Some y)
    obtain ch i where y: "y = (ch, i)" by fastforce
    obtain a3 where n: "note_decoy_issue c now a2 = Inr a3"
      using u e a1 a2 dl pd Some y by (auto simp: resend_def split: sum.splits if_splits)
    have "u = upd_challenge (ch_id ch) (set_expiry c now dl) (upd_authority (oa_id a) (\<lambda>_. a3) t)"
      using u e a1 a2 dl pd Some y n by (auto simp: resend_def split: if_splits)
    from retried [OF e a1 a2 n this] show thesis .
  next
    case None
    obtain y v where b: "issue_body c k code salt g now p dest (upd_authority (oa_id a) (\<lambda>_. a2) t) = Inr (y, v)"
      using u e a1 a2 dl pd None by (auto simp: resend_def split: sum.splits if_splits)
    obtain ch i where y: "y = (ch, i)" by fastforce
    have "u = upd_challenge (ch_id ch) (set_expiry c now dl) v"
      using u e a1 a2 dl pd None b y by (auto simp: resend_def split: if_splits)
    from fresh [OF e a1 a2 b [unfolded y] this] show thesis .
  qed
qed

text \<open>A refusal leaves the state as the call found it.\<close>

lemma resend_refused: "\<nexists>x u. resend c k code salt g now p dest s = (Inr x, u) \<Longrightarrow> snd (resend c k code salt g now p dest s) = s"
  by (auto simp: resend_def split: sum.splits prod.splits option.splits if_splits)

lemma refines_resend: "refines s (snd (resend c k code salt g now p dest s))"
proof (cases "\<exists>x u. resend c k code salt g now p dest s = (Inr x, u)")
  case False
  then show ?thesis by (simp add: resend_refused)
next
  case True
  then obtain x u where u: "resend c k code salt g now p dest s = (Inr x, u)" by blast
  then have "refines s u"
  proof (cases rule: resend_cases)
    case (retried reg rc a t a1 a2 a3 dl ch)
    have "oa_id a3 = oa_id a"
      using note_decoy_id [OF retried(4)] consume_resend_id [OF retried(3)] raise_if_locked_Inr [OF retried(2)] by simp
    then have "refines t (upd_authority (oa_id a) (\<lambda>_. a3) t)" by (intro refines_authority) simp
    then have "refines t u" unfolding retried(5) by (rule refines_trans) (rule refines_challenge_same, simp_all)
    with refines_enter [OF retried(1)] show ?thesis by (rule refines_trans)
  next
    case (fresh reg rc a t a1 a2 dl ch i v)
    have "oa_id a2 = oa_id a" using consume_resend_id [OF fresh(3)] raise_if_locked_Inr [OF fresh(2)] by simp
    then have "refines t (upd_authority (oa_id a) (\<lambda>_. a2) t)" by (intro refines_authority) simp
    moreover note refines_issue_body [OF fresh(4)]
    moreover have "refines v u" unfolding fresh(5) by (rule refines_challenge_same) simp_all
    ultimately show ?thesis using refines_enter [OF fresh(1)] by (blast intro: refines_trans)
  qed
  with u show ?thesis by simp
qed

lemma refines_create_flow: "create_flow c k a now dest ch g rc raw rnd s = Inr (x, t) \<Longrightarrow> refines s t"
  by (rule refines_quiet)
    (auto simp: create_flow_def insert_flow_def consume_live_flows_def otp_bump_def Let_def split: option.splits if_splits)

lemma refines_retire: "retire_signup k f s = Inr t \<Longrightarrow> refines s t"
  by (auto simp: retire_signup_def split: option.splits if_splits
      intro: refines_trans [OF refines_flow refines_terminalize])

lemma refines_cancel: "refines s (snd (cancel_onboarding_flow k raw now s))"
  by (auto simp: cancel_onboarding_flow_def Let_def split: sum.split option.split
      intro: refines_trans [OF refines_fence refines_trans [OF refines_retire refines_flow]] refines_trans [OF refines_fence refines_flow])

lemma spend_if_repeated_id: "spend_if_repeated c now a = Inr b \<Longrightarrow> oa_id b = oa_id a"
  by (auto simp: spend_if_repeated_def dest: consume_resend_id split: if_splits)

lemma start_issue_cases:
  assumes u: "start_issue c k code salt reg a now s = Inr (x, u)"
  obtains (decoy) a1 a2 where "spend_if_repeated c now a = Inr a1" "reg = None" "note_decoy_issue c now a1 = Inr a2"
      "u = upd_authority (oa_id a) (\<lambda>_. a2) (upd_authority (oa_id a) (\<lambda>_. a1) s)"
  | (issued) a1 g dest y v a2 where "spend_if_repeated c now a = Inr a1" "reg = Some g"
      "issue_body c k code salt (rg_id g) now Recovery dest (upd_authority (oa_id a) (\<lambda>_. a1) s) = Inr (y, v)"
      "get_authority v (oa_id a) = Some a2"
      "u = v \<or> (\<exists>a3. note_decoy_issue c now a2 = Inr a3 \<and> u = upd_authority (oa_id a) (\<lambda>_. a3) v)"
proof -
  obtain a1 where a1: "spend_if_repeated c now a = Inr a1" using u by (auto simp: start_issue_def split: sum.splits)
  show thesis
  proof (cases reg)
    case None
    then obtain a2 where "note_decoy_issue c now a1 = Inr a2" using u a1 by (auto simp: start_issue_def Let_def split: sum.splits)
    with None u a1 decoy [OF a1 None this] show thesis by (simp add: start_issue_def Let_def)
  next
    case (Some g)
    then obtain y v where b: "issue_body c k code salt (rg_id g) now Recovery (ck_encrypt k (ck_decrypt k (rg_mobile_ct g)))
        (upd_authority (oa_id a) (\<lambda>_. a1) s) = Inr (y, v)"
      using u a1 by (auto simp: start_issue_def Let_def split: sum.splits)
    then obtain a2 where a2: "get_authority v (oa_id a) = Some a2"
      using u a1 Some by (auto simp: start_issue_def Let_def split: option.splits)
    have "u = v \<or> (\<exists>a3. note_decoy_issue c now a2 = Inr a3 \<and> u = upd_authority (oa_id a) (\<lambda>_. a3) v)"
      using u a1 Some b a2 by (auto simp: start_issue_def Let_def split: sum.splits if_splits)
    from issued [OF a1 Some b a2 this] show thesis .
  qed
qed

lemma refines_put: "oa_id b = i \<Longrightarrow> refines s (upd_authority i (\<lambda>_. b) s)"
  by (intro refines_authority) simp

lemma refines_start_issue: "start_issue c k code salt reg a now s = Inr (x, u) \<Longrightarrow> refines s u"
proof (erule start_issue_cases)
  fix a1 a2
  assume a: "spend_if_repeated c now a = Inr a1" "note_decoy_issue c now a1 = Inr a2"
    and u: "u = upd_authority (oa_id a) (\<lambda>_. a2) (upd_authority (oa_id a) (\<lambda>_. a1) s)"
  have "oa_id a1 = oa_id a" "oa_id a2 = oa_id a" using spend_if_repeated_id [OF a(1)] note_decoy_id [OF a(2)] by simp_all
  then show "refines s u" unfolding u by (intro refines_trans [OF refines_put refines_put])
next
  fix a1 g dest y v a2
  assume a: "spend_if_repeated c now a = Inr a1" "get_authority v (oa_id a) = Some a2"
    and b: "issue_body c k code salt (rg_id g) now Recovery dest (upd_authority (oa_id a) (\<lambda>_. a1) s) = Inr (y, v)"
    and u: "u = v \<or> (\<exists>a3. note_decoy_issue c now a2 = Inr a3 \<and> u = upd_authority (oa_id a) (\<lambda>_. a3) v)"
  have "oa_id a2 = oa_id a" using find_row_SomeD [OF a(2)] by simp
  then have "refines v u" using u note_decoy_id by (auto intro: refines_put)
  with refines_issue_body [OF b] refines_put [OF spend_if_repeated_id [OF a(1)]] show "refines s u" by (blast intro: refines_trans)
qed

lemma start_flow_cases:
  assumes u: "start_flow c k code salt rnd mobile now s = (Inr x, u)"
  obtains sub a t v iss a' ch w where
    "lock_or_create_authority c sub Recovery (map_option rg_id (recovery_registration k mobile s)) now s = Inr (a, t)"
    "v = t \<or> start_issue c k code salt (recovery_registration k mobile s) a now t = Inr (iss, v)"
    "get_authority v (oa_id a) = Some a'"
    "create_flow c k a' now mobile ch (map_option rg_id (recovery_registration k mobile s)) None None rnd v = Inr (w, u)"
proof -
  let ?reg = "recovery_registration k mobile s"
  from u obtain sub where sub: "recovery_subject k mobile ?reg = Inr sub"
    by (auto simp: start_flow_def Let_def split: sum.splits)
  from u sub obtain a t where t: "lock_or_create_authority c sub Recovery (map_option rg_id ?reg) now s = Inr (a, t)"
    by (auto simp: start_flow_def Let_def split: sum.splits)
  let ?issue = "if after (oa_cooldown a) now \<or> 0 < fst (locked_for_seconds c now a) then Inr (None, t) else start_issue c k code salt ?reg a now t"
  from u sub t obtain iss v where v: "?issue = Inr (iss, v)"
    by (cases ?issue) (auto simp: start_flow_def Let_def)
  from u sub t v obtain a' where a': "get_authority v (oa_id a) = Some a'"
    by (cases "get_authority v (oa_id a)") (simp_all add: start_flow_def Let_def)
  from u sub t v a' obtain ch w where w: "create_flow c k a' now mobile ch (map_option rg_id ?reg) None None rnd v = Inr (w, u)"
    by (auto simp: start_flow_def Let_def split: sum.splits)
  from v have "v = t \<or> start_issue c k code salt ?reg a now t = Inr (iss, v)" by (auto split: if_splits)
  from that [OF t this a' w] show thesis .
qed

lemma start_refused: "\<nexists>x u. start_flow c k code salt rnd mobile now s = (Inr x, u) \<Longrightarrow> snd (start_flow c k code salt rnd mobile now s) = s"
  by (auto simp: start_flow_def Let_def split: sum.splits prod.splits option.splits)

lemma refines_start: "refines s (snd (start_flow c k code salt rnd mobile now s))"
proof (cases "\<exists>x u. start_flow c k code salt rnd mobile now s = (Inr x, u)")
  case False
  then show ?thesis by (simp add: start_refused)
next
  case True
  then obtain x u where u: "start_flow c k code salt rnd mobile now s = (Inr x, u)" by blast
  then have "refines s u"
  proof (rule start_flow_cases)
    fix sub a t v iss a' ch w
    assume t: "lock_or_create_authority c sub Recovery (map_option rg_id (recovery_registration k mobile s)) now s = Inr (a, t)"
      and v: "v = t \<or> start_issue c k code salt (recovery_registration k mobile s) a now t = Inr (iss, v)"
      and w: "create_flow c k a' now mobile ch (map_option rg_id (recovery_registration k mobile s)) None None rnd v = Inr (w, u)"
    from v have "refines t v" by (auto intro: refines_start_issue)
    with refines_lock_or_create [OF t] refines_create_flow [OF w] show "refines s u" by (blast intro: refines_trans)
  qed
  with u show ?thesis by simp
qed

lemma refines_charge: "refines s (charge_miss c a now s)"
  by (simp add: charge_miss_def refines_record_failed)

lemma refines_recovery_verify: "refines s (snd (recovery_verify_flow c k raw code now s))"
proof -
  have v: "refines s t" if "verify c k g code now Recovery i s = (r, t)" for g i r t
    using refines_verify [of s c k g code now Recovery i] that by simp
  show ?thesis
    by (auto simp: recovery_verify_flow_def refines_charge split: sum.split option.split prod.split otp_exn.split
        intro: refines_trans [OF v refines_charge] refines_trans [OF v refines_flow] v)
qed

lemma refines_recovery_complete: "refines s (snd (recovery_complete_flow k raw now s))"
  by (auto simp: recovery_complete_flow_def consume_recovery_proof_def split: sum.split option.split otp_exn.split if_split)

section \<open>Every call of the services\<close>

datatype otp_call =
    Call_issue string string uid instant purpose string
  | Call_verify uid string instant purpose "uid option"
  | Call_resend string string uid instant purpose string
  | Call_claim string instant uid
  | Call_accepted delivery_claim "string option" instant
  | Call_failed delivery_claim instant
  | Call_open uid instant string "uid option" "uid option" "uid option" "string option" string
  | Call_cancel "string option" instant
  | Call_start string string string string instant
  | Call_recover "string option" string instant
  | Call_complete "string option" instant

text \<open>
  A delivery is its two transactions, the claim and the settlement, so that the others may commit
  between them, and a worker may die there.
\<close>

fun otp_apply :: "otp_settings \<Rightarrow> crypto \<Rightarrow> otp_call \<Rightarrow> otp_db \<Rightarrow> otp_db" where
  "otp_apply c k (Call_issue code salt g now p dest) s = snd (issue_challenge c k code salt g now p dest s)"
| "otp_apply c k (Call_verify g code now p i) s = snd (verify c k g code now p i s)"
| "otp_apply c k (Call_resend code salt g now p dest) s = snd (resend c k code salt g now p dest s)"
| "otp_apply c k (Call_claim token now i) s = snd (otp_claim c k token now i s)"
| "otp_apply c k (Call_accepted dc r now) s = snd (finalize_success c k dc r now s)"
| "otp_apply c k (Call_failed dc now) s = snd (finalize_failure c dc now s)"
| "otp_apply c k (Call_open a now dest ch g rc raw rnd) s = (case get_authority s a of None \<Rightarrow> s | Some x \<Rightarrow>
     (case create_flow c k x now dest ch g rc raw rnd s of Inl _ \<Rightarrow> s | Inr (_, t) \<Rightarrow> t))"
| "otp_apply c k (Call_cancel raw now) s = snd (cancel_onboarding_flow k raw now s)"
| "otp_apply c k (Call_start code salt rnd mobile now) s = snd (start_flow c k code salt rnd mobile now s)"
| "otp_apply c k (Call_recover raw code now) s = snd (recovery_verify_flow c k raw code now s)"
| "otp_apply c k (Call_complete raw now) s = snd (recovery_complete_flow k raw now s)"

definition otp_run :: "otp_settings \<Rightarrow> crypto \<Rightarrow> otp_call list \<Rightarrow> otp_db \<Rightarrow> otp_db" where
  "otp_run c k xs s = fold (otp_apply c k) xs s"

lemma refines_apply: "refines s (otp_apply c k x s)"
  by (cases x) (auto simp: refines_issue refines_verify refines_resend refines_claim refines_success refines_failure
      refines_cancel refines_start refines_recovery_verify refines_recovery_complete
      split: option.split sum.split intro: refines_create_flow)

lemma refines_run: "refines s (otp_run c k xs s)"
  unfolding otp_run_def by (rule refines_fold) (rule refines_apply)

end
