(* ===== verification/OtpGuess.thy ===== *)
theory OtpGuess
  imports OtpLifecycle
begin

text \<open>
  The guessing budget. The attempts of an authority are a locking counter: a wrong code is admitted and
  counted, everything else the services do leaves the count alone or clears an expired lockout. A resend
  or a new challenge buys no new guesses.
\<close>

section \<open>The attempts as a locking counter\<close>

definition guess_view :: "authority \<Rightarrow> int \<times> instant option \<times> instant option \<times> int" where
  "guess_view a = (oa_failed a, oa_window_at a, oa_locked_until a, oa_max a)"

definition guess_ok :: "otp_settings \<Rightarrow> authority option \<Rightarrow> bool" where
  "guess_ok c x \<longleftrightarrow> 0 < max_attempts c \<and> (case x of None \<Rightarrow> True | Some a \<Rightarrow>
     oa_max a = max_attempts c \<and> 0 \<le> oa_failed a \<and> oa_failed a \<le> oa_max a \<and> (oa_window_at a = None \<longrightarrow> oa_failed a = 0)
     \<and> (case oa_locked_until a of None \<Rightarrow> oa_failed a < oa_max a
        | Some u \<Rightarrow> oa_failed a = oa_max a \<and> (case oa_window_at a of None \<Rightarrow> False | Some w \<Rightarrow> w + seconds (lockout c) \<le> u)))"

definition guess_idle :: "otp_settings \<Rightarrow> instant \<Rightarrow> authority option \<Rightarrow> authority option \<Rightarrow> bool" where
  "guess_idle c now x y = (case (x, y) of
       (None, None) \<Rightarrow> True
     | (None, Some b) \<Rightarrow> guess_view b = (0, None, None, max_attempts c)
     | (Some a, Some b) \<Rightarrow> guess_view b = guess_view a \<or> guess_view b = guess_view (refresh_lock_window c now a)
     | (Some a, None) \<Rightarrow> False)"

definition counted :: "otp_settings \<Rightarrow> instant \<Rightarrow> authority \<Rightarrow> authority" where
  "counted c now a = lock_if_full c now (count_attempt c now (refresh_lock_window c now a))"

definition guess_admit :: "otp_settings \<Rightarrow> instant \<Rightarrow> authority option \<Rightarrow> authority option \<Rightarrow> bool" where
  "guess_admit c now x y = (case (x, y) of
       (Some a, Some b) \<Rightarrow> oa_locked_until (refresh_lock_window c now a) = None \<and> guess_view b = guess_view (counted c now a)
         \<and> (case oa_window_at a of None \<Rightarrow> True | Some w \<Rightarrow> w \<le> now)
     | _ \<Rightarrow> False)"

definition guess_used :: "authority option \<Rightarrow> int" where
  "guess_used x = (case x of None \<Rightarrow> 0 | Some a \<Rightarrow> oa_failed a)"

definition guess_opened :: "authority option \<Rightarrow> instant option" where
  "guess_opened x = (case x of None \<Rightarrow> None | Some a \<Rightarrow> oa_window_at a)"

definition guess_full_until :: "authority option \<Rightarrow> instant" where
  "guess_full_until x = (case x of None \<Rightarrow> 0 | Some a \<Rightarrow> (case oa_locked_until a of None \<Rightarrow> 0 | Some u \<Rightarrow> u))"

definition guess_span :: "otp_settings \<Rightarrow> int" where
  "guess_span c = seconds (min (lockout c) (attempt_window c))"

lemma guess_span_le: "guess_span c \<le> seconds (lockout c)" "guess_span c \<le> seconds (attempt_window c)"
  by (simp_all add: guess_span_def seconds_def)

lemma refresh_view:
  "guess_view (refresh_lock_window c now a) = (case oa_locked_until a of
     Some u \<Rightarrow> if u \<le> now then (0, None, None, max_attempts c) else guess_view a | None \<Rightarrow> guess_view a)"
  by (simp add: refresh_lock_window_def guess_view_def split: option.split)

text \<open>An admitted guess, spelled out: it opens a window or goes into the open one, and may fill it.\<close>

lemma guess_admit_cases:
  assumes "guess_ok c x" and "guess_admit c now x y"
  obtains a b where "x = Some a" "y = Some b" "oa_max b = max_attempts c"
    "oa_locked_until b = (if oa_failed b = max_attempts c then Some (now + seconds (lockout c)) else None)"
    "oa_failed b \<le> max_attempts c"
    "(\<exists>w. oa_window_at a = Some w \<and> oa_window_at b = Some w \<and> w \<le> now \<and> oa_failed b = oa_failed a + 1 \<and> oa_locked_until a = None)
     \<or> (oa_window_at b = Some now \<and> oa_failed b = 1 \<and> (\<forall>w. oa_window_at a = Some w \<longrightarrow> w + guess_span c \<le> now)
        \<and> (oa_locked_until a = None \<or> (\<exists>u. oa_locked_until a = Some u \<and> u \<le> now)))"
proof -
  from assms(2) obtain a b where x: "x = Some a" and y: "y = Some b" by (cases x; cases y) (auto simp: guess_admit_def)
  have un: "oa_locked_until (refresh_lock_window c now a) = None" and b: "guess_view b = guess_view (counted c now a)"
    and w: "\<And>w. oa_window_at a = Some w \<Longrightarrow> w \<le> now"
    using assms(2) by (simp_all add: x y guess_admit_def)
  note ok = assms(1) [unfolded x guess_ok_def]
  show thesis
  proof (rule that [OF x y])
    let ?r = "refresh_lock_window c now a"
    let ?o = "open_attempt_window c now ?r"
    have r: "oa_locked_until a = None \<and> ?r = a
        \<or> (\<exists>u. oa_locked_until a = Some u \<and> u \<le> now \<and> oa_window_at ?r = None \<and> oa_failed ?r = 0 \<and> oa_max ?r = max_attempts c)"
      using un by (auto simp: refresh_lock_window_def split: option.splits if_splits)
    have rm: "oa_max ?r = max_attempts c" "oa_failed ?r < max_attempts c"
      using r ok by auto
    have o: "oa_locked_until ?o = None" "oa_max ?o = max_attempts c"
        "(\<exists>w. oa_window_at ?r = Some w \<and> now < w + seconds (attempt_window c) \<and> ?o = ?r)
         \<or> oa_window_at ?o = Some now \<and> oa_failed ?o = 0 \<and> (\<forall>w. oa_window_at ?r = Some w \<longrightarrow> w + seconds (attempt_window c) \<le> now)"
      using un rm by (auto simp: open_attempt_window_def split: option.splits)
    have fb: "oa_failed b = oa_failed ?o + 1" "oa_window_at b = oa_window_at ?o" "oa_max b = max_attempts c"
        "oa_locked_until b = (if max_attempts c \<le> oa_failed b then Some (now + seconds (lockout c)) else None)"
      using b o(1,2) by (auto simp: guess_view_def counted_def lock_if_full_def count_attempt_def Let_def)
    have le: "oa_failed ?o < max_attempts c" using o(3) rm ok by auto
    show "oa_max b = max_attempts c" by (rule fb(3))
    show "oa_failed b \<le> max_attempts c" using fb(1) le by simp
    show "oa_locked_until b = (if oa_failed b = max_attempts c then Some (now + seconds (lockout c)) else None)"
      using fb(1,4) le by auto
    from o(3) show "(\<exists>w. oa_window_at a = Some w \<and> oa_window_at b = Some w \<and> w \<le> now \<and> oa_failed b = oa_failed a + 1 \<and> oa_locked_until a = None)
     \<or> (oa_window_at b = Some now \<and> oa_failed b = 1 \<and> (\<forall>w. oa_window_at a = Some w \<longrightarrow> w + guess_span c \<le> now)
        \<and> (oa_locked_until a = None \<or> (\<exists>u. oa_locked_until a = Some u \<and> u \<le> now)))"
    proof
      assume "\<exists>w. oa_window_at ?r = Some w \<and> now < w + seconds (attempt_window c) \<and> ?o = ?r"
      then show ?thesis using r fb(1,2) w by auto
    next
      assume e: "oa_window_at ?o = Some now \<and> oa_failed ?o = 0 \<and> (\<forall>w. oa_window_at ?r = Some w \<longrightarrow> w + seconds (attempt_window c) \<le> now)"
      have "v + guess_span c \<le> now" if v: "oa_window_at a = Some v" for v
        using r
      proof
        assume "oa_locked_until a = None \<and> ?r = a"
        with e v guess_span_le(2) [of c] show ?thesis by auto
      next
        assume "\<exists>u. oa_locked_until a = Some u \<and> u \<le> now \<and> oa_window_at ?r = None \<and> oa_failed ?r = 0 \<and> oa_max ?r = max_attempts c"
        with ok v guess_span_le(1) [of c] show ?thesis by auto
      qed
      with e r fb(1,2) show ?thesis by auto
    qed
  qed
qed

lemma guess_idle_cases:
  assumes ok: "guess_ok c x" and "guess_idle c now x y"
  shows "guess_ok c y
    \<and> ((guess_opened y = guess_opened x \<and> guess_used y = guess_used x \<and> guess_full_until y = guess_full_until x)
      \<or> (guess_opened y = None \<and> guess_used y = 0 \<and> (\<forall>w. guess_opened x = Some w \<longrightarrow> w + guess_span c \<le> now)
         \<and> (x = None \<or> guess_full_until x \<le> now)))"
proof -
  note d = guess_ok_def guess_opened_def guess_used_def guess_full_until_def guess_view_def
  consider (same) "x = y" | (new) b where "x = None" "y = Some b" "guess_view b = (0, None, None, max_attempts c)"
    | (eq) a b where "x = Some a" "y = Some b" "guess_view b = guess_view a"
    | (over) a b u where "x = Some a" "y = Some b" "oa_locked_until a = Some u" "u \<le> now" "guess_view b = (0, None, None, max_attempts c)"
  proof (cases x; cases y)
    fix a b assume "x = Some a" "y = Some b"
    with assms(2) eq over show thesis
      by (cases "oa_locked_until a") (auto simp: guess_idle_def refresh_view split: if_splits)
  qed (use assms(2) same new in \<open>auto simp: guess_idle_def\<close>)
  then show ?thesis
  proof cases
    case same
    with ok show ?thesis by simp
  next
    case new
    with ok show ?thesis by (simp add: d)
  next
    case eq
    with ok show ?thesis by (simp add: d split: option.splits)
  next
    case over
    with ok guess_span_le(1) [of c] show ?thesis by (auto simp: d split: option.splits)
  qed
qed

lemma guess_closed_free: "guess_ok c x \<Longrightarrow> guess_opened x = None \<Longrightarrow> guess_full_until x = 0"
  by (cases x) (auto simp: guess_ok_def guess_opened_def guess_full_until_def split: option.splits)

interpretation guess: locking_counter guess_opened guess_used "guess_ok c" "guess_admit c" "guess_idle c" "max_attempts c"
    "guess_span c" guess_full_until for c
proof
  note d = guess_opened_def guess_used_def guess_full_until_def
  show "guess_ok c y" if "guess_ok c x" "guess_admit c now x y" for x now y
  proof (rule guess_admit_cases [OF that])
    fix a b assume x: "x = Some a" "y = Some b" "oa_max b = max_attempts c"
      "oa_locked_until b = (if oa_failed b = max_attempts c then Some (now + seconds (lockout c)) else None)"
      "oa_failed b \<le> max_attempts c"
      "(\<exists>w. oa_window_at a = Some w \<and> oa_window_at b = Some w \<and> w \<le> now \<and> oa_failed b = oa_failed a + 1 \<and> oa_locked_until a = None)
       \<or> (oa_window_at b = Some now \<and> oa_failed b = 1 \<and> (\<forall>w. oa_window_at a = Some w \<longrightarrow> w + guess_span c \<le> now)
          \<and> (oa_locked_until a = None \<or> (\<exists>u. oa_locked_until a = Some u \<and> u \<le> now)))"
    then show ?thesis using that(1) by (auto simp: guess_ok_def split: option.splits)
  qed
  show "guess_ok c y" if "guess_ok c x" "guess_idle c now x y" for x now y
    using guess_idle_cases [OF that] by blast
  show "0 \<le> guess_used x \<and> guess_used x \<le> max_attempts c" if "guess_ok c x" for x
    using that by (auto simp: guess_ok_def d split: option.splits)
  show "guess_used x = 0" if "guess_ok c x" "guess_opened x = None" for x
    using that by (auto simp: guess_ok_def d split: option.splits)
  show "(guess_opened y = guess_opened x \<and> guess_opened x \<noteq> None \<and> guess_used y = guess_used x + 1)
      \<or> (guess_opened y = Some now \<and> guess_used y = 1 \<and> (\<forall>w. guess_opened x = Some w \<longrightarrow> w + guess_span c \<le> now))"
    if "guess_ok c x" "guess_admit c now x y" for x now y
    by (rule guess_admit_cases [OF that]) (auto simp: d)
  show "(guess_opened y = guess_opened x \<and> guess_used y = guess_used x)
      \<or> (guess_opened y = None \<and> guess_used y = 0 \<and> (\<forall>w. guess_opened x = Some w \<longrightarrow> w + guess_span c \<le> now))"
    if "guess_ok c x" "guess_idle c now x y" for x now y
    using guess_idle_cases [OF that] by blast
  show "guess_full_until x \<le> now"
    if "guess_ok c x" "guess_used x = max_attempts c" "guess_admit c now x y \<or> guess_idle c now x y \<and> guess_opened y \<noteq> guess_opened x"
    for x now y
    using that(3)
  proof
    assume a: "guess_admit c now x y"
    show ?thesis
      by (rule guess_admit_cases [OF that(1) a]) (use that(1,2) in \<open>auto simp: d guess_ok_def split: option.splits\<close>)
  next
    assume "guess_idle c now x y \<and> guess_opened y \<noteq> guess_opened x"
    then show ?thesis using guess_idle_cases [OF that(1), of now y] by (auto simp: d)
  qed
  show "now + guess_span c \<le> guess_full_until y" if "guess_ok c x" "guess_admit c now x y" "guess_used y = max_attempts c" for x now y
    by (rule guess_admit_cases [OF that(1,2)]) (use that(3) guess_span_le [of c] in \<open>auto simp: d\<close>)
  show "guess_full_until y = guess_full_until x" if "guess_ok c x" "guess_idle c now x y" "guess_opened y = guess_opened x" for x now y
    using guess_idle_cases [OF that(1,2)] guess_closed_free [of c x] guess_closed_free [of c y] that(1,3) by metis
  show "0 < max_attempts c" if "guess_ok c x" for x using that by (simp add: guess_ok_def)
qed

section \<open>What each operation does to the attempts\<close>

lemma refresh_view_cong: "guess_view a = guess_view b \<Longrightarrow> guess_view (refresh_lock_window c now a) = guess_view (refresh_lock_window c now b)"
  unfolding refresh_view by (simp add: guess_view_def split: option.split)

lemma refresh_twice: "guess_view (refresh_lock_window c now (refresh_lock_window c now a)) = guess_view (refresh_lock_window c now a)"
  by (simp add: refresh_lock_window_def split: option.split)

lemma locked_view: "guess_view a = guess_view b \<Longrightarrow> oa_locked_until a = oa_locked_until b"
  by (simp add: guess_view_def)

lemma counted_view: "guess_view (refresh_lock_window c now a) = guess_view (refresh_lock_window c now b)
    \<Longrightarrow> guess_view (counted c now a) = guess_view (counted c now b)"
  by (simp add: counted_def guess_view_def lock_if_full_def count_attempt_def open_attempt_window_def Let_def split: option.split)

lemma guess_idle_refl [simp]: "guess_idle c now x x"
  by (simp add: guess_idle_def split: option.split)

lemma guess_idle_trans: "guess_idle c now x y \<Longrightarrow> guess_idle c now y z \<Longrightarrow> guess_idle c now x z"
proof -
  assume xy: "guess_idle c now x y" and yz: "guess_idle c now y z"
  have n: "guess_view (refresh_lock_window c now b) = (0, None, None, max_attempts c)" if "guess_view b = (0, None, None, max_attempts c)" for b
    using that by (simp add: refresh_lock_window_def guess_view_def)
  show ?thesis
  proof (cases x; cases y; cases z)
    fix a b d assume e: "x = Some a" "y = Some b" "z = Some d"
    have "guess_view (refresh_lock_window c now b) = guess_view (refresh_lock_window c now a)"
      using xy refresh_view_cong [of b a] refresh_view_cong [of b "refresh_lock_window c now a"] refresh_twice [of c now a]
      by (auto simp: guess_idle_def e)
    with xy yz show ?thesis by (auto simp: guess_idle_def e)
  qed (use xy yz n in \<open>auto simp: guess_idle_def\<close>)
qed

lemma guess_idle_admit:
  assumes "guess_idle c now (Some a) y" and "guess_admit c now y z" and "\<And>w. oa_window_at a = Some w \<Longrightarrow> w \<le> now"
  shows "guess_admit c now (Some a) z"
proof -
  from assms(1,2) obtain b d where y: "y = Some b" and z: "z = Some d"
    by (cases y; cases z) (auto simp: guess_idle_def guess_admit_def)
  have v: "guess_view (refresh_lock_window c now a) = guess_view (refresh_lock_window c now b)"
    using assms(1) refresh_view_cong [of b a] refresh_view_cong [of b "refresh_lock_window c now a"] refresh_twice [of c now a]
    by (auto simp: guess_idle_def y)
  show ?thesis
    using assms(2,3) counted_view [OF v] locked_view [OF v] by (auto simp: guess_admit_def y z split: option.split)
qed

definition otp_ok :: "otp_db \<Rightarrow> bool" where
  "otp_ok s \<longleftrightarrow> paired s \<and> life_inv (life_of s)"

lemma otp_ok_refines: "otp_ok s \<Longrightarrow> refines s t \<Longrightarrow> otp_ok t"
  unfolding otp_ok_def refines_def using life_steps_inv by blast

definition still :: "otp_settings \<Rightarrow> instant \<Rightarrow> uid \<Rightarrow> otp_db \<Rightarrow> otp_db \<Rightarrow> bool" where
  "still c now a s t \<longleftrightarrow> refines s t \<and> (otp_ok s \<longrightarrow> guess_idle c now (get_authority s a) (get_authority t a))"

lemma still_refl [simp]: "still c now a s s"
  by (simp add: still_def)

lemma still_trans [trans]: "still c now a s t \<Longrightarrow> still c now a t u \<Longrightarrow> still c now a s u"
  unfolding still_def using otp_ok_refines guess_idle_trans refines_trans by blast

lemma still_same: "authorities t = authorities s \<Longrightarrow> refines s t \<Longrightarrow> still c now a s t"
  by (simp add: still_def)

lemma still_upd:
  assumes "\<And>x. oa_id x = i \<Longrightarrow> oa_id (f x) = i"
    and "\<And>x. otp_ok s \<Longrightarrow> get_authority s i = Some x \<Longrightarrow> guess_view (f x) = guess_view x \<or> guess_view (f x) = guess_view (refresh_lock_window c now x)"
  shows "still c now a s (upd_authority i f s)"
  using assms unfolding still_def
  by (auto simp: get_upd_authority guess_idle_def refines_authority split: option.split)

lemma guess_view_upd [simp]:
  "guess_view (clear_active x) = guess_view x" "guess_view (note_issue c now x) = guess_view x"
  "guess_view (x\<lparr>oa_active_expires := e\<rparr>) = guess_view x" "guess_view (x\<lparr>oa_registration := g\<rparr>) = guess_view x"
  by (simp_all add: guess_view_def clear_active_def note_issue_def)

lemma still_lock_or_create:
  assumes "lock_or_create_authority c subject p g now s = Inr (a, t)"
  shows "still c now b s t" and "otp_ok s \<Longrightarrow> get_authority t (oa_id a) = Some a"
    and "otp_ok s \<Longrightarrow> \<exists>x. guess_view a = guess_view (refresh_lock_window c now x)"
proof -
  from assms obtain s1 a0 where s1: "establish_authority c subject p g s = Inr s1" and a0: "find_authority subject p s1 = Some a0"
    and a: "a = refresh_lock_window c now a0 \<or> a = refresh_lock_window c now (a0\<lparr>oa_registration := g\<rparr>)"
    and t: "t = upd_authority (oa_id a) (\<lambda>_. a) s1"
    by (auto simp: lock_or_create_authority_def Let_def split: sum.splits option.splits if_splits)
  have id: "oa_id a = oa_id a0" using a by auto
  note r1 = refines_establish [OF s1]
  have st1: "guess_idle c now (get_authority s b) (get_authority s1 b)" if "otp_ok s" for b
  proof -
    have "otp_next s \<notin> oa_id ` set (authorities s)" using that by (auto simp: otp_ok_def paired_def)
    then have n: "get_authority s (otp_next s) = None" by (simp add: find_row_None_iff)
    show ?thesis
      using s1 n by (cases "get_authority s b")
        (auto simp: establish_authority_def otp_bump_def find_row_append new_authority_def guess_view_def
          guess_idle_def split: if_splits)
  qed
  have g1: "get_authority s1 (oa_id a0) = Some a0" if "otp_ok s"
  proof -
    have "paired s1" using that r1 by (simp add: otp_ok_def refines_def)
    then show ?thesis using a0 by (auto simp: find_authority_def find_Some_iff paired_def find_row_Some_iff)
  qed
  have v: "guess_view a = guess_view (refresh_lock_window c now a0)"
    using a refresh_view_cong [of "a0\<lparr>oa_registration := g\<rparr>" a0] by auto
  show "otp_ok s \<Longrightarrow> get_authority t (oa_id a) = Some a"
    using g1 id by (simp add: t get_upd_authority)
  show "otp_ok s \<Longrightarrow> \<exists>x. guess_view a = guess_view (refresh_lock_window c now x)" using v by blast
  have "guess_idle c now (get_authority s b) (get_authority t b)" if ok: "otp_ok s"
  proof -
    have "guess_idle c now (get_authority s1 b) (get_authority t b)"
      using g1 [OF ok] id v by (auto simp: t get_upd_authority guess_idle_def split: option.split)
    with st1 [OF ok] show ?thesis by (rule guess_idle_trans)
  qed
  with refines_lock_or_create [OF assms] show "still c now b s t" by (simp add: still_def)
qed

text \<open>Most operations leave every authority's attempts as they are.\<close>

definition attempt_views :: "otp_db \<Rightarrow> (uid \<times> int \<times> instant option \<times> instant option \<times> int) list" where
  "attempt_views s = map (\<lambda>a. (oa_id a, guess_view a)) (authorities s)"

lemma attempt_views_get:
  "map (\<lambda>a. (oa_id a, guess_view a)) xs = map (\<lambda>a. (oa_id a, guess_view a)) ys
    \<Longrightarrow> map_option guess_view (find_row oa_id i xs) = map_option guess_view (find_row oa_id i ys)"
proof (induction xs arbitrary: ys)
  case (Cons x xs)
  then obtain y ys' where "ys = y # ys'" by (cases ys) auto
  with Cons show ?case by auto
qed simp

lemma still_views:
  assumes "attempt_views t = attempt_views s" and "refines s t"
  shows "still c now a s t"
proof -
  have "map_option guess_view (get_authority t a) = map_option guess_view (get_authority s a)"
    using attempt_views_get [OF assms(1) [unfolded attempt_views_def]] .
  then have "guess_idle c now (get_authority s a) (get_authority t a)"
    by (cases "get_authority s a"; cases "get_authority t a") (auto simp: guess_idle_def)
  with assms(2) show ?thesis by (simp add: still_def)
qed

lemma views_upd:
  "(\<And>a. oa_id (f a) = oa_id a) \<Longrightarrow> (\<And>a. guess_view (f a) = guess_view a) \<Longrightarrow> attempt_views (upd_authority i f s) = attempt_views s"
  by (simp add: attempt_views_def upd_authority_def update_where_def)

lemma views_same [simp]:
  "attempt_views (upd_challenge i fc s) = attempt_views s" "attempt_views (upd_delivery i fd s) = attempt_views s"
  "attempt_views (upd_flow i ff s) = attempt_views s" "attempt_views (upd_registration i fr s) = attempt_views s"
  "attempt_views (upd_ledger i fl s) = attempt_views s" "attempt_views (s\<lparr>flows := fs\<rparr>) = attempt_views s"
  "attempt_views (otp_bump s) = attempt_views s" "attempt_views (s\<lparr>ledgers := ls\<rparr>) = attempt_views s"
  by (simp_all add: attempt_views_def otp_bump_def)

lemma views_fold: "(\<And>x s. attempt_views (f x s) = attempt_views s) \<Longrightarrow> attempt_views (fold f xs s) = attempt_views s"
  by (induction xs arbitrary: s) auto

lemma views_void [simp]: "attempt_views (void_delivery now r a ch i s) = attempt_views s"
  by (simp add: void_delivery_def Let_def views_upd)

lemma views_fence [simp]: "attempt_views (fence_expired_flow_deliveries a now r s) = attempt_views s"
  unfolding fence_expired_flow_deliveries_def
  by (rule views_fold) (simp add: fence_challenge_def Let_def views_upd views_fold)

lemma views_outbox [simp]:
  "attempt_views (expire_current_flows a now s) = attempt_views s"
  "attempt_views (reconcile_voided_candidate x s) = attempt_views s"
  "attempt_views (fence_unavailable_delivery g now r s) = attempt_views s"
  "attempt_views (void_candidate g now r s) = attempt_views s"
  by (simp_all add: expire_current_flows_def reconcile_voided_candidate_def fence_unavailable_delivery_def void_candidate_def Let_def)

lemma views_claim: "attempt_views (snd (otp_claim c k token now i s)) = attempt_views s"
  by (simp add: otp_claim_def Let_def split: option.split sum.split)

lemma views_activate: "attempt_views (activate_candidate c a ch f now s) = attempt_views s"
  by (simp add: activate_candidate_def Let_def views_upd split: option.split)

lemma views_success: "attempt_views (snd (finalize_success c k dc r now s)) = attempt_views s"
  by (simp add: finalize_success_def views_activate split: option.split sum.split)

lemma views_failure: "attempt_views (snd (finalize_failure c dc now s)) = attempt_views s"
  by (simp add: finalize_failure_def split: option.split sum.split)

lemma views_terminalize: "terminalize_registration_idempotency k g st locked s = Inr t \<Longrightarrow> attempt_views t = attempt_views s"
  by (auto simp: terminalize_registration_idempotency_def ledger_to_retire_def Let_def split: option.splits if_splits prod.splits)

lemma views_retire: "retire_signup k f s = Inr t \<Longrightarrow> attempt_views t = attempt_views s"
  by (auto simp: retire_signup_def split: option.splits if_splits dest: views_terminalize)

lemma views_cancel: "attempt_views (snd (cancel_onboarding_flow k raw now s)) = attempt_views s"
  by (auto simp: cancel_onboarding_flow_def Let_def split: sum.split option.split dest: views_retire)

lemma views_create_flow: "create_flow c k a now dest ch g rc raw rnd s = Inr (x, t) \<Longrightarrow> attempt_views t = attempt_views s"
  by (auto simp: create_flow_def insert_flow_def consume_live_flows_def otp_bump_def attempt_views_def Let_def
      split: option.splits if_splits)

lemma views_complete: "attempt_views (snd (recovery_complete_flow k raw now s)) = attempt_views s"
  by (auto simp: recovery_complete_flow_def consume_recovery_proof_def split: sum.split option.split otp_exn.split if_split)

lemma views_link: "link_ledger p g rc i s = Inr t \<Longrightarrow> attempt_views t = attempt_views s"
  by (auto simp: link_ledger_def split: option.splits if_splits)

section \<open>Issuing and resending\<close>

lemma still_enter:
  assumes "enter c g p now s = Inr ((reg, rc, a), t)"
  shows "still c now b s t" and "otp_ok s \<Longrightarrow> get_authority t (oa_id a) = Some a"
  using assms still_lock_or_create
  by (auto simp: enter_def lock_or_create_registration_authority_def split: prod.splits sum.splits if_splits)

lemma still_issue_body:
  assumes "issue_body c k code salt g now p dest s = Inr (x, u)"
  shows "still c now b s u"
  using assms
proof (cases rule: issue_body_cases)
  case kept
  from still_enter(1) [OF kept(1)] show ?thesis .
next
  case (fresh reg rc a t ch t1 i t2)
  have "authorities t2 = authorities t" using fresh(4,5)
    by (auto simp: insert_challenge_def otp_enqueue_def insert_delivery_def otp_bump_def Let_def split: if_splits option.splits)
  then have "attempt_views t2 = attempt_views t" by (simp add: attempt_views_def)
  with views_link [OF fresh(6)] have "attempt_views u = attempt_views t" by (simp add: views_upd)
  then have "still c now b t u" using refines_issue_tail [OF assms fresh(1)] by (rule still_views)
  with still_enter(1) [OF fresh(1)] show ?thesis by (rule still_trans)
qed

lemma guess_view_resend: "consume_resend_window c now a = Inr b \<Longrightarrow> guess_view b = guess_view a"
  by (auto simp: consume_resend_window_def open_resend_window_def Let_def guess_view_def split: if_splits)

lemma guess_view_decoy: "note_decoy_issue c now a = Inr b \<Longrightarrow> guess_view b = guess_view (refresh_lock_window c now a)"
  by (auto simp: note_decoy_issue_def split: sum.splits dest!: raise_if_locked_Inr)

text \<open>The authority row a call locked, written back with its attempts as they are or refreshed.\<close>

lemma still_put_after:
  assumes "\<And>b. still c now b s t" and "otp_ok s \<Longrightarrow> get_authority t i = Some a" and "oa_id y = i"
    and "guess_view y = guess_view a \<or> guess_view y = guess_view (refresh_lock_window c now a)"
  shows "still c now b s (upd_authority i (\<lambda>_. y) t)"
proof -
  have r: "refines t (upd_authority i (\<lambda>_. y) t)" using assms(3) by (intro refines_authority) simp
  have "guess_idle c now (get_authority s b) (get_authority (upd_authority i (\<lambda>_. y) t) b)" if ok: "otp_ok s"
  proof -
    have "guess_idle c now (get_authority t b) (get_authority (upd_authority i (\<lambda>_. y) t) b)"
      using assms(2) [OF ok] assms(3,4) by (auto simp: get_upd_authority guess_idle_def split: option.split)
    moreover have "guess_idle c now (get_authority s b) (get_authority t b)" using assms(1) ok by (simp add: still_def)
    ultimately show ?thesis using guess_idle_trans by blast
  qed
  with refines_trans [OF _ r] assms(1) show ?thesis by (simp add: still_def)
qed

lemma still_resend: "still c now b s (snd (resend c k code salt g now p dest s))"
proof (cases "\<exists>x u. resend c k code salt g now p dest s = (Inr x, u)")
  case False
  then show ?thesis by (simp add: resend_refused)
next
  case True
  then obtain x u where u: "resend c k code salt g now p dest s = (Inr x, u)" by blast
  then have "still c now b s u"
  proof (cases rule: resend_cases)
    case (retried reg rc a t a1 a2 a3 dl ch)
    have v: "guess_view a2 = guess_view (refresh_lock_window c now a)"
      using guess_view_resend [OF retried(3)] raise_if_locked_Inr [OF retried(2)] by simp
    have "guess_view a3 = guess_view (refresh_lock_window c now a)"
      using guess_view_decoy [OF retried(4)] refresh_view_cong [OF v] refresh_twice by metis
    moreover have "oa_id a3 = oa_id a"
      using note_decoy_id [OF retried(4)] consume_resend_id [OF retried(3)] raise_if_locked_Inr [OF retried(2)] by simp
    ultimately have "still c now b s (upd_authority (oa_id a) (\<lambda>_. a3) t)"
      by (intro still_put_after [OF still_enter [OF retried(1)]]) simp_all
    moreover have "still c now b (upd_authority (oa_id a) (\<lambda>_. a3) t) u"
      unfolding retried(5) by (rule still_views) (simp, rule refines_challenge_same, simp_all)
    ultimately show ?thesis by (rule still_trans)
  next
    case (fresh reg rc a t a1 a2 dl ch i v)
    have "guess_view a2 = guess_view (refresh_lock_window c now a)" "oa_id a2 = oa_id a"
      using guess_view_resend [OF fresh(3)] consume_resend_id [OF fresh(3)] raise_if_locked_Inr [OF fresh(2)] by simp_all
    then have "still c now b s (upd_authority (oa_id a) (\<lambda>_. a2) t)"
      by (intro still_put_after [OF still_enter [OF fresh(1)]]) simp_all
    moreover note still_issue_body [OF fresh(4)]
    moreover have "still c now b v u"
      unfolding fresh(5) by (rule still_views) (simp, rule refines_challenge_same, simp_all)
    ultimately show ?thesis by (blast intro: still_trans)
  qed
  with u show ?thesis by simp
qed

lemma spend_view: "spend_if_repeated c now a = Inr b \<Longrightarrow> guess_view b = guess_view a"
  by (auto simp: spend_if_repeated_def dest: guess_view_resend split: if_splits)

lemma still_start_issue:
  assumes x: "start_issue c k code salt reg a now t = Inr (x, u)"
    and t: "\<And>b. still c now b s t" "otp_ok s \<Longrightarrow> get_authority t (oa_id a) = Some a"
  shows "still c now b s u"
  using x
proof (cases rule: start_issue_cases)
  case (decoy a1 a2)
  have id: "oa_id a1 = oa_id a" "oa_id a2 = oa_id a"
    using spend_if_repeated_id [OF decoy(1)] note_decoy_id [OF decoy(3)] by simp_all
  have "guess_view a2 = guess_view (refresh_lock_window c now a)"
    using guess_view_decoy [OF decoy(3)] refresh_view_cong [OF spend_view [OF decoy(1)]] by metis
  then have "still c now b s (upd_authority (oa_id a) (\<lambda>_. a2) t)" by (intro still_put_after [OF t] id) simp_all
  moreover have "upd_authority (oa_id a) (\<lambda>_. a2) (upd_authority (oa_id a) (\<lambda>_. a1) t) = upd_authority (oa_id a) (\<lambda>_. a2) t"
    using id by (simp add: upd_authority_def update_where_def)
  ultimately show ?thesis by (simp add: decoy(4))
next
  case (issued a1 g dest y v a2)
  have id: "oa_id a1 = oa_id a" "oa_id a2 = oa_id a" using spend_if_repeated_id [OF issued(1)] find_row_SomeD [OF issued(4)] by simp_all
  have "still c now b s (upd_authority (oa_id a) (\<lambda>_. a1) t)" for b
    using spend_view [OF issued(1)] by (intro still_put_after [OF t] id) simp_all
  with still_issue_body [OF issued(3)] have v: "still c now b s v" for b by (blast intro: still_trans)
  from issued(5) show ?thesis
  proof
    assume "\<exists>a3. note_decoy_issue c now a2 = Inr a3 \<and> u = upd_authority (oa_id a) (\<lambda>_. a3) v"
    then obtain a3 where n: "note_decoy_issue c now a2 = Inr a3" and u: "u = upd_authority (oa_id a) (\<lambda>_. a3) v" by blast
    show ?thesis unfolding u
      using issued(4) note_decoy_id [OF n] id guess_view_decoy [OF n]
      by (intro still_put_after [where a = a2 and y = a3, OF v]) simp_all
  qed (use v in simp)
qed

lemma still_start: "still c now b s (snd (start_flow c k code salt rnd mobile now s))"
proof (cases "\<exists>x u. start_flow c k code salt rnd mobile now s = (Inr x, u)")
  case False
  then show ?thesis by (simp add: start_refused)
next
  case True
  then obtain x u where u: "start_flow c k code salt rnd mobile now s = (Inr x, u)" by blast
  then have "still c now b s u"
  proof (rule start_flow_cases)
    fix sub a t v iss a' ch w
    assume t: "lock_or_create_authority c sub Recovery (map_option rg_id (recovery_registration k mobile s)) now s = Inr (a, t)"
      and v: "v = t \<or> start_issue c k code salt (recovery_registration k mobile s) a now t = Inr (iss, v)"
      and w: "create_flow c k a' now mobile ch (map_option rg_id (recovery_registration k mobile s)) None None rnd v = Inr (w, u)"
    note st = still_lock_or_create(1,2) [OF t]
    from v have "still c now b s v" using st(1) still_start_issue [OF _ st] by blast
    moreover have "still c now b v u" using views_create_flow [OF w] refines_create_flow [OF w] by (rule still_views)
    ultimately show "still c now b s u" by (rule still_trans)
  qed
  with u show ?thesis by simp
qed

section \<open>Verifying\<close>

text \<open>The locked authority and the verifier a code is compared with, if the call gets that far.\<close>

definition compared_with :: "otp_settings \<Rightarrow> uid \<Rightarrow> instant \<Rightarrow> purpose \<Rightarrow> uid option \<Rightarrow> otp_db \<Rightarrow> (uid \<times> challenge) option" where
  "compared_with c g now p i s = (case enter c g p now s of Inl _ \<Rightarrow> None | Inr ((_, _, a), t) \<Rightarrow>
     case raise_if_locked c now a of Inl _ \<Rightarrow> None | Inr _ \<Rightarrow>
     case active_challenge (oa_id a) i t of None \<Rightarrow> None | Some ch \<Rightarrow>
       if ch_expires ch \<le> now then None else Some (oa_id a, ch))"

definition wrong_code :: "otp_settings \<Rightarrow> crypto \<Rightarrow> uid \<Rightarrow> uid \<Rightarrow> string \<Rightarrow> instant \<Rightarrow> purpose \<Rightarrow> uid option \<Rightarrow> otp_db \<Rightarrow> bool" where
  "wrong_code c k a g code now p i s = (case compared_with c g now p i s of None \<Rightarrow> False
     | Some (b, ch) \<Rightarrow> b = a \<and> otp_verifier k code (ch_salt ch) \<noteq> ch_verifier ch)"

lemma unlocked_refresh: "raise_if_locked c now a = Inr b \<Longrightarrow> oa_locked_until (refresh_lock_window c now a) = None"
  using ceil_seconds_pos
  by (auto simp: raise_if_locked_def locked_for_seconds_def refresh_lock_window_def Let_def split: option.splits if_splits)
    (metis diff_gt_0_iff_gt less_le_not_le max.absorb2 not_le order.strict_implies_order)

lemma record_failed_attempt_cases:
  "raise_if_locked c now a = Inl e \<Longrightarrow> record_failed_attempt c a now ch s = (Inl e, s)"
  "raise_if_locked c now a = Inr b \<Longrightarrow> \<exists>e. fst (record_failed_attempt c a now ch s) = Inl e
     \<and> authorities (snd (record_failed_attempt c a now ch s)) = authorities (upd_authority (oa_id a) (\<lambda>_. counted c now a) s)"
  using raise_if_locked_Inr [of c now a b]
  by (auto simp: record_failed_attempt_def Let_def counted_def split: option.split)

lemma enter_existing:
  assumes e: "enter c g p now s = Inr ((reg, rc, a), t)"
  shows "challenges t = challenges s" "deliveries t = deliveries s" "flows t = flows s"
    and "otp_ok s \<Longrightarrow> oa_id a < otp_next s \<Longrightarrow> get_authority s (oa_id a) \<noteq> None"
proof -
  from e obtain sub q where l: "lock_or_create_authority c sub p q now s = Inr (a, t)"
    by (auto simp: enter_def lock_or_create_registration_authority_def split: prod.splits sum.splits if_splits)
  then obtain s1 a0 where s1: "establish_authority c sub p q s = Inr s1" "find_authority sub p s1 = Some a0" "oa_id a = oa_id a0"
      "t = upd_authority (oa_id a) (\<lambda>_. a) s1"
    by (auto simp: lock_or_create_authority_def Let_def refresh_id split: sum.splits option.splits if_splits)
  then show "challenges t = challenges s" "deliveries t = deliveries s" "flows t = flows s"
    by (auto simp: establish_authority_def otp_bump_def split: if_splits)
  show "get_authority s (oa_id a) \<noteq> None" if "otp_ok s" "oa_id a < otp_next s"
  proof -
    have "a0 \<in> set (authorities s1)" using s1(2) by (auto simp: find_authority_def find_Some_iff)
    with s1(1,3) that(2) have "a0 \<in> set (authorities s)"
      by (auto simp: establish_authority_def otp_bump_def new_authority_def split: if_splits)
    with s1(3) show ?thesis by (auto simp: find_row_None_iff)
  qed
qed

lemma get_counted:
  assumes "oa_id a = i" and "authorities u = authorities (upd_authority i (\<lambda>_. counted c now a) t)"
  shows "get_authority u j = (if j = i then map_option (\<lambda>_. counted c now a) (get_authority t j) else get_authority t j)"
proof -
  have "oa_id (counted c now a) = i" using assms(1) by (simp add: counted_def)
  then show ?thesis unfolding assms(2) by (subst get_upd_authority) simp_all
qed

lemma admit_counted:
  assumes "get_authority t i = Some a" "oa_id a = i" "raise_if_locked c now a = Inr b"
    and "\<And>w. oa_window_at a = Some w \<Longrightarrow> w \<le> now"
    and "authorities u = authorities (upd_authority i (\<lambda>_. counted c now a) t)"
  shows "guess_admit c now (get_authority t i) (get_authority u i)"
  using assms(1,4) unlocked_refresh [OF assms(3)]
  by (simp add: get_counted [OF assms(2,5)] guess_admit_def split: option.split)

lemma idle_window:
  "guess_idle c now x (Some b) \<Longrightarrow> (\<And>y v. x = Some y \<Longrightarrow> oa_window_at y = Some v \<Longrightarrow> v \<le> now) \<Longrightarrow> oa_window_at b = Some w \<Longrightarrow> w \<le> now"
  by (cases x) (auto simp: guess_idle_def guess_view_def refresh_lock_window_def split: option.splits if_splits)

lemma views_verify_registration: "verify_registration k reg rc p s = Inr t \<Longrightarrow> attempt_views t = attempt_views s"
  by (auto simp: verify_registration_def split: if_splits dest: views_terminalize)

lemma verify_attempts:
  assumes ok: "otp_ok s" and v: "verify c k g code now p i s = (Inl e, u)"
    and w: "\<And>x v. get_authority s j = Some x \<Longrightarrow> oa_window_at x = Some v \<Longrightarrow> v \<le> now"
  shows "if wrong_code c k j g code now p i s then guess_admit c now (get_authority s j) (get_authority u j)
    else guess_idle c now (get_authority s j) (get_authority u j)"
proof (cases "enter c g p now s")
  case (Inr x)
  obtain reg rc a t where x: "x = ((reg, rc, a), t)" by (metis prod.exhaust)
  note e = Inr [unfolded x]
  note st = still_enter [OF e]
  have idle: "guess_idle c now (get_authority s b) (get_authority t b)" for b using st(1) ok by (simp add: still_def)
  have ga: "get_authority t (oa_id a) = Some a" using st(2) ok .
  show ?thesis
  proof (cases "compared_with c g now p i s")
    case None
    then have n: "\<not> wrong_code c k j g code now p i s" by (simp add: wrong_code_def)
    have "attempt_views u = attempt_views t \<or> u = s"
      using None v e by (auto simp: compared_with_def verify_def views_upd split: sum.splits option.splits if_splits)
    then have "map_option guess_view (get_authority u j) = map_option guess_view (get_authority t j) \<or> u = s"
      using attempt_views_get unfolding attempt_views_def by blast
    then have "guess_idle c now (get_authority t j) (get_authority u j) \<or> u = s"
      by (cases "get_authority t j"; cases "get_authority u j") (auto simp: guess_idle_def)
    then show ?thesis using n idle [of j] guess_idle_trans by auto
  next
    case (Some y)
    then obtain ch b where y: "y = (oa_id a, ch)" and lk: "raise_if_locked c now a = Inr b" and ac: "active_challenge (oa_id a) i t = Some ch"
      and ex: "\<not> ch_expires ch \<le> now"
      using e by (auto simp: compared_with_def split: sum.splits option.splits if_splits)
    show ?thesis
    proof (cases "otp_verifier k code (ch_salt ch) = ch_verifier ch")
      case True
      then have "\<not> wrong_code c k j g code now p i s" using Some y by (simp add: wrong_code_def)
      moreover have "u = s" using v e lk ac ex True by (auto simp: verify_def split: sum.splits)
      ultimately show ?thesis by simp
    next
      case False
      obtain f u' where rf: "record_failed_attempt c a now (Some (ch_id ch)) t = (Inl f, u')"
        and au: "authorities u' = authorities (upd_authority (oa_id a) (\<lambda>_. counted c now a) t)"
        using record_failed_attempt_cases(2) [OF lk, of "Some (ch_id ch)" t]
        by (cases "record_failed_attempt c a now (Some (ch_id ch)) t") auto
      have u: "u = u'" using v e lk ac ex False rf by (simp add: verify_def)
      have wr: "wrong_code c k j g code now p i s \<longleftrightarrow> j = oa_id a" using Some y False by (auto simp: wrong_code_def)
      have wn: "v \<le> now" if "j = oa_id a" "oa_window_at a = Some v" for v
        using idle_window [of c now "get_authority s j" a v] idle [of j] ga w that by auto
      show ?thesis
      proof (cases "j = oa_id a")
        case True
        have "ch \<in> set (challenges s)" "ch_authority ch = oa_id a"
          using ac enter_existing(1) [OF e] by (auto simp: active_challenge_def find_Some_iff)
        then have "oa_id a < otp_next s" using ok by (auto simp: otp_ok_def paired_def)
        then obtain x where gx: "get_authority s j = Some x" using enter_existing(4) [OF e ok] True by blast
        have "guess_admit c now (get_authority t j) (get_authority u j)"
          using admit_counted [OF ga refl lk wn] au True by (simp add: u)
        with guess_idle_admit [of c now x "get_authority t j" "get_authority u j"] idle [of j] gx w [OF gx] wr True
        show ?thesis by simp
      next
        case False
        then have "get_authority u j = get_authority t j"
          using get_counted [OF refl au, of j] by (simp add: u)
        with idle [of j] wr False show ?thesis by simp
      qed
    qed
  qed
next
  case (Inl e')
  then show ?thesis using v by (auto simp: verify_def wrong_code_def compared_with_def)
qed

lemma charge_attempts:
  assumes a: "get_authority t i = Some a" and w: "\<And>x v. get_authority t j = Some x \<Longrightarrow> oa_window_at x = Some v \<Longrightarrow> v \<le> now"
  shows "j = i \<and> guess_admit c now (get_authority t j) (get_authority (charge_miss c a now t) j)
    \<or> get_authority (charge_miss c a now t) j = get_authority t j"
proof (cases "raise_if_locked c now a")
  case (Inl e)
  then show ?thesis by (simp add: charge_miss_def record_failed_attempt_cases(1))
next
  case (Inr b)
  have id: "oa_id a = i" using find_row_SomeD [OF a] by simp
  have au: "authorities (charge_miss c a now t) = authorities (upd_authority i (\<lambda>_. counted c now a) t)"
    using record_failed_attempt_cases(2) [OF Inr, of None t] id by (auto simp: charge_miss_def)
  show ?thesis
  proof (cases "j = i")
    case True
    then show ?thesis using admit_counted [OF a id Inr _ au] w a by auto
  next
    case False
    then show ?thesis using get_counted [OF id au, of j] by simp
  qed
qed

text \<open>A wrong code is refused with one of the two counted errors.\<close>

lemma wrong_code_counted:
  assumes "verify c k g code now p i s = (Inl (OtpError st ec left retry), u)" and "ec \<notin> set counted_codes"
  shows "\<not> wrong_code c k j g code now p i s"
proof
  assume "wrong_code c k j g code now p i s"
  then obtain reg rc a t b ch where x: "enter c g p now s = Inr ((reg, rc, a), t)" "raise_if_locked c now a = Inr b"
      "active_challenge (oa_id a) i t = Some ch" "\<not> ch_expires ch \<le> now" "otp_verifier k code (ch_salt ch) \<noteq> ch_verifier ch"
    by (auto simp: wrong_code_def compared_with_def split: sum.splits option.splits if_splits)
  with assms show False
    by (auto simp: verify_def record_failed_attempt_def Let_def counted_codes_def split: if_splits)
qed

definition wrong_recovery :: "otp_settings \<Rightarrow> crypto \<Rightarrow> uid \<Rightarrow> string option \<Rightarrow> string \<Rightarrow> instant \<Rightarrow> otp_db \<Rightarrow> bool" where
  "wrong_recovery c k j raw code now s = (case resolve_flow k s raw of Inr (Some (a, f)) \<Rightarrow>
     usable_flow Recovery now f \<and> (case (fl_registration f, fl_challenge f) of
       (Some g, Some ch) \<Rightarrow> wrong_code c k j g code now Recovery (Some ch) s | _ \<Rightarrow> False) | _ \<Rightarrow> False)"

lemma resolve_flow_authority: "resolve_flow k s raw = Inr (Some (a, f)) \<Longrightarrow> get_authority s (oa_id a) = Some a"
proof -
  assume "resolve_flow k s raw = Inr (Some (a, f))"
  then obtain i where i: "get_authority s i = Some a"
    by (auto simp: resolve_flow_def locked_flow_graph_def Let_def split: option.splits if_splits)
  with find_row_SomeD [OF i] show ?thesis by simp
qed

lemma recovery_attempts:
  assumes ok: "otp_ok s" and r: "recovery_verify_flow c k raw code now s = (Inl e, u)"
    and w: "\<And>x v. get_authority s j = Some x \<Longrightarrow> oa_window_at x = Some v \<Longrightarrow> v \<le> now"
  shows "wrong_recovery c k j raw code now s \<Longrightarrow> guess_admit c now (get_authority s j) (get_authority u j)"
    and "guess_admit c now (get_authority s j) (get_authority u j) \<or> guess_idle c now (get_authority s j) (get_authority u j)"
proof -
  let ?goal = "(wrong_recovery c k j raw code now s \<longrightarrow> guess_admit c now (get_authority s j) (get_authority u j))
    \<and> (guess_admit c now (get_authority s j) (get_authority u j) \<or> guess_idle c now (get_authority s j) (get_authority u j))"
  have ?goal
  proof (cases "\<exists>a f. resolve_flow k s raw = Inr (Some (a, f)) \<and> usable_flow Recovery now f")
    case False
    then have "u = s" "\<not> wrong_recovery c k j raw code now s"
      using r by (auto simp: recovery_verify_flow_def wrong_recovery_def split: sum.splits option.splits if_splits)
    then show ?thesis by simp
  next
    case True
    then obtain a f where rf: "resolve_flow k s raw = Inr (Some (a, f))" "usable_flow Recovery now f" by blast
    note ga = resolve_flow_authority [OF rf(1)]
    show ?thesis
    proof (cases "\<exists>g ch. fl_registration f = Some g \<and> fl_challenge f = Some ch")
      case False
      then have u: "u = charge_miss c a now s" and n: "\<not> wrong_recovery c k j raw code now s"
        using r rf by (auto simp: recovery_verify_flow_def wrong_recovery_def split: option.splits)
      show ?thesis using charge_attempts [OF ga, of j now c] w n by (auto simp: u)
    next
      case True
      then obtain g ch where gc: "fl_registration f = Some g" "fl_challenge f = Some ch" by blast
      have wr: "wrong_recovery c k j raw code now s = wrong_code c k j g code now Recovery (Some ch) s"
        using rf gc by (simp add: wrong_recovery_def)
      obtain y t where v: "verify c k g code now Recovery (Some ch) s = (y, t)" by fastforce
      then obtain e' where y: "y = Inl e'" using r rf gc by (cases y) (auto simp: recovery_verify_flow_def)
      note va = verify_attempts [OF ok v [unfolded y] w]
      show ?thesis
      proof (cases "\<exists>st ec left retry a'. e' = OtpError st ec left retry \<and> ec \<notin> set counted_codes \<and> get_authority t (oa_id a) = Some a'")
        case False
        then have "u = t" using r rf gc v y
          by (auto simp: recovery_verify_flow_def split: otp_exn.splits if_splits option.splits)
        with va wr show ?thesis by (auto split: if_splits)
      next
        case True
        then obtain st ec left retry a' where e': "e' = OtpError st ec left retry" "ec \<notin> set counted_codes" "get_authority t (oa_id a) = Some a'"
          by blast
        then have u: "u = charge_miss c a' now t" using r rf gc v y by (auto simp: recovery_verify_flow_def)
        have n: "\<not> wrong_code c k j g code now Recovery (Some ch) s"
          using wrong_code_counted v y e'(1,2) by blast
        then have idle: "guess_idle c now (get_authority s j) (get_authority t j)" using va by simp
        have wt: "v \<le> now" if "get_authority t j = Some x" "oa_window_at x = Some v" for x v
          using idle_window [of c now "get_authority s j" x v] idle that w by auto
        from charge_attempts [OF e'(3) wt] show ?thesis
        proof
          assume "get_authority (charge_miss c a' now t) j = get_authority t j"
          with idle show ?thesis using n wr u by simp
        next
          assume ad: "j = oa_id a \<and> guess_admit c now (get_authority t j) (get_authority (charge_miss c a' now t) j)"
          with guess_idle_admit [of c now a _ _] idle ga w n wr u show ?thesis by auto
        qed
      qed
    qed
  qed
  then show "wrong_recovery c k j raw code now s \<Longrightarrow> guess_admit c now (get_authority s j) (get_authority u j)"
    and "guess_admit c now (get_authority s j) (get_authority u j) \<or> guess_idle c now (get_authority s j) (get_authority u j)"
    by blast+
qed

section \<open>A run of calls\<close>

fun otp_time :: "otp_call \<Rightarrow> instant" where
  "otp_time (Call_issue code salt g now p dest) = now"
| "otp_time (Call_verify g code now p i) = now"
| "otp_time (Call_resend code salt g now p dest) = now"
| "otp_time (Call_claim token now i) = now"
| "otp_time (Call_accepted dc r now) = now"
| "otp_time (Call_failed dc now) = now"
| "otp_time (Call_open a now dest ch g rc raw rnd) = now"
| "otp_time (Call_cancel raw now) = now"
| "otp_time (Call_start code salt rnd mobile now) = now"
| "otp_time (Call_recover raw code now) = now"
| "otp_time (Call_complete raw now) = now"

text \<open>A right code ends the count; a wrong one against authority \<open>j\<close> is what is counted.\<close>

fun guessed_right :: "otp_settings \<Rightarrow> crypto \<Rightarrow> otp_call \<Rightarrow> otp_db \<Rightarrow> bool" where
  "guessed_right c k (Call_verify g code now p i) s \<longleftrightarrow> \<not> isl (fst (verify c k g code now p i s))"
| "guessed_right c k (Call_recover raw code now) s \<longleftrightarrow> \<not> isl (fst (recovery_verify_flow c k raw code now s))"
| "guessed_right c k _ s \<longleftrightarrow> False"

fun guessed_wrong :: "otp_settings \<Rightarrow> crypto \<Rightarrow> uid \<Rightarrow> otp_call \<Rightarrow> otp_db \<Rightarrow> bool" where
  "guessed_wrong c k j (Call_verify g code now p i) s \<longleftrightarrow> wrong_code c k j g code now p i s"
| "guessed_wrong c k j (Call_recover raw code now) s \<longleftrightarrow> wrong_recovery c k j raw code now s"
| "guessed_wrong c k j _ s \<longleftrightarrow> False"

primrec never_right :: "otp_settings \<Rightarrow> crypto \<Rightarrow> otp_call list \<Rightarrow> otp_db \<Rightarrow> bool" where
  "never_right c k [] s \<longleftrightarrow> True"
| "never_right c k (x # xs) s \<longleftrightarrow> \<not> guessed_right c k x s \<and> never_right c k xs (otp_apply c k x s)"

primrec wrong_guesses :: "otp_settings \<Rightarrow> crypto \<Rightarrow> uid \<Rightarrow> otp_call list \<Rightarrow> otp_db \<Rightarrow> int" where
  "wrong_guesses c k j [] s = 0"
| "wrong_guesses c k j (x # xs) s = (if guessed_wrong c k j x s then 1 else 0) + wrong_guesses c k j xs (otp_apply c k x s)"

definition opened_by :: "instant \<Rightarrow> authority option \<Rightarrow> bool" where
  "opened_by t x \<longleftrightarrow> (case guess_opened x of None \<Rightarrow> True | Some w \<Rightarrow> w \<le> t)"

lemma opened_byD: "opened_by t (get_authority s j) \<Longrightarrow> t \<le> now \<Longrightarrow> get_authority s j = Some x \<Longrightarrow> oa_window_at x = Some w \<Longrightarrow> w \<le> now"
  by (auto simp: opened_by_def guess_opened_def split: option.splits)

lemma still_issue: "still c now j s (snd (issue_challenge c k code salt g now p dest s))"
  by (auto simp: issue_challenge_def split: sum.split intro: still_issue_body)

lemma still_open: "still c now j s (otp_apply c k (Call_open a now dest ch g rc raw rnd) s)"
  by (auto split: option.split sum.split intro: still_views views_create_flow refines_create_flow)

lemma still_apply:
  assumes "\<And>g code now p i. x \<noteq> Call_verify g code now p i" and "\<And>raw code now. x \<noteq> Call_recover raw code now"
  shows "still c (otp_time x) j s (otp_apply c k x s)"
proof (cases x)
  case (Call_open a now dest ch g rc raw rnd)
  then show ?thesis using still_open by simp
qed (use assms in \<open>simp_all add: still_issue still_resend still_start still_views views_claim views_success views_failure
    views_cancel views_complete refines_claim refines_success refines_failure refines_cancel refines_recovery_complete\<close>)

lemma apply_attempts:
  assumes ok: "otp_ok s" and nr: "\<not> guessed_right c k x s"
    and w: "\<And>y v. get_authority s j = Some y \<Longrightarrow> oa_window_at y = Some v \<Longrightarrow> v \<le> otp_time x"
  shows "(guessed_wrong c k j x s \<longrightarrow> guess_admit c (otp_time x) (get_authority s j) (get_authority (otp_apply c k x s) j))
    \<and> (guess_admit c (otp_time x) (get_authority s j) (get_authority (otp_apply c k x s) j)
       \<or> guess_idle c (otp_time x) (get_authority s j) (get_authority (otp_apply c k x s) j))"
proof -
  consider (verify) g code now p i where "x = Call_verify g code now p i"
    | (recover) raw code now where "x = Call_recover raw code now"
    | (other) "\<And>g code now p i. x \<noteq> Call_verify g code now p i" "\<And>raw code now. x \<noteq> Call_recover raw code now"
    by (cases x) auto
  then show ?thesis
  proof cases
    case verify
    obtain r u where v: "verify c k g code now p i s = (r, u)" by fastforce
    with nr verify obtain e where e: "r = Inl e" by (cases r) auto
    have "if wrong_code c k j g code now p i s then guess_admit c now (get_authority s j) (get_authority u j)
      else guess_idle c now (get_authority s j) (get_authority u j)"
      by (rule verify_attempts [OF ok v [unfolded e]]) (use w verify in simp)
    with verify v show ?thesis by (auto split: if_splits)
  next
    case recover
    obtain r u where v: "recovery_verify_flow c k raw code now s = (r, u)" by fastforce
    with nr recover obtain e where e: "r = Inl e" by (cases r) auto
    note ra = recovery_attempts [OF ok v [unfolded e], of j]
    have "wrong_recovery c k j raw code now s \<longrightarrow> guess_admit c now (get_authority s j) (get_authority u j)"
      by (rule impI, rule ra(1)) (use w recover in simp_all)
    moreover have "guess_admit c now (get_authority s j) (get_authority u j) \<or> guess_idle c now (get_authority s j) (get_authority u j)"
      by (rule ra(2)) (use w recover in simp)
    ultimately show ?thesis using recover v by simp
  next
    case other
    have "\<not> guessed_wrong c k j x s"
    proof (cases x)
      case (Call_verify g code now p i)
      with other(1) show ?thesis by blast
    next
      case (Call_recover raw code now)
      with other(2) show ?thesis by blast
    qed simp_all
    then show ?thesis using still_apply [OF other] ok by (simp add: still_def)
  qed
qed

lemma apply_opened:
  assumes "guess_ok c x" and "opened_by t x" and "t \<le> now" and "guess_admit c now x y \<or> guess_idle c now x y"
  shows "opened_by now y"
  using assms(4)
proof
  assume "guess_admit c now x y"
  from guess.admits_counts [OF assms(1) this] assms(2,3) show ?thesis by (auto simp: opened_by_def split: option.splits)
next
  assume "guess_idle c now x y"
  from guess.idles_counts [OF assms(1) this] assms(2,3) show ?thesis by (auto simp: opened_by_def split: option.splits)
qed

lemma run_counts:
  "otp_ok s \<Longrightarrow> guess_ok c (get_authority s j) \<Longrightarrow> opened_by t (get_authority s j) \<Longrightarrow> sorted_wrt (\<le>) (t # map otp_time xs)
    \<Longrightarrow> never_right c k xs s
    \<Longrightarrow> \<exists>r e. guess.counts c r (get_authority s j) e \<and> wrong_guesses c k j xs s \<le> guess.admitted r \<and> map fst r = map otp_time xs"
proof (induction xs arbitrary: s t)
  case Nil
  have "guess.counts c [] (get_authority s j) (get_authority s j)" by (rule guess.counts_nil)
  then show ?case by fastforce
next
  case (Cons x xs)
  let ?s' = "otp_apply c k x s"
  have t: "t \<le> otp_time x" "sorted_wrt (\<le>) (otp_time x # map otp_time xs)" using Cons.prems(4) by simp_all
  note a = apply_attempts [OF Cons.prems(1), of c k x j] opened_byD [OF Cons.prems(3) t(1)]
  have ai: "guess_admit c (otp_time x) (get_authority s j) (get_authority ?s' j) \<or> guess_idle c (otp_time x) (get_authority s j) (get_authority ?s' j)"
    and wr: "guessed_wrong c k j x s \<Longrightarrow> guess_admit c (otp_time x) (get_authority s j) (get_authority ?s' j)"
    using a Cons.prems(5) by auto
  have ok': "guess_ok c (get_authority ?s' j)" using ai guess.admits_valid guess.idles_valid Cons.prems(2) by blast
  from Cons.IH [OF otp_ok_refines [OF Cons.prems(1) refines_apply] ok' apply_opened [OF Cons.prems(2,3) t(1) ai] t(2)] Cons.prems(5)
  obtain r e where r: "guess.counts c r (get_authority ?s' j) e" "wrong_guesses c k j xs ?s' \<le> guess.admitted r"
      "map fst r = map otp_time xs" by auto
  show ?case
  proof (cases "guess_admit c (otp_time x) (get_authority s j) (get_authority ?s' j)")
    case True
    from guess.counts_admit [OF True r(1)] r(2,3) show ?thesis
      by (intro exI [of _ "(otp_time x, True) # r"] exI [of _ e]) simp
  next
    case False
    with ai wr guess.counts_idle [OF _ r(1), of "otp_time x" "get_authority s j"] r(2,3) show ?thesis
      by (intro exI [of _ "(otp_time x, False) # r"] exI [of _ e]) auto
  qed
qed

end
