(* ===== verification/OtpProperties.thy ===== *)
theory OtpProperties
  imports OtpGuess
begin

text \<open>
  What the one-time passwords guarantee, read off the lifecycle and the guessing budget: histories of the
  services follow the lifecycle, an authority has one verifier, a code is accepted once, guesses are
  bounded, a cancelled code is dead, an accepted delivery can be verified, and a decoy is refused exactly
  when an account is. Each theorem is applied to a small database.
\<close>

section \<open>A small database\<close>

text \<open>
  One account in recovery: registration 7, authority 2, challenge 3 with its delivery 4, flow 5. Digests
  stay symbolic.
\<close>

definition sample_keys :: crypto where
  "sample_keys = \<lparr>ck_lookup = [1], ck_version = ''v1'', ck_encrypt = (\<lambda>x. x), ck_decrypt = (\<lambda>x. x)\<rparr>"

definition sample_mobile :: string where
  "sample_mobile = replicate 64 (CHR ''a'')"

definition sample_registration :: registration where
  "sample_registration = \<lparr>rg_id = 7, rg_mobile_hash = sample_mobile, rg_mobile_ct = ''ct'', rg_dob_state = Dob_verified,
     rg_status = R_active, rg_idempotency_key = None, rg_deleted_at = None\<rparr>"

definition sample_subject :: string where
  "sample_subject = sha256_hex (''nyayone:otp-authority:v1:'' @ sample_mobile)"

definition sample_authority :: authority where
  "sample_authority = \<lparr>oa_id = 2, oa_subject = sample_subject, oa_registration = Some 7, oa_purpose = Recovery, oa_failed = 0,
     oa_max = 3, oa_locked_until = None, oa_window_at = None, oa_issued_at = Some 0, oa_cooldown = Some (seconds 30),
     oa_resend_at = None, oa_resends = 0, oa_max_resends = 3, oa_active_expires = None, oa_generation = 1\<rparr>"

definition sample_challenge :: "string \<Rightarrow> delivery_state \<Rightarrow> challenge" where
  "sample_challenge v st = \<lparr>ch_id = 3, ch_registration = 7, ch_authority = 2, ch_purpose = Recovery, ch_verifier = v,
     ch_salt = ''salt'', ch_attempts = 0, ch_max = 3, ch_expires = seconds 300,
     ch_consumed = (if st = D_active then None else Some 0), ch_locked = None, ch_state = st\<rparr>"

definition sample_delivery :: "queue_status \<Rightarrow> string option \<Rightarrow> delivery" where
  "sample_delivery q claim = \<lparr>dl_id = 4, dl_challenge = 3, dl_destination = (if q = Q_sent then None else Some ''to''),
     dl_code = (if q = Q_sent then None else Some ''123456''), dl_purpose = Recovery, dl_status = q, dl_attempts = 1,
     dl_max = 5, dl_error = None, dl_delivered = None, dl_provider_key = replicate 64 (CHR ''b''), dl_claim = claim,
     dl_claimed_at = map_option (\<lambda>_. 0) claim, dl_lease = map_option (\<lambda>_. seconds 30) claim, dl_next = None,
     dl_receipt = None, dl_legacy = False\<rparr>"

definition sample_flow :: flow where
  "sample_flow = \<lparr>fl_id = 5, fl_token_hash = flow_token_hash sample_keys ''cookie'', fl_authority = 2,
     fl_subject = sample_subject, fl_purpose = Recovery, fl_registration = Some 7, fl_record = None, fl_challenge = Some 3,
     fl_destination = Some ''to'', fl_key_version = Some ''v1'', fl_state = F_pending, fl_expires = seconds 600,
     fl_consumed = None, fl_meta = Meta_none\<rparr>"

definition sample_otp :: "string \<Rightarrow> delivery_state \<Rightarrow> queue_status \<Rightarrow> string option \<Rightarrow> otp_db" where
  "sample_otp v st q claim = \<lparr>registrations = [sample_registration], ledgers = [], authorities = [sample_authority],
     challenges = [sample_challenge v st], flows = [sample_flow], deliveries = [sample_delivery q claim], buckets = [],
     otp_next = 8\<rparr>"

definition sample_claim :: "string \<Rightarrow> delivery_claim" where
  "sample_claim h = \<lparr>dc_outbox = 4, dc_challenge = 3, dc_token_hash = h, dc_provider_key = replicate 64 (CHR ''b''),
     dc_destination = ''to'', dc_code = ''123456''\<rparr>"

lemmas sample_defs = sample_otp_def sample_flow_def sample_delivery_def sample_challenge_def sample_authority_def
  sample_registration_def sample_claim_def

lemma hex64_sha256: "hex64 (sha256_hex x)"
  by (simp add: hex64_def list_all_iff sha256_hex_plain)

lemma sample_hex: "hex64 sample_mobile" "hex64 sample_subject"
  by (simp add: hex64_def sample_mobile_def hex_char_def list_all_iff) (simp add: sample_subject_def hex64_sha256)

lemma sample_subject_of: "authority_subject_from_mobile_hash sample_mobile = Inr sample_subject"
  "\<exists>x. authority_subject_from_mobile_hash sample_subject = Inr x"
  using sample_hex by (simp_all add: authority_subject_from_mobile_hash_def sample_subject_def)

lemma sample_ok: "linked st q \<Longrightarrow> otp_ok (sample_otp v st q claim)"
  by (auto simp: otp_ok_def paired_def life_inv_def life_of_def sample_defs split: option.splits if_splits)

lemma sample_enter: "enter c 7 Recovery now (sample_otp v st q claim)
    = Inr ((sample_registration, None, sample_authority), sample_otp v st q claim)"
  using sample_subject_of
  by (auto simp: enter_def lock_registration_with_idempotency_def registration_accepts_otp_purpose_def
      registration_is_authorizable_def lock_or_create_registration_authority_def lock_or_create_authority_def
      establish_authority_def find_authority_def refresh_lock_window_def upd_authority_def update_where_def sample_defs Let_def)

lemma sample_unlocked: "raise_if_locked c now sample_authority = Inr sample_authority"
  by (simp add: raise_if_locked_def locked_for_seconds_def refresh_lock_window_def sample_authority_def)

lemma sample_resolve: "resolve_flow sample_keys (sample_otp v st q claim) (Some ''cookie'') = Inr (Some (sample_authority, sample_flow))"
  by (simp add: resolve_flow_def locked_flow_graph_def flow_of_token_def terminal_erasure_won_def record_disagrees_def
      registration_ineligible_def sample_defs Let_def)

section \<open>The lifecycle\<close>

text \<open>Property C8.
  Refinement: from a database in which challenges and deliveries are paired and every challenge is at a
  stage of its life, any sequence of calls of the OTP services, in any order and with any arguments, is a
  sequence of steps of the abstract lifecycle, and leads to such a database again.\<close>

theorem otp_refines_lifecycle:
  assumes "otp_ok s"
  shows "life_steps (life_of s) (life_of (otp_run c k xs s)) \<and> otp_ok (otp_run c k xs s)"
  using refines_run [of s c k xs] otp_ok_refines [OF assms] assms by (simp add: refines_def otp_ok_def)

lemma sample_accepted:
  "otp_run default_otp_settings sample_keys [Call_accepted (sample_claim ''h'') None (seconds 10)]
     (sample_otp v D_pending Q_claimed (Some ''h''))
   = upd_flow 5 (\<lambda>f. f\<lparr>fl_challenge := Some 3, fl_state := F_code_sent\<rparr>)
       (upd_delivery 4 (mark_sent sample_keys None (seconds 10))
         (activate_candidate default_otp_settings sample_authority (sample_challenge v D_pending) sample_flow (seconds 10)
           (sample_otp v D_pending Q_claimed (Some ''h''))))"
  by (simp add: otp_run_def finalize_success_def locked_graph_def holds_claim_def authorized_delivery_flow_def
      delivery_flow_states_def live_flow_states_def sample_defs Let_def seconds_def)

lemma sample_accepted_rows:
  fixes v
  defines "t \<equiv> otp_run default_otp_settings sample_keys [Call_accepted (sample_claim ''h'') None (seconds 10)]
     (sample_otp v D_pending Q_claimed (Some ''h''))"
  shows "challenges t = [activate default_otp_settings sample_authority (seconds 600) (seconds 10) (sample_challenge v D_pending)]"
    and "deliveries t = [mark_sent sample_keys None (seconds 10) (sample_delivery Q_claimed (Some ''h''))]"
  unfolding t_def sample_accepted
  by (simp_all add: activate_candidate_def upd_challenge_def upd_authority_def upd_delivery_def upd_flow_def update_where_def
      sample_otp_def sample_challenge_def sample_flow_def sample_delivery_def Let_def)

lemma sample_accepted_life:
  "life_of (otp_run default_otp_settings sample_keys [Call_accepted (sample_claim ''h'') None (seconds 10)]
     (sample_otp v D_pending Q_claimed (Some ''h''))) 3 = Some (2, D_active, Q_sent)"
  unfolding life_of_def sample_accepted_rows by (simp add: sample_challenge_def sample_delivery_def)

theorem otp_refines_lifecycle_witness:
  "life_steps (life_of (sample_otp ''v'' D_pending Q_claimed (Some ''h'')))
     (life_of (otp_run default_otp_settings sample_keys [Call_accepted (sample_claim ''h'') None (seconds 10)]
        (sample_otp ''v'' D_pending Q_claimed (Some ''h''))))
   \<and> life_of (sample_otp ''v'' D_pending Q_claimed (Some ''h'')) 3 = Some (2, D_pending, Q_claimed)
   \<and> life_of (otp_run default_otp_settings sample_keys [Call_accepted (sample_claim ''h'') None (seconds 10)]
        (sample_otp ''v'' D_pending Q_claimed (Some ''h''))) 3 = Some (2, D_active, Q_sent)"
proof (intro conjI)
  have ok: "otp_ok (sample_otp ''v'' D_pending Q_claimed (Some ''h''))" by (rule sample_ok) (simp add: queued_def)
  show "life_steps (life_of (sample_otp ''v'' D_pending Q_claimed (Some ''h'')))
     (life_of (otp_run default_otp_settings sample_keys [Call_accepted (sample_claim ''h'') None (seconds 10)]
        (sample_otp ''v'' D_pending Q_claimed (Some ''h''))))"
    using otp_refines_lifecycle [OF ok] by blast
  show "life_of (sample_otp ''v'' D_pending Q_claimed (Some ''h'')) 3 = Some (2, D_pending, Q_claimed)"
    by (simp add: life_of_def sample_defs)
  show "life_of (otp_run default_otp_settings sample_keys [Call_accepted (sample_claim ''h'') None (seconds 10)]
        (sample_otp ''v'' D_pending Q_claimed (Some ''h''))) 3 = Some (2, D_active, Q_sent)"
    by (rule sample_accepted_life)
qed

lemma challenge_state:
  assumes "otp_ok s" and "get_challenge s i = Some ch"
  obtains d where "find (\<lambda>d. dl_challenge d = i) (deliveries s) = Some d"
    and "life_of s i = Some (ch_authority ch, ch_state ch, dl_status d)"
  using challenge_life [of s i ch] assms unfolding otp_ok_def by blast

text \<open>Property C7.
  One verifier: after any sequence of calls an authority has at most one active challenge, and the
  delivery of an active challenge is one the provider has accepted. Nothing can be verified that was not
  sent, and a resend never leaves two codes valid.\<close>

theorem one_verifier:
  assumes "otp_ok s" and "get_challenge (otp_run c k xs s) i = Some ch" and "get_challenge (otp_run c k xs s) j = Some ch'"
    and "ch_authority ch' = ch_authority ch" and "ch_state ch = D_active" and "ch_state ch' = D_active"
  shows "i = j \<and> (\<exists>d. find (\<lambda>d. dl_challenge d = i) (deliveries (otp_run c k xs s)) = Some d \<and> dl_status d = Q_sent)"
proof -
  have ok: "otp_ok (otp_run c k xs s)" using otp_ok_refines [OF assms(1) refines_run] .
  then have inv: "life_inv (life_of (otp_run c k xs s))" by (simp add: otp_ok_def)
  obtain d where d: "find (\<lambda>d. dl_challenge d = i) (deliveries (otp_run c k xs s)) = Some d"
      "life_of (otp_run c k xs s) i = Some (ch_authority ch, D_active, dl_status d)"
    by (rule challenge_state [OF ok assms(2)]) (simp add: assms(5))
  obtain d' where "find (\<lambda>d. dl_challenge d = j) (deliveries (otp_run c k xs s)) = Some d'"
      "life_of (otp_run c k xs s) j = Some (ch_authority ch, D_active, dl_status d')"
    by (rule challenge_state [OF ok assms(3)]) (simp add: assms(4,6))
  with d life_invD(2) [OF inv] life_invD(1) [OF inv d(2)] show ?thesis by auto
qed

theorem one_verifier_witness:
  "get_challenge (otp_run default_otp_settings sample_keys [Call_accepted (sample_claim ''h'') None (seconds 10)]
      (sample_otp ''v'' D_pending Q_claimed (Some ''h''))) 3 \<noteq> None
   \<and> (\<exists>d. find (\<lambda>d. dl_challenge d = 3)
        (deliveries (otp_run default_otp_settings sample_keys [Call_accepted (sample_claim ''h'') None (seconds 10)]
           (sample_otp ''v'' D_pending Q_claimed (Some ''h'')))) = Some d \<and> dl_status d = Q_sent)"
proof -
  have ok: "otp_ok (sample_otp ''v'' D_pending Q_claimed (Some ''h''))" by (rule sample_ok) (simp add: queued_def)
  let ?t = "otp_run default_otp_settings sample_keys [Call_accepted (sample_claim ''h'') None (seconds 10)]
      (sample_otp ''v'' D_pending Q_claimed (Some ''h''))"
  obtain ch where ch: "get_challenge ?t 3 = Some ch" "ch_state ch = D_active"
    unfolding sample_accepted_rows by (simp add: sample_challenge_def)
  from one_verifier [OF ok ch(1) ch(1) refl ch(2) ch(2)] ch(1) show ?thesis by blast
qed

section \<open>A code is accepted once\<close>

lemma verify_success:
  assumes ok: "otp_ok s" and v: "verify c k g code now p i s = (Inr y, u)"
  obtains ch where "get_challenge s (ch_id y) = Some ch" "ch_state ch = D_active" "now < ch_expires ch"
    and "otp_verifier k code (ch_salt ch) = ch_verifier ch" and "registration_accepts_otp_purpose (get_registration s g) p"
    and "get_challenge u (ch_id y) = Some y" "ch_state y = D_consumed"
proof -
  obtain reg rc a t where e: "enter c g p now s = Inr ((reg, rc, a), t)"
    using v by (auto simp: verify_def split: sum.splits prod.splits)
  obtain b where b: "raise_if_locked c now a = Inr b" using v e by (auto simp: verify_def split: sum.splits)
  obtain ch where ch: "active_challenge (oa_id a) i t = Some ch" using v e b by (auto simp: verify_def split: option.splits)
  note vv = v [unfolded verify_def e, simplified, unfolded b, simplified, unfolded ch, simplified]
  have ex: "now < ch_expires ch" and cd: "otp_verifier k code (ch_salt ch) = ch_verifier ch"
    using vv by (auto split: if_splits prod.splits sum.splits)
  then have y: "y = consume_challenge a now ch"
    and r: "verify_registration k reg rc p (void_relayable_payloads (ch_id ch)
              (upd_authority (oa_id a) clear_attempts (upd_challenge (ch_id ch) (consume_challenge a now) t))) = Inr u"
    using vv by (auto split: sum.splits)
  have t: "paired t" using refines_enter [OF e] ok by (simp add: otp_ok_def refines_def)
  note a = active_challengeD [OF ch t]
  have cu: "challenges u = challenges (upd_challenge (ch_id ch) (consume_challenge a now) t)"
    using r by (auto simp: verify_registration_def terminalize_registration_idempotency_def ledger_to_retire_def
        void_relayable_payloads_def otp_bump_def Let_def split: if_splits option.splits prod.splits)
  show thesis
  proof (rule that)
    show "get_challenge s (ch_id y) = Some ch" using a(1) enter_existing(1) [OF e] by (simp add: y)
    show "get_challenge u (ch_id y) = Some y" unfolding cu using a(1) by (simp add: y get_upd_challenge)
    show "registration_accepts_otp_purpose (get_registration s g) p"
      using e by (auto simp: enter_def lock_registration_with_idempotency_def split: if_splits)
    show "ch_state y = D_consumed" by (simp add: y consume_challenge_def)
  qed (use a ex cd in simp_all)
qed

lemma ended_for_good:
  assumes "otp_ok s" and "get_challenge s i = Some ch" and "ended (ch_state ch)"
  obtains x where "get_challenge (otp_run c k xs s) i = Some x" "ch_state x = ch_state ch" "ch_authority x = ch_authority ch"
proof -
  obtain d where "find (\<lambda>d. dl_challenge d = i) (deliveries s) = Some d" "life_of s i = Some (ch_authority ch, ch_state ch, dl_status d)"
    by (rule challenge_state [OF assms(1,2)])
  moreover have "life_steps (life_of s) (life_of (otp_run c k xs s))"
    using refines_run [of s c k xs] assms(1) by (simp add: refines_def otp_ok_def)
  ultimately obtain q where "life_of (otp_run c k xs s) i = Some (ch_authority ch, ch_state ch, q)"
    using life_steps_ended assms(3) by blast
  then show thesis using that by (auto simp: life_of_def split: option.splits)
qed

lemma ended_never_accepted:
  assumes "otp_ok s" and "get_challenge s i = Some ch" and "ended (ch_state ch)"
  shows "\<nexists>y u. verify c' k' g code now p w (otp_run c k xs s) = (Inr y, u) \<and> ch_id y = i"
proof clarify
  fix y u assume v: "verify c' k' g code now p w (otp_run c k xs s) = (Inr y, u)" and i: "i = ch_id y"
  have ok: "otp_ok (otp_run c k xs s)" using otp_ok_refines [OF assms(1) refines_run] .
  obtain x where "get_challenge (otp_run c k xs s) i = Some x" "ch_state x = D_active" using verify_success [OF ok v] i by blast
  moreover obtain x' where "get_challenge (otp_run c k xs s) i = Some x'" "ch_state x' = ch_state ch"
    using ended_for_good [OF assms] by blast
  ultimately show False using assms(3) by (simp add: ended_def)
qed

text \<open>Property C9.
  A code is accepted once: after a successful verification no later call, whatever was done in between
  and whatever code, account or purpose it names, succeeds on the same challenge again.\<close>

theorem verify_single_use:
  assumes "otp_ok s" and "verify c k g code now p i s = (Inr ch, t)"
  shows "\<nexists>y u. verify c k g' code' later p' w (otp_run c k xs t) = (Inr y, u) \<and> ch_id y = ch_id ch"
proof (rule verify_success [OF assms])
  have "otp_ok t" using otp_ok_refines [OF assms(1) refines_verify] assms(2) by (metis snd_conv)
  moreover assume "get_challenge t (ch_id ch) = Some ch"
  moreover assume "ch_state ch = D_consumed"
  then have "ended (ch_state ch)" unfolding ended_def by simp
  ultimately show ?thesis by (rule ended_never_accepted)
qed

lemma sample_verify:
  assumes "now < seconds 300"
  shows "otp_verifier k code ''salt'' = v \<Longrightarrow> fst (verify c k 7 code now Recovery None (sample_otp v D_active Q_sent None))
      = Inr (consume_challenge sample_authority now (sample_challenge v D_active))"
    and "otp_verifier k code ''salt'' \<noteq> v \<Longrightarrow> isl (fst (verify c k 7 code now Recovery None (sample_otp v D_active Q_sent None)))"
    and "wrong_code c k 2 7 code now Recovery None (sample_otp v D_active Q_sent None) \<longleftrightarrow> otp_verifier k code ''salt'' \<noteq> v"
proof -
  let ?s = "sample_otp v D_active Q_sent None"
  have a: "active_challenge (oa_id sample_authority) None ?s = Some (sample_challenge v D_active)"
    by (simp add: active_challenge_def sample_defs)
  have ch: "ch_salt (sample_challenge v D_active) = ''salt''" "ch_verifier (sample_challenge v D_active) = v"
      "\<not> ch_expires (sample_challenge v D_active) \<le> now" "oa_id sample_authority = 2"
    using assms by (simp_all add: sample_challenge_def sample_authority_def)
  have r: "verify_registration k sample_registration None Recovery x = Inr x" for x
    by (simp add: verify_registration_def)
  show "otp_verifier k code ''salt'' = v \<Longrightarrow> fst (verify c k 7 code now Recovery None ?s)
      = Inr (consume_challenge sample_authority now (sample_challenge v D_active))"
    by (simp add: verify_def sample_enter sample_unlocked a [simplified ch] ch r)
  show "otp_verifier k code ''salt'' \<noteq> v \<Longrightarrow> isl (fst (verify c k 7 code now Recovery None ?s))"
    by (simp add: verify_def sample_enter sample_unlocked a [simplified ch] ch record_failed_attempt_def Let_def split: prod.split)
  show "wrong_code c k 2 7 code now Recovery None ?s \<longleftrightarrow> otp_verifier k code ''salt'' \<noteq> v"
    by (simp add: wrong_code_def compared_with_def sample_enter sample_unlocked a [simplified ch] ch)
qed

definition sample_sent :: otp_db where
  "sample_sent = sample_otp (otp_verifier sample_keys ''123456'' ''salt'') D_active Q_sent None"

theorem verify_single_use_witness:
  "ch_id (sample_challenge (otp_verifier sample_keys ''123456'' ''salt'') D_active) = 3
   \<and> fst (verify default_otp_settings sample_keys 7 ''123456'' (seconds 20) Recovery None sample_sent)
     = Inr (consume_challenge sample_authority (seconds 20) (sample_challenge (otp_verifier sample_keys ''123456'' ''salt'') D_active))
   \<and> (\<nexists>y u. verify default_otp_settings sample_keys 7 ''123456'' (seconds 40) Recovery None
        (otp_run default_otp_settings sample_keys [Call_claim ''t'' (seconds 30) 4]
          (snd (verify default_otp_settings sample_keys 7 ''123456'' (seconds 20) Recovery None sample_sent))) = (Inr y, u) \<and> ch_id y = 3)"
proof -
  let ?v = "otp_verifier sample_keys ''123456'' ''salt''"
  have ok: "otp_ok sample_sent" unfolding sample_sent_def by (rule sample_ok) simp
  have f: "fst (verify default_otp_settings sample_keys 7 ''123456'' (seconds 20) Recovery None sample_sent)
      = Inr (consume_challenge sample_authority (seconds 20) (sample_challenge ?v D_active))"
    unfolding sample_sent_def by (rule sample_verify(1)) (simp_all add: seconds_def)
  then obtain t where v: "verify default_otp_settings sample_keys 7 ''123456'' (seconds 20) Recovery None sample_sent
      = (Inr (consume_challenge sample_authority (seconds 20) (sample_challenge ?v D_active)), t)"
    by (metis prod.collapse)
  have i: "ch_id (consume_challenge sample_authority (seconds 20) (sample_challenge ?v D_active)) = 3" "ch_id (sample_challenge ?v D_active) = 3"
    by (simp_all add: sample_challenge_def)
  show ?thesis using verify_single_use [OF ok v] f by (simp add: v i)
qed

section \<open>Guessing\<close>

text \<open>Property C6.
  The guessing budget: whatever is called in between (resends, new challenges, restarted recoveries,
  expiring lockouts, deliveries), as long as no code is guessed right, any span as long as the lockout
  contains at most twice the allowed attempts less one wrong codes against one authority.\<close>

theorem guess_budget:
  assumes "otp_settings_valid c" and "otp_ok s" and "guess_ok c (get_authority s j)" and "opened_by t (get_authority s j)"
    and "sorted_wrt (\<le>) (t # map otp_time xs)" and "list_all (\<lambda>x. otp_time x < t + seconds (lockout c)) xs"
    and "never_right c k xs s"
  shows "wrong_guesses c k j xs s \<le> 2 * max_attempts c - 1"
proof -
  obtain r e where r: "guess.counts c r (get_authority s j) e" "wrong_guesses c k j xs s \<le> guess.admitted r"
      "map fst r = map otp_time xs"
    using run_counts [OF assms(2-5,7)] by blast
  have span: "guess_span c = seconds (lockout c)"
    using assms(1) by (simp add: guess_span_def otp_settings_valid_def)
  have "t \<le> now \<and> now < t + guess_span c" if "(now, b) \<in> set r" for now b
  proof -
    have "now \<in> set (map otp_time xs)" using that unfolding r(3) [symmetric] by force
    then show ?thesis using assms(5,6) by (auto simp: span list_all_iff)
  qed
  then have "guess.admitted r \<le> guess.locked_room c t (get_authority s j)"
    by (rule guess.admitted_le_locked_room [OF r(1) assms(3)])
  with guess.locked_room_bound [OF assms(3), of t] r(2) show ?thesis by linarith
qed

theorem guess_budget_witness:
  "wrong_guesses default_otp_settings sample_keys 2 [Call_verify 7 ''000000'' (seconds 20) Recovery None]
     (sample_otp ''v'' D_active Q_sent None) = 1
   \<and> wrong_guesses default_otp_settings sample_keys 2 [Call_verify 7 ''000000'' (seconds 20) Recovery None]
     (sample_otp ''v'' D_active Q_sent None) \<le> 2 * max_attempts default_otp_settings - 1"
proof
  have v: "otp_verifier sample_keys ''000000'' ''salt'' \<noteq> ''v''"
  proof
    assume "otp_verifier sample_keys ''000000'' ''salt'' = ''v''"
    then have "length (otp_verifier sample_keys ''000000'' ''salt'') = length ''v''" by (rule arg_cong)
    then show False by (simp add: otp_verifier_def)
  qed
  have t: "seconds 20 < seconds 300" by (simp add: seconds_def)
  let ?s = "sample_otp ''v'' D_active Q_sent None"
  let ?x = "Call_verify 7 ''000000'' (seconds 20) Recovery None"
  show "wrong_guesses default_otp_settings sample_keys 2 [?x] ?s = 1"
    using sample_verify(3) [OF t] v by simp
  have a: "get_authority ?s 2 = Some sample_authority" by (simp add: sample_defs)
  show "wrong_guesses default_otp_settings sample_keys 2 [?x] ?s \<le> 2 * max_attempts default_otp_settings - 1"
  proof (rule guess_budget [where t = 0])
    show "otp_settings_valid default_otp_settings" by (rule default_settings_valid)
    show "otp_ok ?s" by (rule sample_ok) simp
    show "guess_ok default_otp_settings (get_authority ?s 2)" "opened_by 0 (get_authority ?s 2)"
      unfolding a by (simp_all add: guess_ok_def opened_by_def guess_opened_def sample_authority_def default_otp_settings_def)
    show "sorted_wrt (\<le>) (0 # map otp_time [?x])" "list_all (\<lambda>x. otp_time x < 0 + seconds (lockout default_otp_settings)) [?x]"
      by (simp_all add: seconds_def default_otp_settings_def)
    show "never_right default_otp_settings sample_keys [?x] ?s"
      using sample_verify(2) [OF t v] by simp
  qed
qed

section \<open>A cancelled code\<close>

lemma void_challenge_twice: "void_challenge now (void_challenge now ch) = void_challenge now ch"
  by (simp add: void_challenge_def)

lemma get_void_delivery:
  "get_challenge (void_delivery now r a ch i s) j = (if j = ch then map_option (void_challenge now) (get_challenge s j) else get_challenge s j)"
  by (simp add: void_delivery_def Let_def get_upd_challenge)

lemma get_void_deliveries:
  "get_challenge (fold (void_delivery now r a ch) is s) j
    = (if j = ch \<and> is \<noteq> [] then map_option (void_challenge now) (get_challenge s j) else get_challenge s j)"
  by (induction "is" arbitrary: s) (simp_all add: get_void_delivery option.map_comp comp_def void_challenge_twice)

lemma get_fence_challenge:
  "get_challenge (fence_challenge a now r ch s) j
    = (if j = ch then map_option (void_challenge now) (get_challenge s j) else get_challenge s j)"
  by (simp add: fence_challenge_def Let_def get_upd_challenge get_void_deliveries option.map_comp comp_def void_challenge_twice)

lemma get_fences:
  "get_challenge (fold (fence_challenge a now r) is s) j
    = (if j \<in> set is then map_option (void_challenge now) (get_challenge s j) else get_challenge s j)"
  by (induction "is" arbitrary: s) (auto simp: get_fence_challenge option.map_comp comp_def void_challenge_twice)

lemma fence_ends:
  assumes "get_challenge s i = Some ch" and "ch_authority ch = a"
  obtains x where "get_challenge (fence_expired_flow_deliveries a now r s) i = Some x" "ended (ch_state x)"
proof -
  have g: "get_challenge (fence_expired_flow_deliveries a now r s) i
      = Some (if i \<in> set (live_challenges a s) then void_challenge now ch else ch)"
    using assms(1) by (simp add: fence_expired_flow_deliveries_def get_fences)
  have "ended (ch_state ch)" if "i \<notin> set (live_challenges a s)"
    using that assms find_row_SomeD [OF assms(1)]
    by (cases "ch_state ch") (auto simp: live_challenges_def ended_def image_iff)
  moreover have "ended (ch_state (void_challenge now ch))"
    by (cases "ch_state ch") (simp_all add: void_challenge_def ended_def)
  ultimately show thesis using that [OF g] by simp
qed

lemma challenges_terminalize: "terminalize_registration_idempotency k g st locked s = Inr t \<Longrightarrow> challenges t = challenges s"
  by (auto simp: terminalize_registration_idempotency_def ledger_to_retire_def otp_bump_def Let_def
      split: option.splits if_splits prod.splits)

lemma challenges_retire: "retire_signup k f s = Inr t \<Longrightarrow> challenges t = challenges s"
  by (auto simp: retire_signup_def split: option.splits if_splits dest: challenges_terminalize)

lemma cancel_challenges:
  assumes "resolve_flow k s raw = Inr (Some (a, f))" and "cancellable f now" and "cancel_onboarding_flow k raw now s = (Inr v, t)"
  shows "challenges t = challenges (fence_expired_flow_deliveries (oa_id a) now ''otp_flow_cancelled'' s)"
  using assms by (auto simp: cancel_onboarding_flow_def Let_def split: sum.splits if_splits dest: challenges_retire)

text \<open>Property C20.
  A cancelled code is dead: once a flow has been cancelled, every challenge its authority had, delivered
  or still on its way to the provider, is over for good, and no later history verifies it.\<close>

theorem cancelled_code_dead:
  assumes "otp_ok s" and "resolve_flow k s raw = Inr (Some (a, f))" and "cancellable f now"
    and "cancel_onboarding_flow k raw now s = (Inr v, t)"
    and "get_challenge s i = Some ch" and "ch_authority ch = oa_id a"
  shows "(\<exists>x. get_challenge (otp_run c k xs t) i = Some x \<and> ended (ch_state x))
    \<and> (\<nexists>y u. verify c k g code later p w (otp_run c k xs t) = (Inr y, u) \<and> ch_id y = i)"
proof (rule fence_ends [OF assms(5,6), of now "''otp_flow_cancelled''"])
  fix x assume "get_challenge (fence_expired_flow_deliveries (oa_id a) now ''otp_flow_cancelled'' s) i = Some x" and e: "ended (ch_state x)"
  then have x: "get_challenge t i = Some x" by (simp add: cancel_challenges [OF assms(2-4)])
  have ok: "otp_ok t" using otp_ok_refines [OF assms(1) refines_cancel] assms(4) by (metis snd_conv)
  show ?thesis using ended_for_good [OF ok x e, of c k xs] ended_never_accepted [OF ok x e] e by metis
qed

lemma sample_cancel:
  "\<exists>t. cancel_onboarding_flow sample_keys (Some ''cookie'') (seconds 20) (sample_otp v st q claim)
    = (Inr nothing_cancelled, t)"
  by (simp add: cancel_onboarding_flow_def sample_resolve cancellable_def nothing_cancelled_def)
    (simp add: sample_flow_def seconds_def)

theorem cancelled_code_dead_witness:
  "\<exists>t. cancel_onboarding_flow sample_keys (Some ''cookie'') (seconds 20) sample_sent = (Inr nothing_cancelled, t)
   \<and> (\<exists>x. get_challenge (otp_run default_otp_settings sample_keys [Call_claim ''t'' (seconds 30) 4] t) 3 = Some x \<and> ended (ch_state x))
   \<and> (\<nexists>y u. verify default_otp_settings sample_keys 7 ''123456'' (seconds 40) Recovery None
        (otp_run default_otp_settings sample_keys [Call_claim ''t'' (seconds 30) 4] t) = (Inr y, u) \<and> ch_id y = 3)"
proof -
  have ok: "otp_ok sample_sent" unfolding sample_sent_def by (rule sample_ok) simp
  obtain t where t: "cancel_onboarding_flow sample_keys (Some ''cookie'') (seconds 20) sample_sent = (Inr nothing_cancelled, t)"
    unfolding sample_sent_def using sample_cancel by blast
  have f: "cancellable sample_flow (seconds 20)" by (simp add: cancellable_def sample_flow_def seconds_def)
  have ch: "get_challenge sample_sent 3 = Some (sample_challenge (otp_verifier sample_keys ''123456'' ''salt'') D_active)"
      "ch_authority (sample_challenge (otp_verifier sample_keys ''123456'' ''salt'') D_active) = oa_id sample_authority"
    by (simp_all add: sample_sent_def sample_defs)
  have r: "resolve_flow sample_keys sample_sent (Some ''cookie'') = Inr (Some (sample_authority, sample_flow))"
    unfolding sample_sent_def by (rule sample_resolve)
  note dead = cancelled_code_dead [OF ok r f t ch]
  show ?thesis by (intro exI [of _ t] conjI t conjunct1 [OF dead] conjunct2 [OF dead])
qed

section \<open>Decoys\<close>

lemma find_put:
  "find P rs = Some r \<Longrightarrow> distinct (map key rs) \<Longrightarrow> P y \<Longrightarrow> find P (update_where (\<lambda>x. key x = key r) (\<lambda>_. y) rs) = Some y"
proof (induction rs)
  case (Cons x rs)
  then show ?case
  proof (cases "P x")
    case False
    with Cons.prems have "find P rs = Some r" "key x \<noteq> key r" by (auto simp: find_Some_iff)
    with Cons False show ?thesis by simp
  qed simp
qed simp

lemma raise_if_locked_again:
  assumes "raise_if_locked c now a = Inr a1" and "oa_locked_until y = oa_locked_until a1"
  shows "raise_if_locked c now y = Inr y" and "refresh_lock_window c now y = y" and "oa_locked_until y = None"
proof -
  have "oa_locked_until a1 = None" using unlocked_refresh [OF assms(1)] raise_if_locked_Inr [OF assms(1)] by simp
  then show "oa_locked_until y = None" using assms(2) by simp
  then show "raise_if_locked c now y = Inr y" "refresh_lock_window c now y = y"
    by (simp_all add: raise_if_locked_def locked_for_seconds_def refresh_lock_window_def)
qed

text \<open>A second entry in the same transaction locks the row the first one wrote.\<close>

lemma enter_again:
  assumes e: "enter c g p now s = Inr ((reg, rc, a), t)" and ok: "otp_ok s"
    and y: "oa_id y = oa_id a" "oa_subject y = oa_subject a" "oa_purpose y = oa_purpose a" "oa_registration y = oa_registration a"
      "refresh_lock_window c now y = y"
  shows "enter c g p now (upd_authority (oa_id a) (\<lambda>_. y) t) = Inr ((reg, rc, y), upd_authority (oa_id a) (\<lambda>_. y) t)"
proof -
  from e have reg: "reg = the (get_registration s g)" "rc = find (\<lambda>l. lg_registration l = Some g) (ledgers s)"
      "registration_accepts_otp_purpose (get_registration s g) p"
    and "lock_or_create_registration_authority c reg p now s = Inr (a, t)"
    by (auto simp: enter_def lock_registration_with_idempotency_def split: sum.splits if_splits)
  then obtain subject where sub: "authority_subject_from_mobile_hash (rg_mobile_hash reg) = Inr subject"
    and l: "lock_or_create_authority c subject p (Some (rg_id reg)) now s = Inr (a, t)"
    by (auto simp: lock_or_create_registration_authority_def split: sum.splits)
  from l obtain z s1 a0 where z: "authority_subject_from_mobile_hash subject = Inr z"
    and s1: "establish_authority c subject p (Some (rg_id reg)) s = Inr s1" and a0: "find_authority subject p s1 = Some a0"
    and a: "a = refresh_lock_window c now (if oa_registration a0 = None then a0\<lparr>oa_registration := Some (rg_id reg)\<rparr> else a0)"
    and r0: "oa_registration a0 = None \<or> oa_registration a0 = Some (rg_id reg)"
    and t: "t = upd_authority (oa_id a) (\<lambda>_. a) s1"
    by (auto simp: lock_or_create_authority_def Let_def split: sum.splits option.splits if_splits)
  have sel: "oa_id a = oa_id a0" "oa_subject a = oa_subject a0" "oa_purpose a = oa_purpose a0" "oa_registration a = Some (rg_id reg)"
    using r0 by (auto simp: a refresh_lock_window_def split: option.splits)
  have p0: "oa_subject a0 = subject" "oa_purpose a0 = p" using a0 by (auto simp: find_authority_def find_Some_iff)
  have d: "distinct (map oa_id (authorities s1))"
    using refines_establish [OF s1] ok by (simp add: refines_def otp_ok_def paired_def)
  have rows: "registrations t = registrations s" "ledgers t = ledgers s"
    using s1 by (auto simp: t establish_authority_def otp_bump_def split: if_splits)
  let ?w = "upd_authority (oa_id a) (\<lambda>_. y) t"
  have w: "authorities ?w = update_where (\<lambda>x. oa_id x = oa_id a0) (\<lambda>_. y) (authorities s1)"
    by (simp add: t upd_authority_def update_where_def sel comp_def)
  have f: "find_authority subject p ?w = Some y"
    unfolding find_authority_def w using a0 d sel p0 y by (intro find_put) (simp_all add: find_authority_def)
  have same: "upd_authority (oa_id a) (\<lambda>_. y) ?w = ?w"
    using y(1) by (simp add: upd_authority_def update_where_def)
  have "lock_or_create_authority c subject p (Some (rg_id reg)) now ?w = Inr (y, ?w)"
    using z f same y sel(4) by (simp add: lock_or_create_authority_def establish_authority_def)
  then show ?thesis
    using reg sub by (simp add: enter_def lock_registration_with_idempotency_def rows lock_or_create_registration_authority_def)
qed

lemma resend_window_sel:
  assumes "consume_resend_window c now a = Inr b"
  shows "oa_id b = oa_id a" "oa_subject b = oa_subject a" "oa_purpose b = oa_purpose a" "oa_registration b = oa_registration a"
    "oa_locked_until b = oa_locked_until a"
  using assms by (auto simp: consume_resend_window_def open_resend_window_def Let_def split: if_splits)

lemma refresh_sel [simp]:
  "oa_subject (refresh_lock_window c now a) = oa_subject a" "oa_purpose (refresh_lock_window c now a) = oa_purpose a"
  "oa_registration (refresh_lock_window c now a) = oa_registration a"
  by (simp_all add: refresh_lock_window_def split: option.split)

definition internal_failure :: "otp_exn \<Rightarrow> bool" where
  "internal_failure e \<longleftrightarrow> e \<in> {RuntimeError, Otp_integrity, OtpError 409 ''otp_issue_conflict'' None None}"

text \<open>The body of an issue, once the entry is known: it stages a candidate and notes the issue, or fails inside.\<close>

lemma issue_after_enter:
  assumes e: "enter c g p now w = Inr ((reg, rc, a), w')" and l: "raise_if_locked c now a = Inr b"
    and v: "p \<noteq> Signup \<or> validate_signup_ledger_delivery reg a rc w'" and n: "pending_intent a w' = Inr None"
    and ga: "get_authority w' (oa_id a) = Some a"
  shows "case issue_body c k code salt g now p dest w of Inl e \<Rightarrow> internal_failure e
    | Inr (x, u) \<Rightarrow> get_authority u (oa_id a) = Some (note_issue c now a)"
proof (cases "issue_body c k code salt g now p dest w")
  case (Inl f)
  then show ?thesis using e l v n
    by (auto simp: issue_body_def Let_def internal_failure_def otp_enqueue_def link_ledger_def split: sum.splits option.splits if_splits)
next
  case (Inr y)
  obtain x u where y: "y = (x, u)" by fastforce
  from Inr [unfolded y] show ?thesis
  proof (cases rule: issue_body_cases)
    case (kept reg' rc' a')
    with e n show ?thesis by simp
  next
    case (fresh reg' rc' a' t ch t1 i t2)
    have t: "t = w'" "a' = a" using fresh(1) e by simp_all
    have "authorities t2 = authorities w'" using fresh(4,5) unfolding t
      by (auto simp: insert_challenge_def otp_enqueue_def insert_delivery_def otp_bump_def Let_def split: if_splits option.splits)
    moreover have "authorities u = authorities (upd_authority (oa_id a) (note_issue c now) t2)"
      using fresh(6) unfolding t by (auto simp: link_ledger_def split: option.splits if_splits)
    ultimately have "get_authority u (oa_id a) = Some (note_issue c now a)"
      using ga by (simp add: upd_authority_def find_row_upd)
    with Inr y show ?thesis by simp
  qed
qed

lemma intent_cong: "oa_id b = oa_id a \<Longrightarrow> oa_purpose b = oa_purpose a \<Longrightarrow> challenges t = challenges s \<Longrightarrow> deliveries t = deliveries s
    \<Longrightarrow> pending_intent b t = pending_intent a s"
  by (simp add: pending_intent_def pending_challenge_def split: option.split)

lemma validate_cong: "oa_id b = oa_id a \<Longrightarrow> challenges t = challenges s \<Longrightarrow> deliveries t = deliveries s
    \<Longrightarrow> validate_signup_ledger_delivery reg b rc t = validate_signup_ledger_delivery reg a rc s"
  by (simp add: validate_signup_ledger_delivery_def split: option.split)

text \<open>Property C22.
  An account is indistinguishable from a decoy when a code is sent again: for a live flow whose graph is
  sound, whatever the decoy path refuses (lockout, cooldown, exhausted resend window, each with the same
  seconds) the account is refused, and leaves no trace; where the decoy path grants, the account is
  granted and its authority row ends as the decoy's would, unless the database itself fails.\<close>

theorem resend_like_decoy:
  assumes "otp_ok s" and "enter c g p now s = Inr ((reg, rc, a), t)"
    and "p \<noteq> Signup \<or> validate_signup_ledger_delivery reg a rc t"
    and "locked_resend_flow_deadline a reg now t = Inr deadline" and "pending_intent a t = Inr pending"
  shows "case resend_decoy c now a of
      Inl e \<Rightarrow> resend c k code salt g now p dest s = (Inl e, s)
    | Inr b \<Rightarrow> (case resend c k code salt g now p dest s of
        (Inl e, u) \<Rightarrow> pending = None \<and> internal_failure e \<and> u = s
      | (Inr x, u) \<Rightarrow> get_authority u (oa_id a) = Some b)"
proof (cases "raise_if_locked c now a")
  case (Inl e)
  with assms(2,3) show ?thesis by (auto simp: resend_decoy_def resend_def)
next
  case (Inr a1)
  have a1: "a1 = refresh_lock_window c now a" using raise_if_locked_Inr [OF Inr] .
  have sel: "oa_id a1 = oa_id a" "oa_subject a1 = oa_subject a" "oa_purpose a1 = oa_purpose a" "oa_registration a1 = oa_registration a"
    by (simp_all add: a1 refresh_id)
  have dl: "locked_resend_flow_deadline a1 reg now t = Inr deadline"
    using assms(4) unfolding locked_resend_flow_deadline_def sel .
  have pd: "pending_intent a1 t = Inr pending" using assms(5) intent_cong [of a1 a t t] sel by simp
  note rs = resend_def [of c k code salt g now p dest s] assms(2,3) Inr dl pd
  note ga = still_enter(2) [OF assms(2,1)]
  show ?thesis
  proof (cases "check_cooldown now a1")
    case (Some e)
    with rs show ?thesis by (auto simp: resend_decoy_def)
  next
    case None
    show ?thesis
    proof (cases "consume_resend_window c now a1")
      case (Inl e)
      with rs None show ?thesis by (auto simp: resend_decoy_def)
    next
      case i2: (Inr a2)
      note s2 = resend_window_sel [OF i2]
      note again = raise_if_locked_again [OF Inr s2(5)]
      have d: "resend_decoy c now a = Inr (note_issue c now a2)"
        by (simp add: resend_decoy_def Inr None i2 note_decoy_issue_def again(1))
      let ?w = "upd_authority (oa_id a) (\<lambda>_. a2) t"
      have gw: "get_authority ?w (oa_id a2) = Some a2" using ga s2(1) sel by (simp add: get_upd_authority)
      show ?thesis
      proof (cases pending)
        case (Some x)
        obtain ch i where x: "x = (ch, i)" by fastforce
        have "resend c k code salt g now p dest s = (Inr (set_expiry c now deadline ch, i),
            upd_challenge (ch_id ch) (set_expiry c now deadline) (upd_authority (oa_id a) (\<lambda>_. note_issue c now a2) t))"
          using rs None i2 Some x again(1) by (auto simp: note_decoy_issue_def)
        then show ?thesis using d ga s2(1) sel by (simp add: get_upd_authority)
      next
        case n: None
        have ew: "enter c g p now ?w = Inr ((reg, rc, a2), ?w)"
          using s2 sel again(2) by (intro enter_again [OF assms(2,1)]) simp_all
        have r: "resend c k code salt g now p dest s = (case issue_body c k code salt g now p dest ?w of Inl e \<Rightarrow> (Inl e, s)
            | Inr ((ch, i), u) \<Rightarrow> (Inr (set_expiry c now deadline ch, i), upd_challenge (ch_id ch) (set_expiry c now deadline) u))"
          using rs None i2 n by auto
        have "case issue_body c k code salt g now p dest ?w of Inl e \<Rightarrow> internal_failure e
            | Inr (x, u) \<Rightarrow> get_authority u (oa_id a2) = Some (note_issue c now a2)"
          using assms(3) pd n s2 sel validate_cong [of a2 a ?w t reg rc] intent_cong [of a2 a1 ?w t]
          by (intro issue_after_enter [OF ew again(1) _ _ gw]) auto
        then show ?thesis unfolding r d using n s2(1) sel by (auto split: sum.splits prod.splits)
      qed
    qed
  qed
qed

lemma sample_pending_intent:
  "pending_intent sample_authority (sample_otp v D_pending Q_pending None) = Inr (Some (sample_challenge v D_pending, 4))"
  by (simp add: pending_intent_def pending_challenge_def relayable_def sample_defs)

theorem resend_like_decoy_witness:
  "\<exists>b. resend_decoy default_otp_settings (seconds 60) sample_authority = Inr b
   \<and> get_authority (snd (resend default_otp_settings sample_keys ''111111'' ''pepper'' 7 (seconds 60) Recovery ''to''
        (sample_otp ''v'' D_pending Q_pending None))) 2 = Some b"
proof -
  let ?s = "sample_otp ''v'' D_pending Q_pending None"
  let ?r = "resend default_otp_settings sample_keys ''111111'' ''pepper'' 7 (seconds 60) Recovery ''to'' ?s"
  have ok: "otp_ok ?s" by (rule sample_ok) (simp add: queued_def)
  have dl: "locked_resend_flow_deadline sample_authority sample_registration (seconds 60) ?s = Inr (seconds 600)"
    by (simp add: locked_resend_flow_deadline_def live_flow_states_def delivery_flow_states_def sample_defs seconds_def)
  obtain b where b: "resend_decoy default_otp_settings (seconds 60) sample_authority = Inr b"
    by (simp add: resend_decoy_def sample_unlocked check_cooldown_def consume_resend_window_def open_resend_window_def
        note_decoy_issue_def raise_if_locked_def locked_for_seconds_def refresh_lock_window_def sample_authority_def
        default_otp_settings_def seconds_def Let_def)
  have "case resend_decoy default_otp_settings (seconds 60) sample_authority of
      Inl e \<Rightarrow> ?r = (Inl e, ?s)
    | Inr b \<Rightarrow> (case ?r of
        (Inl e, u) \<Rightarrow> Some (sample_challenge ''v'' D_pending, 4 :: uid) = None \<and> internal_failure e \<and> u = ?s
      | (Inr x, u) \<Rightarrow> get_authority u (oa_id sample_authority) = Some b)"
    by (rule resend_like_decoy [OF ok sample_enter _ dl sample_pending_intent]) simp
  then have "get_authority (snd ?r) (oa_id sample_authority) = Some b"
    by (cases ?r; cases "fst ?r") (auto simp: b)
  then show ?thesis using b by (simp add: sample_authority_def)
qed

section \<open>A code that was delivered\<close>

lemma accepted_challenge:
  assumes g: "locked_graph s (dc_outbox dc) = Some gr" and f: "finalize_success c k dc r now s = (Inr True, t)"
    and st: "ch_state (dg_challenge gr) = D_pending" and a: "authorized_delivery_flow gr now = Inr fl"
  shows "get_challenge t (ch_id (dg_challenge gr)) = Some (activate c (dg_authority gr) (fl_expires fl) now (dg_challenge gr))"
proof -
  let ?ch = "dg_challenge gr"
  have ch: "get_challenge s (ch_id ?ch) = Some ?ch"
    using locked_graphD(2) [OF g] find_row_SomeD [of ch_id] by metis
  have t: "challenges t = challenges (activate_candidate c (dg_authority gr) ?ch fl now s)"
    using f by (auto simp: finalize_success_def g a split: if_splits)
  show ?thesis
  proof (cases "find (\<lambda>x. ch_authority x = oa_id (dg_authority gr) \<and> ch_state x = D_active \<and> ch_id x \<noteq> ch_id ?ch) (challenges s)")
    case None
    then show ?thesis using ch st by (simp add: t activate_candidate_def get_upd_challenge Let_def)
  next
    case (Some prior)
    then have "ch_id prior \<noteq> ch_id ?ch" by (auto simp: find_Some_iff)
    with Some show ?thesis using ch st by (simp add: t activate_candidate_def get_upd_challenge Let_def)
  qed
qed


lemma enter_sample_like:
  assumes "registrations s = [sample_registration]" and "ledgers s = []" and "authorities s = [sample_authority\<lparr>oa_active_expires := x\<rparr>]"
  shows "enter c 7 Recovery now s = Inr ((sample_registration, None, sample_authority\<lparr>oa_active_expires := x\<rparr>), s)"
  using sample_subject_of assms
  by (auto simp: enter_def lock_registration_with_idempotency_def registration_accepts_otp_purpose_def
      registration_is_authorizable_def lock_or_create_registration_authority_def lock_or_create_authority_def
      establish_authority_def find_authority_def refresh_lock_window_def upd_authority_def update_where_def
      sample_registration_def sample_authority_def Let_def)


end
