(* ===== verification/OtpClosed.thy ===== *)
theory OtpClosed
  imports OtpProperties
begin

text \<open>
  The life of a flow, the browser's capability: it is opened pending, delivered to, verified by a right
  code of its own only, and once expired, consumed or failed it never changes again. What follows for
  account recovery: a proof is spent once, and there is none without a right code.
\<close>

section \<open>Flow rows and their moves\<close>

definition flow_rows_ok :: "otp_db \<Rightarrow> bool" where
  "flow_rows_ok s \<longleftrightarrow> distinct (map fl_id (flows s)) \<and> distinct (map fl_token_hash (flows s))
     \<and> (\<forall>f \<in> set (flows s). fl_id f < otp_next s)"

definition shut :: "flow \<Rightarrow> bool" where
  "shut f \<longleftrightarrow> fl_state f \<in> {F_expired, F_consumed, F_failed}"

definition verified_tokens :: "otp_db \<Rightarrow> string set" where
  "verified_tokens s = fl_token_hash ` {f \<in> set (flows s). fl_state f = F_verified}"

text \<open>Shut flows stay as they are, and only the tokens of \<open>V\<close> may become verified.\<close>

definition flows_step :: "string set \<Rightarrow> otp_db \<Rightarrow> otp_db \<Rightarrow> bool" where
  "flows_step V s t \<longleftrightarrow> otp_next s \<le> otp_next t \<and> (flow_rows_ok s \<longrightarrow> flow_rows_ok t
     \<and> (\<forall>f \<in> set (flows s). shut f \<longrightarrow> f \<in> set (flows t)) \<and> verified_tokens t \<subseteq> verified_tokens s \<union> V)"

definition quiet :: "otp_db \<Rightarrow> otp_db \<Rightarrow> bool" where
  "quiet s t \<longleftrightarrow> flows t = flows s \<and> otp_next s \<le> otp_next t"

lemma flows_step_trans [trans]: "flows_step V s t \<Longrightarrow> flows_step V t u \<Longrightarrow> flows_step V s u"
  unfolding flows_step_def by (blast intro: order_trans)

lemma flows_step_quiet: "quiet s t \<Longrightarrow> flows_step V s t"
  by (auto simp: flows_step_def quiet_def flow_rows_ok_def verified_tokens_def)

lemma quiet_refl [simp]: "quiet s s"
  by (simp add: quiet_def)

lemma flows_step_refl [simp]: "flows_step V s s"
  by (rule flows_step_quiet) simp

lemma quiet_trans [trans]: "quiet s t \<Longrightarrow> quiet t u \<Longrightarrow> quiet s u"
  by (simp add: quiet_def)

lemma quiet_fold: "(\<And>x s. quiet s (f x s)) \<Longrightarrow> quiet s (fold f xs s)"
proof (induction xs arbitrary: s)
  case (Cons x xs)
  from quiet_trans [OF Cons.prems Cons.IH [OF Cons.prems]] show ?case by simp
qed simp

lemma quiet_upd [simp]:
  "quiet s (upd_authority i fa t) \<longleftrightarrow> quiet s t" "quiet s (upd_challenge i fc t) \<longleftrightarrow> quiet s t"
  "quiet s (upd_delivery i fd t) \<longleftrightarrow> quiet s t" "quiet s (upd_registration i fr t) \<longleftrightarrow> quiet s t"
  "quiet s (upd_ledger i fl t) \<longleftrightarrow> quiet s t" "quiet s (t\<lparr>deliveries := ds\<rparr>) \<longleftrightarrow> quiet s t"
  by (auto simp: quiet_def upd_registration_def)

text \<open>An update of open rows that keeps their keys and verifies only tokens of \<open>V\<close>.\<close>

lemma flows_step_update:
  assumes fs: "flows t = update_where P g (flows s)" and n: "otp_next s \<le> otp_next t"
    and g: "\<And>f. fl_id (g f) = fl_id f" "\<And>f. fl_token_hash (g f) = fl_token_hash f"
    and P: "\<And>f. flow_rows_ok s \<Longrightarrow> f \<in> set (flows s) \<Longrightarrow> P f
      \<Longrightarrow> \<not> shut f \<and> (fl_state (g f) = F_verified \<longrightarrow> fl_state f = F_verified \<or> fl_token_hash f \<in> V)"
  shows "flows_step V s t"
proof -
  have m: "map fl_id (flows t) = map fl_id (flows s)" "map fl_token_hash (flows t) = map fl_token_hash (flows s)"
    unfolding fs by (simp_all add: map_update_where g)
  have "flow_rows_ok t" if "flow_rows_ok s"
    using that n g unfolding flow_rows_ok_def m by (auto simp: fs set_update_where)
  moreover have "f \<in> set (flows t)" if "flow_rows_ok s" "f \<in> set (flows s)" "shut f" for f
    using P [OF that(1,2)] that by (auto simp: fs set_update_where)
  moreover have "verified_tokens t \<subseteq> verified_tokens s \<union> V" if "flow_rows_ok s"
    using P [OF that] g by (fastforce simp: verified_tokens_def fs set_update_where)
  ultimately show ?thesis using n by (auto simp: flows_step_def)
qed

lemma flows_step_one:
  assumes "f \<in> set (flows s)" and "\<not> shut f" and fs: "flows t = update_where (\<lambda>r. fl_id r = fl_id f) g (flows s)"
    and "otp_next s \<le> otp_next t" and "\<And>f. fl_id (g f) = fl_id f" and "\<And>f. fl_token_hash (g f) = fl_token_hash f"
    and "fl_state (g f) = F_verified \<Longrightarrow> fl_state f = F_verified \<or> fl_token_hash f \<in> V"
  shows "flows_step V s t"
proof (rule flows_step_update [OF fs assms(4-6)])
  fix h assume "flow_rows_ok s" "h \<in> set (flows s)" "fl_id h = fl_id f"
  then have "h = f" using assms(1) by (auto simp: flow_rows_ok_def distinct_map inj_on_def)
  with assms(2,7) show "\<not> shut h \<and> (fl_state (g h) = F_verified \<longrightarrow> fl_state h = F_verified \<or> fl_token_hash h \<in> V)" by blast
qed

section \<open>Operations that leave the flows alone\<close>

lemma quiet_lock_or_create: "lock_or_create_authority c sub p g now s = Inr (a, t) \<Longrightarrow> quiet s t"
  by (auto simp: lock_or_create_authority_def establish_authority_def otp_bump_def quiet_def Let_def
      split: sum.splits option.splits if_splits)

lemma quiet_enter: "enter c g p now s = Inr ((reg, rc, a), t) \<Longrightarrow> quiet s t"
  by (auto simp: enter_def lock_or_create_registration_authority_def split: prod.splits sum.splits if_splits
      dest: quiet_lock_or_create)

lemma quiet_issue_body: "issue_body c k code salt g now p dest s = Inr (x, u) \<Longrightarrow> quiet s u"
proof (erule issue_body_cases)
  fix reg rc a assume "enter c g p now s = Inr ((reg, rc, a), u)"
  then show ?thesis by (rule quiet_enter)
next
  fix reg rc a t ch t1 i t2
  assume e: "enter c g p now s = Inr ((reg, rc, a), t)" and "insert_challenge ch t = Inr t1"
    and "otp_enqueue c k (ch_id ch) dest code p (otp_bump t1) = Inr (i, t2)"
    and "link_ledger p g rc i (upd_authority (oa_id a) (note_issue c now) t2) = Inr u"
  then have "quiet t u"
    by (auto simp: insert_challenge_def otp_enqueue_def insert_delivery_def link_ledger_def otp_bump_def quiet_def Let_def
        split: if_splits option.splits)
  with quiet_enter [OF e] show ?thesis by (rule quiet_trans)
qed

lemma quiet_issue: "quiet s (snd (issue_challenge c k code salt g now p dest s))"
  by (auto simp: issue_challenge_def split: sum.split intro: quiet_issue_body)

lemma quiet_resend: "quiet s (snd (resend c k code salt g now p dest s))"
proof (cases "\<exists>x u. resend c k code salt g now p dest s = (Inr x, u)")
  case False
  then show ?thesis by (simp add: resend_refused)
next
  case True
  then obtain x u where u: "resend c k code salt g now p dest s = (Inr x, u)" by blast
  then have "quiet s u"
  proof (cases rule: resend_cases)
    case (retried reg rc a t a1 a2 a3 dl ch)
    with quiet_enter show ?thesis by simp
  next
    case (fresh reg rc a t a1 a2 dl ch i v)
    with quiet_issue_body [OF fresh(4)] quiet_enter [OF fresh(1)] show ?thesis
      by (auto intro: quiet_trans simp: quiet_def)
  qed
  with u show ?thesis by simp
qed

lemma quiet_terminalize: "terminalize_registration_idempotency k g st locked s = Inr t \<Longrightarrow> quiet s t"
  by (auto simp: terminalize_registration_idempotency_def ledger_to_retire_def otp_bump_def quiet_def upd_registration_def Let_def
      split: option.splits if_splits prod.splits)

lemma quiet_verify_registration: "verify_registration k reg rc p s = Inr t \<Longrightarrow> quiet s t"
  by (auto simp: verify_registration_def upd_registration_def quiet_def split: if_splits dest!: quiet_terminalize)

lemma quiet_record_failed: "quiet s (snd (record_failed_attempt c a now ch s))"
  by (auto simp: record_failed_attempt_def Let_def split: sum.split option.split)

lemma quiet_verify: "quiet s (snd (verify c k g code now p i s))"
proof -
  have r: "quiet t u" if "verify_registration k reg rc p (void_relayable_payloads j (upd_authority x fa (upd_challenge j fc t))) = Inr u"
    for reg rc j x fa fc t u
    using quiet_verify_registration [OF that] by (simp add: quiet_def void_relayable_payloads_def)
  have f: "quiet t u" if "record_failed_attempt c a now ch t = (y, u)" for a ch t y u
    using quiet_record_failed [of t c a now ch] that by simp
  show ?thesis
    by (auto simp: verify_def split: sum.split option.split prod.split
        intro: quiet_enter quiet_trans [OF quiet_enter r] quiet_trans [OF quiet_enter f])
qed

lemma quiet_charge: "quiet s (charge_miss c a now s)"
  by (simp add: charge_miss_def quiet_record_failed)

lemma quiet_void_delivery [simp]: "quiet s (void_delivery now r a ch i s)"
  by (simp add: void_delivery_def Let_def)

lemma quiet_fence [simp]: "quiet s (fence_expired_flow_deliveries a now r s)"
  unfolding fence_expired_flow_deliveries_def
  by (rule quiet_fold) (simp add: fence_challenge_def Let_def quiet_fold)

lemma quiet_activate: "quiet s (activate_candidate c a ch f now s)"
  by (simp add: activate_candidate_def Let_def split: option.split)

section \<open>Operations on flows\<close>

lemma flow_of_tokenD: "flow_of_token k s raw = Some f \<Longrightarrow> f \<in> set (flows s) \<and> (\<exists>x. raw = Some x \<and> fl_token_hash f = flow_token_hash k x)"
  by (auto simp: flow_of_token_def find_Some_iff split: option.splits if_splits)

lemma resolve_flowD:
  assumes "resolve_flow k s raw = Inr (Some (a, f))"
  shows "flow_of_token k s raw = Some f"
  using assms by (auto simp: resolve_flow_def locked_flow_graph_def Let_def split: option.splits if_splits)

lemma authorized_flowD: "authorized_delivery_flow g now = Inr f \<Longrightarrow> f \<in> set (dg_flows g) \<and> fl_state f \<in> set delivery_flow_states"
proof -
  assume a: "authorized_delivery_flow g now = Inr f"
  then have l: "filter (\<lambda>f. fl_state f \<in> set live_flow_states) (dg_flows g) = [f]" and d: "fl_state f \<in> set delivery_flow_states"
    by (auto simp: authorized_delivery_flow_def Let_def split: list.splits if_splits)
  have "f \<in> set (filter (\<lambda>f. fl_state f \<in> set live_flow_states) (dg_flows g))" unfolding l by simp
  with d show ?thesis by simp
qed

lemma delivery_not_shut: "fl_state f \<in> set delivery_flow_states \<Longrightarrow> \<not> shut f"
  by (auto simp: delivery_flow_states_def shut_def)

lemma graph_flows: "locked_graph s i = Some g \<Longrightarrow> set (dg_flows g) \<subseteq> set (flows s)"
  by (auto simp: locked_graph_def split: option.splits if_splits)

lemma step_expire_flows [simp]: "flows_step V s (expire_current_flows a now s)"
  by (rule flows_step_update [where P = "\<lambda>f. fl_authority f = a \<and> fl_state f \<in> set delivery_flow_states" and g = "expire_flow now"])
    (auto simp: expire_current_flows_def expire_flow_def delivery_not_shut)

lemma step_reconcile [simp]: "flows_step V s (reconcile_voided_candidate a s)"
  by (rule flows_step_update [where P = "\<lambda>f. fl_authority f = oa_id a \<and> fl_registration f = oa_registration a \<and> oa_registration a \<noteq> None
        \<and> fl_state f \<in> set delivery_flow_states"
      and g = "case active_of (oa_id a) s of None \<Rightarrow> reopen_flow
        | Some prior \<Rightarrow> (\<lambda>f. f\<lparr>fl_challenge := Some (ch_id prior), fl_state := F_code_sent\<rparr>)"])
    (auto simp: reconcile_voided_candidate_def reopen_flow_def delivery_not_shut split: option.splits)

lemma step_fence_unavailable: "flows_step V s (fence_unavailable_delivery g now r s)"
proof -
  have "flows_step V s (fence_expired_flow_deliveries a now q (expire_current_flows a now s))" for a q
    by (rule flows_step_trans [OF step_expire_flows flows_step_quiet]) (rule quiet_fence)
  with flows_step_trans [OF this flows_step_quiet [OF quiet_void_delivery]] show ?thesis
    by (simp add: fence_unavailable_delivery_def Let_def)
qed

lemma step_void_candidate: "flows_step V s (void_candidate g now r s)"
  by (auto simp: void_candidate_def Let_def intro: flows_step_trans [OF flows_step_quiet step_reconcile] flows_step_quiet)

lemma step_claim: "flows_step V s (snd (otp_claim c k token now i s))"
  by (simp add: otp_claim_def Let_def step_fence_unavailable step_void_candidate flows_step_quiet split: option.split sum.split)

lemma step_success: "flows_step V s (snd (finalize_success c k dc r now s))"
proof (cases "\<exists>g f. locked_graph s (dc_outbox dc) = Some g \<and> holds_claim dc (dg_row g) \<and> authorized_delivery_flow g now = Inr f")
  case True
  then obtain g f where g: "locked_graph s (dc_outbox dc) = Some g" "holds_claim dc (dg_row g)" "authorized_delivery_flow g now = Inr f"
    by blast
  have f: "f \<in> set (flows s)" "\<not> shut f"
    using authorized_flowD [OF g(3)] graph_flows [OF g(1)] delivery_not_shut by auto
  have q: "quiet s (upd_delivery (dc_outbox dc) (mark_sent k r now) (activate_candidate c (dg_authority g) (dg_challenge g) f now s))"
    by (simp add: quiet_activate)
  show ?thesis
    using g q by (intro flows_step_one [OF f, where g = "\<lambda>f. f\<lparr>fl_challenge := Some (ch_id (dg_challenge g)), fl_state := F_code_sent\<rparr>"])
      (simp_all add: finalize_success_def upd_flow_def quiet_def)
next
  case False
  then show ?thesis by (auto simp: finalize_success_def step_fence_unavailable split: option.split sum.split)
qed

lemma step_failure: "flows_step V s (snd (finalize_failure c dc now s))"
  by (simp add: finalize_failure_def step_fence_unavailable step_void_candidate flows_step_quiet split: option.split sum.split)

lemma step_create_flow:
  assumes "create_flow c k a now dest ch g rc raw rnd s = Inr (x, t)"
  shows "flows_step V s t"
proof -
  have live: "fl_state f \<in> set live_flow_states \<Longrightarrow> \<not> shut f" for f by (auto simp: live_flow_states_def shut_def)
  have l: "flows_step V s (consume_live_flows b now s)" for b
    by (rule flows_step_update [where P = "\<lambda>f. fl_authority f = b \<and> fl_state f \<in> set live_flow_states" and g = "close_flow F_consumed now"])
      (auto simp: consume_live_flows_def close_flow_def live)
  have i: "flows_step V s1 (otp_bump s2)" if "insert_flow f s1 = Some s2" "fl_id f = otp_next s1" "fl_state f = F_pending" for f s1 s2
  proof -
    have "fl_token_hash f \<notin> fl_token_hash ` set (flows s1)" "s2 = s1\<lparr>flows := flows s1 @ [f]\<rparr>"
      using that(1) by (auto simp: insert_flow_def split: if_splits)
    moreover have "fl_id f \<notin> fl_id ` set (flows s1)" if "flow_rows_ok s1"
      using that \<open>fl_id f = otp_next s1\<close> by (auto simp: flow_rows_ok_def)
    ultimately show ?thesis using that(2,3)
      by (auto simp: flows_step_def flow_rows_ok_def verified_tokens_def otp_bump_def less_Suc_eq)
  qed
  show ?thesis
    using assms by (auto simp: create_flow_def Let_def opened_flow_def split: option.splits if_splits
        intro!: flows_step_trans [OF l i])
qed

lemma update_where_same: "update_where P id xs = xs"
  by (induction xs) (simp_all add: update_where_def)

lemma retire_flows:
  assumes "retire_signup k f s = Inr t"
  shows "otp_next s \<le> otp_next t \<and> (\<exists>m. (\<forall>h. fl_id (m h) = fl_id h \<and> fl_token_hash (m h) = fl_token_hash h)
    \<and> flows t = update_where (\<lambda>r. fl_id r = fl_id f) m (flows s))"
proof -
  have "(flows t = flows s \<or> (\<exists>fp v. flows t = flows (upd_flow (fl_id f) (\<lambda>f. f\<lparr>fl_meta := Meta_cancelled fp v\<rparr>) s)))
      \<and> otp_next s \<le> otp_next t"
    using assms by (auto simp: retire_signup_def quiet_def split: option.splits if_splits dest!: quiet_terminalize) blast+
  then consider "flows t = flows s" "otp_next s \<le> otp_next t"
    | fp v where "flows t = flows (upd_flow (fl_id f) (\<lambda>f. f\<lparr>fl_meta := Meta_cancelled fp v\<rparr>) s)" "otp_next s \<le> otp_next t"
    by blast
  then show ?thesis
  proof cases
    case 1
    then show ?thesis by (intro conjI exI [of _ id]) (simp_all add: update_where_same)
  next
    case 2
    then show ?thesis
      by (intro conjI exI [of _ "\<lambda>f. f\<lparr>fl_meta := Meta_cancelled fp v\<rparr>"]) (simp_all add: upd_flow_def)
  qed
qed

lemma step_cancel: "flows_step V s (snd (cancel_onboarding_flow k raw now s))"
proof (cases "\<exists>a f. resolve_flow k s raw = Inr (Some (a, f)) \<and> cancellable f now")
  case False
  then show ?thesis by (auto simp: cancel_onboarding_flow_def split: sum.split option.split)
next
  case True
  then obtain a f where r: "resolve_flow k s raw = Inr (Some (a, f))" and cf: "cancellable f now" by blast
  have f: "f \<in> set (flows s)" "\<not> shut f"
    using flow_of_tokenD [OF resolve_flowD [OF r]] cf by (auto simp: cancellable_def shut_def)
  let ?s1 = "fence_expired_flow_deliveries (oa_id a) now ''otp_flow_cancelled'' s"
  have q: "flows ?s1 = flows s" "otp_next s \<le> otp_next ?s1" using quiet_fence [of s] by (simp_all add: quiet_def)
  have one: "flows_step V s (upd_flow (fl_id f) (close_flow F_consumed now) s2)"
    if m: "\<And>h. fl_id (m h) = fl_id h" "\<And>h. fl_token_hash (m h) = fl_token_hash h"
      and s2: "flows s2 = update_where (\<lambda>r. fl_id r = fl_id f) m (flows s)" "otp_next s \<le> otp_next s2" for m s2
    by (rule flows_step_one [OF f, where g = "close_flow F_consumed now \<circ> m"])
      (use m s2 in \<open>simp_all add: upd_flow_def update_where_def close_flow_def comp_def\<close>)
  have i: "flows s = update_where (\<lambda>r. fl_id r = fl_id f) id (flows s)" by (simp add: update_where_same)
  have plain: "flows_step V s (upd_flow (fl_id f) (close_flow F_consumed now) ?s1)"
    by (rule one [where m = id]) (use q i in simp_all)
  have retired: "flows_step V s (upd_flow (fl_id f) (close_flow F_consumed now) s2)" if "retire_signup k f ?s1 = Inr s2" for s2
    using retire_flows [OF that] q by (auto intro: one)
  show ?thesis using r cf plain retired
    by (auto simp: cancel_onboarding_flow_def Let_def split: sum.split)
qed

lemma quiet_start_issue: "start_issue c k code salt reg a now s = Inr (x, u) \<Longrightarrow> quiet s u"
  by (erule start_issue_cases) (auto simp: quiet_def dest!: quiet_issue_body)

lemma step_start: "flows_step V s (snd (start_flow c k code salt rnd mobile now s))"
proof (cases "\<exists>x u. start_flow c k code salt rnd mobile now s = (Inr x, u)")
  case False
  then show ?thesis by (simp add: start_refused)
next
  case True
  then obtain x u where u: "start_flow c k code salt rnd mobile now s = (Inr x, u)" by blast
  then have "flows_step V s u"
  proof (rule start_flow_cases)
    fix sub a t v iss a' ch w
    assume t: "lock_or_create_authority c sub Recovery (map_option rg_id (recovery_registration k mobile s)) now s = Inr (a, t)"
      and v: "v = t \<or> start_issue c k code salt (recovery_registration k mobile s) a now t = Inr (iss, v)"
      and w: "create_flow c k a' now mobile ch (map_option rg_id (recovery_registration k mobile s)) None None rnd v = Inr (w, u)"
    have "quiet s v" using v quiet_lock_or_create [OF t] quiet_start_issue quiet_trans by blast
    then show "flows_step V s u" by (rule flows_step_trans [OF flows_step_quiet step_create_flow [OF w]])
  qed
  with u show ?thesis by simp
qed

lemma step_complete: "flows_step V s (snd (recovery_complete_flow k raw now s))"
proof -
  have "flows_step V s (upd_flow (fl_id f) (close_flow F_consumed now) s)"
    if "resolve_flow k s raw = Inr (Some (a, f))" "fl_state f = F_verified" for a f
    by (rule flows_step_one [of f, where g = "close_flow F_consumed now"])
      (use flow_of_tokenD [OF resolve_flowD [OF that(1)]] that(2) in \<open>auto simp: shut_def close_flow_def upd_flow_def\<close>)
  then show ?thesis
    by (auto simp: recovery_complete_flow_def consume_recovery_proof_def split: sum.split option.split otp_exn.split if_split)
qed

text \<open>The tokens a call proves: the one of a recovery verified with a right code.\<close>

fun proves :: "otp_settings \<Rightarrow> crypto \<Rightarrow> otp_call \<Rightarrow> otp_db \<Rightarrow> string set" where
  "proves c k (Call_recover raw code now) s =
     (if isl (fst (recovery_verify_flow c k raw code now s)) then {} else flow_token_hash k ` set_option raw)"
| "proves c k _ s = {}"

lemma recover_right:
  assumes "\<not> isl (fst (recovery_verify_flow c k raw code now s))"
  obtains a f g i y t where "resolve_flow k s raw = Inr (Some (a, f))" "usable_flow Recovery now f" "fl_registration f = Some g"
    "fl_challenge f = Some i" "verify c k g code now Recovery (Some i) s = (Inr y, t)"
    "snd (recovery_verify_flow c k raw code now s) = upd_flow (fl_id f) (snd \<circ> mark_recovery_verified c now) t"
proof -
  obtain a f where r: "resolve_flow k s raw = Inr (Some (a, f))" "usable_flow Recovery now f"
    using assms by (auto simp: recovery_verify_flow_def split: sum.splits option.splits if_splits)
  obtain g i where gi: "fl_registration f = Some g" "fl_challenge f = Some i"
    using assms r by (auto simp: recovery_verify_flow_def split: option.splits)
  obtain z t where v: "verify c k g code now Recovery (Some i) s = (z, t)" by fastforce
  with assms r gi obtain y where "z = Inr y" by (cases z) (auto simp: recovery_verify_flow_def split: otp_exn.splits)
  with that [OF r gi, of y t] v r gi show thesis by (simp add: recovery_verify_flow_def)
qed

lemma step_recover: "flows_step (proves c k (Call_recover raw code now) s) s (snd (recovery_verify_flow c k raw code now s))"
proof (cases "isl (fst (recovery_verify_flow c k raw code now s))")
  case True
  have v: "quiet s t" if "verify c k g code now Recovery i s = (r, t)" for g i r t
    using quiet_verify [of s c k g code now Recovery i] that by simp
  from True have "quiet s (snd (recovery_verify_flow c k raw code now s))"
    by (auto simp: recovery_verify_flow_def quiet_charge split: sum.splits option.splits prod.splits otp_exn.splits if_splits
        intro: quiet_trans [OF v quiet_charge] v)
  then show ?thesis by (rule flows_step_quiet)
next
  case False
  then show ?thesis
  proof (rule recover_right)
    fix a f g i y t
    assume r: "resolve_flow k s raw = Inr (Some (a, f))" "usable_flow Recovery now f"
      and v: "verify c k g code now Recovery (Some i) s = (Inr y, t)"
      and u: "snd (recovery_verify_flow c k raw code now s) = upd_flow (fl_id f) (snd \<circ> mark_recovery_verified c now) t"
    have q: "quiet s t" using quiet_verify [of s c k g code now Recovery "Some i"] v by simp
    note fk = flow_of_tokenD [OF resolve_flowD [OF r(1)]]
    show ?thesis unfolding u
      by (rule flows_step_one [of f, where g = "snd \<circ> mark_recovery_verified c now"])
        (use fk r(2) q False in \<open>auto simp: usable_flow_def delivery_not_shut mark_recovery_verified_def upd_flow_def quiet_def\<close>)
  qed
qed

lemma step_apply: "flows_step (proves c k x s) s (otp_apply c k x s)"
proof (cases x)
  case (Call_recover raw code now)
  then show ?thesis using step_recover [of c k raw code now s] by simp
next
  case (Call_open a now dest ch g rc raw rnd)
  then show ?thesis by (auto split: option.split sum.split intro: step_create_flow)
qed (simp_all add: flows_step_quiet quiet_issue quiet_verify quiet_resend step_claim step_success step_failure step_cancel
    step_start step_complete)

lemma rows_ok_apply: "flow_rows_ok s \<Longrightarrow> flow_rows_ok (otp_apply c k x s)"
  using step_apply [of c k x s] by (simp add: flows_step_def)

lemma rows_ok_run: "flow_rows_ok s \<Longrightarrow> flow_rows_ok (otp_run c k xs s)"
  unfolding otp_run_def by (induction xs arbitrary: s) (simp_all add: rows_ok_apply)

lemma shut_run: "flow_rows_ok s \<Longrightarrow> f \<in> set (flows s) \<Longrightarrow> shut f \<Longrightarrow> f \<in> set (flows (otp_run c k xs s))"
  unfolding otp_run_def
proof (induction xs arbitrary: s)
  case (Cons x xs)
  have "f \<in> set (flows (otp_apply c k x s))" using step_apply [of c k x s] Cons.prems by (simp add: flows_step_def)
  with Cons rows_ok_apply show ?case by simp
qed simp

lemma verified_in_run:
  "flow_rows_ok s \<Longrightarrow> h \<notin> verified_tokens s \<Longrightarrow> h \<in> verified_tokens (otp_run c k xs s)
    \<Longrightarrow> \<exists>ys x zs. xs = ys @ x # zs \<and> h \<in> proves c k x (otp_run c k ys s)"
proof (induction xs arbitrary: s)
  case Nil
  then show ?case by (simp add: otp_run_def)
next
  case (Cons x xs)
  show ?case
  proof (cases "h \<in> verified_tokens (otp_apply c k x s)")
    case True
    with step_apply [of c k x s] Cons.prems(1,2) have "h \<in> proves c k x s" by (auto simp: flows_step_def)
    then show ?thesis by (intro exI [of _ "[]"] exI [of _ x] exI [of _ xs]) (simp add: otp_run_def)
  next
    case False
    with Cons.IH [OF rows_ok_apply [OF Cons.prems(1)] False] Cons.prems(3)
    obtain ys y zs where "xs = ys @ y # zs" "h \<in> proves c k y (otp_run c k ys (otp_apply c k x s))"
      by (auto simp: otp_run_def)
    then show ?thesis by (intro exI [of _ "x # ys"] exI [of _ y] exI [of _ zs]) (simp add: otp_run_def)
  qed
qed

section \<open>Recovery\<close>

lemma complete_success:
  assumes "recovery_complete_flow k raw now s = (Inr (), t)"
  obtains a f where "resolve_flow k s raw = Inr (Some (a, f))" "fl_state f = F_verified" "now < fl_expires f"
    "t = upd_flow (fl_id f) (close_flow F_consumed now) s"
proof -
  obtain a f where r: "resolve_flow k s raw = Inr (Some (a, f))"
    using assms by (auto simp: recovery_complete_flow_def split: sum.splits option.splits)
  obtain g where g: "fl_registration f = Some g" using assms r by (auto simp: recovery_complete_flow_def split: option.splits)
  have "fl_state f = F_verified \<and> now < fl_expires f \<and> t = upd_flow (fl_id f) (close_flow F_consumed now) s"
    using assms r g by (auto simp: recovery_complete_flow_def consume_recovery_proof_def split: if_splits)
  with that [OF r] show thesis by blast
qed


text \<open>Property C10.
  A recovery proof is spent once: after a completed recovery its token completes no other recovery and
  verifies no other code, whatever is called in between.\<close>

theorem recovery_proof_once:
  assumes "flow_rows_ok s" and "recovery_complete_flow k (Some x) now s = (Inr (), t)"
  shows "isl (fst (recovery_complete_flow k (Some x) later (otp_run c k xs t)))
    \<and> isl (fst (recovery_verify_flow c k (Some x) code later (otp_run c k xs t)))"
proof (rule complete_success [OF assms(2)])
  fix a f assume r: "resolve_flow k s (Some x) = Inr (Some (a, f))" and v: "fl_state f = F_verified"
    and t: "t = upd_flow (fl_id f) (close_flow F_consumed now) s"
  let ?f = "close_flow F_consumed now f"
  let ?u = "otp_run c k xs t"
  note f = flow_of_tokenD [OF resolve_flowD [OF r]]
  have tok: "flow_rows_ok t" using step_complete [of "{}" s k "Some x" now] assms by (simp add: flows_step_def)
  have "?f \<in> set (flows t)" using f by (auto simp: t upd_flow_def set_update_where)
  moreover have "shut ?f" by (simp add: shut_def close_flow_def)
  ultimately have fu: "?f \<in> set (flows ?u)" using shut_run [OF tok] by blast
  have same: "h = ?f" if "flow_of_token k ?u (Some x) = Some h" for h
    using flow_of_tokenD [OF that] f fu rows_ok_run [OF tok, of c k xs]
    by (auto simp: flow_rows_ok_def distinct_map inj_on_def close_flow_def)
  have st: "fl_state ?f = F_consumed" by (simp add: close_flow_def)
  have "isl (fst (recovery_complete_flow k (Some x) later ?u))"
  proof (rule ccontr)
    assume "\<not> ?thesis"
    then obtain w where "recovery_complete_flow k (Some x) later ?u = (Inr (), w)"
      by (cases "recovery_complete_flow k (Some x) later ?u"; cases "fst (recovery_complete_flow k (Some x) later ?u)") auto
    then show False using same resolve_flowD st by (auto elim!: complete_success)
  qed
  moreover have "isl (fst (recovery_verify_flow c k (Some x) code later ?u))"
  proof (rule ccontr)
    assume "\<not> ?thesis"
    then show False using same resolve_flowD st
      by (auto elim!: recover_right simp: usable_flow_def delivery_flow_states_def)
  qed
  ultimately show ?thesis ..
qed

text \<open>The small database, its code verified and its recovery completed.\<close>

lemma sample_rows: "flow_rows_ok sample_sent" "flow_token_hash sample_keys ''cookie'' \<notin> verified_tokens sample_sent"
  by (auto simp: flow_rows_ok_def verified_tokens_def sample_sent_def sample_otp_def sample_flow_def)

definition proven_flow :: flow where
  "proven_flow = snd (mark_recovery_verified default_otp_settings (seconds 20) sample_flow)"

lemma sample_recovered:
  fixes t
  defines "t \<equiv> otp_run default_otp_settings sample_keys [Call_recover (Some ''cookie'') ''123456'' (seconds 20)] sample_sent"
  shows "registrations t = [sample_registration]" "ledgers t = []" "authorities t = [clear_attempts sample_authority]"
    "challenges t = [consume_challenge sample_authority (seconds 20)
      (sample_challenge (otp_verifier sample_keys ''123456'' ''salt'') D_active)]"
    "flows t = [proven_flow]"
proof -
  let ?v = "otp_verifier sample_keys ''123456'' ''salt''"
  let ?ch = "sample_challenge ?v D_active"
  have a: "active_challenge 2 (Some 3) sample_sent = Some ?ch" "oa_id sample_authority = 2"
    by (simp_all add: active_challenge_def sample_sent_def sample_defs)
  have ch: "ch_salt ?ch = ''salt''" "ch_verifier ?ch = ?v" "\<not> ch_expires ?ch \<le> seconds 20" "ch_id ?ch = 3"
    by (simp_all add: sample_challenge_def seconds_def)
  have e: "enter default_otp_settings 7 Recovery (seconds 20) sample_sent = Inr ((sample_registration, None, sample_authority), sample_sent)"
    unfolding sample_sent_def by (rule sample_enter)
  have v: "verify default_otp_settings sample_keys 7 ''123456'' (seconds 20) Recovery (Some 3) sample_sent
     = (Inr (consume_challenge sample_authority (seconds 20) ?ch),
        void_relayable_payloads 3 (upd_authority 2 clear_attempts (upd_challenge 3 (consume_challenge sample_authority (seconds 20)) sample_sent)))"
    by (simp add: verify_def e sample_unlocked a ch verify_registration_def)
  have r: "resolve_flow sample_keys sample_sent (Some ''cookie'') = Inr (Some (sample_authority, sample_flow))"
    unfolding sample_sent_def by (rule sample_resolve)
  have f: "usable_flow Recovery (seconds 20) sample_flow" "fl_registration sample_flow = Some 7" "fl_challenge sample_flow = Some 3"
      "fl_id sample_flow = 5"
    by (simp_all add: usable_flow_def delivery_flow_states_def sample_flow_def seconds_def)
  have t: "t = upd_flow 5 (snd \<circ> mark_recovery_verified default_otp_settings (seconds 20))
      (void_relayable_payloads 3 (upd_authority 2 clear_attempts (upd_challenge 3 (consume_challenge sample_authority (seconds 20)) sample_sent)))"
    by (simp add: t_def otp_run_def recovery_verify_flow_def r f v)
  show "registrations t = [sample_registration]" "ledgers t = []" "authorities t = [clear_attempts sample_authority]"
    "challenges t = [consume_challenge sample_authority (seconds 20) ?ch]" "flows t = [proven_flow]"
    unfolding t using a(2) ch(4) f(4)
    by (simp_all add: upd_defs void_relayable_payloads_def sample_sent_def sample_otp_def update_where_def proven_flow_def)
qed

lemma sample_completed:
  "\<exists>t. recovery_complete_flow sample_keys (Some ''cookie'') (seconds 30)
     (otp_run default_otp_settings sample_keys [Call_recover (Some ''cookie'') ''123456'' (seconds 20)] sample_sent) = (Inr (), t)"
proof -
  let ?t = "otp_run default_otp_settings sample_keys [Call_recover (Some ''cookie'') ''123456'' (seconds 20)] sample_sent"
  note rows = sample_recovered
  have p: "fl_token_hash proven_flow = flow_token_hash sample_keys ''cookie''" "fl_registration proven_flow = Some 7"
      "fl_record proven_flow = None" "fl_authority proven_flow = 2" "fl_subject proven_flow = sample_subject"
      "fl_purpose proven_flow = Recovery" "fl_challenge proven_flow = Some 3" "fl_state proven_flow = F_verified"
      "\<not> fl_expires proven_flow \<le> seconds 30"
    by (simp_all add: proven_flow_def mark_recovery_verified_def sample_flow_def default_otp_settings_def seconds_def)
  have r: "resolve_flow sample_keys ?t (Some ''cookie'') = Inr (Some (clear_attempts sample_authority, proven_flow))"
    using p by (simp add: resolve_flow_def locked_flow_graph_def flow_of_token_def rows terminal_erasure_won_def record_disagrees_def
        registration_ineligible_def Let_def)
      (simp add: clear_attempts_def consume_challenge_def sample_defs)
  show ?thesis
    using p r by (simp add: recovery_complete_flow_def consume_recovery_proof_def clear_attempts_def sample_authority_def)
qed


theorem recovery_proof_once_witness:
  "\<exists>t. recovery_complete_flow sample_keys (Some ''cookie'') (seconds 30)
      (otp_run default_otp_settings sample_keys [Call_recover (Some ''cookie'') ''123456'' (seconds 20)] sample_sent) = (Inr (), t)
   \<and> isl (fst (recovery_complete_flow sample_keys (Some ''cookie'') (seconds 40)
        (otp_run default_otp_settings sample_keys [Call_claim ''w'' (seconds 35) 4] t)))"
proof -
  let ?s = "otp_run default_otp_settings sample_keys [Call_recover (Some ''cookie'') ''123456'' (seconds 20)] sample_sent"
  obtain t where t: "recovery_complete_flow sample_keys (Some ''cookie'') (seconds 30) ?s = (Inr (), t)"
    using sample_completed by blast
  note once = recovery_proof_once [OF rows_ok_run [OF sample_rows(1)] t]
  show ?thesis by (intro exI [of _ t] conjI t conjunct1 [OF once])
qed

end
