(* ===== verification/Spec2Isabelle.thy ===== *)
theory Spec2Isabelle
  imports Seats JoinCredentials OtpClosed
begin

text \<open>
  Verification of two parts of NyayOne, both Python under \<open>src/backend/app\<close>: the tutoring marketplace
  (\<open>services/tutoring\<close> over the tables of \<open>models/wave2.py\<close>) and the one-time passwords behind signup, login
  and recovery (\<open>services/otp_*.py\<close>, \<open>services/recovery_service.py\<close> over the tables of \<open>models/registration.py\<close>).

  \<^bold>\<open>The program.\<close> A tutor publishes slots. A student places a hold on a slot (\<open>booking.py\<close>), which freezes
  the price (\<open>pricing.py\<close>), opens a payment order (\<open>payments.py\<close>) and pays the provider; the provider's
  signed callback turns hold and order into a session (\<open>payments.handle_event\<close>,
  \<open>sessions.create_from_paid_hold\<close>), schedules reminders (\<open>reminders.py\<close>) and queues notices in an outbox
  (\<open>outbox_relay.py\<close>). The session may be moved or cancelled (\<open>sessions.py\<close>) with a refund by policy
  (\<open>payments.py\<close>), is joined with a short-lived credential (\<open>join_credentials.py\<close>), recorded and disputed
  (\<open>attendance.py\<close>) and reviewed under moderation (\<open>reviews.py\<close>).

  A one-time password is issued to an authority, one row per account and purpose (\<open>otp_authority.py\<close>), as a
  candidate challenge with a queued delivery (\<open>otp_service.py\<close>). A worker claims the delivery, calls the
  provider and settles the outcome; acceptance makes the candidate the one verifier (\<open>otp_outbox.py\<close>). The
  browser holds a flow, a capability behind a cookie (\<open>otp_flow_service.py\<close>); a verified recovery flow is the
  proof that completes a reset (\<open>recovery_service.py\<close>). An account that does not exist gets a decoy authority.

  \<^bold>\<open>How it is modelled.\<close> The database is one record \<open>db\<close> (\<open>Schema\<close>) with a list per table; a row is a record
  with the columns the services read or write, the CHECK and UNIQUE constraints are executable
  predicates, and inserting a row that violates them fails. A service function
  \<open>f(session, args)\<close> is a definition \<open>f args s\<close> of type \<open>(exn + 'a) \<times> db\<close>: a typed refusal of
  \<open>errors.py\<close>, an \<open>IntegrityError\<close> or a result, and the state the transaction has reached. The state is
  returned on failure too, since a service may have flushed writes before it raises. The argument \<open>t0\<close> is the state a
  \<open>session.rollback()\<close> inside a service goes back to. The request around a service
  (\<open>api/v1/tutoring.py\<close>) commits on success and rolls back on a refusal, so a step of a history
  (\<open>market_step\<close>) is a successful operation. \<open>now\<close> is one clock in microseconds, hours before a session are in
  hundredths as in the column, identifiers are drawn from a counter, and conditional updates
  (\<open>UPDATE ... WHERE\<close>) count the rows they hit. Payment and video providers are arguments: records of
  functions, with \<open>video_gateway\<close> stating what the services rely on. The OTP services have a record of their own,
  \<open>otp_db\<close>; they commit some refusals (a counted attempt, an expired challenge), so a definition returns the
  state that is kept in each case, and a history (\<open>otp_run\<close>) is any sequence of calls, a delivery being its
  two transactions. Generated codes, salts and tokens, the sender and Fernet encryption are arguments.

  \<^bold>\<open>Theories, in the order of their imports.\<close>
    \<^item> \<open>Prelude\<close>: results and the error monad, tables as lists (\<open>find_row\<close>, \<open>update_where\<close>, \<open>count_where\<close>),
      Python strings, \<open>named_theorems\<close>. \<open>PyNumbers\<close>: rounding and double-precision division as Python does it.
    \<^item> \<open>Errors\<close>: \<open>errors.py\<close>, every code with status and retryable flag. \<open>Schema\<close>: \<open>models/wave2.py\<close>, the audit
      append of \<open>audit_service.py\<close>, the settings of \<open>core/config.py\<close>.
    \<^item> \<open>Outbox\<close>: \<open>outbox_relay.py\<close>. Payload screening, enqueue, claim by compare-and-set, delivery and relay
      passes over any dispatcher; exactly one delivery per intent, and the queue drains after as many
      passes as \<open>relay_passes\<close> allows.
    \<^item> \<open>Pricing\<close>, \<open>Booking\<close>, \<open>Reminders\<close>, \<open>Payments\<close>, \<open>Sessions\<close>, \<open>Attendance\<close>, \<open>Reviews\<close>: the service of the same
      name, its operations, its invariant, and what every operation does on every branch.
      \<open>SessionProperties\<close> holds the theorems about \<open>Sessions\<close> and their examples; \<open>Webhook\<close> is
      \<open>payments.handle_event\<close>, which composes payments, sessions, booking and outbox.
    \<^item> \<open>Market\<close>: the whole service as a step relation, the invariant all tables satisfy together, that every
      operation keeps it and takes back nothing that is settled; the locale \<open>status_graph\<close>, interpreted on the
      session and attendance graphs, turns the local transition checks into facts about histories.
    \<^item> \<open>Seats\<close>: the abstract calendar (free, reserved, sold, withdrawn) and the refinement: each step of
      \<open>Market\<close> is a step of the calendar.
    \<^item> \<open>Sha256\<close>, \<open>VideoProvider\<close>, \<open>JoinCredentials\<close>: SHA-256 and HMAC of the standard library, \<open>video_provider.py\<close>
      up to the wire formats, \<open>join_credentials.py\<close>.
    \<^item> \<open>OtpSchema\<close>: settings with their start-up check, rows, constraints and keyed hashes. \<open>OtpAuthority\<close>: authorities,
      lockout and rate budgets; the locales \<open>window_counter\<close> and \<open>locking_counter\<close> state what a fixed window and a
      lockout promise, and bound what they admit. \<open>OtpOutbox\<close>, \<open>OtpService\<close>, \<open>OtpFlow\<close>, \<open>OtpRecovery\<close>: the service of
      that name.
    \<^item> \<open>OtpLifecycle\<close>: the abstract life of a challenge and the refinement of every operation, \<open>refines\<close>.
      \<open>OtpGuess\<close>: the attempts of an authority interpret \<open>locking_counter\<close>, operation by operation. \<open>OtpProperties\<close>:
      what follows for histories, and a small database to apply it to. \<open>OtpClosed\<close>: the moves of a flow, and that
      recovery needs the code and spends its proof once.

  \<^bold>\<open>Bounds.\<close> Amounts and counters are unbounded as in Python; \<open>round_half_even\<close> and \<open>ulp_exp\<close> model a double up to
  \<open>2 ^ 80\<close> seconds, far beyond any timestamp, and the average rating is exact below \<open>10 ^ 20\<close> reviews.
  SHA-256 works on \<open>32 word\<close>.

  \<^bold>\<open>Not modelled.\<close> Isolation inside the database is taken as serialisable: operations interleave as whole
  transactions, races are visible through stale versions, stale holds and concurrent keys, not through
  half-done statements. Foreign keys, JSON of audit and event payloads (the outbox payloads apart), logging,
  HTTP, JWT, the wire formats of the providers and time zone rendering (\<open>availability.py\<close>) are outside. Of the OTP services \<open>restart_cancelled_signup\<close>,
  \<open>purge_legacy_destinations\<close> and the recovery sessions of the older interface are left out; of registration only the two
  functions on the idempotency ledger are modelled. Login, profile, calendar, moderation and mentor services and the
  gate scripts are listed in the manifest with the reason.
\<close>

end
